(* ===== verification/Prelude.thy ===== *)
theory Prelude
  imports Main "HOL-Library.Word" "HOL-Library.List_Lexorder"
begin

text \<open>
  Shared vocabulary of the development.

  \<^item> Machine integers are words of their width; \<open>usize\<close> is \<open>nat\<close>; a byte vector
    (\<open>Vec<u8>\<close>, \<open>&[u8]\<close>, \<open>[u8; N]\<close>) is a list of 8-bit words.
  \<^item> A fallible function returns \<open>'a res\<close>: \<open>Inl (Err m)\<close> is the \<open>anyhow\<close> error whose
    message starts with \<open>m\<close>, \<open>Inl (Panic m)\<close> a panic of the process, \<open>Inr x\<close> the value.
  \<^item> \<open>and_then\<close> is Rust's \<open>?\<close>; \<open>try_map\<close> is a \<open>for\<close> loop with \<open>?\<close> that pushes
    its results, or \<open>collect::<Result<Vec<_>>>()\<close>; \<open>try_fold\<close> threads a state through
    a loop that may stop at the first error.
\<close>

type_synonym u8 = "8 word"
type_synonym u16 = "16 word"
type_synonym u32 = "32 word"
type_synonym u64 = "64 word"
type_synonym bytes = "u8 list"

datatype fault = Err string | Panic string

type_synonym 'a res = "fault + 'a"

named_theorems codec_simps "rewrite rules of the byte codecs"
named_theorems store_simps "rewrite rules of the key/value stores"

section \<open>Results\<close>

fun and_then :: "'a res \<Rightarrow> ('a \<Rightarrow> 'b res) \<Rightarrow> 'b res" where
  "and_then (Inl e) f = Inl e"
| "and_then (Inr x) f = f x"

fun is_ok :: "'a res \<Rightarrow> bool" where
  "is_ok (Inl e) = False"
| "is_ok (Inr x) = True"

definition bail_if :: "bool \<Rightarrow> string \<Rightarrow> unit res" where
  "bail_if b m = (if b then Inl (Err m) else Inr ())"

definition ok_or :: "'a option \<Rightarrow> fault \<Rightarrow> 'a res" where
  "ok_or x e = (case x of None \<Rightarrow> Inl e | Some y \<Rightarrow> Inr y)"

fun try_map :: "('a \<Rightarrow> 'b res) \<Rightarrow> 'a list \<Rightarrow> 'b list res" where
  "try_map f [] = Inr []"
| "try_map f (x # xs) =
     and_then (f x) (\<lambda>y. and_then (try_map f xs) (\<lambda>ys. Inr (y # ys)))"

fun try_fold :: "('s \<Rightarrow> 'a \<Rightarrow> 's res) \<Rightarrow> 's \<Rightarrow> 'a list \<Rightarrow> 's res" where
  "try_fold f s [] = Inr s"
| "try_fold f s (x # xs) = and_then (f s x) (\<lambda>s'. try_fold f s' xs)"

lemma and_then_eq_Inr [simp]:
  "and_then r f = Inr y \<longleftrightarrow> (\<exists>x. r = Inr x \<and> f x = Inr y)"
  by (cases r) auto

lemma and_then_eq_Inl:
  "and_then r f = Inl e \<longleftrightarrow> r = Inl e \<or> (\<exists>x. r = Inr x \<and> f x = Inl e)"
  by (cases r) auto

lemma and_then_assoc: "and_then (and_then r f) g = and_then r (\<lambda>x. and_then (f x) g)"
  by (cases r) auto

lemma and_then_Inr_right [simp]: "and_then r Inr = r"
  by (cases r) auto

lemma is_ok_iff: "is_ok r \<longleftrightarrow> (\<exists>x. r = Inr x)"
  by (cases r) auto

lemma bail_if_eq_Inr [simp]: "bail_if b m = Inr u \<longleftrightarrow> \<not> b"
  by (simp add: bail_if_def)

lemma bail_if_eq_Inl [simp]: "bail_if b m = Inl e \<longleftrightarrow> b \<and> e = Err m"
  by (auto simp: bail_if_def)

lemma bail_if_simps [simp]:
  "bail_if True m = Inl (Err m)"
  "bail_if False m = Inr ()"
  by (simp_all add: bail_if_def)

lemma ok_or_simps [simp]:
  "ok_or None e = Inl e"
  "ok_or (Some x) e = Inr x"
  by (simp_all add: ok_or_def)

lemma ok_or_eq_Inr [simp]: "ok_or x e = Inr y \<longleftrightarrow> x = Some y"
  by (cases x) auto

lemma try_map_eq_Inr:
  "try_map f xs = Inr ys \<longleftrightarrow> list_all2 (\<lambda>x y. f x = Inr y) xs ys"
proof (induction xs arbitrary: ys)
  case Nil
  then show ?case by auto
next
  case (Cons x xs)
  then show ?case by (auto simp: list_all2_Cons1)
qed

lemma try_map_Inr: "(\<And>x. x \<in> set xs \<Longrightarrow> f x = Inr (g x)) \<Longrightarrow> try_map f xs = Inr (map g xs)"
  by (induction xs) auto

lemma try_map_total [simp]: "try_map (\<lambda>x. Inr (g x)) xs = Inr (map g xs)"
  by (rule try_map_Inr) simp

lemma try_map_length: "try_map f xs = Inr ys \<Longrightarrow> length ys = length xs"
  by (simp add: try_map_eq_Inr list_all2_lengthD)

lemma try_map_nth:
  "try_map f xs = Inr ys \<Longrightarrow> i < length xs \<Longrightarrow> f (xs ! i) = Inr (ys ! i)"
  by (simp add: try_map_eq_Inr list_all2_conv_all_nth)

lemma try_map_cong [fundef_cong]:
  "xs = ys \<Longrightarrow> (\<And>x. x \<in> set ys \<Longrightarrow> f x = g x) \<Longrightarrow> try_map f xs = try_map g ys"
  by (induction xs arbitrary: ys) auto

lemma try_fold_invariant:
  assumes "\<And>s x s'. x \<in> set xs \<Longrightarrow> P s \<Longrightarrow> f s x = Inr s' \<Longrightarrow> P s'"
    and "P s" and "try_fold f s xs = Inr t"
  shows "P t"
  using assms
proof (induction xs arbitrary: s)
  case Nil
  then show ?case by simp
next
  case (Cons x xs)
  from Cons.prems(3) obtain s' where "f s x = Inr s'" and rest: "try_fold f s' xs = Inr t"
    by auto
  moreover from calculation Cons.prems(1,2) have "P s'" by (meson list.set_intros(1))
  ultimately show ?case using Cons.IH Cons.prems(1) by (meson list.set_intros(2))
qed

section \<open>Slices\<close>

text \<open>
  \<open>xs[a..b]\<close> panics when \<open>b\<close> is past the end or below \<open>a\<close>; \<open>xs[i]\<close> panics past the end.
  \<open>dst[a..b].copy_from_slice(src)\<close> panics as well when the lengths differ.
\<close>

definition slice :: "'a list \<Rightarrow> nat \<Rightarrow> nat \<Rightarrow> 'a list res" where
  "slice xs a b = (if a \<le> b \<and> b \<le> length xs then Inr (take (b - a) (drop a xs))
                   else Inl (Panic ''slice index out of range''))"

definition index :: "'a list \<Rightarrow> nat \<Rightarrow> 'a res" where
  "index xs i = (if i < length xs then Inr (xs ! i)
                 else Inl (Panic ''index out of bounds''))"

definition copy_slice :: "'a list \<Rightarrow> nat \<Rightarrow> nat \<Rightarrow> 'a list \<Rightarrow> 'a list res" where
  "copy_slice dst a b src =
     (if \<not> (a \<le> b \<and> b \<le> length dst) then Inl (Panic ''slice index out of range'')
      else if length src \<noteq> b - a then Inl (Panic ''copy_from_slice: length mismatch'')
      else Inr (take a dst @ src @ drop b dst))"

definition set_at :: "'a list \<Rightarrow> nat \<Rightarrow> 'a \<Rightarrow> 'a list res" where
  "set_at xs i x = (if i < length xs then Inr (xs[i := x])
                    else Inl (Panic ''index out of bounds''))"

lemma slice_ok: "a \<le> b \<Longrightarrow> b \<le> length xs \<Longrightarrow> slice xs a b = Inr (take (b - a) (drop a xs))"
  by (simp add: slice_def)

lemma length_slice: "slice xs a b = Inr ys \<Longrightarrow> length ys = b - a"
  by (auto simp: slice_def split: if_splits)

lemma index_ok: "i < length xs \<Longrightarrow> index xs i = Inr (xs ! i)"
  by (simp add: index_def)

lemma length_copy_slice: "copy_slice dst a b src = Inr ys \<Longrightarrow> length ys = length dst"
  by (auto simp: copy_slice_def split: if_splits)

lemma and_then_elim: "and_then r f = Inr y \<Longrightarrow> (\<And>x. r = Inr x \<Longrightarrow> f x = Inr y \<Longrightarrow> P) \<Longrightarrow> P"
  by (cases r) auto

section \<open>Lists\<close>

lemma take_drop_append_middle:
  "length xs = a \<Longrightarrow> length ys = n \<Longrightarrow> take n (drop a (xs @ ys @ zs)) = ys"
  by simp

lemma list_of_length_split:
  "length xs = m + n \<Longrightarrow> xs = take m xs @ take n (drop m xs)"
  by simp

lemma list_of_length_4:
  assumes "length xs = 4"
  obtains a b c d where "xs = [a, b, c, d]"
  using assms by (cases xs; cases "tl xs"; cases "tl (tl xs)"; cases "tl (tl (tl xs))") auto

lemma nth_append_middle: "length xs = a \<Longrightarrow> (xs @ y # zs) ! a = y"
  by (simp add: nth_append)

section \<open>Numbers in decimal\<close>

fun nat_str :: "nat \<Rightarrow> string" where
  "nat_str n = (if n < 10 then [char_of (48 + n)] else nat_str (n div 10) @ [char_of (48 + n mod 10)])"

declare nat_str.simps [simp del]

lemma nat_str_digit: "c \<in> set (nat_str n) \<Longrightarrow> 48 \<le> (of_char c :: nat) \<and> (of_char c :: nat) \<le> 57"
proof (induction n rule: nat_str.induct)
  case (1 n)
  have "of_char (char_of (48 + d)) = 48 + d" if "d < 10" for d :: nat
    using that by simp
  then have "(of_char (char_of (48 + n mod 10)) :: nat) = 48 + n mod 10" "n < 10 \<Longrightarrow> (of_char (char_of (48 + n)) :: nat) = 48 + n"
    by simp_all
  with 1 show ?case unfolding nat_str.simps[of n] by (auto simp del: of_nat_add split: if_splits)
qed

definition digits_value :: "string \<Rightarrow> nat" where
  "digits_value s = foldl (\<lambda>v c. v * 10 + (of_char c - 48)) 0 s"

lemma digits_value_nat_str: "digits_value (nat_str n) = n"
proof (induction n rule: nat_str.induct)
  case (1 n)
  then show ?case
    by (cases "n < 10") (simp_all add: nat_str.simps[of n] digits_value_def)
qed

lemma nat_str_inj: "nat_str m = nat_str n \<longleftrightarrow> m = n"
  by (metis digits_value_nat_str)

end
