(* ===== verification/BTreeMap.thy ===== *)
theory BTreeMap
  imports Prelude
begin

text \<open>
  \<open>std::collections::BTreeMap\<close>, the ordered map that the key/value stores of \<open>kvq\<close> and the
  pipeline's \<open>pending_finalization\<close> and \<open>inflight\<close> tables are made of: its entries in key
  order. \<open>range\<close> panics on a reversed range, as the standard library does, and
  \<open>next_back\<close> on a range is the entry with the greatest key. The locale \<open>finite_map\<close> is the
  contract every client of a map relies on; it is interpreted on the operations here.
\<close>

type_synonym ('k, 'v) btree = "('k \<times> 'v) list"

definition bt_get :: "('k, 'v) btree \<Rightarrow> 'k \<Rightarrow> 'v option" where
  "bt_get m k = map_of m k"

fun bt_insert :: "'k::linorder \<Rightarrow> 'v \<Rightarrow> ('k, 'v) btree \<Rightarrow> ('k, 'v) btree" where
  "bt_insert k v [] = [(k, v)]"
| "bt_insert k v (e # m) =
     (if k < fst e then (k, v) # e # m
      else if fst e < k then e # bt_insert k v m
      else (k, v) # m)"

definition bt_remove :: "'k \<Rightarrow> ('k, 'v) btree \<Rightarrow> ('k, 'v) btree" where
  "bt_remove k m = filter (\<lambda>e. fst e \<noteq> k) m"

definition bt_contains_key :: "('k, 'v) btree \<Rightarrow> 'k \<Rightarrow> bool" where
  "bt_contains_key m k = (bt_get m k \<noteq> None)"

definition bt_range :: "('k, 'v) btree \<Rightarrow> 'k \<Rightarrow> 'k::linorder \<Rightarrow> ('k \<times> 'v) list res" where
  "bt_range m lo hi =
     (if hi < lo then Inl (Panic ''range start is greater than range end in BTreeMap'')
      else Inr (filter (\<lambda>e. lo \<le> fst e \<and> fst e \<le> hi) m))"

definition next_back :: "'a list \<Rightarrow> 'a option" where
  "next_back xs = (if xs = [] then None else Some (last xs))"

definition bt_inv :: "('k::linorder, 'v) btree \<Rightarrow> bool" where
  "bt_inv m = sorted_wrt (<) (map fst m)"

section \<open>The map contract\<close>

locale finite_map =
  fixes inv :: "'m \<Rightarrow> bool"
    and empty :: 'm
    and get :: "'m \<Rightarrow> 'k \<Rightarrow> 'v option"
    and ins :: "'k \<Rightarrow> 'v \<Rightarrow> 'm \<Rightarrow> 'm"
    and rem :: "'k \<Rightarrow> 'm \<Rightarrow> 'm"
  assumes get_empty: "get empty k = None"
    and get_ins: "get (ins k v m) = (get m)(k \<mapsto> v)"
    and get_rem: "get (rem k m) = (get m)(k := None)"
    and inv_empty: "inv empty"
    and inv_ins: "inv m \<Longrightarrow> inv (ins k v m)"
    and inv_rem: "inv m \<Longrightarrow> inv (rem k m)"
begin

lemma get_fold_ins: "get (fold (\<lambda>(k, v). ins k v) kvs m) = get m ++ map_of (rev kvs)"
proof (induction kvs arbitrary: m)
  case Nil
  then show ?case by simp
next
  case (Cons e kvs)
  then show ?case by (cases e) (auto simp: get_ins map_add_def fun_eq_iff split: option.splits)
qed

lemma inv_fold_ins: "inv m \<Longrightarrow> inv (fold (\<lambda>(k, v). ins k v) kvs m)"
  by (induction kvs arbitrary: m) (auto simp: inv_ins)

lemma get_fold_rem: "get (fold rem ks m) = (\<lambda>k. if k \<in> set ks then None else get m k)"
  by (induction ks arbitrary: m) (auto simp: get_rem fun_eq_iff)

lemma inv_fold_rem: "inv m \<Longrightarrow> inv (fold rem ks m)"
  by (induction ks arbitrary: m) (auto simp: inv_rem)

end

section \<open>BTreeMap meets the contract\<close>

lemma bt_get_Nil [simp, store_simps]: "bt_get [] k = None"
  by (simp add: bt_get_def)

lemma bt_get_insert [store_simps]: "bt_get (bt_insert k v m) = (bt_get m)(k \<mapsto> v)"
proof (induction m)
  case Nil
  then show ?case by (auto simp: bt_get_def)
next
  case (Cons e m)
  then show ?case by (cases e) (auto simp: bt_get_def fun_eq_iff)
qed

lemma bt_get_remove [store_simps]: "bt_get (bt_remove k m) = (bt_get m)(k := None)"
  by (induction m) (auto simp: bt_get_def bt_remove_def fun_eq_iff)

lemma set_bt_insert: "set (map fst (bt_insert k v m)) = insert k (set (map fst m))"
  by (induction m) auto

lemma bt_inv_Nil [simp]: "bt_inv []"
  by (simp add: bt_inv_def)

lemma bt_inv_insert [simp, intro]: "bt_inv m \<Longrightarrow> bt_inv (bt_insert k v m)"
proof (induction m)
  case Nil
  then show ?case by (simp add: bt_inv_def)
next
  case (Cons e m)
  have "\<And>x. x \<in> set (bt_insert k v m) \<Longrightarrow> fst x \<in> insert k (fst ` set m)"
    using set_bt_insert[of k v m] by auto
  with Cons show ?case by (fastforce simp: bt_inv_def)
qed

lemma bt_inv_filter [simp, intro]: "bt_inv m \<Longrightarrow> bt_inv (filter p m)"
  by (induction m) (auto simp: bt_inv_def)

lemma bt_inv_remove [simp, intro]: "bt_inv m \<Longrightarrow> bt_inv (bt_remove k m)"
  by (simp add: bt_remove_def bt_inv_filter)

interpretation bt: finite_map bt_inv "[]" bt_get bt_insert bt_remove
  by unfold_locales (auto simp: bt_get_insert bt_get_remove)

lemma bt_inv_Cons: "bt_inv (e # m) \<longleftrightarrow> (\<forall>x \<in> set m. fst e < fst x) \<and> bt_inv m"
  by (auto simp: bt_inv_def)

lemma bt_inv_distinct: "bt_inv m \<Longrightarrow> distinct (map fst m)"
  by (simp add: bt_inv_def strict_sorted_iff)

lemma bt_get_eq_Some: "bt_inv m \<Longrightarrow> bt_get m k = Some v \<longleftrightarrow> (k, v) \<in> set m"
  by (simp add: bt_get_def bt_inv_distinct)

lemma bt_get_eq_None: "bt_get m k = None \<longleftrightarrow> k \<notin> fst ` set m"
  by (simp add: bt_get_def map_of_eq_None_iff)

lemma bt_contains_key_iff: "bt_contains_key m k \<longleftrightarrow> k \<in> fst ` set m"
  by (auto simp: bt_contains_key_def bt_get_eq_None)

text \<open>Two ordered maps with the same lookups are the same map.\<close>

lemma bt_ext:
  assumes "bt_inv m" and "bt_inv n" and "bt_get m = bt_get n"
  shows "m = n"
proof -
  have s: "set m = set n"
    using assms by (metis (no_types, opaque_lifting) bt_get_eq_Some prod.exhaust subsetI subset_antisym)
  have "inj_on fst (set m \<union> set n)"
    using bt_inv_distinct[OF assms(1)] s by (simp add: distinct_map)
  then show ?thesis
    using assms(1,2) s map_sorted_distinct_set_unique[of fst m n]
    by (simp add: bt_inv_def strict_sorted_iff)
qed

lemma bt_get_filter_key: "bt_get (filter (\<lambda>e. p (fst e)) m) k = (if p k then bt_get m k else None)"
  by (induction m) (auto simp: bt_get_def)

section \<open>Ranges\<close>

lemma bt_range_ok: "lo \<le> hi \<Longrightarrow> bt_range m lo hi = Inr (filter (\<lambda>e. lo \<le> fst e \<and> fst e \<le> hi) m)"
  by (simp add: bt_range_def)

lemma next_back_None [simp]: "next_back xs = None \<longleftrightarrow> xs = []"
  by (simp add: next_back_def)

lemma next_back_Nil [simp]: "next_back [] = None"
  by (simp add: next_back_def)

lemma next_back_filter:
  assumes "bt_inv m" and "next_back (filter p m) = Some e"
  shows "e \<in> set m \<and> p e \<and> (\<forall>x \<in> set m. p x \<longrightarrow> fst x \<le> fst e)"
proof -
  let ?f = "filter p m"
  from assms(2) have ne: "?f \<noteq> []" and e: "e = last ?f"
    by (auto simp: next_back_def split: if_splits)
  from ne have mem: "e \<in> set ?f" unfolding e by (rule last_in_set)
  have "sorted_wrt (<) (map fst (butlast ?f @ [last ?f]))"
    using assms(1) bt_inv_filter[of m p] ne by (simp add: bt_inv_def)
  then have "\<forall>x \<in> set (butlast ?f). fst x < fst e"
    by (auto simp: sorted_wrt_append e)
  moreover have "set ?f = insert e (set (butlast ?f))"
    using ne e by (metis append_butlast_last_id list.simps(15) rotate1.simps(2) set_rotate1)
  ultimately show ?thesis using mem by (auto intro: less_imp_le)
qed

lemma length_bt_insert: "bt_get m k = None \<Longrightarrow> length (bt_insert k v m) = Suc (length m)"
  by (induction k v m rule: bt_insert.induct) (auto simp: bt_get_def split: if_splits)

lemma bt_insert_last: "\<forall>k' \<in> set (map fst m). k' < k \<Longrightarrow> bt_insert k v m = m @ [(k, v)]"
  by (induction m) auto

end
