(* ===== verification/Bytes.thy ===== *)
theory Bytes
  imports Prelude
begin

text \<open>
  The integer/byte conversions of the Rust standard library that the source uses
  (\<open>to_le_bytes\<close>, \<open>to_be_bytes\<close>, \<open>from_le_bytes\<close>, \<open>from_be_bytes\<close> at 16, 32 and 64 bits),
  \<open>chunks_exact\<close>, and their round trips. All are instances of one base-256 expansion
  of natural numbers.
\<close>

fun nat_le_bytes :: "nat \<Rightarrow> nat \<Rightarrow> bytes" where
  "nat_le_bytes 0 n = []"
| "nat_le_bytes (Suc k) n = word_of_nat n # nat_le_bytes k (n div 256)"

fun le_nat :: "bytes \<Rightarrow> nat" where
  "le_nat [] = 0"
| "le_nat (b # bs) = unat b + 256 * le_nat bs"

definition to_le_bytes :: "nat \<Rightarrow> 'a::len word \<Rightarrow> bytes" where
  "to_le_bytes k w = nat_le_bytes k (unat w)"

definition from_le_bytes :: "bytes \<Rightarrow> 'a::len word" where
  "from_le_bytes bs = word_of_nat (le_nat bs)"

definition to_be_bytes :: "nat \<Rightarrow> 'a::len word \<Rightarrow> bytes" where
  "to_be_bytes k w = rev (to_le_bytes k w)"

definition from_be_bytes :: "bytes \<Rightarrow> 'a::len word" where
  "from_be_bytes bs = from_le_bytes (rev bs)"

lemma length_nat_le_bytes [simp]: "length (nat_le_bytes k n) = k"
  by (induction k arbitrary: n) auto

lemma length_to_le_bytes [simp]: "length (to_le_bytes k w) = k"
  by (simp add: to_le_bytes_def)

lemma length_to_be_bytes [simp]: "length (to_be_bytes k w) = k"
  by (simp add: to_be_bytes_def)

lemma unat_byte: "unat (word_of_nat n :: u8) = n mod 256"
  by (simp add: unat_of_nat)

lemma unat_byte_less: "unat (b :: u8) < 256"
  using unsigned_less[of b, where 'a = nat] by simp

lemma le_nat_less: "le_nat bs < 256 ^ length bs"
proof (induction bs)
  case Nil
  then show ?case by simp
next
  case (Cons b bs)
  have "unat b + 256 * le_nat bs < 256 * (le_nat bs + 1)"
    using unat_byte_less[of b] by simp
  also have "\<dots> \<le> 256 * 256 ^ length bs"
    using Cons by (metis Suc_eq_plus1 Suc_leI mult_le_mono2)
  finally show ?case by simp
qed

lemma le_nat_nat_le_bytes: "le_nat (nat_le_bytes k n) = n mod 256 ^ k"
proof (induction k arbitrary: n)
  case 0
  then show ?case by simp
next
  case (Suc k)
  have "n mod (256 * 256 ^ k) = n mod 256 + 256 * (n div 256 mod 256 ^ k)"
    by (metis add.commute mod_mult2_eq)
  with Suc show ?case by (simp add: unat_byte)
qed

lemma nat_le_bytes_le_nat: "nat_le_bytes (length bs) (le_nat bs) = bs"
proof (induction bs)
  case Nil
  then show ?case by simp
next
  case (Cons b bs)
  have b: "unat b < 256" by (rule unat_byte_less)
  have "(word_of_nat (unat b + 256 * le_nat bs) :: u8) = b"
    by (simp only: word_unat_eq_iff unat_byte) (simp add: b)
  moreover have "(unat b + 256 * le_nat bs) div 256 = le_nat bs"
    using b by simp
  ultimately show ?case using Cons by simp
qed

lemma from_to_le_bytes:
  assumes "LENGTH('a) = 8 * k"
  shows "from_le_bytes (to_le_bytes k w) = (w :: 'a::len word)"
proof -
  have "unat w < 256 ^ k"
    using unsigned_less[of w, where 'a = nat] assms by (simp add: power_mult)
  then show ?thesis
    by (simp add: from_le_bytes_def to_le_bytes_def le_nat_nat_le_bytes)
qed

lemma to_from_le_bytes:
  assumes "LENGTH('a) = 8 * length bs"
  shows "to_le_bytes (length bs) (from_le_bytes bs :: 'a::len word) = bs"
proof -
  have "le_nat bs < 2 ^ LENGTH('a)"
    using le_nat_less[of bs] assms by (simp add: power_mult)
  then have "unat (word_of_nat (le_nat bs) :: 'a word) = le_nat bs"
    by (simp add: unat_of_nat)
  then show ?thesis
    by (simp add: from_le_bytes_def to_le_bytes_def nat_le_bytes_le_nat)
qed

lemma from_to_be_bytes:
  "LENGTH('a) = 8 * k \<Longrightarrow> from_be_bytes (to_be_bytes k w) = (w :: 'a::len word)"
  by (simp add: from_be_bytes_def to_be_bytes_def from_to_le_bytes)

lemma to_from_be_bytes:
  assumes "LENGTH('a) = 8 * length bs"
  shows "to_be_bytes (length bs) (from_be_bytes bs :: 'a::len word) = bs"
  using to_from_le_bytes[of "rev bs", where 'a = 'a] assms
  by (simp add: from_be_bytes_def to_be_bytes_def)

text \<open>The widths the source uses.\<close>

lemma u16_le_roundtrip [codec_simps]: "from_le_bytes (to_le_bytes 2 w) = (w :: u16)"
  by (rule from_to_le_bytes) simp

lemma u32_le_roundtrip [codec_simps]: "from_le_bytes (to_le_bytes 4 w) = (w :: u32)"
  by (rule from_to_le_bytes) simp

lemma u64_le_roundtrip [codec_simps]: "from_le_bytes (to_le_bytes 8 w) = (w :: u64)"
  by (rule from_to_le_bytes) simp

lemma u32_be_roundtrip [codec_simps]: "from_be_bytes (to_be_bytes 4 w) = (w :: u32)"
  by (rule from_to_be_bytes) simp

lemma u64_be_roundtrip [codec_simps]: "from_be_bytes (to_be_bytes 8 w) = (w :: u64)"
  by (rule from_to_be_bytes) simp

text \<open>
  Big-endian keys sort as the numbers do, which is why the stores and queues write their
  \<open>u64\<close> keys big-endian.
\<close>

lemma le_nat_append: "le_nat (xs @ ys) = le_nat xs + 256 ^ length xs * le_nat ys"
  by (induction xs) (auto simp: algebra_simps)

lemma be_less_lex:
  "length xs = length ys \<Longrightarrow> le_nat (rev xs) < le_nat (rev ys) \<longleftrightarrow> xs < (ys :: bytes)"
proof (induction xs ys rule: list_induct2)
  case Nil
  then show ?case by simp
next
  case (Cons x xs y ys)
  let ?m = "256 ^ length xs :: nat"
  have bx: "le_nat (rev xs) < ?m" using le_nat_less[of "rev xs"] by simp
  have by': "le_nat (rev ys) < ?m" using le_nat_less[of "rev ys"] Cons.hyps by simp
  have e: "le_nat (rev (x # xs)) = le_nat (rev xs) + ?m * unat x"
    "le_nat (rev (y # ys)) = le_nat (rev ys) + ?m * unat y"
    using Cons.hyps by (simp_all add: le_nat_append)
  consider "unat x < unat y" | "unat x = unat y" | "unat y < unat x" by linarith
  then show ?case
  proof cases
    case 1
    then have "?m * (unat x + 1) \<le> ?m * unat y" by (intro mult_le_mono2) simp
    then have "le_nat (rev (x # xs)) < le_nat (rev (y # ys))" using bx unfolding e by (simp add: algebra_simps)
    then show ?thesis using 1 by (simp add: word_less_nat_alt)
  next
    case 2
    then have "x = y" by (simp add: word_unat_eq_iff)
    then show ?thesis using Cons.IH unfolding e by simp
  next
    case 3
    then have "?m * (unat y + 1) \<le> ?m * unat x" by (intro mult_le_mono2) simp
    then have "\<not> le_nat (rev (x # xs)) < le_nat (rev (y # ys))"
      using by' unfolding e by (simp add: algebra_simps)
    then show ?thesis using 3 by (auto simp: word_less_nat_alt)
  qed
qed

lemma to_be_bytes_less:
  assumes "LENGTH('a) = 8 * k"
  shows "to_be_bytes k v < to_be_bytes k w \<longleftrightarrow> v < (w :: 'a::len word)"
proof -
  have *: "le_nat (to_le_bytes k u) = unat u" for u :: "'a word"
    using unsigned_less[of u, where 'a = nat] assms by (simp add: to_le_bytes_def le_nat_nat_le_bytes power_mult)
  show ?thesis
    using be_less_lex[of "to_be_bytes k v" "to_be_bytes k w"] *
    by (simp add: to_be_bytes_def word_less_nat_alt)
qed

section \<open>chunks\_exact\<close>

text \<open>\<open>chunks_exact(n)\<close> yields the full chunks of \<open>n\<close> elements and drops the remainder.\<close>

function chunks_exact :: "nat \<Rightarrow> 'a list \<Rightarrow> 'a list list" where
  "chunks_exact n xs =
     (if n = 0 \<or> length xs < n then [] else take n xs # chunks_exact n (drop n xs))"
  by pat_completeness auto
termination
  by (relation "measure (\<lambda>(n, xs). length xs)") auto

declare chunks_exact.simps [simp del]

lemma chunks_exact_short: "length xs < n \<Longrightarrow> chunks_exact n xs = []"
  by (simp add: chunks_exact.simps)

lemma chunks_exact_append:
  "length x = n \<Longrightarrow> 0 < n \<Longrightarrow> chunks_exact n (x @ xs) = x # chunks_exact n xs"
  by (subst chunks_exact.simps) simp

lemma chunks_exact_concat:
  assumes "0 < n" and "\<And>x. x \<in> set xs \<Longrightarrow> length x = n"
  shows "chunks_exact n (concat xs) = xs"
  using assms(2)
proof (induction xs)
  case Nil
  then show ?case using assms(1) by (simp add: chunks_exact_short)
next
  case (Cons x xs)
  then show ?case using assms(1) by (simp add: chunks_exact_append)
qed

lemma chunks_exact_length_mem: "c \<in> set (chunks_exact n xs) \<Longrightarrow> length c = n"
proof (induction n xs rule: chunks_exact.induct)
  case (1 n xs)
  then show ?case
    by (subst (asm) chunks_exact.simps) (auto split: if_splits)
qed

lemma length_chunks_exact: "0 < n \<Longrightarrow> length (chunks_exact n xs) = length xs div n"
proof (induction n xs rule: chunks_exact.induct)
  case (1 n xs)
  show ?case
  proof (cases "length xs < n")
    case True
    then show ?thesis by (simp add: chunks_exact_short)
  next
    case False
    with 1 have "length (chunks_exact n xs) = Suc ((length xs - n) div n)"
      by (subst chunks_exact.simps) simp
    also have "\<dots> = length xs div n"
      using False 1(2) by (simp add: le_div_geq)
    finally show ?thesis .
  qed
qed

end
