(* ===== verification/Crates.thy ===== *)
theory Crates
  imports Bytes "HOL-Library.Char_ord"
begin

text \<open>
  The third-party code the program calls everywhere, as parameters: the \<open>hex\<close> crate and the
  hash functions of \<open>doge_light_client\<close> (\<open>hash_impl_sha256_bytes\<close>,
  \<open>hash_impl_sha256_two_to_one_bytes\<close>, \<open>hash_impl_btc_hash256_two_to_one_bytes\<close>). A definition
  that uses one takes the record \<open>crates\<close>. What the code relies on is stated as \<open>hex_laws\<close> and
  \<open>hash_laws\<close>, the documented behaviour of those crates; nothing is assumed about collisions
  unless a theorem says so.

  \<open>demo_crates\<close> is a concrete instance with a real hexadecimal codec and toy hash functions of
  the right output length. It is used in the witnesses only, to show the laws can hold.
\<close>

record crates =
  hex_encode :: "bytes \<Rightarrow> string"
  hex_decode :: "string \<Rightarrow> bytes option"
  sha256 :: "bytes \<Rightarrow> bytes"
  sha256_two_to_one :: "bytes \<Rightarrow> bytes \<Rightarrow> bytes"
  btc_hash256_two_to_one :: "bytes \<Rightarrow> bytes \<Rightarrow> bytes"

definition is_lower_hex :: "string \<Rightarrow> bool" where
  "is_lower_hex s = list_all (\<lambda>c. c \<in> set ''0123456789abcdef'') s"

definition is_hex_digits :: "string \<Rightarrow> bool" where
  "is_hex_digits s = list_all (\<lambda>c. c \<in> set ''0123456789abcdefABCDEF'') s"

definition hex_laws :: "crates \<Rightarrow> bool" where
  "hex_laws X \<longleftrightarrow>
     (\<forall>b. hex_decode X (hex_encode X b) = Some b) \<and>
     (\<forall>b. length (hex_encode X b) = 2 * length b) \<and>
     (\<forall>b. is_lower_hex (hex_encode X b)) \<and>
     (\<forall>s b. hex_decode X s = Some b \<longrightarrow> is_hex_digits s \<and> length s = 2 * length b) \<and>
     (\<forall>s b. hex_decode X s = Some b \<longrightarrow> is_lower_hex s \<longrightarrow> s = hex_encode X b)"

definition hash_laws :: "crates \<Rightarrow> bool" where
  "hash_laws X \<longleftrightarrow>
     (\<forall>b. length (sha256 X b) = 32) \<and>
     (\<forall>a b. length (sha256_two_to_one X a b) = 32) \<and>
     (\<forall>a b. length (btc_hash256_two_to_one X a b) = 32)"

lemma hex_decode_encode: "hex_laws X \<Longrightarrow> hex_decode X (hex_encode X b) = Some b"
  by (simp add: hex_laws_def)

lemma length_hex_encode: "hex_laws X \<Longrightarrow> length (hex_encode X b) = 2 * length b"
  by (simp add: hex_laws_def)

lemma lower_hex_encode: "hex_laws X \<Longrightarrow> is_lower_hex (hex_encode X b)"
  by (simp add: hex_laws_def)

lemma hex_decode_digits:
  "hex_laws X \<Longrightarrow> hex_decode X s = Some b \<Longrightarrow> is_hex_digits s \<and> length s = 2 * length b"
  by (simp add: hex_laws_def)

lemma hex_encode_inj: "hex_laws X \<Longrightarrow> hex_encode X a = hex_encode X b \<longleftrightarrow> a = b"
  by (metis hex_decode_encode option.inject)

lemma hex_decode_lower_inj:
  assumes "hex_laws X" and "is_lower_hex s" and "is_lower_hex t"
    and "hex_decode X s = Some b" and "hex_decode X t = Some b"
  shows "s = t"
  using assms unfolding hex_laws_def by metis

section \<open>A concrete instance for the witnesses\<close>

definition demo_digit :: "nat \<Rightarrow> char" where
  "demo_digit n = ''0123456789abcdef'' ! n"

fun demo_index :: "char \<Rightarrow> string \<Rightarrow> nat option" where
  "demo_index c [] = None"
| "demo_index c (d # ds) = (if c = d then Some 0 else map_option Suc (demo_index c ds))"

definition demo_value :: "char \<Rightarrow> nat option" where
  "demo_value c =
     (case demo_index c ''0123456789abcdef'' of
        Some n \<Rightarrow> Some n
      | None \<Rightarrow> map_option (\<lambda>n. 10 + n) (demo_index c ''ABCDEF''))"

definition demo_encode :: "bytes \<Rightarrow> string" where
  "demo_encode bs = concat (map (\<lambda>b. [demo_digit (unat b div 16), demo_digit (unat b mod 16)]) bs)"

fun demo_decode :: "string \<Rightarrow> bytes option" where
  "demo_decode [] = Some []"
| "demo_decode [c] = None"
| "demo_decode (c # d # s) =
     (case (demo_value c, demo_value d, demo_decode s) of
        (Some h, Some l, Some bs) \<Rightarrow> Some (word_of_nat (16 * h + l) # bs)
      | _ \<Rightarrow> None)"

definition demo_hash :: "bytes \<Rightarrow> bytes" where
  "demo_hash bs = to_le_bytes 32 (fold (\<lambda>b h. 257 * h + ucast b + 1) bs (1 :: 256 word))"

definition demo_crates :: crates where
  "demo_crates =
     \<lparr>hex_encode = demo_encode, hex_decode = demo_decode, sha256 = demo_hash,
      sha256_two_to_one = (\<lambda>a b. demo_hash (a @ b)),
      btc_hash256_two_to_one = (\<lambda>a b. demo_hash (demo_hash (a @ b)))\<rparr>"

lemma demo_value_digit: "n < 16 \<Longrightarrow> demo_value (demo_digit n) = Some n"
proof -
  assume "n < 16"
  moreover have "list_all (\<lambda>n. demo_value (demo_digit n) = Some n) [0..<16]"
    by code_simp
  ultimately show ?thesis by (simp add: list_all_iff del: upt_rec_numeral upt.simps)
qed

lemma demo_digit_lower: "n < 16 \<Longrightarrow> demo_digit n \<in> set ''0123456789abcdef''"
  unfolding demo_digit_def by (rule nth_mem) simp

lemma demo_digit_value:
  "c \<in> set ''0123456789abcdef'' \<Longrightarrow> demo_value c = Some n \<Longrightarrow> n < 16 \<and> demo_digit n = c"
  by (auto simp: demo_value_def demo_digit_def)

lemma demo_decode_encode: "demo_decode (demo_encode b) = Some b"
proof (induction b)
  case Nil
  then show ?case by (simp add: demo_encode_def)
next
  case (Cons x b)
  have "unat x div 16 < 16" "unat x mod 16 < 16"
    using unat_byte_less[of x] by simp_all
  moreover have "16 * (unat x div 16) + unat x mod 16 = unat x" by simp
  ultimately show ?case using Cons
    by (simp add: demo_encode_def demo_value_digit del: of_nat_add of_nat_mult)
qed

lemma demo_decode_lower:
  "demo_decode s = Some b \<Longrightarrow> is_lower_hex s \<Longrightarrow> s = demo_encode b"
proof (induction s arbitrary: b rule: demo_decode.induct)
  case (3 c d s)
  from "3.prems"(1) obtain h l bs where v: "demo_value c = Some h" "demo_value d = Some l"
    and bs: "demo_decode s = Some bs" and b: "b = word_of_nat (16 * h + l) # bs"
    by (auto split: option.splits)
  from "3.prems"(2) have low: "c \<in> set ''0123456789abcdef''" "d \<in> set ''0123456789abcdef''"
    and rest: "is_lower_hex s"
    unfolding is_lower_hex_def list.pred_inject by blast+
  have hl: "h < 16" "demo_digit h = c" "l < 16" "demo_digit l = d"
    using demo_digit_value[OF low(1) v(1)] demo_digit_value[OF low(2) v(2)] by auto
  then have u: "unat (word_of_nat (16 * h + l) :: u8) = 16 * h + l"
    by (simp only: unat_byte) simp
  then have "unat (word_of_nat (16 * h + l) :: u8) div 16 = h"
    "unat (word_of_nat (16 * h + l) :: u8) mod 16 = l"
    using hl by (simp_all only: u) simp_all
  moreover have "s = demo_encode bs" using "3.IH" v bs rest by blast
  ultimately show ?case
    using hl b by (simp add: demo_encode_def del: of_nat_add of_nat_mult)
qed (auto simp: demo_encode_def)

lemma demo_value_digits: "demo_value c = Some n \<Longrightarrow> c \<in> set ''0123456789abcdefABCDEF''"
  by (auto simp: demo_value_def split: if_splits)

lemma demo_decode_digits: "demo_decode s = Some b \<Longrightarrow> is_hex_digits s \<and> length s = 2 * length b"
proof (induction s arbitrary: b rule: demo_decode.induct)
  case (3 c d s)
  from "3.prems" obtain h l bs where v: "demo_value c = Some h" "demo_value d = Some l"
    and bs: "demo_decode s = Some bs" and b: "b = word_of_nat (16 * h + l) # bs"
    by (auto split: option.splits)
  have "is_hex_digits s \<and> length s = 2 * length bs" using "3.IH" v bs by blast
  then show ?case
    using demo_value_digits[OF v(1)] demo_value_digits[OF v(2)] b
    unfolding is_hex_digits_def list.pred_inject by simp
qed (auto simp: is_hex_digits_def)

lemma demo_encode_lower: "is_lower_hex (demo_encode b)"
proof (induction b)
  case Nil
  then show ?case by (simp add: demo_encode_def is_lower_hex_def)
next
  case (Cons x b)
  have "demo_digit (unat x div 16) \<in> set ''0123456789abcdef''"
    "demo_digit (unat x mod 16) \<in> set ''0123456789abcdef''"
    using unat_byte_less[of x] by (intro demo_digit_lower; simp)+
  with Cons show ?case unfolding demo_encode_def is_lower_hex_def by simp
qed

lemma length_demo_encode: "length (demo_encode b) = 2 * length b"
  by (induction b) (simp_all add: demo_encode_def)

lemma demo_hex_laws: "hex_laws demo_crates"
  by (simp add: hex_laws_def demo_crates_def demo_decode_encode demo_decode_lower
      demo_decode_digits       demo_encode_lower length_demo_encode)

lemma demo_hash_laws: "hash_laws demo_crates"
  by (simp add: hash_laws_def demo_crates_def demo_hash_def)

end
