(* ===== verification/Kvq_Codec.thy ===== *)
theory Kvq_Codec
  imports Crates
begin

text \<open>
  The trait \<open>KVQSerializable\<close> of \<open>kvq/src/traits.rs\<close> and its implementations: the integers
  (\<open>impl_kvq_serialize!\<close> in \<open>kvq/src/lib.rs\<close>), \<open>DBRow\<close>, byte and integer arrays and byte vectors
  (\<open>kvq/src/base_types.rs\<close>), the fixed hashes of \<open>data/base_types\<close> and the scrypt proof input
  and output of \<open>data/scrypt_proof.rs\<close>. The trait is the locale \<open>kvq_serializable\<close>: a pair of
  functions and the values on which decoding inverts encoding.
\<close>

record 'a codec =
  to_bytes :: "'a \<Rightarrow> bytes res"
  from_bytes :: "bytes \<Rightarrow> 'a res"

section \<open>The contract of the trait\<close>

locale kvq_serializable =
  fixes C :: "'a codec" and wf :: "'a \<Rightarrow> bool"
  assumes to_bytes_ok: "wf x \<Longrightarrow> is_ok (to_bytes C x)"
    and roundtrip: "wf x \<Longrightarrow> to_bytes C x = Inr bs \<Longrightarrow> from_bytes C bs = Inr x"
begin

lemma encoded: "wf x \<Longrightarrow> \<exists>bs. to_bytes C x = Inr bs \<and> from_bytes C bs = Inr x"
  using to_bytes_ok roundtrip by (fastforce simp: is_ok_iff)

lemma to_bytes_inj: "wf x \<Longrightarrow> wf y \<Longrightarrow> to_bytes C x = to_bytes C y \<Longrightarrow> x = y"
  by (metis encoded Inr_inject)

lemma try_map_to_bytes:
  "list_all wf xs \<Longrightarrow> \<exists>bss. try_map (to_bytes C) xs = Inr bss \<and> try_map (from_bytes C) bss = Inr xs"
proof (induction xs)
  case Nil
  then show ?case by simp
next
  case (Cons x xs)
  then obtain bs bss where "to_bytes C x = Inr bs" "from_bytes C bs = Inr x"
    and "try_map (to_bytes C) xs = Inr bss" "try_map (from_bytes C) bss = Inr xs"
    using encoded by fastforce
  then show ?case by simp
qed

end

section \<open>Helpers of traits.rs\<close>

definition unwrap_kv_result :: "'a option \<Rightarrow> 'a res" where
  "unwrap_kv_result item_opt =
     (case item_opt of Some item \<Rightarrow> Inr item
      | None \<Rightarrow> Inl (Err ''Missing value in unwrapped Vec result!''))"

fun unwrap_kv_vec_result :: "'a option list \<Rightarrow> 'a list res" where
  "unwrap_kv_vec_result [] = Inr []"
| "unwrap_kv_vec_result (None # results) = Inl (Err ''Missing value in unwrapped Vec result!'')"
| "unwrap_kv_vec_result (Some item # results) =
     and_then (unwrap_kv_vec_result results) (\<lambda>result. Inr (item # result))"

lemma unwrap_kv_vec_result_iff: "unwrap_kv_vec_result rs = Inr xs \<longleftrightarrow> rs = map Some xs"
  by (induction rs arbitrary: xs rule: unwrap_kv_vec_result.induct) auto

lemma unwrap_kv_vec_result_None: "None \<in> set rs \<Longrightarrow>
    unwrap_kv_vec_result rs = Inl (Err ''Missing value in unwrapped Vec result!'')"
  by (induction rs rule: unwrap_kv_vec_result.induct) auto

section \<open>Integers: impl\_kvq\_serialize!\<close>

definition int_codec :: "nat \<Rightarrow> 'a::len word codec" where
  "int_codec size_of =
     \<lparr>to_bytes = (\<lambda>x. Inr (to_be_bytes size_of x)),
      from_bytes = (\<lambda>bs. if length bs \<noteq> size_of then Inl (Err ''could not convert slice to array'')
                        else Inr (from_be_bytes bs))\<rparr>"

section \<open>DBRow\<close>

record db_row =
  row_key :: bytes
  row_value :: bytes

definition db_row_to_bytes :: "db_row \<Rightarrow> bytes res" where
  "db_row_to_bytes r =
     (let key_len = (of_nat (length (row_key r)) :: u32)
      in Inr (to_be_bytes 4 key_len @ row_key r @ row_value r))"

definition db_row_from_bytes :: "bytes \<Rightarrow> db_row res" where
  "db_row_from_bytes bs =
     (if length bs < 4 then Inl (Err ''Invalid DBRow length'')
      else let size = unat (from_be_bytes [bs ! 0, bs ! 1, bs ! 2, bs ! 3] :: u32)
           in if length bs < size + 4 then Inl (Err ''Invalid DBRow length'')
              else and_then (slice bs 4 (size + 4)) (\<lambda>key.
                   and_then (slice bs (size + 4) (length bs)) (\<lambda>value.
                   Inr \<lparr>row_key = key, row_value = value\<rparr>)))"

definition db_row_codec :: "db_row codec" where
  "db_row_codec = \<lparr>to_bytes = db_row_to_bytes, from_bytes = db_row_from_bytes\<rparr>"

section \<open>Arrays and vectors\<close>

definition byte_array_codec :: "nat \<Rightarrow> bytes codec" where
  "byte_array_codec SIZE =
     \<lparr>to_bytes = (\<lambda>x. Inr x),
      from_bytes = (\<lambda>bs. copy_slice (replicate SIZE 0) 0 SIZE bs)\<rparr>"

definition byte_vec_codec :: "bytes codec" where
  "byte_vec_codec = \<lparr>to_bytes = (\<lambda>x. Inr x), from_bytes = (\<lambda>bs. Inr bs)\<rparr>"

text \<open>The loop of \<open>from_bytes\<close> reads \<open>bytes[i * w..(i + 1) * w]\<close> for every \<open>i\<close> below \<open>SIZE\<close>.\<close>

definition int_array_from_bytes :: "nat \<Rightarrow> nat \<Rightarrow> bytes \<Rightarrow> 'a::len word list res" where
  "int_array_from_bytes w SIZE bs =
     try_map (\<lambda>i. and_then (slice bs (i * w) ((i + 1) * w)) (\<lambda>b. Inr (from_be_bytes b))) [0..<SIZE]"

definition u64_array_codec :: "nat \<Rightarrow> u64 list codec" where
  "u64_array_codec SIZE =
     \<lparr>to_bytes = (\<lambda>xs. Inr (concat (map (to_be_bytes 8) xs))),
      from_bytes = int_array_from_bytes 8 SIZE\<rparr>"

definition u32_array_codec :: "nat \<Rightarrow> u32 list codec" where
  "u32_array_codec SIZE =
     \<lparr>to_bytes = (\<lambda>xs. Inr (concat (map (to_be_bytes 4) xs))),
      from_bytes = int_array_from_bytes 4 SIZE\<rparr>"

section \<open>Fixed-length hashes and proof inputs\<close>

text \<open>
  \<open>Hash256\<close>, \<open>Hash160\<close>, \<open>Hash192\<close> and \<open>DogeBlockScryptProofInput\<close> decode the same way: the
  length is checked first, so the \<open>copy_from_slice\<close> cannot panic.
\<close>

definition checked_array_from_bytes :: "nat \<Rightarrow> bytes \<Rightarrow> bytes res" where
  "checked_array_from_bytes n bs =
     (if length bs \<noteq> n then Inl (Err ''unexpected number of bytes for deserializing'')
      else copy_slice (replicate n 0) 0 n bs)"

definition hash256_codec :: "bytes codec" where
  "hash256_codec = \<lparr>to_bytes = (\<lambda>h. Inr h), from_bytes = checked_array_from_bytes 32\<rparr>"

definition hash160_codec :: "bytes codec" where
  "hash160_codec = \<lparr>to_bytes = (\<lambda>h. Inr h), from_bytes = checked_array_from_bytes 20\<rparr>"

definition hash192_codec :: "bytes codec" where
  "hash192_codec = \<lparr>to_bytes = (\<lambda>h. Inr h), from_bytes = checked_array_from_bytes 24\<rparr>"

definition scrypt_input_codec :: "bytes codec" where
  "scrypt_input_codec = \<lparr>to_bytes = (\<lambda>h. Inr h), from_bytes = checked_array_from_bytes 80\<rparr>"

record scrypt_proof_output =
  block_header :: bytes
  scrypt_hash :: bytes
  groth16_proof :: bytes

definition scrypt_output_to_bytes :: "scrypt_proof_output \<Rightarrow> bytes res" where
  "scrypt_output_to_bytes p = Inr (block_header p @ scrypt_hash p @ groth16_proof p)"

definition scrypt_output_from_bytes :: "bytes \<Rightarrow> scrypt_proof_output res" where
  "scrypt_output_from_bytes bs =
     (if length bs \<noteq> 80 + 32 + 260
      then Inl (Err ''expected 372 bytes for deserializing DogeBlockScryptProofOutput'')
      else and_then (slice bs 0 80) (\<lambda>header.
           and_then (slice bs 80 112) (\<lambda>hash.
           and_then (slice bs 112 372) (\<lambda>proof.
           Inr \<lparr>block_header = header, scrypt_hash = hash, groth16_proof = proof\<rparr>))))"

definition scrypt_output_codec :: "scrypt_proof_output codec" where
  "scrypt_output_codec = \<lparr>to_bytes = scrypt_output_to_bytes, from_bytes = scrypt_output_from_bytes\<rparr>"

definition scrypt_output_wf :: "scrypt_proof_output \<Rightarrow> bool" where
  "scrypt_output_wf p \<longleftrightarrow>
     length (block_header p) = 80 \<and> length (scrypt_hash p) = 32 \<and> length (groth16_proof p) = 260"

section \<open>Hash256 operations\<close>

definition hash256_bitxor :: "bytes \<Rightarrow> bytes \<Rightarrow> bytes" where
  "hash256_bitxor a b = map (\<lambda>i. xor (a ! i) (b ! i)) [0..<32]"

text \<open>\<open>assert_eq!\<close> on the decoded length panics; only malformed hexadecimal is an \<open>Err\<close>.\<close>

definition from_hex_string :: "crates \<Rightarrow> nat \<Rightarrow> string \<Rightarrow> bytes res" where
  "from_hex_string X n s =
     and_then (ok_or (hex_decode X s) (Err ''FromHexError'')) (\<lambda>bs.
     if length bs \<noteq> n then Inl (Panic ''assertion failed: bytes.len()'')
     else copy_slice (replicate n 0) 0 n bs)"

definition hash256_from_hex_string :: "crates \<Rightarrow> string \<Rightarrow> bytes res" where
  "hash256_from_hex_string X s = from_hex_string X 32 s"

definition hash160_from_hex_string :: "crates \<Rightarrow> string \<Rightarrow> bytes res" where
  "hash160_from_hex_string X s = from_hex_string X 20 s"

definition hash192_from_hex_string :: "crates \<Rightarrow> string \<Rightarrow> bytes res" where
  "hash192_from_hex_string X s = from_hex_string X 24 s"

definition to_hex_string :: "crates \<Rightarrow> bytes \<Rightarrow> string" where
  "to_hex_string X h = hex_encode X h"

definition to_reversed_hex_string :: "crates \<Rightarrow> bytes \<Rightarrow> string" where
  "to_reversed_hex_string X h = hex_encode X (rev h)"

definition hash256_is_zero :: "bytes \<Rightarrow> bool" where
  "hash256_is_zero h = list_all (\<lambda>x. x = 0) h"

definition hash256_reversed :: "bytes \<Rightarrow> bytes" where
  "hash256_reversed h = map (\<lambda>i. h ! (31 - i)) [0..<32]"

definition hash256_to_le_u64_x4 :: "bytes \<Rightarrow> u64 list" where
  "hash256_to_le_u64_x4 h =
     [from_le_bytes (map ((!) h) [0..<8]), from_le_bytes (map ((!) h) [8..<16]),
      from_le_bytes (map ((!) h) [16..<24]), from_le_bytes (map ((!) h) [24..<32])]"

section \<open>The implementations meet the contract\<close>

lemma copy_slice_whole [simp]: "length bs = n \<Longrightarrow> copy_slice (replicate n 0) 0 n bs = Inr bs"
  by (simp add: copy_slice_def)

lemma copy_slice_whole_iff: "copy_slice (replicate n 0) 0 n bs = Inr x \<longleftrightarrow> length bs = n \<and> x = bs"
  by (auto simp: copy_slice_def)

interpretation u8_ser: kvq_serializable "int_codec 1 :: u8 codec" "\<lambda>_. True"
  by unfold_locales (auto simp: int_codec_def from_to_be_bytes)

interpretation u32_ser: kvq_serializable "int_codec 4 :: u32 codec" "\<lambda>_. True"
  by unfold_locales (auto simp: int_codec_def from_to_be_bytes)

interpretation u64_ser: kvq_serializable "int_codec 8 :: u64 codec" "\<lambda>_. True"
  by unfold_locales (auto simp: int_codec_def from_to_be_bytes)

interpretation u128_ser: kvq_serializable "int_codec 16 :: 128 word codec" "\<lambda>_. True"
  by unfold_locales (auto simp: int_codec_def from_to_be_bytes)

interpretation byte_array_ser: kvq_serializable "byte_array_codec n" "\<lambda>x. length x = n" for n
  by unfold_locales (auto simp: byte_array_codec_def)

interpretation byte_vec_ser: kvq_serializable byte_vec_codec "\<lambda>_. True"
  by unfold_locales (auto simp: byte_vec_codec_def)

interpretation hash256_ser: kvq_serializable hash256_codec "\<lambda>h. length h = 32"
  by unfold_locales (auto simp: hash256_codec_def checked_array_from_bytes_def)

interpretation hash160_ser: kvq_serializable hash160_codec "\<lambda>h. length h = 20"
  by unfold_locales (auto simp: hash160_codec_def checked_array_from_bytes_def)

interpretation hash192_ser: kvq_serializable hash192_codec "\<lambda>h. length h = 24"
  by unfold_locales (auto simp: hash192_codec_def checked_array_from_bytes_def)

interpretation scrypt_input_ser: kvq_serializable scrypt_input_codec "\<lambda>h. length h = 80"
  by unfold_locales (auto simp: scrypt_input_codec_def checked_array_from_bytes_def)

interpretation scrypt_output_ser: kvq_serializable scrypt_output_codec scrypt_output_wf
  by unfold_locales
    (auto simp: scrypt_output_codec_def scrypt_output_to_bytes_def scrypt_output_from_bytes_def
      scrypt_output_wf_def slice_def)

lemma db_row_roundtrip:
  assumes "length (row_key r) < 2 ^ 32" and "db_row_to_bytes r = Inr bs"
  shows "db_row_from_bytes bs = Inr r"
proof -
  let ?n = "of_nat (length (row_key r)) :: u32"
  have n: "unat ?n = length (row_key r)" using assms(1) by (simp add: unat_of_nat)
  obtain a b c d where h: "to_be_bytes 4 ?n = [a, b, c, d]"
    using list_of_length_4[OF length_to_be_bytes[of 4 ?n]] by blast
  then have f: "unat (from_be_bytes [a, b, c, d] :: u32) = length (row_key r)"
    using n u32_be_roundtrip[of ?n] by simp
  have "bs = [a, b, c, d] @ row_key r @ row_value r"
    using assms(2) h by (simp add: db_row_to_bytes_def)
  then show ?thesis
    by (simp add: db_row_from_bytes_def slice_def f numeral_eq_Suc)
qed

interpretation db_row_ser: kvq_serializable db_row_codec "\<lambda>r. length (row_key r) < 2 ^ 32"
  by unfold_locales
    (auto simp: db_row_codec_def db_row_roundtrip db_row_to_bytes_def[unfolded Let_def])

lemma length_concat_take:
  "(\<And>x. x \<in> set xs \<Longrightarrow> length x = w) \<Longrightarrow> i \<le> length xs \<Longrightarrow> length (concat (take i xs)) = i * w"
proof (induction xs arbitrary: i)
  case Nil
  then show ?case by simp
next
  case (Cons x xs)
  then show ?case by (cases i) auto
qed

lemma slice_concat_uniform:
  assumes "\<And>x. x \<in> set xs \<Longrightarrow> length x = w" and "i < length xs"
  shows "slice (concat xs) (i * w) ((i + 1) * w) = Inr (xs ! i)"
proof -
  have split: "concat xs = concat (take i xs) @ xs ! i @ concat (drop (Suc i) xs)"
    using assms(2) by (metis concat.simps(2) concat_append id_take_nth_drop)
  have "length (xs ! i) = w" using assms by simp
  moreover have "length (concat (take i xs)) = i * w" using assms by (intro length_concat_take) auto
  ultimately show ?thesis
    unfolding split by (simp add: slice_def)
qed

lemma int_array_roundtrip:
  assumes "LENGTH('a) = 8 * w" and "length xs = SIZE"
  shows "int_array_from_bytes w SIZE (concat (map (to_be_bytes w) xs)) = Inr (xs :: 'a::len word list)"
proof -
  have "slice (concat (map (to_be_bytes w) xs)) (i * w) ((i + 1) * w) = Inr (to_be_bytes w (xs ! i))"
    if "i < SIZE" for i
    using slice_concat_uniform[of "map (to_be_bytes w) xs" w i] that assms(2) by fastforce
  then have "int_array_from_bytes w SIZE (concat (map (to_be_bytes w) xs))
      = Inr (map (\<lambda>i. xs ! i) [0..<SIZE])"
    unfolding int_array_from_bytes_def by (intro try_map_Inr) (simp add: from_to_be_bytes assms(1))
  then show ?thesis using assms(2) map_nth[of xs] by simp
qed

interpretation u64_array_ser: kvq_serializable "u64_array_codec n" "\<lambda>xs. length xs = n" for n
  by unfold_locales (auto simp: u64_array_codec_def int_array_roundtrip)

interpretation u32_array_ser: kvq_serializable "u32_array_codec n" "\<lambda>xs. length xs = n" for n
  by unfold_locales (auto simp: u32_array_codec_def int_array_roundtrip)

lemma hash256_reversed_eq: "length h = 32 \<Longrightarrow> hash256_reversed h = rev h"
  unfolding hash256_reversed_def by (rule nth_equalityI) (auto simp: rev_nth)

lemma hash256_bitxor_self: "length a = 32 \<Longrightarrow> hash256_is_zero (hash256_bitxor a a)"
  by (simp add: hash256_is_zero_def hash256_bitxor_def list_all_iff)

lemma hash256_bitxor_cancel:
  assumes "length a = 32" and "length b = 32"
  shows "hash256_bitxor (hash256_bitxor a b) b = a"
proof (rule nth_equalityI)
  show "length (hash256_bitxor (hash256_bitxor a b) b) = length a"
    using assms by (simp add: hash256_bitxor_def)
next
  fix i assume "i < length (hash256_bitxor (hash256_bitxor a b) b)"
  then have "i < 32" by (simp add: hash256_bitxor_def)
  then show "hash256_bitxor (hash256_bitxor a b) b ! i = a ! i"
    by (simp add: hash256_bitxor_def xor.assoc del: upt_rec_numeral)
qed

end
