(* ===== verification/Kvq_Store.thy ===== *)
theory Kvq_Store
  imports BTreeMap Kvq_Codec
begin

text \<open>
  The traits \<open>KVQBinaryStoreReader\<close> and \<open>KVQBinaryStoreWriter\<close> of \<open>kvq/src/traits.rs\<close> as a
  record of functions (a trait object: one function per required method, the state first), the
  provided methods of the traits, and the in-memory store of \<open>kvq/src/memory/simple.rs\<close>.
  A writer returns the new state and its result, so that an error after a mutation keeps the
  mutation.

  The locale \<open>kvq_store\<close> is what every caller relies on: lookups and updates of a map.
  \<open>kvq_ordered_store\<close> adds the ordered lookups \<open>get_leq\<close>, \<open>get_leq_kv\<close> and
  \<open>get_fuzzy_range_leq_kv\<close>.
\<close>

record ('k, 'v) kvq_pair =
  pair_key :: 'k
  pair_value :: 'v

type_synonym kv = "(bytes, bytes) kvq_pair"

definition mk_pair :: "'k \<times> 'v \<Rightarrow> ('k, 'v) kvq_pair" where
  "mk_pair e = \<lparr>pair_key = fst e, pair_value = snd e\<rparr>"

lemma kvq_pair_collapse [simp]: "\<lparr>pair_key = pair_key p, pair_value = pair_value p\<rparr> = p"
  by (cases p) simp

record 's kvq_binary_store =
  st_get_exact_if_exists :: "'s \<Rightarrow> bytes \<Rightarrow> bytes option res"
  st_get_exact :: "'s \<Rightarrow> bytes \<Rightarrow> bytes res"
  st_get_many_exact :: "'s \<Rightarrow> bytes list \<Rightarrow> bytes list res"
  st_get_leq :: "'s \<Rightarrow> bytes \<Rightarrow> nat \<Rightarrow> bytes option res"
  st_get_fuzzy_range_leq_kv :: "'s \<Rightarrow> bytes \<Rightarrow> nat \<Rightarrow> kv list res"
  st_get_leq_kv :: "'s \<Rightarrow> bytes \<Rightarrow> nat \<Rightarrow> kv option res"
  st_get_many_leq :: "'s \<Rightarrow> bytes list \<Rightarrow> nat \<Rightarrow> bytes option list res"
  st_get_many_leq_kv :: "'s \<Rightarrow> bytes list \<Rightarrow> nat \<Rightarrow> kv option list res"
  st_set :: "'s \<Rightarrow> bytes \<Rightarrow> bytes \<Rightarrow> 's \<times> unit res"
  st_set_ref :: "'s \<Rightarrow> bytes \<Rightarrow> bytes \<Rightarrow> 's \<times> unit res"
  st_set_many_ref :: "'s \<Rightarrow> kv list \<Rightarrow> 's \<times> unit res"
  st_set_many_vec :: "'s \<Rightarrow> kv list \<Rightarrow> 's \<times> unit res"
  st_set_many_split_ref :: "'s \<Rightarrow> bytes list \<Rightarrow> bytes list \<Rightarrow> 's \<times> unit res"
  st_delete :: "'s \<Rightarrow> bytes \<Rightarrow> 's \<times> bool res"
  st_delete_many :: "'s \<Rightarrow> bytes list \<Rightarrow> 's \<times> bool list res"

section \<open>Provided methods of the reader trait\<close>

definition get_leq_u :: "'s kvq_binary_store \<Rightarrow> 's \<Rightarrow> bytes \<Rightarrow> nat \<Rightarrow> bytes res" where
  "get_leq_u S s key fuzzy = and_then (st_get_leq S s key fuzzy) unwrap_kv_result"

definition get_leq_kv_u :: "'s kvq_binary_store \<Rightarrow> 's \<Rightarrow> bytes \<Rightarrow> nat \<Rightarrow> kv res" where
  "get_leq_kv_u S s key fuzzy = and_then (st_get_leq_kv S s key fuzzy) unwrap_kv_result"

definition get_many_leq_u :: "'s kvq_binary_store \<Rightarrow> 's \<Rightarrow> bytes list \<Rightarrow> nat \<Rightarrow> bytes list res" where
  "get_many_leq_u S s keys fuzzy = and_then (st_get_many_leq S s keys fuzzy) unwrap_kv_vec_result"

definition get_many_leq_kv_u :: "'s kvq_binary_store \<Rightarrow> 's \<Rightarrow> bytes list \<Rightarrow> nat \<Rightarrow> kv list res" where
  "get_many_leq_kv_u S s keys fuzzy =
     and_then (st_get_many_leq_kv S s keys fuzzy) unwrap_kv_vec_result"

section \<open>Loops over a writer\<close>

text \<open>\<open>for key in keys { result.push(self.delete(key)?) }\<close>.\<close>

fun delete_loop :: "('s \<Rightarrow> 'k \<Rightarrow> 's \<times> 'b res) \<Rightarrow> 's \<Rightarrow> 'k list \<Rightarrow> 's \<times> 'b list res" where
  "delete_loop del s [] = (s, Inr [])"
| "delete_loop del s (k # ks) =
     (case del s k of
        (s', Inl e) \<Rightarrow> (s', Inl e)
      | (s', Inr b) \<Rightarrow>
          (case delete_loop del s' ks of
             (s'', Inl e) \<Rightarrow> (s'', Inl e)
           | (s'', Inr bs) \<Rightarrow> (s'', Inr (b # bs))))"

section \<open>KVQSimpleMemoryBackingStore\<close>

type_synonym simple_store = "(bytes, bytes) btree"

definition simple_new :: simple_store where
  "simple_new = []"

definition simple_clear :: "simple_store \<Rightarrow> simple_store" where
  "simple_clear m = []"

text \<open>
  The loop over the fuzzy suffix: \<open>base_key[key_len - i - 1] = 0\<close>, and \<open>sum_end\<close>, a \<open>u32\<close>
  accumulator that wraps in a release build.
\<close>

definition fuzzy_base :: "bytes \<Rightarrow> nat \<Rightarrow> bytes" where
  "fuzzy_base key fuzzy = fold (\<lambda>i base. base[length key - i - 1 := 0]) [0..<fuzzy] key"

definition fuzzy_sum :: "bytes \<Rightarrow> nat \<Rightarrow> u32" where
  "fuzzy_sum key fuzzy = fold (\<lambda>i sum_end. sum_end + ucast (key ! (length key - i - 1))) [0..<fuzzy] 0"

definition fuzzy_error :: fault where
  "fuzzy_error = Err ''Fuzzy bytes must be less than or equal to key length''"

definition simple_get_exact :: "simple_store \<Rightarrow> bytes \<Rightarrow> bytes res" where
  "simple_get_exact m key =
     (case bt_get m key of Some v \<Rightarrow> Inr v | None \<Rightarrow> Inl (Err ''Key not found''))"

definition simple_get_many_exact :: "simple_store \<Rightarrow> bytes list \<Rightarrow> bytes list res" where
  "simple_get_many_exact m keys = try_map (simple_get_exact m) keys"

definition simple_get_leq :: "simple_store \<Rightarrow> bytes \<Rightarrow> nat \<Rightarrow> bytes option res" where
  "simple_get_leq m key fuzzy =
     (if fuzzy > length key then Inl fuzzy_error
      else if fuzzy_sum key fuzzy = 0 then Inr (bt_get m key)
      else and_then (bt_range m (fuzzy_base key fuzzy) key) (\<lambda>rq.
           Inr (map_option snd (next_back rq))))"

definition simple_get_leq_kv :: "simple_store \<Rightarrow> bytes \<Rightarrow> nat \<Rightarrow> kv option res" where
  "simple_get_leq_kv m key fuzzy =
     (if fuzzy > length key then Inl fuzzy_error
      else and_then (bt_range m (fuzzy_base key fuzzy) key) (\<lambda>rq.
           Inr (map_option mk_pair (next_back rq))))"

definition simple_get_many_leq :: "simple_store \<Rightarrow> bytes list \<Rightarrow> nat \<Rightarrow> bytes option list res" where
  "simple_get_many_leq m keys fuzzy = try_map (\<lambda>k. simple_get_leq m k fuzzy) keys"

definition simple_get_many_leq_kv :: "simple_store \<Rightarrow> bytes list \<Rightarrow> nat \<Rightarrow> kv option list res" where
  "simple_get_many_leq_kv m keys fuzzy = try_map (\<lambda>k. simple_get_leq_kv m k fuzzy) keys"

definition simple_get_exact_if_exists :: "simple_store \<Rightarrow> bytes \<Rightarrow> bytes option res" where
  "simple_get_exact_if_exists m key = Inr (bt_get m key)"

definition simple_get_fuzzy_range_leq_kv :: "simple_store \<Rightarrow> bytes \<Rightarrow> nat \<Rightarrow> kv list res" where
  "simple_get_fuzzy_range_leq_kv m key fuzzy =
     (if fuzzy > length key then Inl fuzzy_error
      else and_then (bt_range m (fuzzy_base key fuzzy) key) (\<lambda>rq. Inr (map mk_pair rq)))"

definition simple_set :: "simple_store \<Rightarrow> bytes \<Rightarrow> bytes \<Rightarrow> simple_store \<times> unit res" where
  "simple_set m key v = (bt_insert key v m, Inr ())"

fun simple_set_many :: "simple_store \<Rightarrow> kv list \<Rightarrow> simple_store \<times> unit res" where
  "simple_set_many m [] = (m, Inr ())"
| "simple_set_many m (item # items) =
     simple_set_many (bt_insert (pair_key item) (pair_value item) m) items"

definition simple_delete :: "simple_store \<Rightarrow> bytes \<Rightarrow> simple_store \<times> bool res" where
  "simple_delete m key =
     (case bt_get m key of
        Some v \<Rightarrow> (bt_remove key m, Inr True)
      | None \<Rightarrow> (bt_remove key m, Inr False))"

definition simple_delete_many :: "simple_store \<Rightarrow> bytes list \<Rightarrow> simple_store \<times> bool list res" where
  "simple_delete_many m keys = delete_loop simple_delete m keys"

definition simple_set_many_split_ref ::
  "simple_store \<Rightarrow> bytes list \<Rightarrow> bytes list \<Rightarrow> simple_store \<times> unit res" where
  "simple_set_many_split_ref m keys values =
     (if length keys \<noteq> length values
      then (m, Inl (Err ''Keys and values must have the same length''))
      else (fold (\<lambda>i m. bt_insert (keys ! i) (values ! i) m) [0..<length keys] m, Inr ()))"

definition simple_binary_store :: "simple_store kvq_binary_store" where
  "simple_binary_store =
     \<lparr>st_get_exact_if_exists = simple_get_exact_if_exists,
      st_get_exact = simple_get_exact,
      st_get_many_exact = simple_get_many_exact,
      st_get_leq = simple_get_leq,
      st_get_fuzzy_range_leq_kv = simple_get_fuzzy_range_leq_kv,
      st_get_leq_kv = simple_get_leq_kv,
      st_get_many_leq = simple_get_many_leq,
      st_get_many_leq_kv = simple_get_many_leq_kv,
      st_set = simple_set,
      st_set_ref = simple_set,
      st_set_many_ref = simple_set_many,
      st_set_many_vec = simple_set_many,
      st_set_many_split_ref = simple_set_many_split_ref,
      st_delete = simple_delete,
      st_delete_many = simple_delete_many\<rparr>"

section \<open>Contracts\<close>

definition kv_map :: "kv list \<Rightarrow> bytes \<Rightarrow> bytes option" where
  "kv_map items = map_of (rev (map (\<lambda>p. (pair_key p, pair_value p)) items))"

locale kvq_store =
  fixes S :: "'s kvq_binary_store"
    and inv :: "'s \<Rightarrow> bool"
    and view :: "'s \<Rightarrow> bytes \<Rightarrow> bytes option"
  assumes get_if: "inv s \<Longrightarrow> st_get_exact_if_exists S s k = Inr (view s k)"
    and get_Some: "inv s \<Longrightarrow> view s k = Some v \<Longrightarrow> st_get_exact S s k = Inr v"
    and get_None: "inv s \<Longrightarrow> view s k = None \<Longrightarrow> \<exists>m. st_get_exact S s k = Inl (Err m)"
    and get_many: "inv s \<Longrightarrow> st_get_many_exact S s ks = try_map (st_get_exact S s) ks"
    and set_result: "inv s \<Longrightarrow> snd (st_set S s k v) = Inr ()"
    and set_view: "inv s \<Longrightarrow> view (fst (st_set S s k v)) = (view s)(k \<mapsto> v)"
    and set_inv: "inv s \<Longrightarrow> inv (fst (st_set S s k v))"
    and set_many_result: "inv s \<Longrightarrow> snd (st_set_many_vec S s items) = Inr ()"
    and set_many_view: "inv s \<Longrightarrow> view (fst (st_set_many_vec S s items)) = view s ++ kv_map items"
    and set_many_inv: "inv s \<Longrightarrow> inv (fst (st_set_many_vec S s items))"
    and del_result: "inv s \<Longrightarrow> is_ok (snd (st_delete S s k))"
    and del_view: "inv s \<Longrightarrow> view (fst (st_delete S s k)) = (view s)(k := None)"
    and del_inv: "inv s \<Longrightarrow> inv (fst (st_delete S s k))"
    and set_ref_eq: "inv s \<Longrightarrow> st_set_ref S s k v = st_set S s k v"
    and set_many_ref_eq: "inv s \<Longrightarrow> st_set_many_ref S s items = st_set_many_vec S s items"
    and del_many_eq: "inv s \<Longrightarrow> st_delete_many S s ks = delete_loop (st_delete S) s ks"
begin

lemma get_after_set:
  "inv s \<Longrightarrow> st_get_exact S (fst (st_set S s k v)) k = Inr v"
  by (rule get_Some) (simp_all add: set_inv set_view)

lemma get_other_after_set:
  "inv s \<Longrightarrow> k' \<noteq> k \<Longrightarrow>
   st_get_exact_if_exists S (fst (st_set S s k v)) k' = st_get_exact_if_exists S s k'"
  by (simp add: get_if set_inv set_view)

lemma get_after_delete:
  "inv s \<Longrightarrow> st_get_exact_if_exists S (fst (st_delete S s k)) k = Inr None"
  by (simp add: get_if del_inv del_view)

lemma get_ok_iff: "inv s \<Longrightarrow> st_get_exact S s k = Inr v \<longleftrightarrow> view s k = Some v"
  by (cases "view s k") (auto dest: get_None simp: get_Some)

lemma get_many_ok:
  "inv s \<Longrightarrow> st_get_many_exact S s ks = Inr vs \<longleftrightarrow> map (view s) ks = map Some vs"
  by (auto simp: get_many try_map_eq_Inr get_ok_iff list_all2_conv_all_nth list_eq_iff_nth_eq)

lemma delete_loop_view:
  "inv s \<Longrightarrow> view (fst (delete_loop (st_delete S) s ks)) = (\<lambda>k. if k \<in> set ks then None else view s k)
     \<and> inv (fst (delete_loop (st_delete S) s ks)) \<and> is_ok (snd (delete_loop (st_delete S) s ks))"
proof (induction ks arbitrary: s)
  case Nil
  then show ?case by simp
next
  case (Cons k ks)
  obtain s' b where d: "st_delete S s k = (s', Inr b)"
    using del_result[OF Cons.prems, of k] by (cases "st_delete S s k") (auto simp: is_ok_iff)
  then have i: "inv s'" and v: "view s' = (view s)(k := None)"
    using del_inv[OF Cons.prems, of k] del_view[OF Cons.prems, of k] by simp_all
  from Cons.IH[OF i] show ?case
    by (auto simp: d v is_ok_iff fun_eq_iff split: prod.splits sum.splits)
qed

end

text \<open>
  An ordered lookup answers the entry with the greatest key between the key with its last
  \<open>fuzzy\<close> bytes zeroed and the key itself.
\<close>

definition is_leq_answer :: "(bytes \<Rightarrow> bytes option) \<Rightarrow> bytes \<Rightarrow> nat \<Rightarrow> kv option \<Rightarrow> bool" where
  "is_leq_answer m key fuzzy r =
     (case r of
        None \<Rightarrow> \<forall>k. fuzzy_base key fuzzy \<le> k \<and> k \<le> key \<longrightarrow> m k = None
      | Some p \<Rightarrow> m (pair_key p) = Some (pair_value p) \<and>
          fuzzy_base key fuzzy \<le> pair_key p \<and> pair_key p \<le> key \<and>
          (\<forall>k. pair_key p < k \<and> k \<le> key \<longrightarrow> m k = None))"

text \<open>A range lookup answers the entries of that range, each once, in no promised order.\<close>

definition is_range_answer :: "(bytes \<Rightarrow> bytes option) \<Rightarrow> bytes \<Rightarrow> nat \<Rightarrow> kv list \<Rightarrow> bool" where
  "is_range_answer m key fuzzy ps \<longleftrightarrow>
     distinct (map pair_key ps) \<and>
     (\<forall>k v. \<lparr>pair_key = k, pair_value = v\<rparr> \<in> set ps \<longleftrightarrow>
        fuzzy_base key fuzzy \<le> k \<and> k \<le> key \<and> m k = Some v)"

locale kvq_range_store = kvq_store +
  assumes range_kv: "inv s \<Longrightarrow> fuzzy \<le> length key \<Longrightarrow>
      \<exists>ps. st_get_fuzzy_range_leq_kv S s key fuzzy = Inr ps \<and> is_range_answer (view s) key fuzzy ps"
    and range_error: "inv s \<Longrightarrow> fuzzy > length key \<Longrightarrow> st_get_fuzzy_range_leq_kv S s key fuzzy = Inl fuzzy_error"
begin

lemma range_mem:
  "inv s \<Longrightarrow> fuzzy \<le> length key \<Longrightarrow> st_get_fuzzy_range_leq_kv S s key fuzzy = Inr ps \<Longrightarrow>
   p \<in> set ps \<longleftrightarrow> fuzzy_base key fuzzy \<le> pair_key p \<and> pair_key p \<le> key \<and>
     view s (pair_key p) = Some (pair_value p)"
  using range_kv[of s fuzzy key] by (cases p) (auto simp: is_range_answer_def)

end

locale kvq_ordered_store = kvq_range_store +
  assumes leq_kv: "inv s \<Longrightarrow> fuzzy \<le> length key \<Longrightarrow>
      \<exists>r. st_get_leq_kv S s key fuzzy = Inr r \<and> is_leq_answer (view s) key fuzzy r"
    and leq_kv_error: "inv s \<Longrightarrow> fuzzy > length key \<Longrightarrow> st_get_leq_kv S s key fuzzy = Inl fuzzy_error"
begin

text \<open>The answer is determined by the contents of the store.\<close>

lemma leq_answer_unique:
  "is_leq_answer m key fuzzy r \<Longrightarrow> is_leq_answer m key fuzzy r' \<Longrightarrow> r = r'"
  by (cases r; cases r')
    (auto simp: is_leq_answer_def intro: kvq_pair.equality, (metis linorder_neqE option.distinct(1)
        option.inject kvq_pair.equality old.unit.exhaust)+)

lemma leq_kv_own_key:
  assumes "inv s" and "fuzzy \<le> length key" and "view s key = Some v"
    and "fuzzy_base key fuzzy \<le> key"
  shows "st_get_leq_kv S s key fuzzy = Inr (Some \<lparr>pair_key = key, pair_value = v\<rparr>)"
proof -
  obtain r where r: "st_get_leq_kv S s key fuzzy = Inr r" "is_leq_answer (view s) key fuzzy r"
    using leq_kv assms(1,2) by blast
  have "is_leq_answer (view s) key fuzzy (Some \<lparr>pair_key = key, pair_value = v\<rparr>)"
    using assms(3,4) by (auto simp: is_leq_answer_def)
  then show ?thesis using r leq_answer_unique by blast
qed

end

section \<open>The fuzzy range\<close>

lemma list_le_append_zeros: "take n xs @ replicate (length xs - n) 0 \<le> (xs :: bytes)"
proof (induction xs arbitrary: n)
  case Nil
  then show ?case by simp
next
  case (Cons x xs)
  show ?case
  proof (cases n)
    case 0
    then show ?thesis using Cons[of 0] by (auto simp: word_coorder.not_eq_extremum)
  next
    case (Suc m)
    then show ?thesis using Cons[of m] by simp
  qed
qed

lemma fuzzy_base_eq:
  "fuzzy \<le> length key \<Longrightarrow> fuzzy_base key fuzzy = take (length key - fuzzy) key @ replicate fuzzy 0"
proof (induction fuzzy)
  case 0
  then show ?case by (simp add: fuzzy_base_def)
next
  case (Suc f)
  let ?n = "length key - Suc f"
  have n: "length key - f = Suc ?n" using Suc.prems by simp
  have "fuzzy_base key (Suc f) = (fuzzy_base key f)[?n := 0]"
    by (simp add: fuzzy_base_def)
  also have "\<dots> = (take (Suc ?n) key @ replicate f 0)[?n := 0]"
    using Suc n by simp
  also have "\<dots> = take ?n key @ 0 # replicate f 0"
    using Suc.prems by (simp add: take_Suc_conv_app_nth list_update_append)
  finally show ?case by (simp add: replicate_append_same[symmetric])
qed

lemma fuzzy_base_le: "fuzzy \<le> length key \<Longrightarrow> fuzzy_base key fuzzy \<le> key"
  using list_le_append_zeros[of "length key - fuzzy" key] by (simp add: fuzzy_base_eq)

lemma unat_ucast_byte: "unat (ucast (b :: u8) :: u32) = unat b"
  by (simp add: unsigned_ucast_eq take_bit_nat_eq_self_iff) (use unat_byte_less[of b] in simp)

lemma fuzzy_sum_unat:
  assumes "fuzzy \<le> length key" and "fuzzy \<le> 2 ^ 24"
  shows "unat (fuzzy_sum key fuzzy) = sum_list (map (\<lambda>i. unat (key ! (length key - i - 1))) [0..<fuzzy])
    \<and> unat (fuzzy_sum key fuzzy) \<le> 255 * fuzzy"
  using assms
proof (induction fuzzy)
  case 0
  then show ?case by (simp add: fuzzy_sum_def)
next
  case (Suc f)
  let ?b = "key ! (length key - f - 1)"
  have IH: "unat (fuzzy_sum key f) = sum_list (map (\<lambda>i. unat (key ! (length key - i - 1))) [0..<f])"
    "unat (fuzzy_sum key f) \<le> 255 * f" using Suc by simp_all
  have s: "fuzzy_sum key (Suc f) = fuzzy_sum key f + ucast ?b" by (simp add: fuzzy_sum_def)
  have b: "unat ?b \<le> 255" using unat_byte_less[of ?b] by simp
  have "unat (fuzzy_sum key f) + unat ?b < 2 ^ 32" using IH(2) b Suc.prems(2) by simp
  then have "unat (fuzzy_sum key (Suc f)) = unat (fuzzy_sum key f) + unat ?b"
    by (simp add: s unat_word_ariths unat_ucast_byte)
  with IH b show ?case by simp
qed

lemma fuzzy_sum_zero:
  assumes "fuzzy \<le> length key" and "fuzzy \<le> 2 ^ 24" and "fuzzy_sum key fuzzy = 0"
  shows "fuzzy_base key fuzzy = key"
proof -
  have "sum_list (map (\<lambda>i. unat (key ! (length key - i - 1))) [0..<fuzzy]) = 0"
    using fuzzy_sum_unat[OF assms(1,2)] assms(3) by simp
  then have z: "key ! (length key - i - 1) = 0" if "i < fuzzy" for i
    using that by (simp add: sum_list_eq_0_iff unat_eq_0)
  have "take (length key - fuzzy) key @ replicate fuzzy 0 = key"
  proof (rule nth_equalityI)
    show "length (take (length key - fuzzy) key @ replicate fuzzy 0) = length key"
      using assms(1) by simp
  next
    fix i assume "i < length (take (length key - fuzzy) key @ replicate fuzzy 0)"
    then have i: "i < length key" using assms(1) by simp
    show "(take (length key - fuzzy) key @ replicate fuzzy 0) ! i = key ! i"
    proof (cases "i < length key - fuzzy")
      case True
      then show ?thesis by (simp add: nth_append)
    next
      case False
      then have "key ! i = 0" using z[of "length key - i - 1"] i assms(1) by simp
      then show ?thesis using False i assms(1) by (simp add: nth_append)
    qed
  qed
  then show ?thesis using assms(1) by (simp add: fuzzy_base_eq)
qed

text \<open>A key of the same length in the fuzzy range has the same leading bytes.\<close>

lemma same_prefix:
  "length k = length xs + n \<Longrightarrow> length ys = n \<Longrightarrow> xs @ replicate n 0 \<le> k \<Longrightarrow> k \<le> xs @ ys \<Longrightarrow>
   take (length xs) k = (xs :: bytes)"
proof (induction xs arbitrary: k)
  case Nil
  then show ?case by simp
next
  case (Cons x xs)
  then obtain b k' where k: "k = b # k'" by (cases k) auto
  with Cons.prems have "b = x" by (auto simp: not_less_iff_gr_or_eq)
  with Cons.prems k show ?case using Cons.IH[of k'] by simp
qed

lemma fuzzy_range_prefix:
  assumes "fuzzy \<le> length key" and "length k = length key"
    and "fuzzy_base key fuzzy \<le> k" and "k \<le> key"
  shows "take (length key - fuzzy) k = take (length key - fuzzy) key"
  using same_prefix[of k "take (length key - fuzzy) key" fuzzy "drop (length key - fuzzy) key"] assms
  by (simp add: fuzzy_base_eq)

section \<open>The memory store meets the contract\<close>

lemma simple_set_many_eq:
  "simple_set_many m items
     = (fold (\<lambda>(k, v). bt_insert k v) (map (\<lambda>p. (pair_key p, pair_value p)) items) m, Inr ())"
  by (induction items arbitrary: m) auto

lemma simple_get_exact_eq: "simple_get_exact m k = Inr v \<longleftrightarrow> bt_get m k = Some v"
  by (simp add: simple_get_exact_def split: option.splits)

lemma simple_leq_answer:
  assumes "bt_inv m" and "fuzzy \<le> length key"
  shows "\<exists>r. simple_get_leq_kv m key fuzzy = Inr r \<and> is_leq_answer (bt_get m) key fuzzy r"
proof -
  let ?p = "\<lambda>e. fuzzy_base key fuzzy \<le> fst e \<and> fst e \<le> key"
  let ?r = "map_option mk_pair (next_back (filter ?p m))"
  have "simple_get_leq_kv m key fuzzy = Inr ?r"
    using assms(2) fuzzy_base_le[OF assms(2)] by (simp add: simple_get_leq_kv_def bt_range_ok)
  moreover have "is_leq_answer (bt_get m) key fuzzy ?r"
  proof (cases "next_back (filter ?p m)")
    case None
    then have "filter ?p m = []" by simp
    then have "bt_get m k = None" if "fuzzy_base key fuzzy \<le> k" "k \<le> key" for k
      using that by (auto simp: bt_get_eq_None filter_empty_conv)
    then show ?thesis using None by (simp add: is_leq_answer_def)
  next
    case (Some e)
    note nb = next_back_filter[OF assms(1) Some]
    from nb have "bt_get m (fst e) = Some (snd e)"
      using assms(1) by (simp add: bt_get_eq_Some)
    moreover have "bt_get m k = None" if "fst e < k" "k \<le> key" for k
      using nb that by (auto simp: bt_get_eq_None)
    ultimately show ?thesis using Some nb by (simp add: is_leq_answer_def mk_pair_def)
  qed
  ultimately show ?thesis by blast
qed

lemma pair_key_mk_pair [simp]: "pair_key (mk_pair e) = fst e" "pair_value (mk_pair e) = snd e"
  by (simp_all add: mk_pair_def)

lemma mk_pair_eq: "mk_pair e = \<lparr>pair_key = k, pair_value = v\<rparr> \<longleftrightarrow> e = (k, v)"
  by (cases e) (simp add: mk_pair_def)

lemma mk_pair_image: "\<lparr>pair_key = k, pair_value = v\<rparr> \<in> mk_pair ` A \<longleftrightarrow> (k, v) \<in> A"
  by (metis (no_types, lifting) imageE image_eqI mk_pair_eq)

lemma simple_range_answer:
  assumes "bt_inv m" and "fuzzy \<le> length key"
  shows "\<exists>ps. simple_get_fuzzy_range_leq_kv m key fuzzy = Inr ps \<and> is_range_answer (bt_get m) key fuzzy ps"
proof -
  let ?f = "filter (\<lambda>e. fuzzy_base key fuzzy \<le> fst e \<and> fst e \<le> key) m"
  have "simple_get_fuzzy_range_leq_kv m key fuzzy = Inr (map mk_pair ?f)"
    using assms(2) fuzzy_base_le[OF assms(2)] by (simp add: simple_get_fuzzy_range_leq_kv_def bt_range_ok)
  moreover have "distinct (map pair_key (map mk_pair ?f))"
    using bt_inv_distinct[OF bt_inv_filter[OF assms(1)]] by (simp add: comp_def)
  ultimately show ?thesis
    using assms(1) by (auto simp: is_range_answer_def mk_pair_image bt_get_eq_Some)
qed

interpretation simple: kvq_ordered_store simple_binary_store bt_inv bt_get
proof unfold_locales
  fix s :: simple_store and k v :: bytes and ks items
  assume i: "bt_inv s"
  show "st_get_exact_if_exists simple_binary_store s k = Inr (bt_get s k)"
    by (simp add: simple_binary_store_def simple_get_exact_if_exists_def)
  show "bt_get s k = Some v \<Longrightarrow> st_get_exact simple_binary_store s k = Inr v"
    by (simp add: simple_binary_store_def simple_get_exact_def)
  show "bt_get s k = None \<Longrightarrow> \<exists>m. st_get_exact simple_binary_store s k = Inl (Err m)"
    by (simp add: simple_binary_store_def simple_get_exact_def)
  show "st_get_many_exact simple_binary_store s ks = try_map (st_get_exact simple_binary_store s) ks"
    by (simp add: simple_binary_store_def simple_get_many_exact_def)
  show "snd (st_set simple_binary_store s k v) = Inr ()"
    "bt_get (fst (st_set simple_binary_store s k v)) = (bt_get s)(k \<mapsto> v)"
    "bt_inv (fst (st_set simple_binary_store s k v))"
    using i by (simp_all add: simple_binary_store_def simple_set_def bt_get_insert bt_inv_insert)
  show "snd (st_set_many_vec simple_binary_store s items) = Inr ()"
    "bt_get (fst (st_set_many_vec simple_binary_store s items)) = bt_get s ++ kv_map items"
    "bt_inv (fst (st_set_many_vec simple_binary_store s items))"
    using i by (simp_all add: simple_binary_store_def simple_set_many_eq bt.get_fold_ins
        bt.inv_fold_ins kv_map_def rev_map)
  show "is_ok (snd (st_delete simple_binary_store s k))"
    "bt_get (fst (st_delete simple_binary_store s k)) = (bt_get s)(k := None)"
    "bt_inv (fst (st_delete simple_binary_store s k))"
    using i by (simp_all add: simple_binary_store_def simple_delete_def bt_get_remove
        bt_inv_remove split: option.splits)
  show "st_set_ref simple_binary_store s k v = st_set simple_binary_store s k v"
    "st_set_many_ref simple_binary_store s items = st_set_many_vec simple_binary_store s items"
    "st_delete_many simple_binary_store s ks = delete_loop (st_delete simple_binary_store) s ks"
    by (simp_all add: simple_binary_store_def simple_delete_many_def)
next
  fix s :: simple_store and fuzzy :: nat and key :: bytes
  show "bt_inv s \<Longrightarrow> fuzzy \<le> length key \<Longrightarrow>
    \<exists>ps. st_get_fuzzy_range_leq_kv simple_binary_store s key fuzzy = Inr ps \<and>
      is_range_answer (bt_get s) key fuzzy ps"
    using simple_range_answer[of s fuzzy key] by (simp add: simple_binary_store_def)
  show "length key < fuzzy \<Longrightarrow>
    st_get_fuzzy_range_leq_kv simple_binary_store s key fuzzy = Inl fuzzy_error"
    by (simp add: simple_binary_store_def simple_get_fuzzy_range_leq_kv_def)
next
  fix s :: simple_store and fuzzy :: nat and key :: bytes
  show "bt_inv s \<Longrightarrow> fuzzy \<le> length key \<Longrightarrow>
    \<exists>r. st_get_leq_kv simple_binary_store s key fuzzy = Inr r \<and> is_leq_answer (bt_get s) key fuzzy r"
    using simple_leq_answer[of s fuzzy key] by (simp add: simple_binary_store_def)
  show "length key < fuzzy \<Longrightarrow> st_get_leq_kv simple_binary_store s key fuzzy = Inl fuzzy_error"
    by (simp add: simple_binary_store_def simple_get_leq_kv_def)
qed

lemma simple_get_leq_eq:
  assumes "bt_inv m" and "fuzzy \<le> 2 ^ 24"
  shows "simple_get_leq m key fuzzy
    = and_then (simple_get_leq_kv m key fuzzy) (\<lambda>r. Inr (map_option pair_value r))"
proof (cases "fuzzy \<le> length key \<and> fuzzy_sum key fuzzy = 0")
  case True
  then have b: "fuzzy_base key fuzzy = key" using fuzzy_sum_zero assms(2) by blast
  obtain r where r: "simple_get_leq_kv m key fuzzy = Inr r" "is_leq_answer (bt_get m) key fuzzy r"
    using simple_leq_answer[OF assms(1), of fuzzy key] True by auto
  have "map_option pair_value r = bt_get m key"
    using r(2) b by (auto simp: is_leq_answer_def split: option.splits)
  then show ?thesis using True r(1) by (simp add: simple_get_leq_def)
next
  case False
  then show ?thesis
    using fuzzy_base_le[of fuzzy key]
    by (auto simp: simple_get_leq_def simple_get_leq_kv_def bt_range_ok mk_pair_def
        option.map_comp comp_def)
qed

end
