(* ===== verification/Kvq_Cache.thy ===== *)
theory Kvq_Cache
  imports Kvq_Store
begin

text \<open>
  The write-back cache of \<open>kvq/src/cache/mod.rs\<close>: a \<open>BTreeMap\<close> of cached values and
  tombstones (\<open>Removed\<close>) in front of a shared store. The shared store is a dictionary \<open>S\<close>
  over a state kept in \<open>cs_store\<close>; its \<open>imm_*\<close> writers (interior mutability behind \<open>Arc\<close>)
  are the writers of \<open>S\<close> on that state.

  The cache meets the \<open>kvq_range_store\<close> contract over the overlay of the two maps, and flushing
  moves the overlay into the shared store. The ordered lookups do not meet
  \<open>kvq_ordered_store\<close>: the theorems at the end say when they do and show what they answer
  otherwise.
\<close>

datatype cache_value = CBytes bytes | CRemoved

record 's cached_store =
  cs_store :: 's
  cs_map :: "(bytes, cache_value) btree"
  cs_proper_delete_return :: bool

definition cached_new :: "'s \<Rightarrow> 's cached_store" where
  "cached_new store = \<lparr>cs_store = store, cs_map = [], cs_proper_delete_return = False\<rparr>"

definition cached_is_removed :: "'s cached_store \<Rightarrow> bytes \<Rightarrow> bool" where
  "cached_is_removed c key =
     (case bt_get (cs_map c) key of
        Some (CBytes b) \<Rightarrow> False
      | Some CRemoved \<Rightarrow> True
      | None \<Rightarrow> False)"

definition live :: "bytes \<times> cache_value \<Rightarrow> bool" where
  "live e = (case snd e of CBytes b \<Rightarrow> True | CRemoved \<Rightarrow> False)"

definition cached_get_non_removed_keys :: "'s cached_store \<Rightarrow> bytes list" where
  "cached_get_non_removed_keys c = map fst (filter live (cs_map c))"

definition cached_get_removed_keys :: "'s cached_store \<Rightarrow> bytes list" where
  "cached_get_removed_keys c = map fst (filter (Not \<circ> live) (cs_map c))"

definition cached_pair :: "bytes \<times> cache_value \<Rightarrow> kv res" where
  "cached_pair e =
     (case snd e of
        CBytes b \<Rightarrow> Inr \<lparr>pair_key = fst e, pair_value = b\<rparr>
      | CRemoved \<Rightarrow> Inl (Err ''Cannot flush changes with removed keys''))"

definition cached_flush_changes ::
  "'s cached_store \<Rightarrow> 's cached_store \<times> (kv list \<times> bytes list) res" where
  "cached_flush_changes c =
     (case try_map cached_pair (filter live (cs_map c)) of
        Inl e \<Rightarrow> (c, Inl e)
      | Inr set_keys \<Rightarrow> (c\<lparr>cs_map := []\<rparr>, Inr (set_keys, cached_get_removed_keys c)))"

definition cached_flush_simple ::
  "'s kvq_binary_store \<Rightarrow> 's cached_store \<Rightarrow> 's cached_store \<times> unit res" where
  "cached_flush_simple S c =
     (case try_map cached_pair (filter live (cs_map c)) of
        Inl e \<Rightarrow> (c, Inl e)
      | Inr keys_to_set \<Rightarrow>
          (case st_set_many_ref S (cs_store c) keys_to_set of
             (s', Inl e) \<Rightarrow> (c\<lparr>cs_store := s'\<rparr>, Inl e)
           | (s', Inr _) \<Rightarrow>
               (case st_delete_many S s' (cached_get_removed_keys c) of
                  (s'', Inl e) \<Rightarrow> (c\<lparr>cs_store := s''\<rparr>, Inl e)
                | (s'', Inr _) \<Rightarrow> (c\<lparr>cs_store := s'', cs_map := []\<rparr>, Inr ()))))"

section \<open>Reader\<close>

definition cached_get_exact :: "'s kvq_binary_store \<Rightarrow> 's cached_store \<Rightarrow> bytes \<Rightarrow> bytes res" where
  "cached_get_exact S c key =
     (case bt_get (cs_map c) key of
        Some (CBytes b) \<Rightarrow> Inr b
      | Some CRemoved \<Rightarrow> Inl (Err ''Key not found'')
      | None \<Rightarrow> st_get_exact S (cs_store c) key)"

definition cached_get_many_exact ::
  "'s kvq_binary_store \<Rightarrow> 's cached_store \<Rightarrow> bytes list \<Rightarrow> bytes list res" where
  "cached_get_many_exact S c keys = try_map (cached_get_exact S c) keys"

definition cached_get_exact_if_exists ::
  "'s kvq_binary_store \<Rightarrow> 's cached_store \<Rightarrow> bytes \<Rightarrow> bytes option res" where
  "cached_get_exact_if_exists S c key =
     (case bt_get (cs_map c) key of
        Some (CBytes b) \<Rightarrow> Inr (Some b)
      | Some CRemoved \<Rightarrow> Inr None
      | None \<Rightarrow> st_get_exact_if_exists S (cs_store c) key)"

text \<open>The loop over the cached range stops at the first entry that is not a tombstone.\<close>

fun first_live :: "(bytes \<times> cache_value) list \<Rightarrow> kv option" where
  "first_live [] = None"
| "first_live ((k, CBytes b) # rq) = Some \<lparr>pair_key = k, pair_value = b\<rparr>"
| "first_live ((k, CRemoved) # rq) = first_live rq"

definition cached_get_leq ::
  "'s kvq_binary_store \<Rightarrow> 's cached_store \<Rightarrow> bytes \<Rightarrow> nat \<Rightarrow> bytes option res" where
  "cached_get_leq S c key fuzzy =
     (if fuzzy > length key then Inl fuzzy_error
      else if fuzzy_sum key fuzzy = 0 then
        (case bt_get (cs_map c) key of
           Some (CBytes b) \<Rightarrow> Inr (Some b)
         | Some CRemoved \<Rightarrow> Inr None
         | None \<Rightarrow> st_get_leq S (cs_store c) key fuzzy)
      else and_then (bt_range (cs_map c) (fuzzy_base key fuzzy) key) (\<lambda>rq.
        case first_live rq of
          Some rok \<Rightarrow>
            and_then (st_get_leq_kv S (cs_store c) key fuzzy) (\<lambda>d1_leq.
            case d1_leq of
              Some rnt \<Rightarrow> Inr (Some (if pair_key rnt > pair_key rok then pair_value rnt else pair_value rok))
            | None \<Rightarrow> Inr (Some (pair_value rok)))
        | None \<Rightarrow> st_get_leq S (cs_store c) key fuzzy))"

definition cached_get_leq_kv ::
  "'s kvq_binary_store \<Rightarrow> 's cached_store \<Rightarrow> bytes \<Rightarrow> nat \<Rightarrow> kv option res" where
  "cached_get_leq_kv S c key fuzzy =
     (if fuzzy > length key then Inl fuzzy_error
      else if fuzzy_sum key fuzzy = 0 then
        (case bt_get (cs_map c) key of
           Some (CBytes b) \<Rightarrow> Inr (Some \<lparr>pair_key = key, pair_value = b\<rparr>)
         | Some CRemoved \<Rightarrow> Inr None
         | None \<Rightarrow> st_get_leq_kv S (cs_store c) key fuzzy)
      else and_then (bt_range (cs_map c) (fuzzy_base key fuzzy) key) (\<lambda>rq.
        case first_live rq of
          Some rok \<Rightarrow>
            and_then (st_get_leq_kv S (cs_store c) key fuzzy) (\<lambda>d1_leq.
            case d1_leq of
              Some rnt \<Rightarrow> Inr (Some (if pair_key rnt > pair_key rok then rnt else rok))
            | None \<Rightarrow> Inr (Some rok))
        | None \<Rightarrow> st_get_leq_kv S (cs_store c) key fuzzy))"

definition cached_get_many_leq ::
  "'s kvq_binary_store \<Rightarrow> 's cached_store \<Rightarrow> bytes list \<Rightarrow> nat \<Rightarrow> bytes option list res" where
  "cached_get_many_leq S c keys fuzzy = try_map (\<lambda>k. cached_get_leq S c k fuzzy) keys"

definition cached_get_many_leq_kv ::
  "'s kvq_binary_store \<Rightarrow> 's cached_store \<Rightarrow> bytes list \<Rightarrow> nat \<Rightarrow> kv option list res" where
  "cached_get_many_leq_kv S c keys fuzzy = try_map (\<lambda>k. cached_get_leq_kv S c k fuzzy) keys"

definition cached_get_fuzzy_range_leq_kv ::
  "'s kvq_binary_store \<Rightarrow> 's cached_store \<Rightarrow> bytes \<Rightarrow> nat \<Rightarrow> kv list res" where
  "cached_get_fuzzy_range_leq_kv S c key fuzzy =
     (if fuzzy > length key then Inl fuzzy_error
      else and_then (bt_range (cs_map c) (fuzzy_base key fuzzy) key) (\<lambda>rq.
           and_then (st_get_fuzzy_range_leq_kv S (cs_store c) key fuzzy) (\<lambda>stored.
           Inr (map (\<lambda>(k, v). \<lparr>pair_key = k, pair_value = (case v of CBytes b \<Rightarrow> b | CRemoved \<Rightarrow> [])\<rparr>)
                  (filter live rq)
                @ filter (\<lambda>x. \<not> bt_contains_key (cs_map c) (pair_key x)) stored))))"

section \<open>Writer\<close>

definition cached_insert :: "bytes \<Rightarrow> cache_value \<Rightarrow> 's cached_store \<Rightarrow> 's cached_store" where
  "cached_insert key v c = c\<lparr>cs_map := bt_insert key v (cs_map c)\<rparr>"

definition cached_set :: "'s cached_store \<Rightarrow> bytes \<Rightarrow> bytes \<Rightarrow> 's cached_store \<times> unit res" where
  "cached_set c key v = (cached_insert key (CBytes v) c, Inr ())"

fun cached_set_many :: "'s cached_store \<Rightarrow> kv list \<Rightarrow> 's cached_store \<times> unit res" where
  "cached_set_many c [] = (c, Inr ())"
| "cached_set_many c (item # items) =
     cached_set_many (cached_insert (pair_key item) (CBytes (pair_value item)) c) items"

text \<open>
  \<open>delete\<close> writes the tombstone first and asks \<open>get_exact_if_exists\<close> afterwards.
\<close>

definition cached_delete ::
  "'s kvq_binary_store \<Rightarrow> 's cached_store \<Rightarrow> bytes \<Rightarrow> 's cached_store \<times> bool res" where
  "cached_delete S c key =
     (let r = bt_get (cs_map c) key;
          c' = cached_insert key CRemoved c
      in if r = None then
           if cs_proper_delete_return c' then
             (c', and_then (cached_get_exact_if_exists S c' key) (\<lambda>r1. Inr (r1 \<noteq> None)))
           else (c', Inr False)
         else (c', Inr True))"

definition cached_delete_many ::
  "'s kvq_binary_store \<Rightarrow> 's cached_store \<Rightarrow> bytes list \<Rightarrow> 's cached_store \<times> bool list res" where
  "cached_delete_many S c keys = delete_loop (cached_delete S) c keys"

definition cached_set_many_split_ref ::
  "'s cached_store \<Rightarrow> bytes list \<Rightarrow> bytes list \<Rightarrow> 's cached_store \<times> unit res" where
  "cached_set_many_split_ref c keys values =
     (if length keys \<noteq> length values
      then (c, Inl (Err ''Keys and values must have the same length''))
      else (fold (\<lambda>i c. cached_insert (keys ! i) (CBytes (values ! i)) c) [0..<length keys] c, Inr ()))"

definition cached_binary_store :: "'s kvq_binary_store \<Rightarrow> 's cached_store kvq_binary_store" where
  "cached_binary_store S =
     \<lparr>st_get_exact_if_exists = cached_get_exact_if_exists S,
      st_get_exact = cached_get_exact S,
      st_get_many_exact = cached_get_many_exact S,
      st_get_leq = cached_get_leq S,
      st_get_fuzzy_range_leq_kv = cached_get_fuzzy_range_leq_kv S,
      st_get_leq_kv = cached_get_leq_kv S,
      st_get_many_leq = cached_get_many_leq S,
      st_get_many_leq_kv = cached_get_many_leq_kv S,
      st_set = cached_set,
      st_set_ref = cached_set,
      st_set_many_ref = cached_set_many,
      st_set_many_vec = cached_set_many,
      st_set_many_split_ref = cached_set_many_split_ref,
      st_delete = cached_delete S,
      st_delete_many = cached_delete_many S\<rparr>"

section \<open>The overlay\<close>

definition overlay :: "(bytes, cache_value) btree \<Rightarrow> (bytes \<Rightarrow> bytes option) \<Rightarrow> bytes \<Rightarrow> bytes option" where
  "overlay m below k =
     (case bt_get m k of Some (CBytes b) \<Rightarrow> Some b | Some CRemoved \<Rightarrow> None | None \<Rightarrow> below k)"

definition cached_view :: "('s \<Rightarrow> bytes \<Rightarrow> bytes option) \<Rightarrow> 's cached_store \<Rightarrow> bytes \<Rightarrow> bytes option" where
  "cached_view view c = overlay (cs_map c) (view (cs_store c))"

definition cached_inv :: "('s \<Rightarrow> bool) \<Rightarrow> 's cached_store \<Rightarrow> bool" where
  "cached_inv I c \<longleftrightarrow> I (cs_store c) \<and> bt_inv (cs_map c)"

lemma cached_insert_simps [simp]:
  "cs_store (cached_insert k v c) = cs_store c"
  "cs_map (cached_insert k v c) = bt_insert k v (cs_map c)"
  "cs_proper_delete_return (cached_insert k v c) = cs_proper_delete_return c"
  by (simp_all add: cached_insert_def)

lemma overlay_insert [store_simps]:
  "overlay (bt_insert k (CBytes v) m) below = (overlay m below)(k \<mapsto> v)"
  "overlay (bt_insert k CRemoved m) below = (overlay m below)(k := None)"
  by (auto simp: overlay_def bt_get_insert fun_eq_iff)

lemma overlay_Nil [simp]: "overlay [] below = below"
  by (simp add: overlay_def fun_eq_iff)

lemma cached_inv_insert [simp]: "cached_inv I c \<Longrightarrow> cached_inv I (cached_insert k v c)"
  by (simp add: cached_inv_def)

lemma cached_set_many_view:
  "cached_view view (fst (cached_set_many c items)) = cached_view view c ++ kv_map items"
proof (induction items arbitrary: c)
  case Nil
  then show ?case by (simp add: kv_map_def)
next
  case (Cons p items)
  then show ?case
    by (auto simp: cached_view_def store_simps kv_map_def fun_eq_iff map_add_def split: option.splits)
qed

lemma cached_set_many_inv:
  "cached_inv I c \<Longrightarrow> cached_inv I (fst (cached_set_many c items))
     \<and> snd (cached_set_many c items) = Inr ()"
  by (induction items arbitrary: c) auto

lemma live_simps [simp]:
  "live (k, CBytes b) = True"
  "live (k, CRemoved) = False"
  by (simp_all add: live_def)

lemma live_iff: "live e \<longleftrightarrow> (\<exists>b. snd e = CBytes b)"
  by (auto simp: live_def split: cache_value.splits)

lemma not_live_iff: "\<not> live e \<longleftrightarrow> snd e = CRemoved"
  by (auto simp: live_def split: cache_value.splits)

lemma overlay_Some_iff:
  assumes "bt_inv m"
  shows "overlay m below k = Some v \<longleftrightarrow> (k, CBytes v) \<in> set m \<or> (\<not> bt_contains_key m k \<and> below k = Some v)"
  by (simp add: bt_get_eq_Some[OF assms, symmetric] overlay_def bt_contains_key_def
      split: option.splits cache_value.splits)

section \<open>The cache meets the map and range contracts\<close>

definition cached_kv :: "bytes \<times> cache_value \<Rightarrow> kv" where
  "cached_kv = (\<lambda>(k, v). \<lparr>pair_key = k, pair_value = (case v of CBytes b \<Rightarrow> b | CRemoved \<Rightarrow> [])\<rparr>)"

lemma cached_kv_eq:
  "live e \<Longrightarrow> cached_kv e = \<lparr>pair_key = k, pair_value = v\<rparr> \<longleftrightarrow> e = (k, CBytes v)"
proof (cases e)
  case (Pair a w)
  then show "live e \<Longrightarrow> ?thesis" by (cases w) (simp_all add: cached_kv_def)
qed

lemma cached_kv_image:
  "\<lparr>pair_key = k, pair_value = v\<rparr> \<in> cached_kv ` set (filter live m) \<longleftrightarrow> (k, CBytes v) \<in> set m"
proof -
  have "\<lparr>pair_key = k, pair_value = v\<rparr> \<in> cached_kv ` set (filter live m) \<longleftrightarrow>
      (\<exists>e \<in> set (filter live m). cached_kv e = \<lparr>pair_key = k, pair_value = v\<rparr>)"
    by (metis (no_types, lifting) imageE image_eqI)
  also have "\<dots> \<longleftrightarrow> (\<exists>e \<in> set (filter live m). e = (k, CBytes v))"
    by (intro bex_cong refl cached_kv_eq) simp
  also have "\<dots> \<longleftrightarrow> (k, CBytes v) \<in> set m" by auto
  finally show ?thesis .
qed

lemma pair_key_cached_kv [simp]: "pair_key (cached_kv e) = fst e"
  by (cases e) (simp add: cached_kv_def)

context kvq_range_store
begin

lemma cached_range_answer:
  assumes i: "cached_inv inv c" and f: "fuzzy \<le> length key"
  shows "\<exists>ps. cached_get_fuzzy_range_leq_kv S c key fuzzy = Inr ps
    \<and> is_range_answer (cached_view view c) key fuzzy ps"
proof -
  let ?in = "\<lambda>k. fuzzy_base key fuzzy \<le> k \<and> k \<le> key"
  let ?rq = "filter (\<lambda>e. ?in (fst e)) (cs_map c)"
  have m: "bt_inv (cs_map c)" and s: "inv (cs_store c)" using i by (simp_all add: cached_inv_def)
  obtain ps where ps: "st_get_fuzzy_range_leq_kv S (cs_store c) key fuzzy = Inr ps"
    and r: "is_range_answer (view (cs_store c)) key fuzzy ps"
    using range_kv[OF s f] by blast
  let ?new = "map cached_kv (filter live ?rq)"
  let ?old = "filter (\<lambda>x. \<not> bt_contains_key (cs_map c) (pair_key x)) ps"
  have eq: "cached_get_fuzzy_range_leq_kv S c key fuzzy = Inr (?new @ ?old)"
    using f fuzzy_base_le[OF f]
    by (simp add: cached_get_fuzzy_range_leq_kv_def bt_range_ok ps cached_kv_def)
  have "distinct (map pair_key ?new)"
    using bt_inv_distinct[OF bt_inv_filter[OF bt_inv_filter[OF m]]] by (simp add: comp_def)
  moreover have "distinct (map pair_key ?old)"
    using r by (simp add: is_range_answer_def distinct_map_filter)
  moreover have "set (map pair_key ?new) \<inter> set (map pair_key ?old) = {}"
    by (auto simp: bt_contains_key_iff image_iff)
  ultimately have d: "distinct (map pair_key (?new @ ?old))"
    by (simp only: map_append distinct_append)
  have n: "\<lparr>pair_key = k, pair_value = v\<rparr> \<in> set ?new \<longleftrightarrow> ?in k \<and> (k, CBytes v) \<in> set (cs_map c)" for k v
    unfolding set_map cached_kv_image by auto
  have o: "\<lparr>pair_key = k, pair_value = v\<rparr> \<in> set ?old \<longleftrightarrow>
      \<not> bt_contains_key (cs_map c) k \<and> ?in k \<and> view (cs_store c) k = Some v" for k v
    using r by (simp add: is_range_answer_def) blast
  have "\<lparr>pair_key = k, pair_value = v\<rparr> \<in> set (?new @ ?old) \<longleftrightarrow> ?in k \<and> cached_view view c k = Some v" for k v
    unfolding set_append Un_iff n o cached_view_def overlay_Some_iff[OF m] by blast
  with d eq show ?thesis by (auto simp: is_range_answer_def)
qed

lemma cached_delete_eq:
  assumes "cached_inv inv c"
  shows "cached_delete S c key =
    (cached_insert key CRemoved c, Inr (bt_contains_key (cs_map c) key))"
  using assms
  by (simp add: cached_delete_def Let_def cached_get_exact_if_exists_def bt_get_insert bt_contains_key_def)

lemma cached_contract:
  "kvq_range_store (cached_binary_store S) (cached_inv inv) (cached_view view)"
proof unfold_locales
  fix c k v ks items
  assume i: "cached_inv inv c"
  then have m: "bt_inv (cs_map c)" and s: "inv (cs_store c)" by (simp_all add: cached_inv_def)
  show "st_get_exact_if_exists (cached_binary_store S) c k = Inr (cached_view view c k)"
    by (simp add: cached_binary_store_def cached_get_exact_if_exists_def cached_view_def overlay_def
        get_if[OF s] split: option.splits cache_value.splits)
  show "cached_view view c k = Some v \<Longrightarrow> st_get_exact (cached_binary_store S) c k = Inr v"
    by (simp add: cached_binary_store_def cached_get_exact_def cached_view_def overlay_def
        get_Some[OF s] split: option.splits cache_value.splits)
  show "cached_view view c k = None \<Longrightarrow> \<exists>m. st_get_exact (cached_binary_store S) c k = Inl (Err m)"
    by (simp add: cached_binary_store_def cached_get_exact_def cached_view_def overlay_def
        get_None[OF s] split: option.splits cache_value.splits)
  show "st_get_many_exact (cached_binary_store S) c ks
      = try_map (st_get_exact (cached_binary_store S) c) ks"
    by (simp add: cached_binary_store_def cached_get_many_exact_def)
  show "snd (st_set (cached_binary_store S) c k v) = Inr ()"
    "cached_view view (fst (st_set (cached_binary_store S) c k v)) = (cached_view view c)(k \<mapsto> v)"
    "cached_inv inv (fst (st_set (cached_binary_store S) c k v))"
    using i by (simp_all add: cached_binary_store_def cached_set_def cached_view_def store_simps)
  show "snd (st_set_many_vec (cached_binary_store S) c items) = Inr ()"
    "cached_view view (fst (st_set_many_vec (cached_binary_store S) c items))
      = cached_view view c ++ kv_map items"
    "cached_inv inv (fst (st_set_many_vec (cached_binary_store S) c items))"
    using i by (simp_all add: cached_binary_store_def cached_set_many_view cached_set_many_inv)
  show "is_ok (snd (st_delete (cached_binary_store S) c k))"
    "cached_view view (fst (st_delete (cached_binary_store S) c k)) = (cached_view view c)(k := None)"
    "cached_inv inv (fst (st_delete (cached_binary_store S) c k))"
    using i by (simp_all add: cached_binary_store_def cached_delete_eq cached_view_def store_simps)
  show "st_set_ref (cached_binary_store S) c k v = st_set (cached_binary_store S) c k v"
    "st_set_many_ref (cached_binary_store S) c items = st_set_many_vec (cached_binary_store S) c items"
    "st_delete_many (cached_binary_store S) c ks = delete_loop (st_delete (cached_binary_store S)) c ks"
    by (simp_all add: cached_binary_store_def cached_delete_many_def)
next
  fix c fuzzy and key :: bytes
  show "cached_inv inv c \<Longrightarrow> fuzzy \<le> length key \<Longrightarrow>
    \<exists>ps. st_get_fuzzy_range_leq_kv (cached_binary_store S) c key fuzzy = Inr ps
      \<and> is_range_answer (cached_view view c) key fuzzy ps"
    using cached_range_answer by (simp add: cached_binary_store_def)
  show "cached_inv inv c \<Longrightarrow> length key < fuzzy \<Longrightarrow>
    st_get_fuzzy_range_leq_kv (cached_binary_store S) c key fuzzy = Inl fuzzy_error"
    by (simp add: cached_binary_store_def cached_get_fuzzy_range_leq_kv_def)
qed

end

interpretation cached: kvq_range_store "cached_binary_store simple_binary_store"
  "cached_inv bt_inv" "cached_view bt_get"
  by (rule simple.cached_contract)

section \<open>Flushing\<close>

lemma kv_map_eq_Some:
  assumes "distinct (map pair_key items)"
  shows "kv_map items k = Some v \<longleftrightarrow> \<lparr>pair_key = k, pair_value = v\<rparr> \<in> set items"
proof -
  have d: "distinct (map fst (rev (map (\<lambda>p. (pair_key p, pair_value p)) items)))"
    using assms by (simp add: rev_map[symmetric] comp_def)
  have "(k, v) \<in> (\<lambda>p. (pair_key p, pair_value p)) ` set items
      \<longleftrightarrow> \<lparr>pair_key = k, pair_value = v\<rparr> \<in> set items"
    by (auto simp: image_iff intro!: bexI[of _ "\<lparr>pair_key = k, pair_value = v\<rparr>"])
  then show ?thesis using map_of_eq_Some_iff[OF d, of k v] by (simp add: kv_map_def)
qed

lemma kv_map_eq_None: "kv_map items k = None \<longleftrightarrow> k \<notin> pair_key ` set items"
  by (auto simp: kv_map_def map_of_eq_None_iff image_iff)

lemma try_map_cached_pair: "try_map cached_pair (filter live m) = Inr (map cached_kv (filter live m))"
  by (rule try_map_Inr) (auto simp: live_iff cached_pair_def cached_kv_def split: prod.splits)

lemma cached_flush_parts:
  assumes m: "bt_inv m"
  shows "(\<lambda>k. if k \<in> set (map fst (filter (Not \<circ> live) m)) then None
          else (below ++ kv_map (map cached_kv (filter live m))) k) = overlay m below"
proof
  fix k
  let ?sets = "map cached_kv (filter live m)"
  let ?removed = "map fst (filter (Not \<circ> live) m)"
  have d: "distinct (map pair_key ?sets)"
    using bt_inv_distinct[OF bt_inv_filter[OF m]] by (simp add: comp_def)
  have some: "kv_map ?sets k = Some v \<longleftrightarrow> bt_get m k = Some (CBytes v)" for v
    using cached_kv_image[of k v m] by (simp only: kv_map_eq_Some[OF d] set_map bt_get_eq_Some[OF m])
  have removed: "k \<in> set ?removed \<longleftrightarrow> bt_get m k = Some CRemoved"
    by (auto simp: bt_get_eq_Some[OF m] not_live_iff image_iff)
  show "(if k \<in> set ?removed then None else (below ++ kv_map ?sets) k) = overlay m below k"
  proof (cases "kv_map ?sets k")
    case None
    then have "bt_get m k = None \<or> bt_get m k = Some CRemoved"
      using some by (metis cache_value.exhaust not_Some_eq)
    with None removed show ?thesis by (auto simp: overlay_def map_add_def)
  next
    case (Some v)
    then have "bt_get m k = Some (CBytes v)" using some by blast
    with Some removed show ?thesis by (simp add: overlay_def map_add_def)
  qed
qed

context kvq_range_store
begin

lemma cached_flush_simple_ok:
  assumes "cached_inv inv c"
  shows "\<exists>s'. cached_flush_simple S c = (c\<lparr>cs_store := s', cs_map := []\<rparr>, Inr ())
    \<and> inv s' \<and> view s' = cached_view view c"
proof -
  let ?s = "cs_store c" and ?m = "cs_map c"
  let ?sets = "map cached_kv (filter live ?m)"
  have m: "bt_inv ?m" and s: "inv ?s" using assms by (simp_all add: cached_inv_def)
  obtain s1 where s1: "st_set_many_ref S ?s ?sets = (s1, Inr ())"
    using set_many_result[OF s, of ?sets] set_many_ref_eq[OF s]
    by (cases "st_set_many_ref S ?s ?sets") simp
  then have i1: "inv s1" and v1: "view s1 = view ?s ++ kv_map ?sets"
    using set_many_inv[OF s, of ?sets] set_many_view[OF s, of ?sets] set_many_ref_eq[OF s]
    by simp_all
  obtain s2 bs where s2: "st_delete_many S s1 (cached_get_removed_keys c) = (s2, Inr bs)"
    using delete_loop_view[OF i1, of "cached_get_removed_keys c"] del_many_eq[OF i1]
    by (cases "st_delete_many S s1 (cached_get_removed_keys c)") (auto simp: is_ok_iff)
  have "inv s2" and v2: "view s2 = (\<lambda>k. if k \<in> set (cached_get_removed_keys c) then None else view s1 k)"
    using delete_loop_view[OF i1, of "cached_get_removed_keys c"] del_many_eq[OF i1] s2 by simp_all
  moreover have "view s2 = cached_view view c"
    using cached_flush_parts[OF m, of "view ?s"]
    unfolding v2 v1 cached_view_def cached_get_removed_keys_def .
  moreover have "cached_flush_simple S c = (c\<lparr>cs_store := s2, cs_map := []\<rparr>, Inr ())"
    by (simp add: cached_flush_simple_def try_map_cached_pair s1 s2)
  ultimately show ?thesis by blast
qed

lemma cached_flush_changes_ok:
  assumes "cached_inv inv c"
  shows "\<exists>sets removed. cached_flush_changes c = (c\<lparr>cs_map := []\<rparr>, Inr (sets, removed))
    \<and> (\<lambda>k. if k \<in> set removed then None else (view (cs_store c) ++ kv_map sets) k) = cached_view view c"
  using assms cached_flush_parts[of "cs_map c" "view (cs_store c)"]
  by (simp add: cached_flush_changes_def try_map_cached_pair cached_view_def
      cached_get_removed_keys_def cached_inv_def)

end

section \<open>Ordered lookups through the cache\<close>

lemma first_live_eq: "first_live rq = map_option cached_kv (List.find live rq)"
  by (induction rq rule: first_live.induct) (simp_all add: cached_kv_def)

lemma is_leq_answer_cong:
  assumes "\<And>k. fuzzy_base key fuzzy \<le> k \<Longrightarrow> k \<le> key \<Longrightarrow> m k = m' k"
  shows "is_leq_answer m key fuzzy r \<longleftrightarrow> is_leq_answer m' key fuzzy r"
proof (cases r)
  case None
  then show ?thesis using assms by (auto simp: is_leq_answer_def)
next
  case (Some p)
  have "m k = m' k" if "fuzzy_base key fuzzy \<le> pair_key p" "pair_key p < k" "k \<le> key" for k
    using assms[of k] that by (metis order.strict_implies_order order.trans)
  then show ?thesis using Some assms[of "pair_key p"] by (auto simp: is_leq_answer_def)
qed

text \<open>A table with one entry more: its answer is the entry or the old answer, the greater key.\<close>

lemma is_leq_answer_upd:
  assumes "is_leq_answer m key fuzzy r" and "fuzzy_base key fuzzy \<le> k" and "k \<le> key"
  shows "is_leq_answer (m(k \<mapsto> b)) key fuzzy
    (case r of Some p \<Rightarrow> Some (if pair_key p > k then p else \<lparr>pair_key = k, pair_value = b\<rparr>)
     | None \<Rightarrow> Some \<lparr>pair_key = k, pair_value = b\<rparr>)"
proof (cases r)
  case None
  have "m k' = None" if "k < k'" "k' \<le> key" for k'
    using assms(1,2) None that by (simp add: is_leq_answer_def order.strict_implies_order order.trans)
  then show ?thesis using None assms(2,3) by (auto simp: is_leq_answer_def)
next
  case (Some p)
  then have p: "m (pair_key p) = Some (pair_value p)" "fuzzy_base key fuzzy \<le> pair_key p"
    "pair_key p \<le> key" "\<And>k. pair_key p < k \<Longrightarrow> k \<le> key \<Longrightarrow> m k = None"
    using assms(1) by (auto simp: is_leq_answer_def)
  show ?thesis
  proof (cases "pair_key p > k")
    case True
    then show ?thesis using Some p by (auto simp: is_leq_answer_def)
  next
    case False
    then have "m k' = None" if "k < k'" "k' \<le> key" for k' using p(4)[of k'] that by auto
    then show ?thesis using Some False assms(2,3) by (auto simp: is_leq_answer_def)
  qed
qed

definition cached_range :: "'s cached_store \<Rightarrow> bytes \<Rightarrow> nat \<Rightarrow> (bytes \<times> cache_value) list" where
  "cached_range c key fuzzy = filter (\<lambda>e. fuzzy_base key fuzzy \<le> fst e \<and> fst e \<le> key) (cs_map c)"

lemma bt_get_cached_range:
  "fuzzy_base key fuzzy \<le> k \<Longrightarrow> k \<le> key \<Longrightarrow> bt_get (cs_map c) k = bt_get (cached_range c key fuzzy) k"
  using bt_get_filter_key[of "\<lambda>k. fuzzy_base key fuzzy \<le> k \<and> k \<le> key" "cs_map c" k]
  by (simp add: cached_range_def)

context kvq_ordered_store
begin

text \<open>
  The lookup answers correctly when the cache holds nothing in the range, or one live entry.
\<close>

lemma cached_leq_at_most_one:
  assumes i: "cached_inv inv c" and f: "fuzzy \<le> length key" and small: "fuzzy \<le> 2 ^ 24"
    and one: "cached_range c key fuzzy = [] \<or> cached_range c key fuzzy = [(k, CBytes b)]"
  shows "\<exists>r. cached_get_leq_kv S c key fuzzy = Inr r \<and> is_leq_answer (cached_view view c) key fuzzy r"
proof -
  let ?in = "\<lambda>k. fuzzy_base key fuzzy \<le> k \<and> k \<le> key"
  have m: "bt_inv (cs_map c)" and s: "inv (cs_store c)" using i by (simp_all add: cached_inv_def)
  note le = fuzzy_base_le[OF f]
  obtain r where r: "st_get_leq_kv S (cs_store c) key fuzzy = Inr r"
    and a: "is_leq_answer (view (cs_store c)) key fuzzy r" using leq_kv[OF s f] by blast
  have rng: "bt_range (cs_map c) (fuzzy_base key fuzzy) key = Inr (cached_range c key fuzzy)"
    using le by (simp add: bt_range_ok cached_range_def)
  note get = bt_get_cached_range[of key fuzzy _ c]
  from one show ?thesis
  proof
    assume e: "cached_range c key fuzzy = []"
    then have "cached_view view c k = view (cs_store c) k" if "?in k" for k
      using get that by (simp add: cached_view_def overlay_def)
    then have "is_leq_answer (cached_view view c) key fuzzy r"
      using a is_leq_answer_cong[of key fuzzy "cached_view view c" "view (cs_store c)"] by blast
    moreover have "cached_get_leq_kv S c key fuzzy = Inr r"
      using f e get[of key] le r by (simp add: cached_get_leq_kv_def rng)
    ultimately show ?thesis by blast
  next
    assume e: "cached_range c key fuzzy = [(k, CBytes b)]"
    then have "(k, CBytes b) \<in> set (cached_range c key fuzzy)" by simp
    then have k: "?in k" by (simp add: cached_range_def)
    let ?e = "\<lparr>pair_key = k, pair_value = b\<rparr>"
    let ?r = "case r of Some p \<Rightarrow> Some (if pair_key p > k then p else ?e) | None \<Rightarrow> Some ?e"
    have "cached_view view c k' = ((view (cs_store c))(k \<mapsto> b)) k'" if "?in k'" for k'
      using get that e by (simp add: cached_view_def overlay_def bt_get_def)
    then have ans: "is_leq_answer (cached_view view c) key fuzzy ?r"
      using is_leq_answer_upd[OF a, of k b] k
        is_leq_answer_cong[of key fuzzy "cached_view view c" "(view (cs_store c))(k \<mapsto> b)"] by blast
    have "cached_get_leq_kv S c key fuzzy = Inr ?r"
    proof (cases "fuzzy_sum key fuzzy = 0")
      case True
      then have "fuzzy_base key fuzzy = key" using fuzzy_sum_zero f small by blast
      then have kk: "k = key" using k by (auto intro: order.antisym)
      then have "\<not> pair_key p > k" if "r = Some p" for p
        using a that by (auto simp: is_leq_answer_def)
      then have "?r = Some ?e" by (auto split: option.splits)
      moreover have "bt_get (cs_map c) key = Some (CBytes b)"
        using get[of key] le e kk by (simp add: bt_get_def)
      ultimately show ?thesis using True f kk by (simp add: cached_get_leq_kv_def)
    next
      case False
      then show ?thesis using f
        by (cases r) (simp_all add: cached_get_leq_kv_def rng e r)
    qed
    with ans show ?thesis by blast
  qed
qed

end

section \<open>Properties\<close>

text \<open>
  Claim C15. Over any store that meets the map and range contract, the cache meets the
  same contract for the overlay of its entries and tombstones on the store: lookups, updates,
  deletions and range lookups all read and write that one map.
\<close>

theorem cache_is_overlay:
  "kvq_range_store S I V \<Longrightarrow> kvq_range_store (cached_binary_store S) (cached_inv I) (cached_view V)"
  by (rule kvq_range_store.cached_contract)

theorem cache_is_overlay_witness:
  "kvq_range_store (cached_binary_store simple_binary_store) (cached_inv bt_inv) (cached_view bt_get)"
  by (rule cache_is_overlay) (rule simple.kvq_range_store_axioms)

text \<open>
  Flushing succeeds, leaves the shared store with exactly the contents the
  cache showed, empties the cache, and changes no lookup.
\<close>

theorem cache_flush_simple:
  assumes "kvq_range_store S I V" and "cached_inv I c"
  shows "\<exists>s'. cached_flush_simple S c = (c\<lparr>cs_store := s', cs_map := []\<rparr>, Inr ())
    \<and> I s' \<and> V s' = cached_view V c
    \<and> cached_view V (c\<lparr>cs_store := s', cs_map := []\<rparr>) = cached_view V c"
  using kvq_range_store.cached_flush_simple_ok[OF assms] by (auto simp: cached_view_def)

definition demo_cache :: "simple_store cached_store" where
  "demo_cache = \<lparr>cs_store = [([1], [2]), ([3], [4])], cs_map = [([1], CRemoved), ([2], CBytes [7])],
     cs_proper_delete_return = False\<rparr>"

lemma demo_cache_inv: "cached_inv bt_inv demo_cache"
  by (simp add: demo_cache_def cached_inv_def bt_inv_def)

lemma demo_cache_view:
  "cached_view bt_get demo_cache [1] = None"
  "cached_view bt_get demo_cache [2] = Some [7]"
  "cached_view bt_get demo_cache [3] = Some [4]"
  by (simp_all add: demo_cache_def cached_view_def overlay_def bt_get_def)

theorem cache_flush_simple_witness:
  "\<exists>s'. fst (cached_flush_simple simple_binary_store demo_cache) = demo_cache\<lparr>cs_store := s', cs_map := []\<rparr>
    \<and> bt_get s' [1] = None \<and> bt_get s' [2] = Some [7] \<and> bt_get s' [3] = Some [4]"
proof -
  obtain s' where "fst (cached_flush_simple simple_binary_store demo_cache)
      = demo_cache\<lparr>cs_store := s', cs_map := []\<rparr>"
    and v: "bt_get s' = cached_view bt_get demo_cache"
    using cache_flush_simple[OF simple.kvq_range_store_axioms demo_cache_inv] by auto
  moreover have "bt_get s' [1] = None" "bt_get s' [2] = Some [7]" "bt_get s' [3] = Some [4]"
    unfolding v by (rule demo_cache_view)+
  ultimately show ?thesis by blast
qed

definition two_cached :: "simple_store cached_store" where
  "two_cached = \<lparr>cs_store = [], cs_map = [([1], CBytes [10]), ([2], CBytes [20])],
     cs_proper_delete_return = False\<rparr>"

definition one_deleted :: "simple_store cached_store" where
  "one_deleted = \<lparr>cs_store = [([3], [30])], cs_map = [([3], CRemoved)],
     cs_proper_delete_return = False\<rparr>"

text \<open>
  The ordered lookup takes the smallest live key of the cached range, not the
  greatest, and lets the shared store answer keys the cache has deleted: on two cached keys, and
  on one tombstone, its answer is not the greatest entry of the range.
\<close>

theorem cache_leq_not_greatest:
  "cached_get_leq_kv simple_binary_store two_cached [5] 1 = Inr (Some \<lparr>pair_key = [1], pair_value = [10]\<rparr>)
   \<and> is_leq_answer (cached_view bt_get two_cached) [5] 1 (Some \<lparr>pair_key = [2], pair_value = [20]\<rparr>)
   \<and> cached_get_leq_kv simple_binary_store one_deleted [5] 1
       = Inr (Some \<lparr>pair_key = [3], pair_value = [30]\<rparr>)
   \<and> is_leq_answer (cached_view bt_get one_deleted) [5] 1 None
   \<and> cached_inv bt_inv two_cached \<and> cached_inv bt_inv one_deleted"
proof (intro conjI)
  note ev = cached_get_leq_kv_def two_cached_def one_deleted_def fuzzy_sum_def fuzzy_base_def
    bt_range_def simple_binary_store_def simple_get_leq_kv_def next_back_def mk_pair_def
  show "cached_get_leq_kv simple_binary_store two_cached [5] 1
      = Inr (Some \<lparr>pair_key = [1], pair_value = [10]\<rparr>)"
    by (simp add: ev)
  show "cached_get_leq_kv simple_binary_store one_deleted [5] 1
      = Inr (Some \<lparr>pair_key = [3], pair_value = [30]\<rparr>)"
    by (simp add: ev)
  show "is_leq_answer (cached_view bt_get two_cached) [5] 1 (Some \<lparr>pair_key = [2], pair_value = [20]\<rparr>)"
    by (auto simp: is_leq_answer_def two_cached_def fuzzy_base_def cached_view_def overlay_def bt_get_def)
  show "is_leq_answer (cached_view bt_get one_deleted) [5] 1 None"
    by (auto simp: is_leq_answer_def one_deleted_def fuzzy_base_def cached_view_def overlay_def bt_get_def)
  show "cached_inv bt_inv two_cached" "cached_inv bt_inv one_deleted"
    by (simp_all add: two_cached_def one_deleted_def cached_inv_def bt_inv_def)
qed

end
