(* ===== verification/Kvq_Adapter.thy ===== *)
theory Kvq_Adapter
  imports Kvq_Store
begin

text \<open>
  \<open>KVQStandardAdapter\<close> of \<open>kvq/src/adapters/standard.rs\<close>: typed keys and values over a binary
  store, through the codecs of the key and the value type, and the helper methods of the adapter
  traits in \<open>kvq/src/traits.rs\<close>: the synchronous reader and writer. The immutable half is in
  \<open>Kvq_Shared\<close>, the asynchronous one in \<open>Kvq_Async\<close>.

  The locale \<open>kvq_adapter\<close> puts a store and two codecs together and proves once what a typed
  table promises; it is interpreted on the memory store with \<open>u64\<close> keys.
\<close>

type_synonym ('s, 'b) upd = "'s \<times> 'b res"

definition decode_pair :: "'k codec \<Rightarrow> 'v codec \<Rightarrow> kv \<Rightarrow> ('k, 'v) kvq_pair res" where
  "decode_pair K V p =
     and_then (from_bytes K (pair_key p)) (\<lambda>k.
     and_then (from_bytes V (pair_value p)) (\<lambda>v.
     Inr \<lparr>pair_key = k, pair_value = v\<rparr>))"

definition encode_pair :: "'k codec \<Rightarrow> 'v codec \<Rightarrow> ('k, 'v) kvq_pair \<Rightarrow> kv res" where
  "encode_pair K V p =
     and_then (to_bytes K (pair_key p)) (\<lambda>k.
     and_then (to_bytes V (pair_value p)) (\<lambda>v.
     Inr \<lparr>pair_key = k, pair_value = v\<rparr>))"

definition decode_opt :: "('b \<Rightarrow> 'c res) \<Rightarrow> 'b option \<Rightarrow> 'c option res" where
  "decode_opt f r =
     (case r of Some b \<Rightarrow> and_then (f b) (\<lambda>v. Inr (Some v)) | None \<Rightarrow> Inr None)"

section \<open>Reader\<close>

definition ad_get_exact_if_exists ::
  "'s kvq_binary_store \<Rightarrow> 'k codec \<Rightarrow> 'v codec \<Rightarrow> 's \<Rightarrow> 'k \<Rightarrow> 'v option res" where
  "ad_get_exact_if_exists S K V s key =
     and_then (to_bytes K key) (\<lambda>kb.
     and_then (st_get_exact_if_exists S s kb) (decode_opt (from_bytes V)))"

definition ad_get_exact ::
  "'s kvq_binary_store \<Rightarrow> 'k codec \<Rightarrow> 'v codec \<Rightarrow> 's \<Rightarrow> 'k \<Rightarrow> 'v res" where
  "ad_get_exact S K V s key =
     and_then (to_bytes K key) (\<lambda>kb. and_then (st_get_exact S s kb) (from_bytes V))"

definition ad_get_leq_kv ::
  "'s kvq_binary_store \<Rightarrow> 'k codec \<Rightarrow> 'v codec \<Rightarrow> 's \<Rightarrow> 'k \<Rightarrow> nat \<Rightarrow> ('k, 'v) kvq_pair option res" where
  "ad_get_leq_kv S K V s key fuzzy =
     and_then (to_bytes K key) (\<lambda>kb.
     and_then (st_get_leq_kv S s kb fuzzy) (decode_opt (decode_pair K V)))"

definition ad_get_many_exact ::
  "'s kvq_binary_store \<Rightarrow> 'k codec \<Rightarrow> 'v codec \<Rightarrow> 's \<Rightarrow> 'k list \<Rightarrow> 'v list res" where
  "ad_get_many_exact S K V s keys =
     and_then (try_map (to_bytes K) keys) (\<lambda>kbs.
     and_then (st_get_many_exact S s kbs) (try_map (from_bytes V)))"

definition ad_get_leq ::
  "'s kvq_binary_store \<Rightarrow> 'k codec \<Rightarrow> 'v codec \<Rightarrow> 's \<Rightarrow> 'k \<Rightarrow> nat \<Rightarrow> 'v option res" where
  "ad_get_leq S K V s key fuzzy =
     and_then (to_bytes K key) (\<lambda>kb.
     and_then (st_get_leq S s kb fuzzy) (decode_opt (from_bytes V)))"

definition ad_get_many_leq ::
  "'s kvq_binary_store \<Rightarrow> 'k codec \<Rightarrow> 'v codec \<Rightarrow> 's \<Rightarrow> 'k list \<Rightarrow> nat \<Rightarrow> 'v option list res" where
  "ad_get_many_leq S K V s keys fuzzy =
     and_then (try_map (to_bytes K) keys) (\<lambda>kbs.
     and_then (st_get_many_leq S s kbs fuzzy) (try_map (decode_opt (from_bytes V))))"

definition ad_get_many_leq_kv ::
  "'s kvq_binary_store \<Rightarrow> 'k codec \<Rightarrow> 'v codec \<Rightarrow> 's \<Rightarrow> 'k list \<Rightarrow> nat
     \<Rightarrow> ('k, 'v) kvq_pair option list res" where
  "ad_get_many_leq_kv S K V s keys fuzzy =
     and_then (try_map (to_bytes K) keys) (\<lambda>kbs.
     and_then (st_get_many_leq_kv S s kbs fuzzy) (try_map (decode_opt (decode_pair K V))))"

definition ad_get_fuzzy_range_leq_kv ::
  "'s kvq_binary_store \<Rightarrow> 'k codec \<Rightarrow> 'v codec \<Rightarrow> 's \<Rightarrow> 'k \<Rightarrow> nat \<Rightarrow> ('k, 'v) kvq_pair list res" where
  "ad_get_fuzzy_range_leq_kv S K V s key fuzzy =
     and_then (to_bytes K key) (\<lambda>kb.
     and_then (st_get_fuzzy_range_leq_kv S s kb fuzzy) (try_map (decode_pair K V)))"

definition ad_get_many_leq_u ::
  "'s kvq_binary_store \<Rightarrow> 'k codec \<Rightarrow> 'v codec \<Rightarrow> 's \<Rightarrow> 'k list \<Rightarrow> nat \<Rightarrow> 'v list res" where
  "ad_get_many_leq_u S K V s keys fuzzy =
     and_then (ad_get_many_leq S K V s keys fuzzy) unwrap_kv_vec_result"

definition ad_get_many_leq_kv_u ::
  "'s kvq_binary_store \<Rightarrow> 'k codec \<Rightarrow> 'v codec \<Rightarrow> 's \<Rightarrow> 'k list \<Rightarrow> nat
     \<Rightarrow> ('k, 'v) kvq_pair list res" where
  "ad_get_many_leq_kv_u S K V s keys fuzzy =
     and_then (ad_get_many_leq_kv S K V s keys fuzzy) unwrap_kv_vec_result"

section \<open>Writer\<close>

text \<open>An encoding error is returned before the store is touched.\<close>

definition with_encoded :: "'b res \<Rightarrow> 's \<Rightarrow> ('b \<Rightarrow> ('s, 'c) upd) \<Rightarrow> ('s, 'c) upd" where
  "with_encoded r s f = (case r of Inl e \<Rightarrow> (s, Inl e) | Inr b \<Rightarrow> f b)"

definition ad_set ::
  "'s kvq_binary_store \<Rightarrow> 'k codec \<Rightarrow> 'v codec \<Rightarrow> 's \<Rightarrow> 'k \<Rightarrow> 'v \<Rightarrow> ('s, unit) upd" where
  "ad_set S K V s key v =
     with_encoded (to_bytes K key) s (\<lambda>kb.
     with_encoded (to_bytes V v) s (\<lambda>vb. st_set S s kb vb))"

definition ad_set_many ::
  "'s kvq_binary_store \<Rightarrow> 'k codec \<Rightarrow> 'v codec \<Rightarrow> 's \<Rightarrow> ('k, 'v) kvq_pair list \<Rightarrow> ('s, unit) upd" where
  "ad_set_many S K V s items =
     with_encoded (try_map (encode_pair K V) items) s (\<lambda>pairs. st_set_many_vec S s pairs)"

definition ad_delete ::
  "'s kvq_binary_store \<Rightarrow> 'k codec \<Rightarrow> 'v codec \<Rightarrow> 's \<Rightarrow> 'k \<Rightarrow> ('s, bool) upd" where
  "ad_delete S K V s key = with_encoded (to_bytes K key) s (st_delete S s)"

definition ad_delete_many ::
  "'s kvq_binary_store \<Rightarrow> 'k codec \<Rightarrow> 'v codec \<Rightarrow> 's \<Rightarrow> 'k list \<Rightarrow> ('s, bool list) upd" where
  "ad_delete_many S K V s keys = delete_loop (ad_delete S K V) s keys"

definition ad_set_many_split_ref ::
  "'s kvq_binary_store \<Rightarrow> 'k codec \<Rightarrow> 'v codec \<Rightarrow> 's \<Rightarrow> 'k list \<Rightarrow> 'v list \<Rightarrow> ('s, unit) upd" where
  "ad_set_many_split_ref S K V s keys values =
     (if length keys \<noteq> length values
      then (s, Inl (Err ''Keys and values must have the same length''))
      else with_encoded
             (try_map (\<lambda>(k, v). and_then (to_bytes K k) (\<lambda>kb. and_then (to_bytes V v) (\<lambda>vb. Inr (kb, vb))))
                (zip keys values)) s
             (\<lambda>kvs. st_set_many_split_ref S s (map fst kvs) (map snd kvs)))"

text \<open>\<open>KVQStoreAdapterWithHelpers\<close>: the same updates one at a time, or as one batch.\<close>

fun ad_set_many_ref_serial ::
  "'s kvq_binary_store \<Rightarrow> 'k codec \<Rightarrow> 'v codec \<Rightarrow> 's \<Rightarrow> ('k, 'v) kvq_pair list \<Rightarrow> ('s, unit) upd" where
  "ad_set_many_ref_serial S K V s [] = (s, Inr ())"
| "ad_set_many_ref_serial S K V s (item # items) =
     (case ad_set S K V s (pair_key item) (pair_value item) of
        (s', Inl e) \<Rightarrow> (s', Inl e)
      | (s', Inr _) \<Rightarrow> ad_set_many_ref_serial S K V s' items)"

definition ad_set_many_ref_clone_batch ::
  "'s kvq_binary_store \<Rightarrow> 'k codec \<Rightarrow> 'v codec \<Rightarrow> 's \<Rightarrow> ('k, 'v) kvq_pair list \<Rightarrow> ('s, unit) upd" where
  "ad_set_many_ref_clone_batch S K V s items =
     ad_set_many S K V s (map (\<lambda>item. \<lparr>pair_key = pair_key item, pair_value = pair_value item\<rparr>) items)"

section \<open>What a typed table promises\<close>

lemma kv_map_Cons: "kv_map (p # items) = [pair_key p \<mapsto> pair_value p] ++ kv_map items"
  by (simp add: kv_map_def)

locale kvq_adapter = kvq_store S inv view + K: kvq_serializable KC kwf + V: kvq_serializable VC vwf
  for S :: "'s kvq_binary_store" and inv view and KC :: "'k codec" and kwf
    and VC :: "'v codec" and vwf
begin

lemma ad_set_ok:
  assumes "inv s" and "kwf k" and "vwf v"
  shows "\<exists>kb vb s'. to_bytes KC k = Inr kb \<and> to_bytes VC v = Inr vb \<and> ad_set S KC VC s k v = (s', Inr ())
    \<and> inv s' \<and> view s' = (view s)(kb \<mapsto> vb)"
proof -
  obtain kb vb where b: "to_bytes KC k = Inr kb" "to_bytes VC v = Inr vb"
    using K.encoded[OF assms(2)] V.encoded[OF assms(3)] by blast
  moreover obtain s' where "st_set S s kb vb = (s', Inr ())"
    using set_result[OF assms(1), of kb vb] by (cases "st_set S s kb vb") simp
  ultimately show ?thesis
    using set_inv[OF assms(1), of kb vb] set_view[OF assms(1), of kb vb]
    by (simp add: ad_set_def with_encoded_def)
qed

lemma ad_get_after_set:
  assumes "inv s" and "kwf k" and "vwf v"
  shows "ad_get_exact S KC VC (fst (ad_set S KC VC s k v)) k = Inr v"
    and "ad_get_exact_if_exists S KC VC (fst (ad_set S KC VC s k v)) k = Inr (Some v)"
proof -
  obtain kb vb s' where b: "to_bytes KC k = Inr kb" "to_bytes VC v = Inr vb"
    and s: "ad_set S KC VC s k v = (s', Inr ())" "inv s'" "view s' = (view s)(kb \<mapsto> vb)"
    using ad_set_ok[OF assms] by blast
  have "st_get_exact S s' kb = Inr vb" by (rule get_Some) (simp_all add: s)
  then show "ad_get_exact S KC VC (fst (ad_set S KC VC s k v)) k = Inr v"
    using V.roundtrip[OF assms(3) b(2)] by (simp add: ad_get_exact_def b s)
  show "ad_get_exact_if_exists S KC VC (fst (ad_set S KC VC s k v)) k = Inr (Some v)"
    using V.roundtrip[OF assms(3) b(2)]
    by (simp add: ad_get_exact_if_exists_def b s get_if decode_opt_def)
qed

lemma ad_get_other_after_set:
  assumes "inv s" and "kwf k" and "vwf v" and "kwf k'" and "k' \<noteq> k"
  shows "ad_get_exact_if_exists S KC VC (fst (ad_set S KC VC s k v)) k'
       = ad_get_exact_if_exists S KC VC s k'"
proof -
  obtain kb vb s' where b: "to_bytes KC k = Inr kb"
    and s: "ad_set S KC VC s k v = (s', Inr ())" "inv s'" "view s' = (view s)(kb \<mapsto> vb)"
    using ad_set_ok[OF assms(1-3)] by blast
  obtain kb' where b': "to_bytes KC k' = Inr kb'" using K.encoded[OF assms(4)] by blast
  then have "kb' \<noteq> kb" using K.to_bytes_inj[OF assms(4,2)] b assms(5) by auto
  then show ?thesis by (simp add: ad_get_exact_if_exists_def b' s get_if assms(1))
qed

lemma ad_get_after_delete:
  assumes "inv s" and "kwf k"
  shows "ad_get_exact_if_exists S KC VC (fst (ad_delete S KC VC s k)) k = Inr None"
proof -
  obtain kb where "to_bytes KC k = Inr kb" using K.encoded[OF assms(2)] by blast
  then show ?thesis
    using get_after_delete[OF assms(1), of kb]
    by (simp add: ad_get_exact_if_exists_def ad_delete_def with_encoded_def decode_opt_def)
qed

lemma encode_pair_ok:
  "kwf (pair_key p) \<Longrightarrow> vwf (pair_value p) \<Longrightarrow>
   \<exists>kb vb. to_bytes KC (pair_key p) = Inr kb \<and> to_bytes VC (pair_value p) = Inr vb
     \<and> encode_pair KC VC p = Inr \<lparr>pair_key = kb, pair_value = vb\<rparr>"
  using K.encoded V.encoded by (fastforce simp: encode_pair_def)

text \<open>Writing a batch and writing its items one at a time give the same table.\<close>

lemma serial_eq_batch:
  assumes "inv s" and "\<forall>p \<in> set items. kwf (pair_key p) \<and> vwf (pair_value p)"
  shows "snd (ad_set_many_ref_serial S KC VC s items) = Inr ()
    \<and> snd (ad_set_many S KC VC s items) = Inr ()
    \<and> inv (fst (ad_set_many_ref_serial S KC VC s items)) \<and> inv (fst (ad_set_many S KC VC s items))
    \<and> view (fst (ad_set_many_ref_serial S KC VC s items)) = view (fst (ad_set_many S KC VC s items))"
proof -
  have *: "\<exists>ps. try_map (encode_pair KC VC) items = Inr ps
      \<and> snd (ad_set_many_ref_serial S KC VC s items) = Inr ()
      \<and> inv (fst (ad_set_many_ref_serial S KC VC s items))
      \<and> view (fst (ad_set_many_ref_serial S KC VC s items)) = view s ++ kv_map ps"
    using assms
  proof (induction items arbitrary: s)
    case Nil
    then show ?case by (simp add: kv_map_def)
  next
    case (Cons p items)
    obtain kb vb where e: "to_bytes KC (pair_key p) = Inr kb" "to_bytes VC (pair_value p) = Inr vb"
      "encode_pair KC VC p = Inr \<lparr>pair_key = kb, pair_value = vb\<rparr>"
      using encode_pair_ok Cons.prems(2) by fastforce
    obtain s' where s: "ad_set S KC VC s (pair_key p) (pair_value p) = (s', Inr ())" "inv s'"
      "view s' = (view s)(kb \<mapsto> vb)"
      using ad_set_ok[OF Cons.prems(1)] Cons.prems(2) e by fastforce
    obtain ps where ps: "try_map (encode_pair KC VC) items = Inr ps"
      "snd (ad_set_many_ref_serial S KC VC s' items) = Inr ()"
      "inv (fst (ad_set_many_ref_serial S KC VC s' items))"
      "view (fst (ad_set_many_ref_serial S KC VC s' items)) = view s' ++ kv_map ps"
      using Cons.IH[OF s(2)] Cons.prems(2) by auto
    have "view s ++ kv_map (\<lparr>pair_key = kb, pair_value = vb\<rparr> # ps) = view s' ++ kv_map ps"
      by (simp add: s(3) kv_map_Cons fun_eq_iff map_add_def split: option.splits)
    then show ?case
      using ps by (intro exI[of _ "\<lparr>pair_key = kb, pair_value = vb\<rparr> # ps"]) (simp add: e s(1))
  qed
  then obtain ps where "try_map (encode_pair KC VC) items = Inr ps" by blast
  with * show ?thesis
    using set_many_result[OF assms(1), of ps] set_many_view[OF assms(1), of ps]
      set_many_inv[OF assms(1), of ps]
    by (simp add: ad_set_many_def with_encoded_def)
qed

lemma ad_get_many_exact_each:
  "inv s \<Longrightarrow> list_all kwf ks \<Longrightarrow> list_all vwf vs \<Longrightarrow>
   ad_get_many_exact S KC VC s ks = Inr vs \<Longrightarrow> i < length ks \<Longrightarrow>
   ad_get_exact S KC VC s (ks ! i) = Inr (vs ! i)"
  by (auto simp: ad_get_many_exact_def ad_get_exact_def get_many try_map_eq_Inr
      list_all2_conv_all_nth)

end

interpretation u64_table: kvq_adapter simple_binary_store bt_inv bt_get
  "int_codec 8 :: u64 codec" "\<lambda>_. True" hash256_codec "\<lambda>h. length h = 32"
  by unfold_locales

interpretation row_table: kvq_adapter simple_binary_store bt_inv bt_get
  byte_vec_codec "\<lambda>_. True" db_row_codec "\<lambda>r. length (row_key r) < 2 ^ 32"
  by unfold_locales

section \<open>Properties\<close>

text \<open>
  Over any store and codecs that meet their contracts, a typed table reads back
  what was written under a key, leaves every other key alone, and reads nothing after a deletion.
\<close>

theorem adapter_table_laws:
  assumes "kvq_store S I V" and "kvq_serializable KC kwf" and "kvq_serializable VC vwf"
    and "I s" and "kwf k" and "vwf v"
  shows "ad_get_exact S KC VC (fst (ad_set S KC VC s k v)) k = Inr v
    \<and> (kwf k' \<and> k' \<noteq> k \<longrightarrow>
         ad_get_exact_if_exists S KC VC (fst (ad_set S KC VC s k v)) k'
           = ad_get_exact_if_exists S KC VC s k')
    \<and> ad_get_exact_if_exists S KC VC (fst (ad_delete S KC VC s k)) k = Inr None"
proof -
  have L: "kvq_adapter S I V KC kwf VC vwf" using assms(1-3) by (rule kvq_adapter.intro)
  show ?thesis
    using kvq_adapter.ad_get_after_set(1)[OF L assms(4-6)]
      kvq_adapter.ad_get_other_after_set[OF L assms(4-6)]
      kvq_adapter.ad_get_after_delete[OF L assms(4,5)] by blast
qed

theorem adapter_table_laws_witness:
  "ad_get_exact simple_binary_store (int_codec 8 :: u64 codec) byte_vec_codec
     (fst (ad_set simple_binary_store (int_codec 8 :: u64 codec) byte_vec_codec [] 7 [1, 2])) 7 = Inr [1, 2]"
  using adapter_table_laws[OF simple.kvq_store_axioms u64_ser.kvq_serializable_axioms
      byte_vec_ser.kvq_serializable_axioms, of "[]" 7 "[1, 2]"] by simp

definition u64_table_wf :: "simple_store \<Rightarrow> bool" where
  "u64_table_wf m \<longleftrightarrow> bt_inv m \<and> (\<forall>e \<in> set m. length (fst e) = 8 \<and> length (snd e) = 32)"

lemma to_be_bytes_le: "LENGTH('a) = 8 * k \<Longrightarrow> to_be_bytes k v \<le> to_be_bytes k w \<longleftrightarrow> v \<le> (w :: 'a::len word)"
  using to_be_bytes_less[of k w v] by (simp add: linorder_not_less[symmetric])

text \<open>
  Because \<open>u64\<close> keys are written big-endian, the ordered lookup of a table with
  \<open>u64\<close> keys answers the entry of the greatest number at most the one asked for.
\<close>

theorem u64_table_greatest_leq:
  assumes wf: "u64_table_wf m"
  shows "\<exists>r. ad_get_leq_kv simple_binary_store (int_codec 8 :: u64 codec) hash256_codec m key 8 = Inr r
    \<and> (case r of
         None \<Rightarrow> \<forall>k \<le> key. ad_get_exact_if_exists simple_binary_store (int_codec 8) hash256_codec m k = Inr None
       | Some p \<Rightarrow> pair_key p \<le> key
           \<and> ad_get_exact simple_binary_store (int_codec 8) hash256_codec m (pair_key p) = Inr (pair_value p)
           \<and> (\<forall>k. pair_key p < k \<and> k \<le> key \<longrightarrow>
                ad_get_exact_if_exists simple_binary_store (int_codec 8) hash256_codec m k = Inr None))"
proof -
  let ?b = "\<lambda>k :: u64. to_be_bytes 8 k"
  have m: "bt_inv m" using wf by (simp add: u64_table_wf_def)
  obtain r where r: "st_get_leq_kv simple_binary_store m (?b key) 8 = Inr r"
    and a: "is_leq_answer (bt_get m) (?b key) 8 r"
    using simple.leq_kv[OF m, of 8 "?b key"] by auto
  have none: "ad_get_exact_if_exists simple_binary_store (int_codec 8) hash256_codec m k = Inr None"
    if "bt_get m (?b k) = None" for k :: u64
    using that simple.get_if[OF m] by (simp add: ad_get_exact_if_exists_def int_codec_def decode_opt_def)
  have zeros: "fuzzy_base (?b key) 8 \<le> bs" if "length bs = 8" for bs
    using list_le_append_zeros[of 0 bs] that by (simp add: fuzzy_base_eq)
  show ?thesis
  proof (cases r)
    case None
    have "bt_get m (?b k) = None" if "k \<le> key" for k
      using a None that zeros[of "?b k"] by (simp add: is_leq_answer_def to_be_bytes_le)
    with None r none show ?thesis
      by (auto simp: ad_get_leq_kv_def int_codec_def decode_opt_def)
  next
    case (Some q)
    then have q: "bt_get m (pair_key q) = Some (pair_value q)" "pair_key q \<le> ?b key"
      "\<And>bs. pair_key q < bs \<Longrightarrow> bs \<le> ?b key \<Longrightarrow> bt_get m bs = None"
      using a by (auto simp: is_leq_answer_def)
    then have len: "length (pair_key q) = 8" "length (pair_value q) = 32"
      using wf m by (auto simp: u64_table_wf_def bt_get_eq_Some)
    define n :: u64 where "n = from_be_bytes (pair_key q)"
    have n: "?b n = pair_key q" using to_from_be_bytes[of "pair_key q", where 'a = 64] len by (simp add: n_def)
    have "bt_get m (?b k) = None" if "n < k" "k \<le> key" for k
      using q(3)[of "?b k"] that by (simp add: n[symmetric] to_be_bytes_less to_be_bytes_le)
    moreover have "n \<le> key" using q(2) by (simp add: n[symmetric] to_be_bytes_le)
    moreover have "ad_get_exact simple_binary_store (int_codec 8) hash256_codec m n = Inr (pair_value q)"
      using simple.get_Some[OF m q(1)] len
      by (simp add: ad_get_exact_def int_codec_def n hash256_codec_def checked_array_from_bytes_def)
    moreover have "ad_get_leq_kv simple_binary_store (int_codec 8 :: u64 codec) hash256_codec m key 8
        = Inr (Some \<lparr>pair_key = n, pair_value = pair_value q\<rparr>)"
      using r Some len
      by (simp add: ad_get_leq_kv_def int_codec_def decode_opt_def decode_pair_def n_def
          hash256_codec_def checked_array_from_bytes_def)
    ultimately show ?thesis using none by simp
  qed
qed

theorem u64_table_greatest_leq_witness:
  "\<exists>r. ad_get_leq_kv simple_binary_store (int_codec 8 :: u64 codec) hash256_codec
     [(replicate 7 0 @ [5], replicate 32 1)] 9 8 = Inr r"
  using u64_table_greatest_leq[of "[(replicate 7 0 @ [5], replicate 32 1)]" 9]
  by (auto simp: u64_table_wf_def bt_inv_def)

end
