(* ===== verification/Retry.thy ===== *)
theory Retry
  imports Prelude
begin

text \<open>
  \<open>network_retry.rs\<close>: the retry loop every network client of the node runs its requests in, and
  the classification of HTTP, I/O and client errors; and the two clients that classify replies
  with it: the sender client (\<open>sol_submitter.rs\<close>) and the Electrs client
  (\<open>doge_link_rpc_async.rs\<close>).

  A \<open>Duration\<close> is its nanoseconds. What the loop cannot see in advance is the environment: the
  outcome of the \<open>n\<close>-th call of the operation, the time the call took and how much longer than
  asked the timer slept. The loop is a \<open>partial_function\<close>: it returns \<open>None\<close> exactly when it
  never stops, and otherwise the result with the times at which the calls started.
\<close>

type_synonym duration = nat

definition duration_max :: duration where
  "duration_max = (2 ^ 64 - 1) * 1000000000 + 999999999"

definition from_secs :: "nat \<Rightarrow> duration" where
  "from_secs s = s * 1000000000"

definition from_millis :: "nat \<Rightarrow> duration" where
  "from_millis ms = ms * 1000000"

definition duration_saturating_mul :: "duration \<Rightarrow> nat \<Rightarrow> duration" where
  "duration_saturating_mul d n = min (d * n) duration_max"

definition u64_saturating_add :: "u64 \<Rightarrow> u64 \<Rightarrow> u64" where
  "u64_saturating_add a b = (if unat a + unat b < 2 ^ 64 then a + b else -1)"

record retry_policy =
  request_timeout :: duration
  initial_delay :: duration
  max_delay :: duration
  overall_deadline :: "duration option"
  max_attempts :: "u64 option"

definition policy_new :: "duration \<Rightarrow> duration \<Rightarrow> duration \<Rightarrow> retry_policy" where
  "policy_new timeout initial maximum =
     \<lparr>request_timeout = timeout, initial_delay = initial, max_delay = maximum,
      overall_deadline = None, max_attempts = None\<rparr>"

definition with_overall_deadline :: "duration \<Rightarrow> retry_policy \<Rightarrow> retry_policy" where
  "with_overall_deadline deadline p = p\<lparr>overall_deadline := Some deadline\<rparr>"

definition with_max_attempts :: "u64 \<Rightarrow> retry_policy \<Rightarrow> retry_policy" where
  "with_max_attempts n p = p\<lparr>max_attempts := Some n\<rparr>"

definition is_bounded :: "retry_policy \<Rightarrow> bool" where
  "is_bounded p \<longleftrightarrow> overall_deadline p \<noteq> None \<and> max_attempts p \<noteq> None"

definition default_policy :: retry_policy where
  "default_policy =
     with_max_attempts 20
       (with_overall_deadline (from_secs 600)
         (policy_new (from_secs 15) (from_millis 500) (from_secs 10)))"

datatype ('t, 'e) retry_action = Success 't | Retry 'e | Fatal 'e

record ('t, 'e) environment =
  call_outcome :: "nat \<Rightarrow> ('t, 'e) retry_action"
  call_time :: "nat \<Rightarrow> duration"
  oversleep :: "nat \<Rightarrow> duration"

text \<open>
  What happens after a transient error: \<open>None\<close> to give up with that error, or the time to sleep
  before the next attempt.
\<close>

definition after_retry :: "retry_policy \<Rightarrow> u64 \<Rightarrow> duration \<Rightarrow> duration \<Rightarrow> duration option" where
  "after_retry p attempt elapsed delay =
     (if (case max_attempts p of Some m \<Rightarrow> attempt \<ge> m | None \<Rightarrow> False) then None
      else case overall_deadline p of
             Some deadline \<Rightarrow>
               if elapsed \<ge> deadline then None else Some (min delay (deadline - elapsed))
           | None \<Rightarrow> Some delay)"

definition next_delay :: "retry_policy \<Rightarrow> duration \<Rightarrow> duration" where
  "next_delay p delay = min (duration_saturating_mul delay 2) (max_delay p)"

partial_function (option) retry_loop ::
  "retry_policy \<Rightarrow> ('t, 'e) environment \<Rightarrow> nat \<Rightarrow> u64 \<Rightarrow> duration \<Rightarrow> duration
     \<Rightarrow> (('e + 't) \<times> duration list) option" where
  "retry_loop p env calls attempt elapsed delay =
     (case call_outcome env calls of
        Success v \<Rightarrow> Some (Inr v, [elapsed])
      | Fatal e \<Rightarrow> Some (Inl e, [elapsed])
      | Retry e \<Rightarrow>
          (let now = elapsed + call_time env calls
           in case after_retry p attempt now delay of
                None \<Rightarrow> Some (Inl e, [elapsed])
              | Some pause \<Rightarrow>
                  Option.bind
                    (retry_loop p env (Suc calls) (u64_saturating_add attempt 1)
                       (now + pause + oversleep env calls) (next_delay p delay))
                    (\<lambda>r. Some (fst r, elapsed # snd r))))"

definition retry_run :: "retry_policy \<Rightarrow> ('t, 'e) environment \<Rightarrow> (('e + 't) \<times> duration list) option" where
  "retry_run p env = retry_loop p env 0 1 0 (initial_delay p)"

section \<open>Classification of errors\<close>

definition is_retryable_http_status :: "u16 \<Rightarrow> bool" where
  "is_retryable_http_status status = (status \<in> {408, 425, 429, 500, 502, 503, 504})"

text \<open>\<open>std::io::ErrorKind\<close>: the kinds the code names, and the others.\<close>

datatype io_error_kind = BrokenPipe | ConnectionAborted | ConnectionRefused | ConnectionReset
  | Interrupted | NotConnected | TimedOut | UnexpectedEof | WouldBlock | OtherKind

definition is_retryable_io_kind :: "io_error_kind \<Rightarrow> bool" where
  "is_retryable_io_kind kind =
     (case kind of
        BrokenPipe \<Rightarrow> True | ConnectionAborted \<Rightarrow> True | ConnectionRefused \<Rightarrow> True
      | ConnectionReset \<Rightarrow> True | Interrupted \<Rightarrow> True | NotConnected \<Rightarrow> True
      | TimedOut \<Rightarrow> True | UnexpectedEof \<Rightarrow> True | WouldBlock \<Rightarrow> True
      | OtherKind \<Rightarrow> False)"

text \<open>
  An error with its chain of sources, outermost first: each link is an \<open>io::Error\<close> of some kind
  or another error.
\<close>

type_synonym error_chain = "io_error_kind option list"

fun has_retryable_io_source :: "error_chain \<Rightarrow> bool" where
  "has_retryable_io_source [] = False"
| "has_retryable_io_source (Some kind # sources) =
     (if is_retryable_io_kind kind then True else has_retryable_io_source sources)"
| "has_retryable_io_source (None # sources) = has_retryable_io_source sources"

text \<open>What the code observes of a \<open>reqwest::Error\<close>.\<close>

record reqwest_error =
  err_builder :: bool
  err_redirect :: bool
  err_timeout :: bool
  err_connect :: bool
  err_request :: bool
  err_body :: bool
  err_sources :: error_chain
  err_status :: "u16 option"

definition is_retryable_reqwest :: "reqwest_error \<Rightarrow> bool" where
  "is_retryable_reqwest e =
     (if err_builder e \<or> err_redirect e then False
      else if err_timeout e \<or> err_connect e \<or> err_request e \<or> err_body e
              \<or> has_retryable_io_source (err_sources e) then True
      else case err_status e of
             Some status \<Rightarrow> is_retryable_http_status status
           | None \<Rightarrow> False)"

section \<open>The clients\<close>

datatype client_error = Transport reqwest_error | Message string

definition classify :: "reqwest_error \<Rightarrow> ('t, client_error) retry_action" where
  "classify e = (if is_retryable_reqwest e then Retry (Transport e) else Fatal (Transport e))"

definition is_success_status :: "u16 \<Rightarrow> bool" where
  "is_success_status status \<longleftrightarrow> 200 \<le> status \<and> status < 300"

record block_update_response =
  resp_signature :: string
  resp_idempotency_key :: string

record ambiguous_response =
  amb_status :: string
  amb_signature :: string
  amb_idempotency_key :: string

text \<open>
  The reply to a POST: a transport error, or a status with what reading its body as each of the
  types gives.
\<close>

datatype submit_reply =
    SendError reqwest_error
  | Reply (reply_status: u16)
      (as_ambiguous: "reqwest_error + ambiguous_response")
      (as_response: "reqwest_error + block_update_response")
      (as_text: "reqwest_error + string")

definition block_update_attempt :: "submit_reply \<Rightarrow> (block_update_response, client_error) retry_action" where
  "block_update_attempt reply =
     (case reply of
        SendError e \<Rightarrow> classify e
      | Reply status ambiguous response body \<Rightarrow>
          if status = 202 then
            (case ambiguous of
               Inr a \<Rightarrow>
                 if amb_status a = ''ambiguous''
                 then Fatal (Message ''block-update submission outcome is ambiguous'')
                 else Fatal (Message ''unexpected accepted block-update status'')
             | Inl e \<Rightarrow> classify e)
          else if is_success_status status then
            (case response of Inr r \<Rightarrow> Success r | Inl e \<Rightarrow> classify e)
          else
            (case body of
               Inr b \<Rightarrow>
                 if is_retryable_http_status status
                 then Retry (Message ''block-update submission failed'')
                 else Fatal (Message ''block-update submission failed'')
             | Inl e \<Rightarrow> classify e))"

definition block_update ::
  "retry_policy \<Rightarrow> (nat \<Rightarrow> submit_reply) \<Rightarrow> (nat \<Rightarrow> duration) \<Rightarrow> (nat \<Rightarrow> duration)
     \<Rightarrow> ((client_error + block_update_response) \<times> duration list) option" where
  "block_update p replies spent lags =
     retry_run p \<lparr>call_outcome = (\<lambda>n. block_update_attempt (replies n)), call_time = spent, oversleep = lags\<rparr>"

datatype bytes_reply =
    GetError reqwest_error
  | GetReply (get_status: u16) (get_body: "reqwest_error + bytes")

definition electrs_attempt :: "bytes_reply \<Rightarrow> (bytes, client_error) retry_action" where
  "electrs_attempt reply =
     (case reply of
        GetError e \<Rightarrow> classify e
      | GetReply status body \<Rightarrow>
          if \<not> is_success_status status then
            (if is_retryable_http_status status
             then Retry (Message ''Electrs request returned HTTP status'')
             else Fatal (Message ''Electrs request returned HTTP status''))
          else (case body of Inr b \<Rightarrow> Success b | Inl e \<Rightarrow> classify e))"

definition get_response_bytes ::
  "retry_policy \<Rightarrow> (nat \<Rightarrow> bytes_reply) \<Rightarrow> (nat \<Rightarrow> duration) \<Rightarrow> (nat \<Rightarrow> duration)
     \<Rightarrow> ((client_error + bytes) \<times> duration list) option" where
  "get_response_bytes p replies spent lags =
     retry_run p \<lparr>call_outcome = (\<lambda>n. electrs_attempt (replies n)), call_time = spent, oversleep = lags\<rparr>"

section \<open>The loop\<close>

lemma after_retry_Some:
  assumes "after_retry p attempt elapsed delay = Some pause"
  shows "max_attempts p = Some m \<Longrightarrow> attempt < m"
    and "overall_deadline p = Some d \<Longrightarrow> elapsed + pause \<le> d"
  using assms by (auto simp: after_retry_def not_le split: if_splits option.splits)

lemma attempt_step:
  assumes "attempt < (m :: u64)"
  shows "unat (u64_saturating_add attempt 1) = unat attempt + 1"
proof -
  have "unat attempt + 1 < 2 ^ 64"
    using assms unsigned_less[of m, where 'a = nat] by (simp add: word_less_nat_alt)
  then show ?thesis by (simp add: u64_saturating_add_def unat_word_ariths)
qed

lemma attempt_le: "unat (u64_saturating_add attempt 1) \<le> unat attempt + 1"
proof (cases "unat attempt + 1 < 2 ^ 64")
  case True
  then show ?thesis by (simp add: u64_saturating_add_def unat_word_ariths)
next
  case False
  then show ?thesis
    using unsigned_less[of "-1 :: u64", where 'a = nat] by (simp add: u64_saturating_add_def)
qed

text \<open>With a cap on the attempts the loop stops, after at most that many calls.\<close>

lemma retry_loop_stops:
  assumes "max_attempts p = Some m"
  shows "\<exists>r starts. retry_loop p env calls attempt elapsed delay = Some (r, starts)
    \<and> length starts \<le> (unat m - unat attempt) + 1"
proof (induction "unat m - unat attempt" arbitrary: calls attempt elapsed delay rule: less_induct)
  case less
  show ?case
  proof (cases "call_outcome env calls")
    case (Retry e)
    let ?now = "elapsed + call_time env calls"
    show ?thesis
    proof (cases "after_retry p attempt ?now delay")
      case None
      then show ?thesis using Retry by (subst retry_loop.simps) (simp add: Let_def)
    next
      case (Some pause)
      then have lt: "attempt < m" using after_retry_Some(1) assms by blast
      note step = attempt_step[OF lt]
      have "unat attempt < unat m" using lt by (simp add: word_less_nat_alt)
      then have dec: "unat m - unat (u64_saturating_add attempt 1) < unat m - unat attempt"
        by (simp add: step)
      obtain r starts where "retry_loop p env (Suc calls) (u64_saturating_add attempt 1)
          (?now + pause + oversleep env calls) (next_delay p delay) = Some (r, starts)"
        and "length starts \<le> (unat m - unat (u64_saturating_add attempt 1)) + 1"
        using less[OF dec] by blast
      then show ?thesis using Retry Some \<open>unat attempt < unat m\<close>
        by (subst retry_loop.simps) (simp add: Let_def step)
    qed
  qed (subst retry_loop.simps; simp)+
qed

text \<open>The result is the outcome of the last call, and every earlier call failed transiently.\<close>

definition answers :: "('e + 't) \<Rightarrow> ('t, 'e) retry_action \<Rightarrow> bool" where
  "answers r a = (case a of Success v \<Rightarrow> r = Inr v | Fatal e \<Rightarrow> r = Inl e | Retry e \<Rightarrow> r = Inl e)"

definition is_retry :: "('t, 'e) retry_action \<Rightarrow> bool" where
  "is_retry a = (case a of Retry e \<Rightarrow> True | _ \<Rightarrow> False)"

lemma retry_loop_last:
  assumes "retry_loop p env calls attempt elapsed delay = Some out"
  shows "\<exists>n. length (snd out) = Suc n \<and> answers (fst out) (call_outcome env (calls + n))
    \<and> (\<forall>i < n. is_retry (call_outcome env (calls + i)))"
proof (rule retry_loop.raw_induct[OF _ assms], goal_cases)
  case (1 f p env calls attempt elapsed delay out)
  show ?case
  proof (cases "call_outcome env calls")
    case (Retry e)
    let ?now = "elapsed + call_time env calls"
    show ?thesis
    proof (cases "after_retry p attempt ?now delay")
      case None
      then show ?thesis using 1(2) Retry by (intro exI[of _ 0]) (auto simp: answers_def Let_def)
    next
      case (Some pause)
      then obtain out' where f: "f p env (Suc calls) (u64_saturating_add attempt 1)
          (?now + pause + oversleep env calls) (next_delay p delay) = Some out'"
        and out: "out = (fst out', elapsed # snd out')"
        using 1(2) Retry by (auto simp: Let_def bind_eq_Some_conv)
      obtain n where n: "length (snd out') = Suc n" "answers (fst out') (call_outcome env (Suc calls + n))"
        "\<forall>i < n. is_retry (call_outcome env (Suc calls + i))" using 1(1)[OF f] by blast
      have "is_retry (call_outcome env (calls + i))" if "i < Suc n" for i
        using that n(3) Retry by (cases i) (auto simp: is_retry_def)
      then show ?thesis using n out by (intro exI[of _ "Suc n"]) simp
    qed
  qed (use 1(2) in \<open>auto simp: answers_def intro!: exI[of _ 0]\<close>)
qed

lemma retry_loop_unbounded:
  assumes "retry_loop p env calls attempt elapsed delay = Some out"
  shows "overall_deadline p = None \<and> max_attempts p = None \<longrightarrow> (\<exists>n. \<not> is_retry (call_outcome env n))"
proof (rule retry_loop.raw_induct[OF _ assms], goal_cases)
  case (1 f p env calls attempt elapsed delay out)
  show ?case
  proof (cases "call_outcome env calls")
    case (Retry e)
    then show ?thesis
      using 1 by (auto simp: Let_def bind_eq_Some_conv after_retry_def)
  qed (auto simp: is_retry_def intro!: exI[of _ calls])
qed

text \<open>A loop whose last call failed transiently has used up its attempts or its time.\<close>

lemma retry_loop_gave_up:
  assumes "retry_loop p env calls attempt elapsed delay = Some out"
  shows "\<exists>n. length (snd out) = Suc n \<and> (is_retry (call_outcome env (calls + n)) \<longrightarrow>
      (\<exists>m. max_attempts p = Some m \<and> unat m \<le> unat attempt + n)
      \<or> (\<exists>d. overall_deadline p = Some d \<and> d \<le> last (snd out) + call_time env (calls + n)))"
proof (rule retry_loop.raw_induct[OF _ assms], goal_cases)
  case (1 f p env calls attempt elapsed delay out)
  show ?case
  proof (cases "call_outcome env calls")
    case (Retry e)
    let ?now = "elapsed + call_time env calls"
    show ?thesis
    proof (cases "after_retry p attempt ?now delay")
      case None
      then have "(\<exists>m. max_attempts p = Some m \<and> unat m \<le> unat attempt)
          \<or> (\<exists>d. overall_deadline p = Some d \<and> d \<le> ?now)"
        by (auto simp: after_retry_def word_le_nat_alt split: if_splits option.splits)
      then show ?thesis using 1(2) Retry None by (intro exI[of _ 0]) (auto simp: Let_def)
    next
      case (Some pause)
      then obtain out' where f: "f p env (Suc calls) (u64_saturating_add attempt 1)
          (?now + pause + oversleep env calls) (next_delay p delay) = Some out'"
        and out: "out = (fst out', elapsed # snd out')"
        using 1(2) Retry by (auto simp: Let_def bind_eq_Some_conv)
      obtain n where n: "length (snd out') = Suc n"
        "is_retry (call_outcome env (Suc calls + n)) \<longrightarrow>
          (\<exists>m. max_attempts p = Some m \<and> unat m \<le> unat (u64_saturating_add attempt 1) + n)
          \<or> (\<exists>d. overall_deadline p = Some d \<and> d \<le> last (snd out') + call_time env (Suc calls + n))"
        using 1(1)[OF f] by blast
      have "unat (u64_saturating_add attempt 1) \<le> unat attempt + 1" by (rule attempt_le)
      moreover have "snd out' \<noteq> []" using n(1) by auto
      ultimately show ?thesis using n out by (intro exI[of _ "Suc n"]) auto
    qed
  qed (use 1(2) in \<open>auto simp: is_retry_def intro!: exI[of _ 0]\<close>)
qed

lemma retry_loop_starts:
  assumes "retry_loop p env calls attempt elapsed delay = Some out"
  shows "overall_deadline p = Some d \<and> (\<forall>n. oversleep env n = 0) \<longrightarrow>
    snd out \<noteq> [] \<and> hd (snd out) = elapsed \<and> (\<forall>t \<in> set (tl (snd out)). t \<le> d)"
proof (rule retry_loop.raw_induct[OF _ assms], goal_cases)
  case (1 f p env calls attempt elapsed delay out)
  show ?case
  proof (intro impI, elim conjE, cases "call_outcome env calls")
    fix e
    assume d: "overall_deadline p = Some d" "\<forall>n. oversleep env n = 0" and Retry: "call_outcome env calls = Retry e"
    let ?now = "elapsed + call_time env calls"
    show "snd out \<noteq> [] \<and> hd (snd out) = elapsed \<and> (\<forall>t \<in> set (tl (snd out)). t \<le> d)"
    proof (cases "after_retry p attempt ?now delay")
      case None
      then show ?thesis using 1(2) Retry by (auto simp: Let_def)
    next
      case (Some pause)
      then obtain out' where f: "f p env (Suc calls) (u64_saturating_add attempt 1)
          (?now + pause + oversleep env calls) (next_delay p delay) = Some out'"
        and out: "out = (fst out', elapsed # snd out')"
        using 1(2) Retry by (auto simp: Let_def bind_eq_Some_conv)
      have "?now + pause \<le> d" using after_retry_Some(2)[OF Some d(1)] .
      moreover have "snd out' \<noteq> [] \<and> hd (snd out') = ?now + pause \<and> (\<forall>t \<in> set (tl (snd out')). t \<le> d)"
        using 1(1)[OF f] d by simp
      ultimately show ?thesis using out by (cases "snd out'") auto
    qed
  qed (use 1(2) in auto)
qed

section \<open>Properties\<close>

text \<open>
  Claim C18. A policy with a cap on the attempts always returns, whatever the environment
  does, after at most that many calls (one call when the cap is 0), with the outcome of the last
  call, every earlier one having failed transiently.
\<close>

theorem retry_run_stops:
  assumes m: "max_attempts p = Some m"
  shows "\<exists>r starts n. retry_run p env = Some (r, starts) \<and> length starts = Suc n
      \<and> Suc n \<le> max 1 (unat m) \<and> answers r (call_outcome env n)
      \<and> (\<forall>i < n. is_retry (call_outcome env i))"
proof -
  obtain r starts where r: "retry_loop p env 0 1 0 (initial_delay p) = Some (r, starts)"
    "length starts \<le> (unat m - unat (1 :: u64)) + 1"
    using retry_loop_stops[OF m] by blast
  from retry_loop_last[OF r(1)] obtain n where
    "length starts = Suc n" "answers r (call_outcome env n)" "\<forall>i < n. is_retry (call_outcome env i)" by auto
  then show ?thesis
    using r by (intro exI[of _ r] exI[of _ starts] exI[of _ n]) (auto simp: retry_run_def)
qed

theorem retry_run_stops_witness:
  "\<exists>r starts n. retry_run default_policy \<lparr>call_outcome = (\<lambda>n. Retry n), call_time = (\<lambda>_. 5), oversleep = (\<lambda>_. 0)\<rparr>
      = Some (r :: nat + unit, starts) \<and> r = Inl n \<and> n < 20"
proof -
  have "max_attempts default_policy = Some 20" by (simp add: default_policy_def with_max_attempts_def)
  from retry_run_stops[OF this, of "\<lparr>call_outcome = (\<lambda>n. Retry n), call_time = (\<lambda>_. 5), oversleep = (\<lambda>_. 0)\<rparr>"]
  show ?thesis by (auto simp: answers_def)
qed

text \<open>
  Without a deadline and without a cap, an operation that always fails
  transiently is retried for ever: both bounds are what makes the loop stop.
\<close>

theorem retry_unbounded_never_returns:
  assumes "overall_deadline p = None" and "max_attempts p = None"
    and "\<forall>n. is_retry (call_outcome env n)"
  shows "retry_run p env = None"
  using retry_loop_unbounded[of p env 0 1 0 "initial_delay p"] assms
  by (cases "retry_run p env") (auto simp: retry_run_def)

theorem retry_unbounded_never_returns_witness:
  "retry_run (policy_new (from_secs 15) (from_millis 500) (from_secs 10))
     \<lparr>call_outcome = (\<lambda>n. Retry n :: (unit, nat) retry_action), call_time = (\<lambda>_. 5), oversleep = (\<lambda>_. 0)\<rparr> = None"
  by (rule retry_unbounded_never_returns) (simp_all add: policy_new_def is_retry_def)

text \<open>
  When the timer is exact, no attempt after the first starts later than the
  overall deadline: the last pause is cut to the time that is left.
\<close>

theorem retry_attempts_before_deadline:
  assumes "overall_deadline p = Some d" and "\<forall>n. oversleep env n = 0"
    and "retry_run p env = Some (r, starts)"
  shows "\<exists>later. starts = 0 # later \<and> (\<forall>t \<in> set later. t \<le> d)"
  using retry_loop_starts[of p env 0 1 0 "initial_delay p" "(r, starts)" d] assms
  by (cases starts) (auto simp: retry_run_def)

theorem retry_attempts_before_deadline_witness:
  "\<exists>r starts later. retry_run default_policy
       \<lparr>call_outcome = (\<lambda>n. Retry n), call_time = (\<lambda>_. from_secs 1), oversleep = (\<lambda>_. 0)\<rparr>
       = Some (r :: nat + unit, starts)
     \<and> starts = 0 # later \<and> (\<forall>t \<in> set later. t \<le> from_secs 600)"
proof -
  let ?env = "\<lparr>call_outcome = (\<lambda>n. Retry n), call_time = (\<lambda>_. from_secs 1), oversleep = (\<lambda>_. 0)\<rparr>
    :: (unit, nat) environment"
  have p: "max_attempts default_policy = Some 20" "overall_deadline default_policy = Some (from_secs 600)"
    by (simp_all add: default_policy_def with_max_attempts_def with_overall_deadline_def)
  obtain r starts where "retry_run default_policy ?env = Some (r, starts)"
    using retry_loop_stops[OF p(1)] unfolding retry_run_def by blast
  with retry_attempts_before_deadline[OF p(2), of ?env] show ?thesis by auto
qed

text \<open>
  Claim C34. Whatever the other replies are, a submission answered with HTTP 202 ends as follows.
  When the body of the reply decodes, the loop ends with an error and the submission is not sent
  again. When the body cannot be read and the read error is permanent, the loop ends with that
  error. When the read error is transient (a timeout, a broken connection) the submission is sent
  again although the sender has accepted it, unless the attempts or the time of the policy are
  used up, and then the loop ends with the read error.
\<close>

theorem accepted_submission_outcome:
  assumes "replies n = Reply 202 ambiguous response body"
    and "block_update p replies spent lags = Some (r, starts)" and "n < length starts"
  shows "case ambiguous of
      Inr a \<Rightarrow> length starts = Suc n \<and> (\<exists>m. r = Inl (Message m))
    | Inl e \<Rightarrow>
        if is_retryable_reqwest e
        then Suc n < length starts
          \<or> r = Inl (Transport e)
            \<and> ((\<exists>m. max_attempts p = Some m \<and> unat m \<le> Suc n)
              \<or> (\<exists>d. overall_deadline p = Some d \<and> d \<le> last starts + spent n))
        else length starts = Suc n \<and> r = Inl (Transport e)"
proof -
  let ?env = "\<lparr>call_outcome = (\<lambda>n. block_update_attempt (replies n)), call_time = spent, oversleep = lags\<rparr>"
  have run: "retry_loop p ?env 0 1 0 (initial_delay p) = Some (r, starts)"
    using assms(2) by (simp add: block_update_def retry_run_def)
  obtain k where k: "length starts = Suc k" "answers r (block_update_attempt (replies k))"
    "\<forall>i < k. is_retry (block_update_attempt (replies i))"
    using retry_loop_last[OF run] by auto
  have up: "is_retry (block_update_attempt (replies k)) \<longrightarrow>
      (\<exists>m. max_attempts p = Some m \<and> unat m \<le> Suc k) \<or> (\<exists>d. overall_deadline p = Some d \<and> d \<le> last starts + spent k)"
    using retry_loop_gave_up[OF run] k(1) by auto
  have n: "n = k \<or> n < k \<and> is_retry (block_update_attempt (replies n))"
    using k(1,3) assms(3) by auto
  then show ?thesis
    using k(1,2) up assms(1)
    by (auto simp: block_update_attempt_def classify_def answers_def is_retry_def split: sum.splits if_splits)
qed

definition ambiguous_reply :: submit_reply where
  "ambiguous_reply =
     Reply 202 (Inr \<lparr>amb_status = ''ambiguous'', amb_signature = ''s'', amb_idempotency_key = ''k''\<rparr>)
       (Inr \<lparr>resp_signature = ''s'', resp_idempotency_key = ''k''\<rparr>) (Inr [])"

definition body_timeout :: reqwest_error where
  "body_timeout =
     \<lparr>err_builder = False, err_redirect = False, err_timeout = True, err_connect = False, err_request = False,
      err_body = True, err_sources = [], err_status = None\<rparr>"

definition unread_reply :: submit_reply where
  "unread_reply = Reply 202 (Inl body_timeout) (Inl body_timeout) (Inl body_timeout)"

text \<open>The body of the first 202 times out: the submission is sent again, and the second 202 ends the loop.\<close>

theorem accepted_submission_outcome_witness:
  "\<exists>r starts. block_update default_policy (\<lambda>n. if n = 0 then unread_reply else ambiguous_reply) (\<lambda>_. 1) (\<lambda>_. 0)
       = Some (r, starts)
     \<and> length starts = 2 \<and> (\<exists>m. r = Inl (Message m))"
proof -
  let ?replies = "\<lambda>n :: nat. if n = 0 then unread_reply else ambiguous_reply"
  let ?env = "\<lparr>call_outcome = (\<lambda>n. block_update_attempt (?replies n)), call_time = (\<lambda>_. 1), oversleep = (\<lambda>_. 0)\<rparr>"
  have p: "max_attempts default_policy = Some 20" "overall_deadline default_policy = Some (from_secs 600)"
    by (simp_all add: default_policy_def with_max_attempts_def with_overall_deadline_def)
  obtain r starts where run: "retry_loop default_policy ?env 0 1 0 (initial_delay default_policy) = Some (r, starts)"
    using retry_loop_stops[OF p(1)] by blast
  then have b: "block_update default_policy ?replies (\<lambda>_. 1) (\<lambda>_. 0) = Some (r, starts)"
    by (simp add: block_update_def retry_run_def)
  have s: "starts \<noteq> []" "hd starts = 0" using retry_loop_starts[OF run] p(2) by auto
  have e: "is_retryable_reqwest body_timeout" by (simp add: is_retryable_reqwest_def body_timeout_def)
  have "Suc 0 < length starts"
  proof (rule ccontr)
    assume "\<not> Suc 0 < length starts"
    then have l: "starts = [0]" using s by (cases starts) auto
    show False
      using accepted_submission_outcome[of ?replies 0 "Inl body_timeout", OF _ b] e p
      by (simp add: unread_reply_def l from_secs_def)
  qed
  then have "length starts = 2 \<and> (\<exists>m. r = Inl (Message m))"
    using accepted_submission_outcome[OF _ b, where n = 1] by (simp add: ambiguous_reply_def)
  with b show ?thesis by blast
qed

end
