(* ===== verification/Proof_Queue.thy ===== *)
theory Proof_Queue
  imports Crates
begin

text \<open>
  \<open>proof_queue.rs\<close>: the content-addressed proof jobs and their results, the lease protocol of a
  job's state, the local backend's use of the prover daemon, and the Redis backend (the submit
  script and the wait loop).

  \<open>serde_json\<close> is a record of functions \<open>serde\<close>: what the code encodes and decodes with it;
  \<open>serde_laws\<close> says that encoding a request or a job succeeds and is injective. A Rust string is
  the list of its bytes. Redis is a table of string values and a table of lists.
\<close>

section \<open>Requests and jobs\<close>

record proof_request =
  rq_request_id :: string
  rq_old_state :: string
  rq_witness :: string
  rq_finalized_witness :: string
  rq_custody_script_config :: string
  rq_required_confirmations :: u32
  rq_flat_fee :: u64
  rq_fee_num :: u64
  rq_fee_den :: u64
  rq_old_header :: string
  rq_new_header :: string
  rq_config_params :: string

record proof_job =
  job_schema_version :: u32
  job_id :: string
  job_network :: string
  job_height :: u32
  job_parent :: string
  job_fingerprint :: string
  job_guest_id :: string
  job_block_elf :: string
  job_vkey_hash :: string
  job_request :: proof_request

datatype proof_job_state =
    Queued
  | Claimed (worker_id: string) (lease_id: string) (lease_expires_ms: u64) (claim_attempt: u32)
  | Completed (completed_ms: u64) (complete_attempt: u32)
  | Failed (failed_ms: u64) (fail_attempt: u32) (failure: string)

datatype 'j proof_outcome =
    OutSuccess (out_response: 'j) (out_stderr: string)
  | OutError (out_error: string)

record 'j proof_result =
  res_schema_version :: u32
  res_job_id :: string
  res_network :: string
  res_height :: u32
  res_parent :: string
  res_fingerprint :: string
  res_guest_id :: string
  res_block_elf :: string
  res_vkey_hash :: string
  res_outcome :: "'j proof_outcome"

record prover_response =
  pr_kind :: string
  pr_request_id :: "string option"
  pr_ok :: bool
  pr_network :: "string option"
  pr_guest_id :: "string option"
  pr_block_elf :: "string option"
  pr_vkey_hash :: "string option"
  pr_proof_size :: "nat option"
  pr_proof_bytes :: "string option"
  pr_public_values_size :: "nat option"
  pr_public_values :: "string option"
  pr_error :: "string option"

record prover_output =
  po_stdout :: bytes
  po_stderr :: bytes
  po_vk_hash :: bytes
  po_proof :: bytes
  po_public_values :: bytes

text \<open>\<open>serde_json\<close>, with \<open>'j\<close> for \<open>serde_json::Value\<close>.\<close>

record 'j serde =
  request_to_vec :: "proof_request \<Rightarrow> bytes res"
  job_to_string :: "proof_job \<Rightarrow> string res"
  json_to_vec :: "'j \<Rightarrow> bytes res"
  json_from_slice :: "bytes \<Rightarrow> 'j option"
  response_from_json :: "'j \<Rightarrow> prover_response option"
  result_from_str :: "string \<Rightarrow> 'j proof_result option"
  state_from_str :: "string \<Rightarrow> proof_job_state option"

definition serde_laws :: "'j serde \<Rightarrow> bool" where
  "serde_laws J \<longleftrightarrow>
     (\<forall>r. is_ok (request_to_vec J r)) \<and>
     (\<forall>r r'. request_to_vec J r = request_to_vec J r' \<longrightarrow> r = r') \<and>
     (\<forall>j. is_ok (job_to_string J j)) \<and>
     (\<forall>j j'. job_to_string J j = job_to_string J j' \<longrightarrow> j = j')"

section \<open>Helpers\<close>

definition proof_schema_version :: u32 where
  "proof_schema_version = 2"

definition default_queue_prefix :: string where
  "default_queue_prefix = ''PDOGE-SP1-PROOF-V2''"

definition str_bytes :: "string \<Rightarrow> bytes" where
  "str_bytes s = map of_char s"

definition canonical_request_bytes :: "'j serde \<Rightarrow> proof_request \<Rightarrow> bytes res" where
  "canonical_request_bytes J request = request_to_vec J request"

definition append_len_prefixed :: "bytes \<Rightarrow> bytes \<Rightarrow> bytes res" where
  "append_len_prefixed output bs =
     (if length bs < 2 ^ 32
      then Inr (output @ to_be_bytes 4 (of_nat (length bs) :: u32) @ bs)
      else Inl (Err ''proof identity field exceeds u32''))"

definition decode_hex_32 :: "crates \<Rightarrow> string \<Rightarrow> bytes res" where
  "decode_hex_32 X s =
     (case hex_decode X s of
        None \<Rightarrow> Inl (Err ''invalid hex'')
      | Some bs \<Rightarrow> if length bs = 32 then Inr bs else Inl (Err ''must be 32 bytes''))"

definition is_ascii_uppercase :: "char \<Rightarrow> bool" where
  "is_ascii_uppercase c \<longleftrightarrow> CHR ''A'' \<le> c \<and> c \<le> CHR ''Z''"

definition validate_hex_32 :: "crates \<Rightarrow> string \<Rightarrow> unit res" where
  "validate_hex_32 X s =
     and_then (decode_hex_32 X s) (\<lambda>_.
       if length s \<noteq> 64 \<or> list_ex is_ascii_uppercase s
       then Inl (Err ''must use 64 lowercase hexadecimal characters'')
       else Inr ())"

definition decode_required_response_bytes :: "crates \<Rightarrow> string option \<Rightarrow> bytes res" where
  "decode_required_response_bytes X v =
     (case v of
        None \<Rightarrow> Inl (Err ''proof response is missing bytes'')
      | Some s \<Rightarrow>
          (case hex_decode X s of
             None \<Rightarrow> Inl (Err ''invalid proof response hex'')
           | Some bs \<Rightarrow> Inr bs))"

definition sha256_hex :: "crates \<Rightarrow> bytes \<Rightarrow> string" where
  "sha256_hex X bs = hex_encode X (sha256 X bs)"

section \<open>The identity of a job\<close>

definition job_identity :: "crates \<Rightarrow> 'j serde \<Rightarrow> proof_job \<Rightarrow> bytes res" where
  "job_identity X J job =
     and_then (canonical_request_bytes J (job_request job)) (\<lambda>request_bytes.
     and_then (append_len_prefixed (to_be_bytes 4 (job_schema_version job)) (str_bytes (job_network job))) (\<lambda>i1.
     and_then (decode_hex_32 X (job_parent job)) (\<lambda>parent.
     and_then (decode_hex_32 X (job_fingerprint job)) (\<lambda>fingerprint.
     and_then (append_len_prefixed (i1 @ to_be_bytes 4 (job_height job) @ parent @ fingerprint)
                 (str_bytes (job_guest_id job))) (\<lambda>i2.
     and_then (decode_hex_32 X (job_block_elf job)) (\<lambda>elf.
     and_then (decode_hex_32 X (job_vkey_hash job)) (\<lambda>vkey.
     append_len_prefixed (i2 @ elf @ vkey) request_bytes)))))))"

definition compute_job_id :: "crates \<Rightarrow> 'j serde \<Rightarrow> proof_job \<Rightarrow> string res" where
  "compute_job_id X J job = and_then (job_identity X J job) (\<lambda>identity. Inr (sha256_hex X identity))"

definition job_validate :: "crates \<Rightarrow> 'j serde \<Rightarrow> proof_job \<Rightarrow> unit res" where
  "job_validate X J job =
     (if job_schema_version job \<noteq> proof_schema_version
      then Inl (Err ''proof job schema version is unsupported'')
      else
     and_then (validate_hex_32 X (job_parent job)) (\<lambda>_.
     and_then (validate_hex_32 X (job_fingerprint job)) (\<lambda>_.
     and_then (validate_hex_32 X (job_block_elf job)) (\<lambda>_.
     and_then (validate_hex_32 X (job_vkey_hash job)) (\<lambda>_.
     and_then (canonical_request_bytes J (job_request job)) (\<lambda>request_bytes.
     if job_fingerprint job \<noteq> sha256_hex X request_bytes
     then Inl (Err ''proof job input fingerprint mismatch'')
     else
     and_then (compute_job_id X J job) (\<lambda>actual_job_id.
     if job_id job \<noteq> actual_job_id
     then Inl (Err ''proof job id mismatch'')
     else Inr ())))))))"

definition job_new ::
  "crates \<Rightarrow> 'j serde \<Rightarrow> string \<Rightarrow> u32 \<Rightarrow> string \<Rightarrow> string \<Rightarrow> string \<Rightarrow> string \<Rightarrow> proof_request
     \<Rightarrow> proof_job res" where
  "job_new X J network height parent guest_id block_elf vkey_hash request =
     and_then (canonical_request_bytes J request) (\<lambda>request_bytes.
     let job = \<lparr>job_schema_version = proof_schema_version, job_id = '''', job_network = network,
                job_height = height, job_parent = parent,
                job_fingerprint = sha256_hex X request_bytes, job_guest_id = guest_id,
                job_block_elf = block_elf, job_vkey_hash = vkey_hash, job_request = request\<rparr>
     in and_then (compute_job_id X J job) (\<lambda>id.
        let job = job\<lparr>job_id := id\<rparr>
        in and_then (job_validate X J job) (\<lambda>_. Inr job)))"

definition identity_matches :: "proof_job \<Rightarrow> 'j proof_result \<Rightarrow> bool" where
  "identity_matches job result \<longleftrightarrow>
     job_schema_version job = res_schema_version result
     \<and> job_id job = res_job_id result
     \<and> job_network job = res_network result
     \<and> job_height job = res_height result
     \<and> job_parent job = res_parent result
     \<and> job_fingerprint job = res_fingerprint result
     \<and> job_guest_id job = res_guest_id result
     \<and> job_block_elf job = res_block_elf result
     \<and> job_vkey_hash job = res_vkey_hash result"

section \<open>Results\<close>

definition result_from_job :: "proof_job \<Rightarrow> 'j proof_outcome \<Rightarrow> 'j proof_result" where
  "result_from_job job outcome =
     \<lparr>res_schema_version = job_schema_version job, res_job_id = job_id job,
      res_network = job_network job, res_height = job_height job, res_parent = job_parent job,
      res_fingerprint = job_fingerprint job, res_guest_id = job_guest_id job,
      res_block_elf = job_block_elf job, res_vkey_hash = job_vkey_hash job, res_outcome = outcome\<rparr>"

definition result_success :: "crates \<Rightarrow> proof_job \<Rightarrow> 'j \<Rightarrow> bytes \<Rightarrow> 'j proof_result" where
  "result_success X job response stderr = result_from_job job (OutSuccess response (hex_encode X stderr))"

definition result_error :: "proof_job \<Rightarrow> string \<Rightarrow> 'j proof_result" where
  "result_error job error = result_from_job job (OutError error)"

definition validate_for :: "crates \<Rightarrow> 'j serde \<Rightarrow> 'j proof_result \<Rightarrow> proof_job \<Rightarrow> unit res" where
  "validate_for X J result job =
     and_then (job_validate X J job) (\<lambda>_.
       if \<not> identity_matches job result
       then Inl (Err ''proof result identity mismatch for expected job'')
       else Inr ())"

definition validate_daemon_response :: "proof_job \<Rightarrow> prover_response \<Rightarrow> unit res" where
  "validate_daemon_response job response =
     (if pr_kind response \<noteq> ''proof'' then Inl (Err ''proof response kind was not proof'')
      else if pr_request_id response \<noteq> Some (rq_request_id (job_request job))
      then Inl (Err ''proof response request_id did not match queued request'')
      else if \<not> pr_ok response
      then Inl (Err ''successful proof result wrapped a daemon error'')
      else and_then (try_map (\<lambda>(actual, expected).
               bail_if (actual \<noteq> Some expected) ''proof response mismatch'')
             [(pr_network response, job_network job),
              (pr_guest_id response, job_guest_id job),
              (pr_block_elf response, job_block_elf job),
              (pr_vkey_hash response, job_vkey_hash job)]) (\<lambda>_. Inr ()))"

definition into_prover_output ::
  "crates \<Rightarrow> 'j serde \<Rightarrow> 'j proof_result \<Rightarrow> proof_job \<Rightarrow> prover_output res" where
  "into_prover_output X J result job =
     and_then (validate_for X J result job) (\<lambda>_.
     case res_outcome result of
       OutError error \<Rightarrow> Inl (Err (''proof job failed: '' @ error))
     | OutSuccess response stderr_hex \<Rightarrow>
         and_then (ok_or (hex_decode X stderr_hex) (Err ''invalid proof result stderr hex'')) (\<lambda>stderr.
         and_then (json_to_vec J response) (\<lambda>response_bytes.
         and_then (ok_or (response_from_json J response)
                     (Err ''malformed proof result daemon response'')) (\<lambda>r.
         and_then (validate_daemon_response job r) (\<lambda>_.
         and_then (decode_required_response_bytes X (pr_proof_bytes r)) (\<lambda>proof.
         and_then (decode_required_response_bytes X (pr_public_values r)) (\<lambda>public_values.
         if pr_proof_size r \<noteq> Some (length proof)
         then Inl (Err ''proof result proof_size did not match returned bytes'')
         else if pr_public_values_size r \<noteq> Some (length public_values)
         then Inl (Err ''proof result public_values_size did not match returned bytes'')
         else
         and_then (decode_hex_32 X (job_vkey_hash job)) (\<lambda>vk_hash.
         Inr \<lparr>po_stdout = response_bytes, po_stderr = stderr, po_vk_hash = vk_hash,
              po_proof = proof, po_public_values = public_values\<rparr>))))))))"

section \<open>The lease protocol\<close>

datatype lease_cas_error = NotQueued | NotClaimed | FenceMismatch | Expired

definition claim_state ::
  "proof_job_state \<Rightarrow> string \<Rightarrow> string \<Rightarrow> u64 \<Rightarrow> u32 \<Rightarrow> lease_cas_error + proof_job_state" where
  "claim_state state worker lease expires attempt =
     (if state \<noteq> Queued then Inl NotQueued else Inr (Claimed worker lease expires attempt))"

definition heartbeat_state ::
  "proof_job_state \<Rightarrow> string \<Rightarrow> string \<Rightarrow> u64 \<Rightarrow> u64 \<Rightarrow> lease_cas_error + proof_job_state" where
  "heartbeat_state state worker lease expires now_ms =
     (case state of
        Claimed claimed_worker claimed_lease current_expiry attempt \<Rightarrow>
          if claimed_worker = worker \<and> claimed_lease = lease then
            (if current_expiry \<le> now_ms then Inl Expired
             else Inr (Claimed claimed_worker claimed_lease expires attempt))
          else Inl FenceMismatch
      | _ \<Rightarrow> Inl NotClaimed)"

definition complete_state ::
  "proof_job_state \<Rightarrow> string \<Rightarrow> string \<Rightarrow> u64 \<Rightarrow> lease_cas_error + proof_job_state" where
  "complete_state state worker lease done_ms =
     (case state of
        Claimed claimed_worker claimed_lease expires attempt \<Rightarrow>
          if claimed_worker = worker \<and> claimed_lease = lease then
            (if expires \<le> done_ms then Inl Expired
             else Inr (Completed done_ms attempt))
          else Inl FenceMismatch
      | _ \<Rightarrow> Inl NotClaimed)"

definition fail_state ::
  "proof_job_state \<Rightarrow> string \<Rightarrow> string \<Rightarrow> u64 \<Rightarrow> string \<Rightarrow> lease_cas_error + proof_job_state" where
  "fail_state state worker lease fail_ms error =
     (case complete_state state worker lease fail_ms of
        Inl e \<Rightarrow> Inl e
      | Inr s \<Rightarrow>
          (case s of
             Completed _ attempt \<Rightarrow> Inr (Failed fail_ms attempt error)
           | _ \<Rightarrow> Inl NotClaimed))"

section \<open>The local backend\<close>

text \<open>
  A request the prover answers with an error is final; any other failure of the daemon restarts
  it once. \<open>'d\<close> is the state of a running daemon: \<open>daemon_prove\<close> advances it, \<open>daemon_start\<close>
  makes one, \<open>prepare\<close> writes the request file.
\<close>

datatype prove_error = RequestError string | DaemonError string

record 'd daemon_ops =
  prepare_request :: "proof_request \<Rightarrow> unit res"
  daemon_start :: "'d res"
  daemon_prove :: "'d \<Rightarrow> proof_request \<Rightarrow> 'd \<times> (prove_error + prover_output)"

definition local_output_result ::
  "crates \<Rightarrow> 'j serde \<Rightarrow> proof_job \<Rightarrow> prover_output \<Rightarrow> 'j proof_result res" where
  "local_output_result X J job output =
     and_then (ok_or (json_from_slice J (po_stdout output))
                 (Err ''local gen-proof returned malformed JSON'')) (\<lambda>response.
     Inr (result_success X job response (po_stderr output)))"

fun prove_error_text :: "prove_error \<Rightarrow> string" where
  "prove_error_text (RequestError e) = e"
| "prove_error_text (DaemonError e) = e"

definition run_local_job ::
  "crates \<Rightarrow> 'j serde \<Rightarrow> 'd daemon_ops \<Rightarrow> 'd option \<Rightarrow> proof_job \<Rightarrow> 'd option \<times> 'j proof_result res" where
  "run_local_job X J ops daemon job =
     (let request = job_request job in
      case prepare_request ops request of
        Inl e \<Rightarrow> (daemon, Inl e)
      | Inr _ \<Rightarrow>
          (case daemon of
             None \<Rightarrow> (None, Inl (Err ''local gen-proof daemon is stopped''))
           | Some d \<Rightarrow>
               (case daemon_prove ops d request of
                  (d', Inr output) \<Rightarrow> (Some d', local_output_result X J job output)
                | (d', Inl (RequestError e)) \<Rightarrow> (Some d', Inr (result_error job e))
                | (d', Inl (DaemonError first)) \<Rightarrow>
                    (case daemon_start ops of
                       Inl restart \<Rightarrow>
                         (None, Inl (Err ''gen-proof daemon request failed; restart/revalidation failed''))
                     | Inr restarted \<Rightarrow>
                         (case daemon_prove ops restarted request of
                            (restarted', Inr output) \<Rightarrow>
                              (Some restarted', local_output_result X J job output)
                          | (restarted', Inl retry) \<Rightarrow>
                              (None, Inr (result_error job
                                 (''gen-proof daemon request failed: '' @ first
                                  @ ''; retry after restart failed: '' @ prove_error_text retry))))))))"

section \<open>The Redis backend\<close>

record queue_keys =
  qk_namespace :: string
  qk_queue :: string
  qk_notify :: string
  qk_leases :: string

definition queue_keys_new :: "string \<Rightarrow> queue_keys" where
  "queue_keys_new namespace =
     \<lparr>qk_namespace = namespace, qk_queue = namespace @ '':queue'',
      qk_notify = namespace @ '':notify'', qk_leases = namespace @ '':leases''\<rparr>"

definition job_key :: "queue_keys \<Rightarrow> string \<Rightarrow> string" where
  "job_key keys jid = qk_namespace keys @ '':job:'' @ jid"

definition state_key :: "queue_keys \<Rightarrow> string \<Rightarrow> string" where
  "state_key keys jid = qk_namespace keys @ '':state:'' @ jid"

definition result_key :: "queue_keys \<Rightarrow> string \<Rightarrow> string" where
  "result_key keys jid = qk_namespace keys @ '':result:'' @ jid"

definition attempt_key :: "queue_keys \<Rightarrow> string \<Rightarrow> string" where
  "attempt_key keys jid = qk_namespace keys @ '':attempt:'' @ jid"

record redis =
  strings :: "string \<Rightarrow> string option"
  lists :: "string \<Rightarrow> string list"

definition submit_job_script :: "string list \<Rightarrow> string list \<Rightarrow> redis \<Rightarrow> redis \<times> int res" where
  "submit_job_script KEYS ARGV db =
     (case strings db (KEYS ! 0) of
        Some existing \<Rightarrow>
          if existing \<noteq> ARGV ! 0 then (db, Inl (Err ''JOB_ID_COLLISION'')) else (db, Inr 0)
      | None \<Rightarrow>
          (db\<lparr>strings := (strings db)
                 (KEYS ! 0 \<mapsto> ARGV ! 0,
                  KEYS ! 1 \<mapsto> ''{\"status\":\"Queued\"}'',
                  KEYS ! 2 \<mapsto> ''0''),
               lists := (lists db)(KEYS ! 3 := lists db (KEYS ! 3) @ [ARGV ! 1])\<rparr>,
           Inr 1))"

definition redis_submit :: "'j serde \<Rightarrow> queue_keys \<Rightarrow> proof_job \<Rightarrow> redis \<Rightarrow> redis \<times> proof_job res" where
  "redis_submit J keys job db =
     (case job_to_string J job of
        Inl e \<Rightarrow> (db, Inl e)
      | Inr job_json \<Rightarrow>
          (case submit_job_script
                  [job_key keys (job_id job), state_key keys (job_id job),
                   attempt_key keys (job_id job), qk_queue keys]
                  [job_json, job_id job] db of
             (db', Inl e) \<Rightarrow> (db', Inl e)
           | (db', Inr _) \<Rightarrow> (db', Inr job)))"

definition backend_submit ::
  "crates \<Rightarrow> 'j serde \<Rightarrow> queue_keys \<Rightarrow> proof_job \<Rightarrow> redis \<Rightarrow> redis \<times> proof_job res" where
  "backend_submit X J keys job db =
     (case job_validate X J job of Inl e \<Rightarrow> (db, Inl e) | Inr _ \<Rightarrow> redis_submit J keys job db)"

text \<open>
  The wait loop reads the result and then the state, once per turn; the database may change
  between any two reads, so \<open>seen n\<close> is what the \<open>n\<close>-th read finds in it.
\<close>

partial_function (option) wait_loop ::
  "crates \<Rightarrow> 'j serde \<Rightarrow> queue_keys \<Rightarrow> proof_job \<Rightarrow> (nat \<Rightarrow> redis res) \<Rightarrow> nat \<Rightarrow> 'j proof_result res option" where
  "wait_loop X J keys job seen n =
     (case seen n of
        Inl e \<Rightarrow> Some (Inl (Err ''failed to read proof result''))
      | Inr db \<Rightarrow>
          (case strings db (result_key keys (job_id job)) of
             Some result_json \<Rightarrow>
               Some (and_then (ok_or (result_from_str J result_json) (Err ''malformed durable proof result'')) (\<lambda>result.
                     and_then (validate_for X J result job) (\<lambda>_. Inr result)))
           | None \<Rightarrow>
               (case seen (Suc n) of
                  Inl e \<Rightarrow> Some (Inl (Err ''failed to read proof job state''))
                | Inr db' \<Rightarrow>
                    (case strings db' (state_key keys (job_id job)) of
                       None \<Rightarrow> Some (Inl (Err ''durable proof job disappeared''))
                     | Some state_json \<Rightarrow>
                         (case state_from_str J state_json of
                            None \<Rightarrow> Some (Inl (Err ''malformed durable proof job state''))
                          | Some (Failed _ _ error) \<Rightarrow> Some (Inl (Err ''proof job failed permanently''))
                          | Some (Completed _ _) \<Rightarrow>
                              Some (Inl (Err ''proof job is Completed but its durable result is missing''))
                          | Some Queued \<Rightarrow> wait_loop X J keys job seen (Suc (Suc n))
                          | Some (Claimed _ _ _ _) \<Rightarrow> wait_loop X J keys job seen (Suc (Suc n)))))))"

definition wait_result ::
  "crates \<Rightarrow> 'j serde \<Rightarrow> queue_keys \<Rightarrow> proof_job \<Rightarrow> (nat \<Rightarrow> redis res) \<Rightarrow> 'j proof_result res option" where
  "wait_result X J keys job seen = wait_loop X J keys job seen 0"

definition backend_wait ::
  "crates \<Rightarrow> 'j serde \<Rightarrow> queue_keys \<Rightarrow> proof_job \<Rightarrow> (nat \<Rightarrow> redis res) \<Rightarrow> prover_output res option" where
  "backend_wait X J keys job seen =
     map_option (\<lambda>r. and_then r (\<lambda>result. into_prover_output X J result job)) (wait_result X J keys job seen)"

definition proof_namespace :: "string \<Rightarrow> string \<Rightarrow> string \<Rightarrow> string" where
  "proof_namespace prefix network seed = prefix @ ''-'' @ network @ ''-'' @ seed"

section \<open>The identity determines the job\<close>

definition len_prefixed :: "bytes \<Rightarrow> bytes" where
  "len_prefixed bs = to_be_bytes 4 (of_nat (length bs) :: u32) @ bs"

lemma append_len_prefixed_iff:
  "append_len_prefixed output bs = Inr out \<longleftrightarrow> length bs < 2 ^ 32 \<and> out = output @ len_prefixed bs"
  by (auto simp: append_len_prefixed_def len_prefixed_def)

lemma be32_inj: "to_be_bytes 4 v = to_be_bytes 4 w \<longleftrightarrow> v = (w :: u32)"
  by (metis u32_be_roundtrip)

lemma len32: "2 ^ LENGTH(32) = (2 :: nat) ^ 32"
  by simp

lemma len_prefixed_inj:
  assumes "length a < 2 ^ 32" and "length b < 2 ^ 32"
  shows "len_prefixed a @ x = len_prefixed b @ y \<longleftrightarrow> a = b \<and> x = y"
proof
  assume e: "len_prefixed a @ x = len_prefixed b @ y"
  then have "(of_nat (length a) :: u32) = of_nat (length b)"
    by (simp add: len_prefixed_def be32_inj)
  moreover have "unat (of_nat (length a) :: u32) = length a" "unat (of_nat (length b) :: u32) = length b"
    unfolding unat_of_nat using assms by (simp_all only: len32 mod_less)
  ultimately have "length a = length b" by metis
  then show "a = b \<and> x = y" using e by (simp add: len_prefixed_def)
qed simp

lemma decode_hex_32_iff: "decode_hex_32 X s = Inr bs \<longleftrightarrow> hex_decode X s = Some bs \<and> length bs = 32"
  by (auto simp: decode_hex_32_def split: option.splits)

lemma digits_not_upper:
  "c \<in> set ''0123456789abcdefABCDEF'' \<Longrightarrow> \<not> is_ascii_uppercase c \<Longrightarrow> c \<in> set ''0123456789abcdef''"
proof -
  have "list_all (\<lambda>c. is_ascii_uppercase c \<or> c \<in> set ''0123456789abcdef'')
      ''0123456789abcdefABCDEF''"
    by code_simp
  then show "c \<in> set ''0123456789abcdefABCDEF'' \<Longrightarrow> \<not> is_ascii_uppercase c \<Longrightarrow>
      c \<in> set ''0123456789abcdef''"
    unfolding list_all_iff by blast
qed

lemma lower_not_upper: "c \<in> set ''0123456789abcdef'' \<Longrightarrow> \<not> is_ascii_uppercase c"
proof -
  have "list_all (\<lambda>c. \<not> is_ascii_uppercase c) ''0123456789abcdef''" by code_simp
  then show "c \<in> set ''0123456789abcdef'' \<Longrightarrow> \<not> is_ascii_uppercase c"
    unfolding list_all_iff by blast
qed

lemma validate_hex_32_lower:
  assumes "hex_laws X" and "validate_hex_32 X s = Inr u"
  shows "is_lower_hex s \<and> length s = 64 \<and> (\<exists>bs. hex_decode X s = Some bs \<and> length bs = 32)"
proof -
  obtain bs where d: "hex_decode X s = Some bs" "length bs = 32"
    and u: "length s = 64" "\<not> list_ex is_ascii_uppercase s"
    using assms(2) by (auto simp: validate_hex_32_def decode_hex_32_iff split: if_splits)
  have "is_hex_digits s" using hex_decode_digits[OF assms(1) d(1)] by simp
  then have "is_lower_hex s"
    using u(2) digits_not_upper unfolding is_hex_digits_def is_lower_hex_def list_all_iff list_ex_iff by blast
  with d u show ?thesis by blast
qed

lemma lower_hex_validates:
  assumes "hex_laws X" and "length bs = 32"
  shows "validate_hex_32 X (hex_encode X bs) = Inr ()"
proof -
  have "\<not> list_ex is_ascii_uppercase (hex_encode X bs)"
    using lower_not_upper lower_hex_encode[OF assms(1), of bs] unfolding is_lower_hex_def list_all_iff list_ex_iff by blast
  then show ?thesis
    using assms by (simp add: validate_hex_32_def decode_hex_32_def hex_decode_encode length_hex_encode)
qed

text \<open>The bytes that are hashed, field by field.\<close>

definition identity_bytes :: "proof_job \<Rightarrow> bytes \<Rightarrow> bytes \<Rightarrow> bytes \<Rightarrow> bytes \<Rightarrow> bytes \<Rightarrow> bytes" where
  "identity_bytes job parent fingerprint elf vkey request =
     to_be_bytes 4 (job_schema_version job) @ len_prefixed (str_bytes (job_network job))
     @ to_be_bytes 4 (job_height job) @ parent @ fingerprint
     @ len_prefixed (str_bytes (job_guest_id job)) @ elf @ vkey @ len_prefixed request"

lemma job_identity_iff:
  "job_identity X J job = Inr out \<longleftrightarrow>
     (\<exists>request parent fingerprint elf vkey.
        request_to_vec J (job_request job) = Inr request
        \<and> decode_hex_32 X (job_parent job) = Inr parent
        \<and> decode_hex_32 X (job_fingerprint job) = Inr fingerprint
        \<and> decode_hex_32 X (job_block_elf job) = Inr elf
        \<and> decode_hex_32 X (job_vkey_hash job) = Inr vkey
        \<and> length (str_bytes (job_network job)) < 2 ^ 32
        \<and> length (str_bytes (job_guest_id job)) < 2 ^ 32 \<and> length request < 2 ^ 32
        \<and> out = identity_bytes job parent fingerprint elf vkey request)"
  by (auto simp: job_identity_def canonical_request_bytes_def append_len_prefixed_iff identity_bytes_def
      simp del: power_numeral)

lemma str_bytes_inj: "str_bytes s = str_bytes t \<longleftrightarrow> s = t"
proof
  have "inj (of_char :: char \<Rightarrow> u8)"
  proof (rule injI)
    fix c d :: char
    assume "(of_char c :: u8) = of_char d"
    then have "(of_nat (of_char c) :: u8) = of_nat (of_char d)" by (simp only: of_nat_of_char)
    then have "of_char c mod 256 = (of_char d mod 256 :: nat)"
      by (simp only: word_of_nat_eq_iff take_bit_eq_mod) simp
    then show "c = d" by (simp add: of_char_mod_256)
  qed
  then show "str_bytes s = str_bytes t \<Longrightarrow> s = t" by (simp add: str_bytes_def inj_map_eq_map)
qed simp

lemma identity_bytes_inj:
  assumes "identity_bytes a p f e v r = identity_bytes b p' f' e' v' r'"
    and "length p = 32" "length p' = 32" "length f = 32" "length f' = 32"
    and "length e = 32" "length e' = 32" "length v = 32" "length v' = 32"
    and "length (str_bytes (job_network a)) < 2 ^ 32" "length (str_bytes (job_network b)) < 2 ^ 32"
    and "length (str_bytes (job_guest_id a)) < 2 ^ 32" "length (str_bytes (job_guest_id b)) < 2 ^ 32"
    and "length r < 2 ^ 32" "length r' < 2 ^ 32"
  shows "job_schema_version a = job_schema_version b \<and> job_network a = job_network b
    \<and> job_height a = job_height b \<and> job_guest_id a = job_guest_id b
    \<and> p = p' \<and> f = f' \<and> e = e' \<and> v = v' \<and> r = r'"
  using assms len_prefixed_inj[of r r' "[]" "[]"]
  by (simp add: identity_bytes_def len_prefixed_inj be32_inj str_bytes_inj del: power_numeral)

lemma job_validate_ok:
  assumes "job_validate X J job = Inr u"
  shows "job_schema_version job = proof_schema_version"
    and "validate_hex_32 X (job_parent job) = Inr ()" "validate_hex_32 X (job_fingerprint job) = Inr ()"
    and "validate_hex_32 X (job_block_elf job) = Inr ()" "validate_hex_32 X (job_vkey_hash job) = Inr ()"
    and "compute_job_id X J job = Inr (job_id job)"
    and "\<exists>bs. request_to_vec J (job_request job) = Inr bs \<and> job_fingerprint job = sha256_hex X bs"
  using assms by (auto simp: job_validate_def canonical_request_bytes_def split: if_splits)

lemma job_new_ok:
  assumes "hex_laws X" "hash_laws X"
    and request: "request_to_vec J request = Inr rb" "length rb < 2 ^ 32"
    and lens: "length parent = 32" "length elf = 32" "length vkey = 32"
      "length network < 2 ^ 32" "length guest < 2 ^ 32"
  shows "\<exists>job. job_new X J network height (hex_encode X parent) guest (hex_encode X elf)
           (hex_encode X vkey) request = Inr job
    \<and> job_validate X J job = Inr () \<and> job_network job = network \<and> job_height job = height
    \<and> job_request job = request \<and> job_fingerprint job = sha256_hex X rb"
proof -
  let ?fp = "sha256_hex X rb"
  let ?job = "\<lparr>job_schema_version = proof_schema_version, job_id = '''', job_network = network,
    job_height = height, job_parent = hex_encode X parent, job_fingerprint = ?fp,
    job_guest_id = guest, job_block_elf = hex_encode X elf, job_vkey_hash = hex_encode X vkey,
    job_request = request\<rparr>"
  have sha: "length (sha256 X rb) = 32" using assms(2) by (simp add: hash_laws_def)
  have d: "decode_hex_32 X (hex_encode X bs) = Inr bs" if "length bs = 32" for bs
    using that assms(1) by (simp add: decode_hex_32_iff hex_decode_encode)
  let ?identity = "identity_bytes ?job parent (sha256 X rb) elf vkey rb"
  have i: "job_identity X J (?job\<lparr>job_id := id\<rparr>) = Inr ?identity" for id
    unfolding job_identity_iff using request lens sha
    by (intro exI[of _ rb] exI[of _ parent] exI[of _ "sha256 X rb"] exI[of _ elf] exI[of _ vkey])
      (simp add: d sha256_hex_def str_bytes_def identity_bytes_def del: power_numeral)
  have "job_identity X J ?job = Inr ?identity" using i[of "''''"] by simp
  with i show ?thesis
    using request(1) lower_hex_validates[OF assms(1)] lens sha
    by (simp add: job_new_def job_validate_def canonical_request_bytes_def compute_job_id_def Let_def
        sha256_hex_def)
qed

section \<open>The lease protocol as a state machine\<close>

text \<open>
  An operation that was accepted, with its arguments; \<open>lease_apply\<close> is the operation the code
  runs on the state.
\<close>

datatype lease_op =
    Claim string string u64 u32
  | Heartbeat string string u64 u64
  | Complete string string u64
  | Fail string string u64 string

fun lease_apply :: "proof_job_state \<Rightarrow> lease_op \<Rightarrow> lease_cas_error + proof_job_state" where
  "lease_apply s (Claim w l e a) = claim_state s w l e a"
| "lease_apply s (Heartbeat w l e now) = heartbeat_state s w l e now"
| "lease_apply s (Complete w l t) = complete_state s w l t"
| "lease_apply s (Fail w l t m) = fail_state s w l t m"

text \<open>The runs of accepted operations from a freshly queued job, and the state they reach.\<close>

inductive lease_run :: "lease_op list \<Rightarrow> proof_job_state \<Rightarrow> bool" where
  queued: "lease_run [] Queued"
| step: "lease_run ops s \<Longrightarrow> lease_apply s op = Inr s' \<Longrightarrow> lease_run (ops @ [op]) s'"

inductive_cases lease_run_snocE: "lease_run (ops @ [op]) s"

text \<open>Heartbeats of one holder, each before the expiry the one before it set.\<close>

fun heartbeats :: "string \<Rightarrow> string \<Rightarrow> u64 \<Rightarrow> lease_op list \<Rightarrow> u64 option" where
  "heartbeats w l e [] = Some e"
| "heartbeats w l e (Heartbeat w' l' e' now # ops) =
     (if w' = w \<and> l' = l \<and> now < e then heartbeats w l e' ops else None)"
| "heartbeats w l e (op # ops) = None"

lemma heartbeats_snoc:
  "heartbeats w l e0 hs = Some e \<Longrightarrow> now < e \<Longrightarrow> heartbeats w l e0 (hs @ [Heartbeat w l e' now]) = Some e'"
  by (induction w l e0 hs rule: heartbeats.induct) (auto split: if_splits)

definition lease_history :: "lease_op list \<Rightarrow> proof_job_state \<Rightarrow> bool" where
  "lease_history ops s \<longleftrightarrow>
     (case s of
        Queued \<Rightarrow> ops = []
      | Claimed w l e a \<Rightarrow> \<exists>e0 hs. ops = Claim w l e0 a # hs \<and> heartbeats w l e0 hs = Some e
      | Completed t a \<Rightarrow> \<exists>w l e0 hs e. ops = Claim w l e0 a # hs @ [Complete w l t]
          \<and> heartbeats w l e0 hs = Some e \<and> t < e
      | Failed t a m \<Rightarrow> \<exists>w l e0 hs e. ops = Claim w l e0 a # hs @ [Fail w l t m]
          \<and> heartbeats w l e0 hs = Some e \<and> t < e)"

lemma lease_apply_Inr:
  "lease_apply s op = Inr s' \<longleftrightarrow>
     (\<exists>w l e a. op = Claim w l e a \<and> s = Queued \<and> s' = Claimed w l e a)
   \<or> (\<exists>w l e a e' now. op = Heartbeat w l e' now \<and> s = Claimed w l e a \<and> now < e \<and> s' = Claimed w l e' a)
   \<or> (\<exists>w l e a t. op = Complete w l t \<and> s = Claimed w l e a \<and> t < e \<and> s' = Completed t a)
   \<or> (\<exists>w l e a t m. op = Fail w l t m \<and> s = Claimed w l e a \<and> t < e \<and> s' = Failed t a m)"
  by (cases op; cases s)
    (auto simp: claim_state_def heartbeat_state_def complete_state_def fail_state_def not_le)

lemma lease_run_history: "lease_run ops s \<Longrightarrow> lease_history ops s"
proof (induction rule: lease_run.induct)
  case queued
  then show ?case by (simp add: lease_history_def)
next
  case (step ops s op s')
  from step(2) consider
      (claim) w l e a where "op = Claim w l e a" "s = Queued" "s' = Claimed w l e a"
    | (beat) w l e a e' now where "op = Heartbeat w l e' now" "s = Claimed w l e a" "now < e" "s' = Claimed w l e' a"
    | (complete) w l e a t where "op = Complete w l t" "s = Claimed w l e a" "t < e" "s' = Completed t a"
    | (fail) w l e a t m where "op = Fail w l t m" "s = Claimed w l e a" "t < e" "s' = Failed t a m"
    unfolding lease_apply_Inr by (elim disjE exE conjE) metis+
  then show ?case
  proof cases
    case claim
    then show ?thesis using step.IH by (simp add: lease_history_def)
  next
    case beat
    then obtain e0 hs where "ops = Claim w l e0 a # hs" "heartbeats w l e0 hs = Some e"
      using step.IH by (auto simp: lease_history_def)
    with beat show ?thesis
      using heartbeats_snoc[of w l e0 hs e now e'] by (simp add: lease_history_def)
  next
    case complete
    then show ?thesis using step.IH by (auto simp: lease_history_def)
  next
    case fail
    then show ?thesis using step.IH by (auto simp: lease_history_def)
  qed
qed

section \<open>Submitting and waiting\<close>

lemma keys_distinct [simp]:
  "job_key keys a = job_key keys b \<longleftrightarrow> a = b"
  "job_key keys a \<noteq> state_key keys b" "state_key keys b \<noteq> job_key keys a"
  "job_key keys a \<noteq> attempt_key keys b" "attempt_key keys b \<noteq> job_key keys a"
  "state_key keys a \<noteq> attempt_key keys b" "attempt_key keys b \<noteq> state_key keys a"
  "state_key keys a = state_key keys b \<longleftrightarrow> a = b"
  by (simp_all add: job_key_def state_key_def attempt_key_def)

definition submit_all :: "'j serde \<Rightarrow> queue_keys \<Rightarrow> proof_job list \<Rightarrow> redis \<Rightarrow> redis" where
  "submit_all J keys jobs db = fold (\<lambda>job db. fst (redis_submit J keys job db)) jobs db"

definition queued_state :: string where
  "queued_state = ''{\"status\":\"Queued\"}''"

definition redis_empty :: redis where
  "redis_empty = \<lparr>strings = (\<lambda>_. None), lists = (\<lambda>_. [])\<rparr>"

lemma redis_submit_present:
  "job_to_string J job = Inr s \<Longrightarrow> strings db (job_key keys (job_id job)) = Some s \<Longrightarrow>
   redis_submit J keys job db = (db, Inr job)"
  by (simp add: redis_submit_def submit_job_script_def)

lemma redis_submit_fresh:
  "job_to_string J job = Inr s \<Longrightarrow> strings db (job_key keys (job_id job)) = None \<Longrightarrow>
   \<exists>db'. redis_submit J keys job db = (db', Inr job)
     \<and> lists db' = (lists db)(qk_queue keys := lists db (qk_queue keys) @ [job_id job])
     \<and> (\<forall>i. strings db' (job_key keys i) = (if i = job_id job then Some s else strings db (job_key keys i)))
     \<and> (\<forall>i. strings db' (state_key keys i) = (if i = job_id job then Some queued_state else strings db (state_key keys i)))"
  by (simp add: redis_submit_def submit_job_script_def queued_state_def)

lemma submit_all_state:
  assumes laws: "serde_laws J"
    and uniq: "\<And>a b. a \<in> set jobs \<Longrightarrow> b \<in> set jobs \<Longrightarrow> job_id a = job_id b \<Longrightarrow> a = b"
  shows "lists (submit_all J keys jobs redis_empty) (qk_queue keys) = rev (remdups (rev (map job_id jobs)))
    \<and> (\<forall>job \<in> set jobs. \<exists>s. job_to_string J job = Inr s
          \<and> strings (submit_all J keys jobs redis_empty) (job_key keys (job_id job)) = Some s
          \<and> strings (submit_all J keys jobs redis_empty) (state_key keys (job_id job)) = Some queued_state)
    \<and> (\<forall>i. i \<notin> job_id ` set jobs \<longrightarrow>
          strings (submit_all J keys jobs redis_empty) (job_key keys i) = None)"
  using uniq
proof (induction jobs rule: rev_induct)
  case Nil
  then show ?case by (simp add: submit_all_def redis_empty_def)
next
  case (snoc job jobs)
  let ?db = "submit_all J keys jobs redis_empty"
  let ?db' = "submit_all J keys (jobs @ [job]) redis_empty"
  have db': "?db' = fst (redis_submit J keys job ?db)" by (simp add: submit_all_def)
  obtain s where s: "job_to_string J job = Inr s"
    using laws unfolding serde_laws_def is_ok_iff by blast
  have IH: "lists ?db (qk_queue keys) = rev (remdups (rev (map job_id jobs)))"
    "\<forall>job \<in> set jobs. \<exists>s. job_to_string J job = Inr s
      \<and> strings ?db (job_key keys (job_id job)) = Some s \<and> strings ?db (state_key keys (job_id job)) = Some queued_state"
    "\<forall>i. i \<notin> job_id ` set jobs \<longrightarrow> strings ?db (job_key keys i) = None"
    using snoc.IH snoc.prems by auto
  show ?case
  proof (cases "job_id job \<in> job_id ` set jobs")
    case True
    then have mem: "job \<in> set jobs" using snoc.prems by fastforce
    then have "?db' = ?db" using IH(2) s redis_submit_present[OF s] by (fastforce simp: db')
    with IH mem show ?thesis by (auto simp: insert_absorb)
  next
    case False
    obtain db1 where "redis_submit J keys job ?db = (db1, Inr job)"
      "lists db1 = (lists ?db)(qk_queue keys := lists ?db (qk_queue keys) @ [job_id job])"
      "\<forall>i. strings db1 (job_key keys i) = (if i = job_id job then Some s else strings ?db (job_key keys i))"
      "\<forall>i. strings db1 (state_key keys i) = (if i = job_id job then Some queued_state else strings ?db (state_key keys i))"
      using redis_submit_fresh[OF s] IH(3) False by blast
    with IH False s show ?thesis by (auto simp: db')
  qed
qed

definition pending :: "proof_job_state \<Rightarrow> bool" where
  "pending s = (case s of Queued \<Rightarrow> True | Claimed _ _ _ _ \<Rightarrow> True | _ \<Rightarrow> False)"

lemma pending_simps [simp]:
  "pending Queued" "pending (Claimed w l e a)" "\<not> pending (Completed t a)" "\<not> pending (Failed t a err)"
  by (simp_all add: pending_def)

text \<open>A turn that finds no result and a job that is still pending goes to the next turn.\<close>

definition idle_turn :: "'j serde \<Rightarrow> queue_keys \<Rightarrow> proof_job \<Rightarrow> (nat \<Rightarrow> redis res) \<Rightarrow> nat \<Rightarrow> bool" where
  "idle_turn J keys job seen n \<longleftrightarrow>
     (\<exists>db db' sj s. seen n = Inr db \<and> strings db (result_key keys (job_id job)) = None
        \<and> seen (Suc n) = Inr db' \<and> strings db' (state_key keys (job_id job)) = Some sj
        \<and> state_from_str J sj = Some s \<and> pending s)"

lemma wait_loop_idle:
  "idle_turn J keys job seen n \<Longrightarrow>
   wait_loop X J keys job seen n = wait_loop X J keys job seen (Suc (Suc n))"
proof -
  assume "idle_turn J keys job seen n"
  then obtain db db' sj s where t: "seen n = Inr db" "strings db (result_key keys (job_id job)) = None"
    "seen (Suc n) = Inr db'" "strings db' (state_key keys (job_id job)) = Some sj"
    "state_from_str J sj = Some s" "pending s"
    unfolding idle_turn_def by blast
  then show ?thesis
    by (subst wait_loop.simps) (cases s; simp add: pending_def)
qed

lemma wait_loop_idles:
  "(\<forall>i < k. idle_turn J keys job seen (n + 2 * i)) \<Longrightarrow>
   wait_loop X J keys job seen n = wait_loop X J keys job seen (n + 2 * k)"
proof (induction k arbitrary: n)
  case 0
  then show ?case by simp
next
  case (Suc k)
  have "idle_turn J keys job seen n" using Suc.prems by (metis add_0_right less_Suc_eq_0_disj mult_0_right)
  moreover have "\<forall>i < k. idle_turn J keys job seen (Suc (Suc n) + 2 * i)"
    using Suc.prems by (metis Suc_less_eq add_2_eq_Suc' add_Suc_shift mult_Suc_right add.assoc add.commute)
  ultimately show ?case using wait_loop_idle[of J keys job seen n X] Suc.IH[of "Suc (Suc n)"] by simp
qed

text \<open>Any other turn ends the loop, and a loop that ends has such a turn.\<close>

lemma wait_loop_turn_ends: "\<not> idle_turn J keys job seen n \<Longrightarrow> \<exists>r. wait_loop X J keys job seen n = Some r"
  by (subst wait_loop.simps)
    (auto simp: idle_turn_def split: sum.splits option.splits proof_job_state.splits)

lemma wait_loop_ends:
  assumes "wait_loop X J keys job seen n = Some r"
  shows "\<exists>k. \<not> idle_turn J keys job seen (n + 2 * k)"
proof (rule wait_loop.raw_induct[OF _ assms], goal_cases)
  case (1 f X J keys job seen n r)
  show ?case
  proof (cases "idle_turn J keys job seen n")
    case True
    then obtain db db' sj s where t: "seen n = Inr db" "strings db (result_key keys (job_id job)) = None"
      "seen (Suc n) = Inr db'" "strings db' (state_key keys (job_id job)) = Some sj"
      "state_from_str J sj = Some s" "pending s"
      unfolding idle_turn_def by blast
    then have "f X J keys job seen (Suc (Suc n)) = Some r" using 1(2) by (cases s) simp_all
    from 1(1)[OF this] obtain k where "\<not> idle_turn J keys job seen (Suc (Suc n) + 2 * k)" by blast
    then show ?thesis by (intro exI[of _ "Suc k"]) simp
  qed (auto intro!: exI[of _ 0])
qed

lemma wait_result_ends_iff:
  "wait_result X J keys job seen = None \<longleftrightarrow> (\<forall>k. idle_turn J keys job seen (2 * k))"
proof
  assume none: "wait_result X J keys job seen = None"
  show "\<forall>k. idle_turn J keys job seen (2 * k)"
  proof (rule ccontr)
    assume "\<not> (\<forall>k. idle_turn J keys job seen (2 * k))"
    then obtain k where k: "\<not> idle_turn J keys job seen (2 * k)" "\<forall>i < k. idle_turn J keys job seen (2 * i)"
      using exists_least_iff[of "\<lambda>k. \<not> idle_turn J keys job seen (2 * k)"] by auto
    from wait_loop_turn_ends[OF k(1), of X] wait_loop_idles[of k J keys job seen 0 X] k(2) none
    show False by (auto simp: wait_result_def)
  qed
next
  assume "\<forall>k. idle_turn J keys job seen (2 * k)"
  then show "wait_result X J keys job seen = None"
    using wait_loop_ends[of X J keys job seen 0] by (cases "wait_result X J keys job seen") (auto simp: wait_result_def)
qed

text \<open>The turns before the one that ends the loop are idle.\<close>

lemma wait_result_last_turn:
  assumes "wait_result X J keys job seen = Some r"
  shows "\<exists>k. (\<forall>i < k. idle_turn J keys job seen (2 * i)) \<and> \<not> idle_turn J keys job seen (2 * k)
    \<and> wait_loop X J keys job seen (2 * k) = Some r"
proof -
  have "\<exists>k. \<not> idle_turn J keys job seen (2 * k)"
    using assms wait_result_ends_iff[of X J keys job seen] by auto
  then obtain k where k: "\<not> idle_turn J keys job seen (2 * k)" "\<forall>i < k. idle_turn J keys job seen (2 * i)"
    using exists_least_iff[of "\<lambda>k. \<not> idle_turn J keys job seen (2 * k)"] by auto
  with wait_loop_idles[of k J keys job seen 0 X] assms show ?thesis by (auto simp: wait_result_def)
qed

lemma wait_loop_found:
  "\<not> idle_turn J keys job seen n \<Longrightarrow> wait_loop X J keys job seen n = Some (Inr result) \<longleftrightarrow>
   (\<exists>db rj. seen n = Inr db \<and> strings db (result_key keys (job_id job)) = Some rj
      \<and> result_from_str J rj = Some result \<and> validate_for X J result job = Inr ())"
  by (subst wait_loop.simps)
    (auto simp: idle_turn_def ok_or_def split: sum.splits option.splits proof_job_state.splits)

lemma wait_result_found:
  "wait_result X J keys job seen = Some (Inr result) \<longleftrightarrow>
   (\<exists>k db rj. (\<forall>i < k. idle_turn J keys job seen (2 * i)) \<and> seen (2 * k) = Inr db
      \<and> strings db (result_key keys (job_id job)) = Some rj \<and> result_from_str J rj = Some result
      \<and> validate_for X J result job = Inr ())"
proof
  assume "wait_result X J keys job seen = Some (Inr result)"
  from wait_result_last_turn[OF this] wait_loop_found show "\<exists>k db rj. (\<forall>i < k. idle_turn J keys job seen (2 * i))
      \<and> seen (2 * k) = Inr db \<and> strings db (result_key keys (job_id job)) = Some rj
      \<and> result_from_str J rj = Some result \<and> validate_for X J result job = Inr ()" by blast
next
  assume "\<exists>k db rj. (\<forall>i < k. idle_turn J keys job seen (2 * i)) \<and> seen (2 * k) = Inr db
      \<and> strings db (result_key keys (job_id job)) = Some rj \<and> result_from_str J rj = Some result
      \<and> validate_for X J result job = Inr ()"
  then obtain k db rj where k: "\<forall>i < k. idle_turn J keys job seen (2 * i)" and f: "seen (2 * k) = Inr db"
      "strings db (result_key keys (job_id job)) = Some rj" "result_from_str J rj = Some result"
      "validate_for X J result job = Inr ()" by blast
  have "\<not> idle_turn J keys job seen (2 * k)" using f by (simp add: idle_turn_def)
  then have "wait_loop X J keys job seen (2 * k) = Some (Inr result)" using f wait_loop_found by blast
  then show "wait_result X J keys job seen = Some (Inr result)"
    using wait_loop_idles[of k J keys job seen 0 X] k by (simp add: wait_result_def)
qed

lemma validate_for_iff:
  "validate_for X J result job = Inr () \<longleftrightarrow> job_validate X J job = Inr () \<and> identity_matches job result"
  by (cases "job_validate X J job") (auto simp: validate_for_def)

section \<open>A concrete JSON codec for the witnesses\<close>

text \<open>
  An injective encoding: every character of a string is preceded by a mark, and the string is
  closed by a zero; the integers are strings of their bytes.
\<close>

definition esc :: "string \<Rightarrow> string" where
  "esc s = concat (map (\<lambda>c. [CHR ''c'', c]) s) @ [CHR ''.'']"

definition word_str :: "nat \<Rightarrow> 'a::len word \<Rightarrow> string" where
  "word_str k w = map (char_of \<circ> (unat :: u8 \<Rightarrow> nat)) (to_be_bytes k w)"

definition demo_request_str :: "proof_request \<Rightarrow> string" where
  "demo_request_str r =
     esc (rq_request_id r) @ esc (rq_old_state r) @ esc (rq_witness r) @ esc (rq_finalized_witness r)
     @ esc (rq_custody_script_config r) @ esc (word_str 4 (rq_required_confirmations r))
     @ esc (word_str 8 (rq_flat_fee r)) @ esc (word_str 8 (rq_fee_num r)) @ esc (word_str 8 (rq_fee_den r))
     @ esc (rq_old_header r) @ esc (rq_new_header r) @ esc (rq_config_params r)"

definition demo_job_str :: "proof_job \<Rightarrow> string" where
  "demo_job_str j =
     esc (word_str 4 (job_schema_version j)) @ esc (job_id j) @ esc (job_network j)
     @ esc (word_str 4 (job_height j)) @ esc (job_parent j) @ esc (job_fingerprint j)
     @ esc (job_guest_id j) @ esc (job_block_elf j) @ esc (job_vkey_hash j)
     @ demo_request_str (job_request j)"

definition demo_serde :: "prover_response serde" where
  "demo_serde =
     \<lparr>request_to_vec = (\<lambda>r. Inr (str_bytes (demo_request_str r))),
      job_to_string = (\<lambda>j. Inr (demo_job_str j)),
      json_to_vec = (\<lambda>_. Inr []), json_from_slice = (\<lambda>_. None),
      response_from_json = Some, result_from_str = (\<lambda>_. None),
      state_from_str = (\<lambda>s. if s = queued_state then Some Queued else Some (Completed 5 1))\<rparr>"

lemma esc_inj: "esc a @ x = esc b @ y \<longleftrightarrow> a = b \<and> x = y"
proof
  show "esc a @ x = esc b @ y \<Longrightarrow> a = b \<and> x = y"
  proof (induction a arbitrary: b)
    case Nil
    then show ?case by (cases b) (simp_all add: esc_def)
  next
    case (Cons c a)
    then show ?case by (cases b) (simp_all add: esc_def)
  qed
qed simp

lemma length_esc: "length (esc s) = 2 * length s + 1"
  by (induction s) (simp_all add: esc_def)

lemma length_word_str: "length (word_str k w) = k"
  by (simp add: word_str_def)

lemma esc_inj_last: "esc a = esc b \<longleftrightarrow> a = b"
  using esc_inj[of a "[]" b "[]"] by simp

lemma word_str_inj:
  assumes "LENGTH('a) = 8 * k"
  shows "word_str k v = word_str k w \<longleftrightarrow> v = (w :: 'a::len word)"
proof
  have "inj (char_of \<circ> (unat :: u8 \<Rightarrow> nat))"
  proof (rule injI)
    fix a b :: u8
    assume "(char_of \<circ> unat) a = (char_of \<circ> unat) b"
    then have "(of_char (char_of (unat a)) :: nat) = of_char (char_of (unat b))" by simp
    then have "unat a mod 256 = unat b mod 256" by simp
    then show "a = b" using unat_byte_less[of a] unat_byte_less[of b] by (simp add: word_unat_eq_iff)
  qed
  then show "word_str k v = word_str k w \<Longrightarrow> v = w"
    unfolding word_str_def using from_to_be_bytes[OF assms] by (metis inj_map_eq_map)
qed simp

lemma demo_request_str_inj: "demo_request_str a = demo_request_str b \<longleftrightarrow> a = b"
  by (cases a; cases b) (auto simp: demo_request_str_def esc_inj esc_inj_last word_str_inj)

lemma demo_job_str_inj: "demo_job_str a = demo_job_str b \<longleftrightarrow> a = b"
  by (cases a; cases b) (auto simp: demo_job_str_def esc_inj word_str_inj demo_request_str_inj)

lemma demo_serde_laws: "serde_laws demo_serde"
  by (simp add: serde_laws_def demo_serde_def str_bytes_inj demo_request_str_inj demo_job_str_inj)

definition demo_request :: proof_request where
  "demo_request =
     \<lparr>rq_request_id = ''r'', rq_old_state = ''s'', rq_witness = ''w'', rq_finalized_witness = ''f'',
      rq_custody_script_config = ''c'', rq_required_confirmations = 2, rq_flat_fee = 1,
      rq_fee_num = 1, rq_fee_den = 100, rq_old_header = ''o'', rq_new_header = ''n'', rq_config_params = ''p''\<rparr>"

lemma demo_request_bytes:
  "\<exists>rb. request_to_vec demo_serde demo_request = Inr rb \<and> length rb < 2 ^ 32"
  by (simp add: demo_serde_def str_bytes_def demo_request_str_def demo_request_def length_esc
      length_word_str)

definition demo_new :: "u32 \<Rightarrow> proof_job res" where
  "demo_new height = job_new demo_crates demo_serde ''mainnet'' height (demo_encode (replicate 32 1)) ''guest''
     (demo_encode (replicate 32 2)) (demo_encode (replicate 32 3)) demo_request"

lemma demo_job:
  obtains job where "demo_new height = Inr job" and "job_validate demo_crates demo_serde job = Inr ()"
    and "job_height job = height"
proof -
  obtain rb where rb: "request_to_vec demo_serde demo_request = Inr rb" "length rb < 2 ^ 32"
    using demo_request_bytes by blast
  have h: "hex_encode demo_crates = demo_encode" by (simp add: demo_crates_def)
  show thesis
    using job_new_ok[OF demo_hex_laws demo_hash_laws rb, of "replicate 32 1" "replicate 32 2" "replicate 32 3"
        "''mainnet''" "''guest''" height] that
    unfolding demo_new_def h by auto
qed

section \<open>Properties\<close>

text \<open>
  Claim C14. The id of a proof job is content-addressed: two valid jobs with the same id agree on
  every field, unless the byte strings the two ids are the hashes of differ and are a SHA-256
  collision. So jobs that differ anywhere have different identity bytes.
\<close>

theorem job_id_binds_job:
  assumes laws: "hex_laws X" "serde_laws J"
    and valid: "job_validate X J a = Inr ()" "job_validate X J b = Inr ()"
    and ids: "job_id a = job_id b"
  shows "a = b \<or> (\<exists>u v. job_identity X J a = Inr u \<and> job_identity X J b = Inr v
    \<and> u \<noteq> v \<and> sha256 X u = sha256 X v)"
proof (rule disjCI)
  assume nc: "\<nexists>u v. job_identity X J a = Inr u \<and> job_identity X J b = Inr v \<and> u \<noteq> v \<and> sha256 X u = sha256 X v"
  note va = job_validate_ok[OF valid(1)] and vb = job_validate_ok[OF valid(2)]
  obtain ia where ia: "job_identity X J a = Inr ia" "sha256_hex X ia = job_id a"
    using va(6) by (auto simp: compute_job_id_def)
  obtain ib where ib: "job_identity X J b = Inr ib" "sha256_hex X ib = job_id b"
    using vb(6) by (auto simp: compute_job_id_def)
  have "ia = ib" using ia ib ids nc laws(1) by (metis sha256_hex_def hex_encode_inj)
  then obtain r p f e v r' p' f' e' v' where
      a: "request_to_vec J (job_request a) = Inr r" "decode_hex_32 X (job_parent a) = Inr p"
        "decode_hex_32 X (job_fingerprint a) = Inr f" "decode_hex_32 X (job_block_elf a) = Inr e"
        "decode_hex_32 X (job_vkey_hash a) = Inr v"
    and b: "request_to_vec J (job_request b) = Inr r'" "decode_hex_32 X (job_parent b) = Inr p'"
        "decode_hex_32 X (job_fingerprint b) = Inr f'" "decode_hex_32 X (job_block_elf b) = Inr e'"
        "decode_hex_32 X (job_vkey_hash b) = Inr v'"
    and eq: "identity_bytes a p f e v r = identity_bytes b p' f' e' v' r'"
    and l: "length (str_bytes (job_network a)) < 2 ^ 32" "length (str_bytes (job_network b)) < 2 ^ 32"
        "length (str_bytes (job_guest_id a)) < 2 ^ 32" "length (str_bytes (job_guest_id b)) < 2 ^ 32"
        "length r < 2 ^ 32" "length r' < 2 ^ 32"
    using ia(1) ib(1) unfolding job_identity_iff by blast
  have fields: "job_schema_version a = job_schema_version b \<and> job_network a = job_network b
    \<and> job_height a = job_height b \<and> job_guest_id a = job_guest_id b
    \<and> p = p' \<and> f = f' \<and> e = e' \<and> v = v' \<and> r = r'"
    by (rule identity_bytes_inj[OF eq]) (use a b l in \<open>simp_all only: decode_hex_32_iff\<close>)
  have hex: "s = t" if "validate_hex_32 X s = Inr ()" "validate_hex_32 X t = Inr ()"
    "decode_hex_32 X s = Inr bs" "decode_hex_32 X t = Inr bs" for s t bs
    using that validate_hex_32_lower[OF laws(1)] hex_decode_lower_inj[OF laws(1)]
    unfolding decode_hex_32_iff by blast
  have "job_parent a = job_parent b" "job_fingerprint a = job_fingerprint b"
    "job_block_elf a = job_block_elf b" "job_vkey_hash a = job_vkey_hash b"
    using fields a b by (auto intro: hex va vb)
  moreover have "job_request a = job_request b"
    using laws(2) a(1) b(1) fields unfolding serde_laws_def by metis
  ultimately show "a = b" using fields ids by (intro proof_job.equality) simp_all
qed

definition constant_crates :: crates where
  "constant_crates = demo_crates\<lparr>sha256 := (\<lambda>_. replicate 32 0)\<rparr>"

lemma constant_crates_laws: "hex_laws constant_crates" "hash_laws constant_crates"
  using demo_hex_laws demo_hash_laws by (simp_all add: constant_crates_def hex_laws_def hash_laws_def)

text \<open>
  With a hash that is constant two jobs of different heights get one id, and it is their own
  identity bytes that differ and collide.
\<close>

theorem job_id_binds_job_witness:
  "\<exists>a b u v. job_validate constant_crates demo_serde a = Inr () \<and> job_validate constant_crates demo_serde b = Inr ()
     \<and> job_height a = 7 \<and> job_height b = 8 \<and> job_id a = job_id b
     \<and> job_identity constant_crates demo_serde a = Inr u \<and> job_identity constant_crates demo_serde b = Inr v
     \<and> u \<noteq> v \<and> sha256 constant_crates u = sha256 constant_crates v"
proof -
  obtain rb where rb: "request_to_vec demo_serde demo_request = Inr rb" "length rb < 2 ^ 32"
    using demo_request_bytes by blast
  have "\<exists>job. job_validate constant_crates demo_serde job = Inr () \<and> job_height job = height" for height
    using job_new_ok[OF constant_crates_laws rb, of "replicate 32 1" "replicate 32 2" "replicate 32 3"
        "''mainnet''" "''guest''" height] by auto
  then obtain a b where j: "job_validate constant_crates demo_serde a = Inr ()" "job_height a = 7"
    "job_validate constant_crates demo_serde b = Inr ()" "job_height b = 8" by metis
  have ids: "job_id a = job_id b"
    using job_validate_ok(6)[OF j(1)] job_validate_ok(6)[OF j(3)]
    by (auto simp: compute_job_id_def sha256_hex_def constant_crates_def)
  have "a \<noteq> b" using j by auto
  with job_id_binds_job[OF constant_crates_laws(1) demo_serde_laws j(1) j(3) ids] j ids show ?thesis
    by (intro exI[of _ a] exI[of _ b]) auto
qed

text \<open>
  From 32-byte digests written in lower-case hexadecimal a job can be built; it
  validates, and a result made from it is accepted for it.
\<close>

theorem job_new_valid:
  assumes "hex_laws X" and "hash_laws X"
    and "request_to_vec J request = Inr rb" and "length rb < 2 ^ 32"
    and "length parent = 32" and "length elf = 32" and "length vkey = 32"
    and "length network < 2 ^ 32" and "length guest < 2 ^ 32"
  shows "\<exists>job. job_new X J network height (hex_encode X parent) guest (hex_encode X elf)
           (hex_encode X vkey) request = Inr job
    \<and> job_validate X J job = Inr () \<and> job_network job = network \<and> job_height job = height
    \<and> job_request job = request \<and> job_fingerprint job = sha256_hex X rb
    \<and> (\<forall>response stderr. validate_for X J (result_success X job response stderr) job = Inr ())"
proof -
  obtain job where j: "job_new X J network height (hex_encode X parent) guest (hex_encode X elf)
      (hex_encode X vkey) request = Inr job" "job_validate X J job = Inr ()"
      "job_network job = network" "job_height job = height" "job_request job = request"
      "job_fingerprint job = sha256_hex X rb"
    using job_new_ok[OF assms] by blast
  have "validate_for X J (result_success X job response stderr) job = Inr ()" for response stderr
    by (simp add: validate_for_def j(2) identity_matches_def result_success_def result_from_job_def)
  with j show ?thesis by blast
qed

theorem job_new_valid_witness:
  "\<exists>job. demo_new 9 = Inr job \<and> job_validate demo_crates demo_serde job = Inr () \<and> job_height job = 9"
proof -
  obtain rb where rb: "request_to_vec demo_serde demo_request = Inr rb" "length rb < 2 ^ 32"
    using demo_request_bytes by blast
  have h: "hex_encode demo_crates = demo_encode" by (simp add: demo_crates_def)
  show ?thesis
    using job_new_valid[OF demo_hex_laws demo_hash_laws rb, of "replicate 32 1" "replicate 32 2"
        "replicate 32 3" "''mainnet''" "''guest''" 9]
    unfolding demo_new_def h by auto
qed

text \<open>
  Claim C11. Whatever operations workers attempt, a job is claimed at most once, is extended only
  by the worker and lease that claimed it and before its lease expires, and is completed or failed
  only by that worker and lease, before the expiry its last heartbeat set, with the attempt number
  of the claim; a completed or failed job accepts nothing more.
\<close>

theorem lease_protocol:
  assumes "lease_run ops s"
  shows "lease_history ops s
    \<and> (s \<noteq> Queued \<and> (\<forall>w l e a. s \<noteq> Claimed w l e a) \<longrightarrow> (\<forall>op s'. lease_apply s op \<noteq> Inr s'))"
  using lease_run_history[OF assms] by (auto simp: lease_apply_Inr)

theorem lease_protocol_witness:
  "lease_history [Claim ''w'' ''l'' 10 1, Heartbeat ''w'' ''l'' 20 5, Complete ''w'' ''l'' 12] (Completed 12 1)
   \<and> lease_apply (Claimed ''w'' ''l'' 10 1) (Complete ''w'' ''l'' 12) = Inl Expired"
proof
  have "lease_run ([] @ [Claim ''w'' ''l'' 10 1]) (Claimed ''w'' ''l'' 10 1)"
    by (rule lease_run.step[OF lease_run.queued]) (simp add: claim_state_def)
  then have "lease_run (([] @ [Claim ''w'' ''l'' 10 1]) @ [Heartbeat ''w'' ''l'' 20 5]) (Claimed ''w'' ''l'' 20 1)"
    by (rule lease_run.step) (simp add: heartbeat_state_def)
  then have "lease_run ((([] @ [Claim ''w'' ''l'' 10 1]) @ [Heartbeat ''w'' ''l'' 20 5])
      @ [Complete ''w'' ''l'' 12]) (Completed 12 1)"
    by (rule lease_run.step) (simp add: complete_state_def)
  from lease_protocol[OF this]
  show "lease_history [Claim ''w'' ''l'' 10 1, Heartbeat ''w'' ''l'' 20 5, Complete ''w'' ''l'' 12] (Completed 12 1)"
    by simp
qed (simp add: complete_state_def)

text \<open>
  Claim C21. Submitting any sequence of jobs to an empty queue, repeated submissions included,
  enqueues each job once, in the order of first submission, stores each under its id, and leaves
  it queued.
\<close>

theorem submit_enqueues_once:
  assumes "serde_laws J"
    and "\<forall>a \<in> set jobs. \<forall>b \<in> set jobs. job_id a = job_id b \<longrightarrow> a = b"
  shows "lists (submit_all J keys jobs redis_empty) (qk_queue keys) = rev (remdups (rev (map job_id jobs)))
    \<and> (\<forall>job \<in> set jobs. \<exists>s. job_to_string J job = Inr s
          \<and> strings (submit_all J keys jobs redis_empty) (job_key keys (job_id job)) = Some s
          \<and> strings (submit_all J keys jobs redis_empty) (state_key keys (job_id job)) = Some queued_state)"
  using submit_all_state[of J jobs keys] assms by blast

theorem submit_enqueues_once_witness:
  "\<exists>a. demo_new 7 = Inr a
     \<and> lists (submit_all demo_serde (queue_keys_new ''q'') [a, a] redis_empty) ''q:queue'' = [job_id a]"
proof -
  obtain a where a: "demo_new 7 = Inr a" using demo_job by metis
  have "qk_queue (queue_keys_new ''q'') = ''q:queue''" by (simp add: queue_keys_new_def)
  then show ?thesis
    using submit_enqueues_once[OF demo_serde_laws, of "[a, a]" "queue_keys_new ''q''"] a by simp
qed

text \<open>
  Claim C16. A turn of the wait loop that finds no result and then a state that is still Queued or
  Claimed is idle. The loop hands out a result exactly when, after idle turns only, a turn reads
  a stored result that decodes, and the job is valid and the result is its own; it waits for ever
  exactly when every turn is idle. A turn that finds no result and then a Completed state fails,
  also when the result was stored between its two reads.
\<close>

theorem wait_result_sound_and_live:
  "(wait_result X J keys job seen = Some (Inr result) \<longleftrightarrow>
      (\<exists>k db rj. (\<forall>i < k. idle_turn J keys job seen (2 * i)) \<and> seen (2 * k) = Inr db
        \<and> strings db (result_key keys (job_id job)) = Some rj \<and> result_from_str J rj = Some result
        \<and> job_validate X J job = Inr () \<and> identity_matches job result))
   \<and> (wait_result X J keys job seen = None \<longleftrightarrow> (\<forall>k. idle_turn J keys job seen (2 * k)))
   \<and> ((\<forall>i < k. idle_turn J keys job seen (2 * i)) \<and> seen (2 * k) = Inr db
       \<and> strings db (result_key keys (job_id job)) = None \<and> seen (Suc (2 * k)) = Inr db'
       \<and> strings db' (state_key keys (job_id job)) = Some sj \<and> state_from_str J sj = Some (Completed at attempts)
      \<longrightarrow> wait_result X J keys job seen
            = Some (Inl (Err ''proof job is Completed but its durable result is missing'')))"
proof (intro conjI impI)
  assume a: "(\<forall>i < k. idle_turn J keys job seen (2 * i)) \<and> seen (2 * k) = Inr db
       \<and> strings db (result_key keys (job_id job)) = None \<and> seen (Suc (2 * k)) = Inr db'
       \<and> strings db' (state_key keys (job_id job)) = Some sj \<and> state_from_str J sj = Some (Completed at attempts)"
  then have "wait_result X J keys job seen = wait_loop X J keys job seen (2 * k)"
    using wait_loop_idles[of k J keys job seen 0 X] by (simp add: wait_result_def)
  then show "wait_result X J keys job seen
      = Some (Inl (Err ''proof job is Completed but its durable result is missing''))"
    using a by (subst (asm) wait_loop.simps) simp
qed (simp_all only: wait_result_found validate_for_iff wait_result_ends_iff)

definition demo_result_serde :: "prover_response proof_result \<Rightarrow> prover_response serde" where
  "demo_result_serde result = demo_serde\<lparr>result_from_str := (\<lambda>_. Some result)\<rparr>"

lemma job_validate_demo_result: "job_validate X (demo_result_serde r) job = job_validate X demo_serde job"
proof -
  have r: "request_to_vec (demo_result_serde r) = request_to_vec demo_serde"
    by (simp add: demo_result_serde_def)
  then have "job_identity X (demo_result_serde r) = job_identity X demo_serde"
    by (simp add: job_identity_def canonical_request_bytes_def fun_eq_iff)
  then have "compute_job_id X (demo_result_serde r) = compute_job_id X demo_serde"
    by (simp add: compute_job_id_def fun_eq_iff)
  with r show ?thesis
    by (simp only: job_validate_def canonical_request_bytes_def)
qed

text \<open>
  The result is found after one idle turn; and lost when it is stored, with the Completed state,
  after the first read.
\<close>

theorem wait_result_sound_and_live_witness:
  "\<exists>job. demo_new 7 = Inr job
     \<and> wait_result demo_crates (demo_result_serde (result_error job ''e'')) (queue_keys_new ''q'') job
         (\<lambda>n. Inr (if n = 0 then redis_empty
                   else \<lparr>strings = (\<lambda>_. Some (if n = 1 then queued_state else ''x'')), lists = (\<lambda>_. [])\<rparr>))
       = Some (Inr (result_error job ''e''))
     \<and> wait_result demo_crates (demo_result_serde (result_error job ''e'')) (queue_keys_new ''q'') job
         (\<lambda>n. Inr (if n = 0 then redis_empty else \<lparr>strings = (\<lambda>_. Some ''x''), lists = (\<lambda>_. [])\<rparr>))
       = Some (Inl (Err ''proof job is Completed but its durable result is missing''))"
proof -
  obtain job where job: "demo_new 7 = Inr job" "job_validate demo_crates demo_serde job = Inr ()"
    using demo_job by blast
  let ?J = "demo_result_serde (result_error job ''e'')" and ?K = "queue_keys_new ''q''"
  let ?db = "\<lambda>s. \<lparr>strings = (\<lambda>_. Some s), lists = (\<lambda>_. [])\<rparr> :: redis"
  let ?seen = "\<lambda>n. Inr (if n = 0 then redis_empty else ?db (if n = 1 then queued_state else ''x'')) :: redis res"
  let ?race = "\<lambda>n. Inr (if n = 0 then redis_empty else ?db ''x'') :: redis res"
  have J: "state_from_str ?J queued_state = Some Queued" "state_from_str ?J ''x'' = Some (Completed 5 1)"
    "result_from_str ?J ''x'' = Some (result_error job ''e'')"
    by (simp_all add: demo_result_serde_def demo_serde_def queued_state_def)
  have own: "job_validate demo_crates ?J job = Inr ()" "identity_matches job (result_error job ''e'' :: prover_response proof_result)"
    using job(2) by (simp_all add: job_validate_demo_result identity_matches_def result_error_def result_from_job_def)
  have "idle_turn ?J ?K job ?seen 0" by (simp add: idle_turn_def redis_empty_def J(1))
  then have "\<exists>k db rj. (\<forall>i < k. idle_turn ?J ?K job ?seen (2 * i)) \<and> ?seen (2 * k) = Inr db
      \<and> strings db (result_key ?K (job_id job)) = Some rj \<and> result_from_str ?J rj = Some (result_error job ''e'')
      \<and> job_validate demo_crates ?J job = Inr () \<and> identity_matches job (result_error job ''e'' :: prover_response proof_result)"
    using J(3) own by (intro exI[of _ 1] exI[of _ "?db ''x''"] exI[of _ "''x''"]) simp
  then have "wait_result demo_crates ?J ?K job ?seen = Some (Inr (result_error job ''e''))"
    using wait_result_sound_and_live[where X = demo_crates and J = ?J and keys = ?K and job = job and seen = ?seen
        and result = "result_error job ''e''"] by blast
  moreover have "wait_result demo_crates ?J ?K job ?race
      = Some (Inl (Err ''proof job is Completed but its durable result is missing''))"
    using wait_result_sound_and_live[where X = demo_crates and J = ?J and keys = ?K and job = job and seen = ?race
        and k = 0 and db = redis_empty and db' = "?db ''x''" and sj = "''x''"] J(2)
    by (simp add: redis_empty_def)
  ultimately show ?thesis using job(1) by blast
qed

text \<open>
  The result is read before the state. A worker that stores the result and marks
  the job completed, in one step, between the two reads makes the wait loop fail with a missing
  result, although the result is stored at that moment.
\<close>

theorem wait_result_race:
  assumes "seen 0 = Inr before" and "strings before (result_key keys (job_id job)) = None"
    and "seen 1 = Inr after" and "strings after (state_key keys (job_id job)) = Some sj"
    and "state_from_str J sj = Some (Completed t a)"
    and "strings after (result_key keys (job_id job)) = Some rj"
  shows "wait_result X J keys job seen
      = Some (Inl (Err ''proof job is Completed but its durable result is missing''))
    \<and> strings after (result_key keys (job_id job)) \<noteq> None"
  using assms by (simp add: wait_result_def) (subst wait_loop.simps, simp)

theorem wait_result_race_witness:
  "\<exists>job. demo_new 7 = Inr job
     \<and> wait_result demo_crates demo_serde (queue_keys_new ''q'') job
         (\<lambda>n. Inr (if n = 0 then redis_empty else \<lparr>strings = (\<lambda>_. Some ''done''), lists = (\<lambda>_. [])\<rparr>))
       = Some (Inl (Err ''proof job is Completed but its durable result is missing''))"
proof -
  obtain job where "demo_new 7 = Inr job" using demo_job by metis
  then show ?thesis
    using wait_result_race[where seen = "\<lambda>n. Inr (if n = 0 then redis_empty
        else \<lparr>strings = (\<lambda>_. Some ''done''), lists = (\<lambda>_. [])\<rparr>)"
        and before = redis_empty and after = "\<lparr>strings = (\<lambda>_. Some ''done''), lists = (\<lambda>_. [])\<rparr>"
        and J = demo_serde and X = demo_crates and keys = "queue_keys_new ''q''" and job = job]
    by (simp add: redis_empty_def demo_serde_def queued_state_def)
qed

text \<open>
  A result becomes a prover output only when it is a success for this very job, the
  daemon's response names the job's request, network, guest, program and key, and the two byte
  strings it carries have the sizes it announces; the output holds exactly those bytes.
\<close>

theorem prover_output_belongs_to_job:
  assumes "into_prover_output X J result job = Inr out"
  shows "job_validate X J job = Inr () \<and> identity_matches job result
    \<and> (\<exists>response stderr r p v. res_outcome result = OutSuccess response stderr
        \<and> hex_decode X stderr = Some (po_stderr out) \<and> response_from_json J response = Some r
        \<and> pr_kind r = ''proof'' \<and> pr_ok r
        \<and> pr_request_id r = Some (rq_request_id (job_request job))
        \<and> pr_network r = Some (job_network job) \<and> pr_guest_id r = Some (job_guest_id job)
        \<and> pr_block_elf r = Some (job_block_elf job) \<and> pr_vkey_hash r = Some (job_vkey_hash job)
        \<and> pr_proof_bytes r = Some p \<and> hex_decode X p = Some (po_proof out)
        \<and> pr_proof_size r = Some (length (po_proof out))
        \<and> pr_public_values r = Some v \<and> hex_decode X v = Some (po_public_values out)
        \<and> pr_public_values_size r = Some (length (po_public_values out)))
    \<and> hex_decode X (job_vkey_hash job) = Some (po_vk_hash out) \<and> length (po_vk_hash out) = 32"
  using assms
  by (auto simp: into_prover_output_def validate_for_def validate_daemon_response_def
      decode_required_response_bytes_def decode_hex_32_iff
      split: if_splits proof_outcome.splits option.splits)

definition demo_response :: "proof_job \<Rightarrow> prover_response" where
  "demo_response job =
     \<lparr>pr_kind = ''proof'', pr_request_id = Some (rq_request_id (job_request job)), pr_ok = True,
      pr_network = Some (job_network job), pr_guest_id = Some (job_guest_id job),
      pr_block_elf = Some (job_block_elf job), pr_vkey_hash = Some (job_vkey_hash job),
      pr_proof_size = Some 1, pr_proof_bytes = Some ''0a'', pr_public_values_size = Some 0,
      pr_public_values = Some [], pr_error = None\<rparr>"

theorem prover_output_belongs_to_job_witness:
  "\<exists>job out. demo_new 7 = Inr job
     \<and> into_prover_output demo_crates demo_serde (result_success demo_crates job (demo_response job) []) job
        = Inr out
     \<and> hex_decode demo_crates ''0a'' = Some (po_proof out)"
proof -
  obtain job where job: "demo_new 7 = Inr job" "job_validate demo_crates demo_serde job = Inr ()"
    using demo_job by blast
  obtain vk where "hex_decode demo_crates (job_vkey_hash job) = Some vk" "length vk = 32"
    using validate_hex_32_lower[OF demo_hex_laws job_validate_ok(5)[OF job(2)]] by blast
  then have "\<exists>out. into_prover_output demo_crates demo_serde
      (result_success demo_crates job (demo_response job) []) job = Inr out"
    using job(2)
    by (simp add: into_prover_output_def validate_for_def identity_matches_def result_success_def
        result_from_job_def validate_daemon_response_def demo_response_def decode_hex_32_def
        decode_required_response_bytes_def demo_serde_def demo_crates_def demo_encode_def
        demo_value_def)
  then obtain out where out: "into_prover_output demo_crates demo_serde
      (result_success demo_crates job (demo_response job) []) job = Inr out" by blast
  have "hex_decode demo_crates ''0a'' = Some (po_proof out)"
    using prover_output_belongs_to_job[OF out]
    by (auto simp: demo_serde_def demo_response_def result_success_def result_from_job_def)
  with out job(1) show ?thesis by blast
qed

end
