(* ===== verification/Merkle.thy ===== *)
theory Merkle
  imports Crates
begin

text \<open>
  The Merkle trees of \<open>block_pipeline.rs\<close>: the Bitcoin transaction tree (the last node of an odd
  level is repeated), the sparse SHA-256 trees of claims and transaction outputs (missing nodes are
  the zero hashes), the proof of the next leaf computed from the frontier of the last one, and the
  root of a frontier.

  The hash functions are those of \<open>crates\<close>; \<open>SHA256_ZERO_HASHES\<close>, a table of a third-party
  crate, is the parameter \<open>zeros\<close>, with \<open>zero_law\<close> for what it holds: each level's hash is the hash of
  two of the level below. \<open>tree_node\<close> is the specification: the node at a level and position of
  the complete tree over the leaves, filled up with zeros.
\<close>

section \<open>One level\<close>

text \<open>\<open>index ^ 1\<close>: the other child of the same parent.\<close>

definition sibling_index :: "nat \<Rightarrow> nat" where
  "sibling_index i = (if even i then i + 1 else i - 1)"

definition hash_pairs :: "(bytes \<Rightarrow> bytes \<Rightarrow> bytes) \<Rightarrow> bytes list \<Rightarrow> bytes list" where
  "hash_pairs h level = map (\<lambda>pair. h (pair ! 0) (pair ! 1)) (chunks_exact 2 level)"

definition pad_even :: "bytes \<Rightarrow> bytes list \<Rightarrow> bytes list" where
  "pad_even pad level = (if odd (length level) then level @ [pad] else level)"

lemma length_pad_even: "length (pad_even pad level) = 2 * ((length level + 1) div 2)"
  by (auto simp: pad_even_def elim!: oddE)

lemma length_hash_pairs: "length (hash_pairs h level) = length level div 2"
  by (simp add: hash_pairs_def length_chunks_exact)

section \<open>The Bitcoin tree\<close>

function bitcoin_root_loop :: "(bytes \<Rightarrow> bytes \<Rightarrow> bytes) \<Rightarrow> bytes list \<Rightarrow> bytes list" where
  "bitcoin_root_loop h level =
     (if length level > 1 then bitcoin_root_loop h (hash_pairs h (pad_even (last level) level)) else level)"
  by pat_completeness auto
termination
  by (relation "measure (\<lambda>(h, level). length level)") (auto simp: length_hash_pairs length_pad_even)

declare bitcoin_root_loop.simps [simp del]

definition bitcoin_merkle_root :: "crates \<Rightarrow> bytes list \<Rightarrow> bytes option" where
  "bitcoin_merkle_root X transaction_hashes =
     (if transaction_hashes = [] then None
      else case bitcoin_root_loop (btc_hash256_two_to_one X) transaction_hashes of
             [] \<Rightarrow> None
           | r # _ \<Rightarrow> Some r)"

function bitcoin_siblings_loop :: "(bytes \<Rightarrow> bytes \<Rightarrow> bytes) \<Rightarrow> bytes list \<Rightarrow> nat \<Rightarrow> bytes list res" where
  "bitcoin_siblings_loop h level i =
     (if length level > 1 then
        let padded = pad_even (last level) level
        in and_then (index padded (sibling_index i)) (\<lambda>s.
           and_then (bitcoin_siblings_loop h (hash_pairs h padded) (i div 2)) (\<lambda>ss.
           Inr (s # ss)))
      else Inr [])"
  by pat_completeness auto
termination
  by (relation "measure (\<lambda>(h, level, i). length level)") (auto simp: length_hash_pairs length_pad_even)

declare bitcoin_siblings_loop.simps [simp del]

definition bitcoin_merkle_siblings :: "crates \<Rightarrow> bytes list \<Rightarrow> nat \<Rightarrow> bytes list res" where
  "bitcoin_merkle_siblings X transaction_hashes transaction_index =
     (if transaction_hashes = [] \<or> transaction_index \<ge> length transaction_hashes
      then Inl (Err ''transaction Merkle proof index is out of bounds'')
      else bitcoin_siblings_loop (btc_hash256_two_to_one X) transaction_hashes transaction_index)"

section \<open>The sparse tree\<close>

fun sparse_loop ::
  "(bytes \<Rightarrow> bytes \<Rightarrow> bytes) \<Rightarrow> (nat \<Rightarrow> bytes) \<Rightarrow> nat \<Rightarrow> nat \<Rightarrow> nat \<Rightarrow> bytes list \<Rightarrow> nat \<Rightarrow> bytes list" where
  "sparse_loop h zeros leaf_height depth 0 level i = []"
| "sparse_loop h zeros leaf_height depth (Suc remaining) level i =
     (if sibling_index i < length level then level ! sibling_index i else zeros (leaf_height + depth))
     # sparse_loop h zeros leaf_height (Suc depth) remaining
         (hash_pairs h (pad_even (zeros (leaf_height + depth)) level)) (i div 2)"

definition sparse_sha256_merkle_siblings ::
  "crates \<Rightarrow> (nat \<Rightarrow> bytes) \<Rightarrow> bytes list \<Rightarrow> nat \<Rightarrow> nat \<Rightarrow> nat \<Rightarrow> bytes list res" where
  "sparse_sha256_merkle_siblings X zeros leaves target_index height leaf_height =
     (if target_index \<ge> length leaves
      then Inl (Err ''Merkle target index is outside known leaves'')
      else Inr (sparse_loop (sha256_two_to_one X) zeros leaf_height 0 height leaves target_index))"

section \<open>Frontiers\<close>

definition ensure_length :: "bytes \<Rightarrow> nat \<Rightarrow> unit res" where
  "ensure_length bs expected = bail_if (length bs \<noteq> expected) ''unexpected length''"

definition decode_fixed :: "crates \<Rightarrow> nat \<Rightarrow> string \<Rightarrow> bytes res" where
  "decode_fixed X N s =
     and_then (ok_or (hex_decode X s) (Err ''invalid hex'')) (\<lambda>bs.
     and_then (ensure_length bs N) (\<lambda>_. Inr bs))"

definition decode_hash :: "crates \<Rightarrow> string \<Rightarrow> bytes res" where
  "decode_hash X s = decode_fixed X 32 s"

record merkle_frontier =
  fr_index :: u32
  fr_value_hex :: string
  fr_siblings_hex :: "string list"

definition frontier_new :: "crates \<Rightarrow> u32 \<Rightarrow> bytes \<Rightarrow> bytes list \<Rightarrow> merkle_frontier" where
  "frontier_new X i v siblings =
     \<lparr>fr_index = i, fr_value_hex = hex_encode X v, fr_siblings_hex = map (hex_encode X) siblings\<rparr>"

definition frontier_decode :: "crates \<Rightarrow> merkle_frontier \<Rightarrow> nat \<Rightarrow> (bytes \<times> bytes list) res" where
  "frontier_decode X fr expected_height =
     and_then (decode_hash X (fr_value_hex fr)) (\<lambda>v.
     if length (fr_siblings_hex fr) \<noteq> expected_height
     then Inl (Err ''frontier has a wrong number of siblings'')
     else and_then (try_map (decode_hash X) (fr_siblings_hex fr)) (\<lambda>siblings.
          Inr (v, siblings)))"

text \<open>One step of hashing upwards: the node is the left child when its index is even.\<close>

definition hash_up :: "(bytes \<Rightarrow> bytes \<Rightarrow> bytes) \<Rightarrow> nat \<Rightarrow> bytes \<Rightarrow> bytes \<Rightarrow> bytes" where
  "hash_up h i current sibling = (if even i then h current sibling else h sibling current)"

fun frontier_root_loop ::
  "(bytes \<Rightarrow> bytes \<Rightarrow> bytes) \<Rightarrow> nat \<Rightarrow> bytes \<Rightarrow> bytes list \<Rightarrow> nat \<times> bytes" where
  "frontier_root_loop h i current [] = (i, current)"
| "frontier_root_loop h i current (s # ss) = frontier_root_loop h (i div 2) (hash_up h i current s) ss"

definition frontier_root :: "crates \<Rightarrow> merkle_frontier \<Rightarrow> nat \<Rightarrow> bytes res" where
  "frontier_root X fr height =
     and_then (frontier_decode X fr height) (\<lambda>(v, siblings).
     let (i, current) = frontier_root_loop (sha256_two_to_one X) (unat (fr_index fr)) v siblings
     in if i \<noteq> 0 then Inl (Err ''index exceeds its configured tree height'') else Inr current)"

text \<open>The left-hand subtrees below the next leaf, one per level.\<close>

fun next_frontier_loop :: "(bytes \<Rightarrow> bytes \<Rightarrow> bytes) \<Rightarrow> nat \<Rightarrow> bytes \<Rightarrow> bytes list \<Rightarrow> bytes list" where
  "next_frontier_loop h previous current [] = []"
| "next_frontier_loop h previous current (s # ss) =
     (if even previous then current else s)
     # next_frontier_loop h (previous div 2) (hash_up h previous current s) ss"

text \<open>\<open>new_index >> level\<close> masks its shift to the 32 bits of the index in a release build.\<close>

definition sequential_next_leaf_siblings ::
  "crates \<Rightarrow> (nat \<Rightarrow> bytes) \<Rightarrow> merkle_frontier \<Rightarrow> u32 \<Rightarrow> nat \<Rightarrow> nat \<Rightarrow> bytes list res" where
  "sequential_next_leaf_siblings X zeros fr new_index height leaf_height =
     (if unat (fr_index fr) + 1 \<ge> 2 ^ 32 then Inl (Err ''index overflow'')
      else if new_index \<noteq> fr_index fr + 1 then Inl (Err ''unexpected next index'')
      else and_then (frontier_decode X fr height) (\<lambda>(last_value, last_siblings).
        let next_frontier =
              next_frontier_loop (sha256_two_to_one X) (unat (fr_index fr)) last_value last_siblings
        in Inr (map (\<lambda>level.
                  if even (unat new_index div 2 ^ (level mod 32)) then zeros (leaf_height + level)
                  else next_frontier ! level) [0..<height])))"

section \<open>Specification\<close>

fun tree_node :: "(bytes \<Rightarrow> bytes \<Rightarrow> bytes) \<Rightarrow> bytes \<Rightarrow> bytes list \<Rightarrow> nat \<Rightarrow> nat \<Rightarrow> bytes" where
  "tree_node h zero leaves 0 k = (if k < length leaves then leaves ! k else zero)"
| "tree_node h zero leaves (Suc d) k =
     h (tree_node h zero leaves d (2 * k)) (tree_node h zero leaves d (2 * k + 1))"

definition zero_law :: "(bytes \<Rightarrow> bytes \<Rightarrow> bytes) \<Rightarrow> (nat \<Rightarrow> bytes) \<Rightarrow> bool" where
  "zero_law h zeros \<longleftrightarrow> (\<forall>d. zeros (Suc d) = h (zeros d) (zeros d))"

text \<open>A proof of a leaf: hashing it up along its siblings.\<close>

definition path_root :: "(bytes \<Rightarrow> bytes \<Rightarrow> bytes) \<Rightarrow> nat \<Rightarrow> bytes \<Rightarrow> bytes list \<Rightarrow> bytes" where
  "path_root h i leaf siblings = snd (frontier_root_loop h i leaf siblings)"

section \<open>Lemmas on levels\<close>

lemma hash_pairs_simps [simp]:
  "hash_pairs h [] = []"
  "hash_pairs h [a] = []"
  "hash_pairs h (a # b # level) = h a b # hash_pairs h level"
  using chunks_exact_append[of "[a, b]" 2 level]
  by (simp_all add: hash_pairs_def chunks_exact_short)

lemma nth_hash_pairs:
  "k < length level div 2 \<Longrightarrow> hash_pairs h level ! k = h (level ! (2 * k)) (level ! (2 * k + 1))"
proof (induction level arbitrary: k rule: induct_list012)
  case (3 a b level)
  then show ?case by (cases k) auto
qed auto

lemma sibling_index_div: "sibling_index i div 2 = i div 2"
  by (auto simp: sibling_index_def elim!: oddE)

lemma sibling_index_less_pad: "i < length level \<Longrightarrow> sibling_index i < length (pad_even pad level)"
  by (auto simp: sibling_index_def pad_even_def elim!: evenE)

lemma hash_up_pair:
  "hash_up h i (f i) (f (sibling_index i)) = h (f (2 * (i div 2))) (f (2 * (i div 2) + 1))"
  by (auto simp: hash_up_def sibling_index_def elim!: evenE oddE)

section \<open>The Bitcoin tree\<close>

lemma bitcoin_siblings_verify:
  "i < length level \<Longrightarrow>
   \<exists>ss r. bitcoin_siblings_loop h level i = Inr ss \<and> bitcoin_root_loop h level = [r]
     \<and> frontier_root_loop h i (level ! i) ss = (0, r)"
proof (induction h level i rule: bitcoin_siblings_loop.induct)
  case (1 h level i)
  show ?case
  proof (cases "length level > 1")
    case True
    let ?p = "pad_even (last level) level"
    let ?next = "hash_pairs h ?p"
    have sib: "sibling_index i < length ?p" using sibling_index_less_pad 1(2) by blast
    have i: "i < length ?p" using 1(2) by (simp add: pad_even_def)
    have half: "i div 2 < length ?p div 2" using i length_pad_even[of "last level" level] by auto
    then have "i div 2 < length ?next" by (simp add: length_hash_pairs)
    from 1(1)[OF True refl this] obtain ss r where
      "bitcoin_siblings_loop h ?next (i div 2) = Inr ss" "bitcoin_root_loop h ?next = [r]"
      "frontier_root_loop h (i div 2) (?next ! (i div 2)) ss = (0, r)" by blast
    moreover have "hash_up h i (level ! i) (?p ! sibling_index i) = ?next ! (i div 2)"
    proof -
      have "level ! i = ?p ! i" using 1(2) by (simp add: pad_even_def nth_append)
      then show ?thesis
        using hash_up_pair[of h i "\<lambda>j. ?p ! j"] nth_hash_pairs[OF half, of h] by simp
    qed
    ultimately show ?thesis using True sib
      by (simp add: bitcoin_siblings_loop.simps[of h level i] bitcoin_root_loop.simps[of h level]
          index_ok Let_def)
  next
    case False
    then have "length level = 1" "i = 0" using 1(2) by auto
    then show ?thesis using False
      by (auto simp: bitcoin_siblings_loop.simps[of h level] bitcoin_root_loop.simps[of h level] length_Suc_conv)
  qed
qed

section \<open>The sparse tree\<close>

lemma tree_node_zero:
  assumes "zero_law h zeros"
  shows "length leaves \<le> 2 ^ d * k \<Longrightarrow> tree_node h (zeros lh) leaves d k = zeros (lh + d)"
proof (induction d arbitrary: k)
  case (Suc d)
  then have "tree_node h (zeros lh) leaves d (2 * k) = zeros (lh + d)"
    "tree_node h (zeros lh) leaves d (2 * k + 1) = zeros (lh + d)"
    by (auto simp: algebra_simps)
  then show ?case using assms by (simp add: zero_law_def)
qed simp

lemma tree_node_append:
  "2 ^ d * (k + 1) \<le> length leaves \<Longrightarrow> tree_node h z (leaves @ xs) d k = tree_node h z leaves d k"
proof (induction d arbitrary: k)
  case 0
  then show ?case by (simp add: nth_append)
next
  case (Suc d)
  then show ?case using Suc.IH[of "2 * k"] Suc.IH[of "2 * k + 1"] by (auto simp: algebra_simps)
qed

definition represents ::
  "(bytes \<Rightarrow> bytes \<Rightarrow> bytes) \<Rightarrow> (nat \<Rightarrow> bytes) \<Rightarrow> nat \<Rightarrow> bytes list \<Rightarrow> nat \<Rightarrow> bytes list \<Rightarrow> bool" where
  "represents h zeros lh leaves d level \<longleftrightarrow>
     (\<forall>k. (if k < length level then level ! k else zeros (lh + d)) = tree_node h (zeros lh) leaves d k)"

lemma represents_leaves: "represents h zeros lh leaves 0 leaves"
  by (simp add: represents_def)

lemma represents_step:
  assumes z: "zero_law h zeros" and r: "represents h zeros lh leaves d level"
  shows "represents h zeros lh leaves (Suc d) (hash_pairs h (pad_even (zeros (lh + d)) level))"
proof -
  let ?z = "zeros (lh + d)" and ?p = "pad_even (zeros (lh + d)) level"
  have get: "(if k < length ?p then ?p ! k else ?z) = tree_node h (zeros lh) leaves d k" for k
    using r[unfolded represents_def, rule_format, of k] by (auto simp: pad_even_def nth_append split: if_splits)
  have "(if k < length (hash_pairs h ?p) then hash_pairs h ?p ! k else zeros (lh + Suc d))
      = tree_node h (zeros lh) leaves (Suc d) k" for k
  proof (cases "k < length ?p div 2")
    case True
    then have "2 * k < length ?p" "2 * k + 1 < length ?p" using length_pad_even[of ?z level] by auto
    then show ?thesis
      using get[of "2 * k"] get[of "2 * k + 1"] True by (simp add: length_hash_pairs nth_hash_pairs)
  next
    case False
    then have "\<not> 2 * k < length ?p" "\<not> 2 * k + 1 < length ?p"
      using length_pad_even[of ?z level] by auto
    then show ?thesis
      using get[of "2 * k"] get[of "2 * k + 1"] False z by (simp add: length_hash_pairs zero_law_def)
  qed
  then show ?thesis by (simp add: represents_def)
qed

definition tree_siblings ::
  "(bytes \<Rightarrow> bytes \<Rightarrow> bytes) \<Rightarrow> bytes \<Rightarrow> bytes list \<Rightarrow> nat \<Rightarrow> nat \<Rightarrow> nat \<Rightarrow> bytes list" where
  "tree_siblings h z leaves d n i =
     map (\<lambda>j. tree_node h z leaves (d + j) (sibling_index (i div 2 ^ j))) [0..<n]"

lemma tree_siblings_Suc:
  "tree_siblings h z leaves d (Suc n) i =
     tree_node h z leaves d (sibling_index i) # tree_siblings h z leaves (Suc d) n (i div 2)"
proof -
  have "[0..<Suc n] = 0 # map Suc [0..<n]" by (simp add: map_Suc_upt upt_conv_Cons)
  then show ?thesis by (simp add: tree_siblings_def div_mult2_eq del: upt_Suc)
qed

lemma sparse_loop_eq:
  assumes "zero_law h zeros"
  shows "represents h zeros lh leaves d level \<Longrightarrow>
    sparse_loop h zeros lh d n level i = tree_siblings h (zeros lh) leaves d n i"
proof (induction n arbitrary: d level i)
  case 0
  then show ?case by (simp add: tree_siblings_def)
next
  case (Suc n)
  have "(if sibling_index i < length level then level ! sibling_index i else zeros (lh + d))
      = tree_node h (zeros lh) leaves d (sibling_index i)"
    using Suc.prems by (simp add: represents_def)
  then show ?case
    using Suc.IH[OF represents_step[OF assms Suc.prems]] by (simp add: tree_siblings_Suc)
qed

lemma tree_node_up:
  "hash_up h i (tree_node h z leaves d i) (tree_node h z leaves d (sibling_index i))
     = tree_node h z leaves (Suc d) (i div 2)"
  using hash_up_pair[of h i "tree_node h z leaves d"] by simp

lemma tree_siblings_verify:
  "frontier_root_loop h i (tree_node h z leaves d i) (tree_siblings h z leaves d n i)
     = (i div 2 ^ n, tree_node h z leaves (d + n) (i div 2 ^ n))"
proof (induction n arbitrary: d i)
  case 0
  then show ?case by (simp add: tree_siblings_def)
next
  case (Suc n)
  then show ?case by (simp add: tree_siblings_Suc tree_node_up div_mult2_eq del: tree_node.simps)
qed

lemma bitcoin_root_single:
  assumes "level \<noteq> []"
  shows "\<exists>r. bitcoin_root_loop h level = [r]"
  using bitcoin_siblings_verify[of 0 level h] assms by auto

section \<open>Frontiers\<close>

lemma decode_hash_encode: "hex_laws X \<Longrightarrow> length b = 32 \<Longrightarrow> decode_hash X (hex_encode X b) = Inr b"
  by (simp add: decode_hash_def decode_fixed_def ensure_length_def hex_decode_encode)

lemma decode_hash_length: "decode_hash X s = Inr b \<Longrightarrow> length b = 32"
  by (auto simp: decode_hash_def decode_fixed_def ensure_length_def)

lemma frontier_decode_new:
  assumes "hex_laws X" and "length v = 32" and "\<forall>s \<in> set siblings. length s = 32"
  shows "frontier_decode X (frontier_new X i v siblings) (length siblings) = Inr (v, siblings)"
proof -
  have "try_map (decode_hash X) (map (hex_encode X) siblings) = Inr siblings"
    using assms by (simp add: try_map_eq_Inr list_all2_conv_all_nth decode_hash_encode)
  then show ?thesis using assms by (simp add: frontier_decode_def frontier_new_def decode_hash_encode)
qed

lemma length_tree_node:
  "hash_laws X \<Longrightarrow> length z = 32 \<Longrightarrow> \<forall>l \<in> set leaves. length l = 32 \<Longrightarrow>
   length (tree_node (sha256_two_to_one X) z leaves d k) = 32"
  by (cases d) (auto simp: hash_laws_def)

lemma length_tree_siblings [simp]: "length (tree_siblings h z leaves d n i) = n"
  by (simp add: tree_siblings_def)

lemma tree_siblings_32:
  "hash_laws X \<Longrightarrow> length z = 32 \<Longrightarrow> \<forall>l \<in> set leaves. length l = 32 \<Longrightarrow>
   \<forall>s \<in> set (tree_siblings (sha256_two_to_one X) z leaves d n i). length s = 32"
  by (auto simp: tree_siblings_def length_tree_node)

lemma fr_index_new [simp]: "fr_index (frontier_new X i v siblings) = i"
  by (simp add: frontier_new_def)

text \<open>The loop over the last leaf's proof yields the left-hand subtree of each level.\<close>

lemma next_frontier_nth:
  "j < n \<Longrightarrow>
   next_frontier_loop h i (tree_node h z leaves d i) (tree_siblings h z leaves d n i) ! j
     = tree_node h z leaves (d + j) (2 * (i div 2 ^ j div 2))"
proof (induction n arbitrary: d i j)
  case 0
  then show ?case by simp
next
  case (Suc n)
  show ?case
  proof (cases j)
    case 0
    then show ?thesis
      by (auto simp: tree_siblings_Suc sibling_index_def elim!: evenE oddE)
  next
    case (Suc k)
    then show ?thesis
      using Suc.IH[where j = k and d = "Suc d" and i = "i div 2"] Suc.prems
      by (simp add: tree_siblings_Suc tree_node_up div_mult2_eq del: tree_node.simps)
  qed
qed

lemma sibling_below:
  assumes "odd ((i + 1) div 2 ^ j)"
  shows "sibling_index ((i + 1) div 2 ^ j) = 2 * (i div 2 ^ j div 2)"
    and "2 ^ j * (sibling_index ((i + 1) div 2 ^ j) + 1) \<le> i + 1"
proof -
  define q where "q = (i + 1) div 2 ^ j"
  have q: "odd q" using assms by (simp add: q_def)
  then obtain m where m: "q = 2 * m + 1" by (elim oddE)
  have le: "2 ^ j * q \<le> i + 1" by (simp add: q_def)
  have lt: "i + 1 < 2 ^ j * (q + 1)"
    using dividend_less_times_div[of "2 ^ j" "i + 1"] by (simp add: q_def algebra_simps)
  show "2 ^ j * (sibling_index ((i + 1) div 2 ^ j) + 1) \<le> i + 1"
    unfolding q_def[symmetric] sibling_index_def using le q by simp
  have "2 ^ j * (2 * m) \<le> i" and "i < 2 ^ j * (2 * m + 2)"
    using le lt m by (auto simp: algebra_simps)
  then have "i div 2 ^ (j + 1) = m"
    by (intro div_nat_eqI) (simp_all add: algebra_simps)
  then have "i div 2 ^ j div 2 = m" by (simp add: div_mult2_eq[symmetric] mult.commute)
  then show "sibling_index ((i + 1) div 2 ^ j) = 2 * (i div 2 ^ j div 2)"
    unfolding q_def[symmetric] sibling_index_def using m by simp
qed

lemma sibling_above:
  assumes "even ((i + 1) div 2 ^ j)"
  shows "i + 1 < 2 ^ j * sibling_index ((i + 1) div 2 ^ j)"
  using assms dividend_less_times_div[of "2 ^ j" "i + 1"] by (simp add: sibling_index_def algebra_simps)

lemma sequential_eq:
  assumes "hex_laws X" "hash_laws X" and z: "zero_law (sha256_two_to_one X) zeros"
    and "length (zeros lh) = 32" and "\<forall>l \<in> set leaves. length l = 32"
    and i: "length leaves = unat i + 1" "unat i + 1 < 2 ^ 32" and height: "height \<le> 32"
  shows "sequential_next_leaf_siblings X zeros
      (frontier_new X i (leaves ! unat i) (tree_siblings (sha256_two_to_one X) (zeros lh) leaves 0 height (unat i)))
      (i + 1) height lh
    = Inr (tree_siblings (sha256_two_to_one X) (zeros lh) (leaves @ [x]) 0 height (unat (i + 1)))"
proof -
  let ?h = "sha256_two_to_one X"
  let ?ss = "tree_siblings ?h (zeros lh) leaves 0 height (unat i)"
  have u: "unat (i + 1) = unat i + 1" using i(2) by (simp add: unat_word_ariths)
  have node0: "leaves ! unat i = tree_node ?h (zeros lh) leaves 0 (unat i)" using i(1) by simp
  have dec: "frontier_decode X (frontier_new X i (leaves ! unat i) ?ss) height = Inr (leaves ! unat i, ?ss)"
    using frontier_decode_new[OF assms(1), of "leaves ! unat i" ?ss i] tree_siblings_32[OF assms(2,4,5)]
      assms(5) i(1) by simp
  let ?nf = "next_frontier_loop ?h (unat i) (leaves ! unat i) ?ss"
  have "(if even (unat (i + 1) div 2 ^ (j mod 32)) then zeros (lh + j) else ?nf ! j)
      = tree_node ?h (zeros lh) (leaves @ [x]) (0 + j) (sibling_index (unat (i + 1) div 2 ^ j))"
    if j: "j < height" for j
  proof -
    have m: "j mod 32 = j" using j height by simp
    show ?thesis
    proof (cases "even ((unat i + 1) div 2 ^ j)")
      case True
      have "length (leaves @ [x]) \<le> 2 ^ j * sibling_index ((unat i + 1) div 2 ^ j)"
        using sibling_above[OF True] i(1) by simp
      then show ?thesis using True m by (simp add: u tree_node_zero[OF z])
    next
      case False
      have "2 ^ j * (sibling_index ((unat i + 1) div 2 ^ j) + 1) \<le> length leaves"
        using sibling_below(2)[OF False] i(1) by simp
      then show ?thesis
        using False m next_frontier_nth[OF j, of ?h "unat i" "zeros lh" leaves 0] sibling_below(1)[OF False]
        by (simp add: u node0 tree_node_append del: tree_node.simps)
    qed
  qed
  then have "map (\<lambda>j. if even (unat (i + 1) div 2 ^ (j mod 32)) then zeros (lh + j) else ?nf ! j) [0..<height]
      = tree_siblings ?h (zeros lh) (leaves @ [x]) 0 height (unat (i + 1))"
    unfolding tree_siblings_def[of ?h "zeros lh" "leaves @ [x]"] by (intro map_cong) auto
  then show ?thesis
    using i(2) by (simp add: sequential_next_leaf_siblings_def dec fr_index_new)
qed

lemma frontier_root_new:
  assumes "hex_laws X" and "hash_laws X" and "zero_law (sha256_two_to_one X) zeros"
    and "length (zeros lh) = 32" and "\<forall>l \<in> set leaves. length l = 32"
    and "unat i < length leaves"
    and "sparse_sha256_merkle_siblings X zeros leaves (unat i) height lh = Inr siblings"
  shows "frontier_root X (frontier_new X i (leaves ! unat i) siblings) height
    = (if unat i < 2 ^ height
       then Inr (tree_node (sha256_two_to_one X) (zeros lh) leaves height 0)
       else Inl (Err ''index exceeds its configured tree height''))"
proof -
  let ?h = "sha256_two_to_one X"
  have s: "siblings = tree_siblings ?h (zeros lh) leaves 0 height (unat i)"
    using assms(7) sparse_loop_eq[OF assms(3) represents_leaves]
    by (auto simp: sparse_sha256_merkle_siblings_def split: if_splits)
  have "frontier_decode X (frontier_new X i (leaves ! unat i) siblings) height = Inr (leaves ! unat i, siblings)"
    using frontier_decode_new[OF assms(1), of "leaves ! unat i" siblings i]
      tree_siblings_32[OF assms(2,4,5)] assms(5,6) by (simp add: s)
  moreover have "frontier_root_loop ?h (unat i) (leaves ! unat i) siblings
      = (unat i div 2 ^ height, tree_node ?h (zeros lh) leaves height (unat i div 2 ^ height))"
    using tree_siblings_verify[of ?h "unat i" "zeros lh" leaves 0 height] assms(6) by (simp add: s)
  ultimately show ?thesis by (simp add: frontier_root_def div_eq_0_iff)
qed

section \<open>Properties\<close>

text \<open>
  Every transaction of a block has a Merkle proof, and hashing the transaction up
  along it gives the block's Merkle root.
\<close>

theorem bitcoin_proof_verifies:
  assumes "i < length txs"
  shows "\<exists>ss r. bitcoin_merkle_siblings X txs i = Inr ss \<and> bitcoin_merkle_root X txs = Some r
    \<and> path_root (btc_hash256_two_to_one X) i (txs ! i) ss = r"
  using bitcoin_siblings_verify[OF assms, of "btc_hash256_two_to_one X"] assms
  by (fastforce simp: bitcoin_merkle_siblings_def bitcoin_merkle_root_def path_root_def)

theorem bitcoin_proof_verifies_witness:
  "\<exists>ss r. bitcoin_merkle_siblings demo_crates [[1], [2], [3]] 2 = Inr ss
     \<and> bitcoin_merkle_root demo_crates [[1], [2], [3]] = Some r
     \<and> path_root (btc_hash256_two_to_one demo_crates) 2 [3] ss = r"
  using bitcoin_proof_verifies[of 2 "[[1], [2], [3]]" demo_crates] by simp

text \<open>
  The proof of a known leaf in a sparse tree has one sibling per level, and
  hashing the leaf up along it gives the root of the tree filled up with zero leaves.
\<close>

theorem sparse_proof_verifies:
  assumes "zero_law (sha256_two_to_one X) zeros" and "i < length leaves" and "i < 2 ^ height"
  shows "\<exists>ss. sparse_sha256_merkle_siblings X zeros leaves i height leaf_height = Inr ss
    \<and> length ss = height
    \<and> path_root (sha256_two_to_one X) i (leaves ! i) ss
      = tree_node (sha256_two_to_one X) (zeros leaf_height) leaves height 0"
  using sparse_loop_eq[OF assms(1) represents_leaves, where n = height and i = i]
    tree_siblings_verify[of "sha256_two_to_one X" i "zeros leaf_height" leaves 0 height] assms(2,3)
  by (simp add: sparse_sha256_merkle_siblings_def path_root_def)

primrec demo_zeros :: "nat \<Rightarrow> bytes" where
  "demo_zeros 0 = replicate 32 0"
| "demo_zeros (Suc d) = sha256_two_to_one demo_crates (demo_zeros d) (demo_zeros d)"

lemma demo_zero_law: "zero_law (sha256_two_to_one demo_crates) demo_zeros"
  by (simp add: zero_law_def)

theorem sparse_proof_verifies_witness:
  "\<exists>ss. sparse_sha256_merkle_siblings demo_crates demo_zeros [[1], [2], [3]] 2 4 0 = Inr ss
     \<and> length ss = 4
     \<and> path_root (sha256_two_to_one demo_crates) 2 [3] ss
       = tree_node (sha256_two_to_one demo_crates) (demo_zeros 0) [[1], [2], [3]] 4 0"
  using sparse_proof_verifies[OF demo_zero_law, of 2 "[[1], [2], [3]]" 4 0] by simp

text \<open>
  Claim C19. From the last leaf and its proof alone, the sequential routine computes the
  proof of the next leaf that the sparse routine computes from all leaves: the incremental update
  is equivalent to the full one.
\<close>

theorem sequential_equals_sparse:
  assumes "hex_laws X" and "hash_laws X" and "zero_law (sha256_two_to_one X) zeros"
    and "length (zeros leaf_height) = 32" and "\<forall>l \<in> set leaves. length l = 32"
    and "length leaves = unat i + 1" and "unat i + 1 < 2 ^ 32" and "height \<le> 32"
    and "sparse_sha256_merkle_siblings X zeros leaves (unat i) height leaf_height = Inr siblings"
  shows "sequential_next_leaf_siblings X zeros (frontier_new X i (leaves ! unat i) siblings)
      (i + 1) height leaf_height
    = sparse_sha256_merkle_siblings X zeros (leaves @ [next_leaf]) (unat (i + 1)) height leaf_height"
proof -
  have s: "siblings = tree_siblings (sha256_two_to_one X) (zeros leaf_height) leaves 0 height (unat i)"
    using assms(9) sparse_loop_eq[OF assms(3) represents_leaves]
    by (auto simp: sparse_sha256_merkle_siblings_def split: if_splits)
  have "unat (i + 1) < length (leaves @ [next_leaf])"
    using assms(6,7) by (simp add: unat_word_ariths)
  then show ?thesis
    unfolding s sequential_eq[OF assms(1-8), of next_leaf]
    by (simp add: sparse_sha256_merkle_siblings_def sparse_loop_eq[OF assms(3) represents_leaves])
qed

theorem sequential_equals_sparse_witness:
  "\<exists>siblings. sparse_sha256_merkle_siblings demo_crates demo_zeros [replicate 32 7] 0 3 0 = Inr siblings
    \<and> sequential_next_leaf_siblings demo_crates demo_zeros
        (frontier_new demo_crates 0 (replicate 32 7) siblings) 1 3 0
      = sparse_sha256_merkle_siblings demo_crates demo_zeros [replicate 32 7, replicate 32 9] 1 3 0"
proof -
  obtain siblings where s: "sparse_sha256_merkle_siblings demo_crates demo_zeros [replicate 32 7] 0 3 0
      = Inr siblings"
    using sparse_proof_verifies[OF demo_zero_law, of 0 "[replicate 32 7]" 3 0] by auto
  have "sequential_next_leaf_siblings demo_crates demo_zeros
        (frontier_new demo_crates 0 ([replicate 32 7] ! unat (0 :: u32)) siblings) (0 + 1) 3 0
      = sparse_sha256_merkle_siblings demo_crates demo_zeros ([replicate 32 7] @ [replicate 32 9])
          (unat ((0 :: u32) + 1)) 3 0"
    by (rule sequential_equals_sparse[OF demo_hex_laws demo_hash_laws demo_zero_law]) (simp_all add: s)
  with s show ?thesis by auto
qed

text \<open>
  The root of the frontier of leaf \<open>i\<close> is the root of the tree, and a frontier
  whose index does not fit the tree's height is rejected.
\<close>

theorem frontier_root_correct:
  assumes "hex_laws X" and "hash_laws X" and "zero_law (sha256_two_to_one X) zeros"
    and "length (zeros leaf_height) = 32" and "\<forall>l \<in> set leaves. length l = 32"
    and "unat i < length leaves"
    and "sparse_sha256_merkle_siblings X zeros leaves (unat i) height leaf_height = Inr siblings"
  shows "frontier_root X (frontier_new X i (leaves ! unat i) siblings) height
    = (if unat i < 2 ^ height
       then Inr (tree_node (sha256_two_to_one X) (zeros leaf_height) leaves height 0)
       else Inl (Err ''index exceeds its configured tree height''))"
  using assms by (rule frontier_root_new)

theorem frontier_root_correct_witness:
  "\<exists>siblings. frontier_root demo_crates (frontier_new demo_crates 0 (replicate 32 7) siblings) 3
     = Inr (tree_node (sha256_two_to_one demo_crates) (demo_zeros 0) [replicate 32 7] 3 0)"
proof -
  obtain siblings where s: "sparse_sha256_merkle_siblings demo_crates demo_zeros [replicate 32 7] 0 3 0
      = Inr siblings"
    using sparse_proof_verifies[OF demo_zero_law, of 0 "[replicate 32 7]" 3 0] by auto
  have "frontier_root demo_crates (frontier_new demo_crates 0 ([replicate 32 7] ! unat (0 :: u32)) siblings) 3
    = (if unat (0 :: u32) < 2 ^ 3
       then Inr (tree_node (sha256_two_to_one demo_crates) (demo_zeros 0) [replicate 32 7] 3 0)
       else Inl (Err ''index exceeds its configured tree height''))"
    by (rule frontier_root_correct[OF demo_hex_laws demo_hash_laws demo_zero_law]) (simp_all add: s)
  then show ?thesis by auto
qed

end
