(* ===== verification/Checkpoint.thy ===== *)
theory Checkpoint
  imports Merkle BTreeMap Proof_Queue
begin

text \<open>
  The data of \<open>block_pipeline.rs\<close> that is kept between blocks: the network profiles, the buffer
  commitment of a block, the pipeline checkpoint and its validation, the Solana header and the
  routine that builds the next one, the checks of an upload payload and of the configuration.

  The chain state (\<open>QEDDogeChainStateCore\<close>) and the pending-mint builder are third-party: they are
  the record \<open>bridge\<close> of functions over an abstract state, with their tree heights and zero hashes.
  \<open>bridge_laws\<close> says that hashes have 32 bytes and that the zero hashes form a chain.
\<close>

section \<open>Constants and network profiles\<close>

definition header_size :: nat where "header_size = 320"
definition config_size :: nat where "config_size = 48"
definition proof_size :: nat where "proof_size = 356"
definition public_values_size :: nat where "public_values_size = 32"
definition evidence_schema_version :: u32 where "evidence_schema_version = 2"

definition checkpoint_prefix :: string where
  "checkpoint_prefix = ''PDOGE-E2E-BLOCK-CHECKPOINT-V3''"

definition checkpoint_journal_suffix :: string where
  "checkpoint_journal_suffix = ''pending''"

definition checkpoint_journal_key :: "string \<Rightarrow> string" where
  "checkpoint_journal_key checkpoint_key = checkpoint_key @ ''-'' @ checkpoint_journal_suffix"

definition regtest_block_vk_hash :: bytes where
  "regtest_block_vk_hash =
     [0x00, 0x1f, 0xa0, 0x18, 0xc3, 0x5d, 0x88, 0x13, 0x6a, 0xfe, 0x0e, 0x92, 0xbc, 0x9a, 0xfe, 0x33,
      0xba, 0x94, 0xca, 0x5d, 0xcd, 0x91, 0x56, 0x14, 0x7a, 0xdf, 0x00, 0x4c, 0x78, 0x10, 0xe1, 0x99]"

definition testnet_block_vk_hash :: bytes where
  "testnet_block_vk_hash =
     [0x00, 0xb2, 0x5e, 0x2f, 0xe5, 0x86, 0x67, 0x51, 0xa3, 0x8e, 0x5c, 0xa4, 0xd9, 0x75, 0xb3, 0x0b,
      0x41, 0x87, 0xf3, 0xe0, 0x52, 0x8a, 0x06, 0xdc, 0x86, 0xed, 0xc6, 0xe9, 0xa8, 0xb9, 0xcc, 0x02]"

datatype network_profile = Regtest | Testnet

definition network_str :: "network_profile \<Rightarrow> string" where
  "network_str p = (case p of Regtest \<Rightarrow> ''regtest'' | Testnet \<Rightarrow> ''testnet'')"

definition default_vk_hash :: "network_profile \<Rightarrow> bytes" where
  "default_vk_hash p = (case p of Regtest \<Rightarrow> regtest_block_vk_hash | Testnet \<Rightarrow> testnet_block_vk_hash)"

definition guest_id :: "network_profile \<Rightarrow> string" where
  "guest_id p = (case p of Regtest \<Rightarrow> ''block-transition'' | Testnet \<Rightarrow> ''block-transition-testnet'')"

definition default_block_elf_path :: "network_profile \<Rightarrow> string list" where
  "default_block_elf_path p =
     [''..'', ''psy-bridge-sp1'', ''target'', ''elf-compilation'', ''riscv64im-succinct-zkvm-elf'', ''release'']
     @ [case p of Regtest \<Rightarrow> ''block-transition'' | Testnet \<Rightarrow> ''block-transition-testnet'']"

section \<open>The third-party chain state\<close>

record block_record =
  rec_claim_root :: bytes
  rec_txo_root :: bytes
  rec_claim_next_index :: u32
  rec_timestamp :: u32
  rec_total_fees :: u64

record state_commitment =
  sc_block_hash :: bytes
  sc_merkle_root :: bytes
  sc_height :: u32
  sc_txo_root :: bytes
  sc_claim_root :: bytes
  sc_claim_next_index :: u32

record 'st bridge =
  state_decode :: "bytes \<Rightarrow> 'st option"
  state_encode :: "'st \<Rightarrow> bytes res"
  tip_number :: "'st \<Rightarrow> u32"
  tip_block_hash :: "'st \<Rightarrow> bytes"
  finalized_number :: "'st \<Rightarrow> u32 \<Rightarrow> u32"
  get_record :: "'st \<Rightarrow> u32 \<Rightarrow> block_record res"
  tip_commitment :: "'st \<Rightarrow> state_commitment"
  finalized_commitment :: "'st \<Rightarrow> u32 \<Rightarrow> state_commitment res"
  mints_groups_hash :: "(bytes \<times> u64) list \<Rightarrow> bytes res"
  zero_hashes :: "nat \<Rightarrow> bytes"
  claim_tree_height :: nat
  txo_block_num_bits :: nat
  txo_block_tree_height :: nat
  hash_cache_size :: nat

definition commitment_wf :: "state_commitment \<Rightarrow> bool" where
  "commitment_wf c \<longleftrightarrow> length (sc_block_hash c) = 32 \<and> length (sc_merkle_root c) = 32
     \<and> length (sc_txo_root c) = 32 \<and> length (sc_claim_root c) = 32"

definition bridge_laws :: "crates \<Rightarrow> 'st bridge \<Rightarrow> bool" where
  "bridge_laws X B \<longleftrightarrow>
     zero_law (sha256_two_to_one X) (zero_hashes B) \<and> (\<forall>d. length (zero_hashes B d) = 32)
     \<and> (\<forall>s. commitment_wf (tip_commitment B s))
     \<and> (\<forall>s n c. finalized_commitment B s n = Inr c \<longrightarrow> commitment_wf c)
     \<and> (\<forall>ms h. mints_groups_hash B ms = Inr h \<longrightarrow> length h = 32)"

section \<open>Buffer commitments and checkpoints\<close>

record pending_mint =
  pm_recipient :: bytes
  pm_amount :: u64

record buffer_commitment =
  bc_mints_hash_hex :: string
  bc_txo_hash_hex :: string
  bc_pending_mints :: "pending_mint list"
  bc_txo_indices :: "u32 list"
  bc_deposit_count :: u32
  bc_minted_sats :: u64
  bc_claim_start :: u32
  bc_claim_end :: u32
  bc_fees :: u64

record pipeline_checkpoint =
  cp_height :: u32
  cp_state_hex :: string
  cp_header_hex :: string
  cp_claim_frontier :: merkle_frontier
  cp_txo_frontier :: merkle_frontier
  cp_claim_history :: "bytes list"
  cp_txo_history :: "bytes list"
  cp_pending :: "(u32, buffer_commitment) btree"

definition pending_mints_hash :: "'st bridge \<Rightarrow> pending_mint list \<Rightarrow> bytes res" where
  "pending_mints_hash B payloads = mints_groups_hash B (map (\<lambda>p. (pm_recipient p, pm_amount p)) payloads)"

definition serialize_pending_mint_payloads :: "pending_mint list \<Rightarrow> bytes" where
  "serialize_pending_mint_payloads payloads =
     concat (map (\<lambda>p. pm_recipient p @ to_le_bytes 8 (pm_amount p)) payloads)"

text \<open>\<open>bytemuck::cast_slice\<close> on the little-endian targets the node runs on.\<close>

definition serialize_txo_indices :: "u32 list \<Rightarrow> bytes" where
  "serialize_txo_indices indices = concat (map (to_le_bytes 4) indices)"

definition commitment_empty :: "crates \<Rightarrow> 'st bridge \<Rightarrow> buffer_commitment res" where
  "commitment_empty X B =
     and_then (mints_groups_hash B []) (\<lambda>h.
     Inr \<lparr>bc_mints_hash_hex = hex_encode X h, bc_txo_hash_hex = hex_encode X (sha256 X []),
          bc_pending_mints = [], bc_txo_indices = [], bc_deposit_count = 0, bc_minted_sats = 0,
          bc_claim_start = 0, bc_claim_end = 0, bc_fees = 0\<rparr>)"

definition bc_mints_hash :: "crates \<Rightarrow> buffer_commitment \<Rightarrow> bytes res" where
  "bc_mints_hash X c = decode_hash X (bc_mints_hash_hex c)"

definition bc_txo_hash :: "crates \<Rightarrow> buffer_commitment \<Rightarrow> bytes res" where
  "bc_txo_hash X c = decode_hash X (bc_txo_hash_hex c)"

definition checked_add_u64 :: "u64 \<Rightarrow> u64 \<Rightarrow> u64 option" where
  "checked_add_u64 a b = (if unat a + unat b < 2 ^ 64 then Some (a + b) else None)"

definition validate_buffer_payload ::
  "crates \<Rightarrow> 'st bridge \<Rightarrow> buffer_commitment \<Rightarrow> pending_mint list \<Rightarrow> unit res" where
  "validate_buffer_payload X B finalized pending_mints =
     (if length (bc_pending_mints finalized) \<noteq> length (bc_txo_indices finalized)
         \<or> length (bc_pending_mints finalized) \<noteq> unat (bc_deposit_count finalized)
      then Inl (Err ''finalized buffer payload lengths do not match'')
      else if length pending_mints \<noteq> length (bc_pending_mints finalized)
      then Inl (Err ''bridge pending-mint conversion changed payload length'')
      else
     and_then (try_fold (\<lambda>sum mint. ok_or (checked_add_u64 sum (pm_amount mint)) (Err ''pending-mint amount overflow''))
                 0 (bc_pending_mints finalized)) (\<lambda>amount.
     if amount \<noteq> bc_minted_sats finalized
     then Inl (Err ''pending-mint payload amount does not match commitment'')
     else
     and_then (pending_mints_hash B (bc_pending_mints finalized)) (\<lambda>actual_mints.
     and_then (bc_mints_hash X finalized) (\<lambda>expected_mints.
     if actual_mints \<noteq> expected_mints
     then Inl (Err ''pending-mint payload hash does not match finalized header commitment'')
     else
     and_then (bc_txo_hash X finalized) (\<lambda>expected_txo_hash.
     if sha256 X (serialize_txo_indices (bc_txo_indices finalized)) \<noteq> expected_txo_hash
     then Inl (Err ''TXO payload hash does not match finalized header commitment'')
     else Inr ())))))"

section \<open>The Solana header\<close>

definition sol_tip_block_hash :: "nat \<times> nat" where "sol_tip_block_hash = (0, 32)"
definition sol_tip_block_merkle_root :: "nat \<times> nat" where "sol_tip_block_merkle_root = (32, 64)"
definition sol_tip_block_time :: "nat \<times> nat" where "sol_tip_block_time = (64, 68)"
definition sol_tip_block_height :: "nat \<times> nat" where "sol_tip_block_height = (68, 72)"
definition sol_finalized_block_hash :: "nat \<times> nat" where "sol_finalized_block_hash = (72, 104)"
definition sol_finalized_block_merkle_root :: "nat \<times> nat" where
  "sol_finalized_block_merkle_root = (104, 136)"
definition sol_finalized_pending_mints_hash :: "nat \<times> nat" where
  "sol_finalized_pending_mints_hash = (136, 168)"
definition sol_finalized_txo_list_hash :: "nat \<times> nat" where "sol_finalized_txo_list_hash = (168, 200)"
definition sol_finalized_auto_claimed_txo_root :: "nat \<times> nat" where
  "sol_finalized_auto_claimed_txo_root = (200, 232)"
definition sol_finalized_auto_claimed_deposits_root :: "nat \<times> nat" where
  "sol_finalized_auto_claimed_deposits_root = (232, 264)"
definition sol_finalized_auto_claimed_next_index :: "nat \<times> nat" where
  "sol_finalized_auto_claimed_next_index = (264, 268)"
definition sol_finalized_block_height :: "nat \<times> nat" where "sol_finalized_block_height = (268, 272)"
definition sol_bridge_state_hash :: "nat \<times> nat" where "sol_bridge_state_hash = (272, 304)"
definition sol_last_rollback_at_secs :: "nat \<times> nat" where "sol_last_rollback_at_secs = (304, 308)"
definition sol_paused_until_secs :: "nat \<times> nat" where "sol_paused_until_secs = (308, 312)"
definition sol_total_finalized_fees :: "nat \<times> nat" where "sol_total_finalized_fees = (312, 320)"

lemmas sol_ranges = sol_tip_block_hash_def sol_tip_block_merkle_root_def sol_tip_block_time_def
  sol_tip_block_height_def sol_finalized_block_hash_def sol_finalized_block_merkle_root_def
  sol_finalized_pending_mints_hash_def sol_finalized_txo_list_hash_def
  sol_finalized_auto_claimed_txo_root_def sol_finalized_auto_claimed_deposits_root_def
  sol_finalized_auto_claimed_next_index_def sol_finalized_block_height_def sol_bridge_state_hash_def
  sol_last_rollback_at_secs_def sol_paused_until_secs_def sol_total_finalized_fees_def

definition build_new_solana_header ::
  "crates \<Rightarrow> 'st bridge \<Rightarrow> bytes \<Rightarrow> 'st \<Rightarrow> u32 \<Rightarrow> bytes \<Rightarrow> bytes \<Rightarrow> bytes res" where
  "build_new_solana_header X B old_header state required_confirmations mints_hash txo_hash =
     (let tip = tip_commitment B state in
     and_then (finalized_commitment B state required_confirmations) (\<lambda>finalized.
     and_then (get_record B state (tip_number B state)) (\<lambda>tip_record.
     and_then (get_record B state (finalized_number B state required_confirmations)) (\<lambda>finalized_record.
     and_then (try_fold (\<lambda>header (range, v). copy_slice header (fst range) (snd range) v) old_header
       [(sol_tip_block_hash, sc_block_hash tip),
        (sol_tip_block_merkle_root, sc_merkle_root tip),
        (sol_tip_block_time, to_le_bytes 4 (rec_timestamp tip_record)),
        (sol_tip_block_height, to_le_bytes 4 (sc_height tip)),
        (sol_finalized_block_hash, sc_block_hash finalized),
        (sol_finalized_block_merkle_root, sc_merkle_root finalized),
        (sol_finalized_pending_mints_hash, mints_hash),
        (sol_finalized_txo_list_hash, txo_hash),
        (sol_finalized_auto_claimed_txo_root, sc_txo_root finalized),
        (sol_finalized_auto_claimed_deposits_root, sc_claim_root finalized),
        (sol_finalized_auto_claimed_next_index, to_le_bytes 4 (sc_claim_next_index finalized)),
        (sol_finalized_block_height, to_le_bytes 4 (sc_height finalized))]) (\<lambda>header.
     and_then (state_encode B state) (\<lambda>state_bytes.
     try_fold (\<lambda>header (range, v). copy_slice header (fst range) (snd range) v) header
       [(sol_bridge_state_hash, sha256 X state_bytes),
        (sol_total_finalized_fees, to_le_bytes 8 (rec_total_fees finalized_record))]))))))"

section \<open>Validation of a checkpoint\<close>

definition validate_frontiers_against_state ::
  "crates \<Rightarrow> 'st bridge \<Rightarrow> pipeline_checkpoint \<Rightarrow> 'st \<Rightarrow> unit res" where
  "validate_frontiers_against_state X B cp state =
     and_then (get_record B state (tip_number B state)) (\<lambda>tip.
     and_then (frontier_root X (cp_claim_frontier cp) (claim_tree_height B)) (\<lambda>claim_root.
     if claim_root \<noteq> rec_claim_root tip
     then Inl (Err ''claim frontier root does not match checkpoint state'')
     else
     and_then (decode_hash X (fr_value_hex (cp_claim_frontier cp))) (\<lambda>claim_value.
     let expected_claim_index =
           (if fr_index (cp_claim_frontier cp) = 0 \<and> claim_value = zero_hashes B 0 then 0
            else fr_index (cp_claim_frontier cp) + 1)
     in if expected_claim_index \<noteq> rec_claim_next_index tip
     then Inl (Err ''claim frontier next index does not match state'')
     else
     and_then (frontier_root X (cp_txo_frontier cp) (txo_block_num_bits B)) (\<lambda>txo_root.
     if txo_root \<noteq> rec_txo_root tip
     then Inl (Err ''TXO block frontier root does not match checkpoint state'')
     else if fr_index (cp_txo_frontier cp) \<noteq> cp_height cp
     then Inl (Err ''TXO block frontier height does not match checkpoint height'')
     else Inr ()))))"

definition history_frontier ::
  "crates \<Rightarrow> 'st bridge \<Rightarrow> bytes list \<Rightarrow> nat \<Rightarrow> nat \<Rightarrow> nat \<Rightarrow> merkle_frontier res" where
  "history_frontier X B history i height leaf_height =
     and_then (sparse_sha256_merkle_siblings X (zero_hashes B) history i height leaf_height) (\<lambda>siblings.
     and_then (index history i) (\<lambda>leaf.
     Inr (frontier_new X (of_nat i) leaf siblings)))"

definition validate_checkpoint :: "crates \<Rightarrow> 'st bridge \<Rightarrow> pipeline_checkpoint \<Rightarrow> unit res" where
  "validate_checkpoint X B cp =
     and_then (ok_or (hex_decode X (cp_header_hex cp)) (Err ''invalid hex'')) (\<lambda>header.
     and_then (ensure_length header header_size) (\<lambda>_.
     if length (cp_claim_history cp) > 1000000 \<or> length (cp_txo_history cp) > 1000000
     then Inl (Err ''checkpoint Merkle history exceeds the E2E safety limit'')
     else
     and_then
       (if cp_claim_history cp \<noteq> [] then
          and_then (history_frontier X B (cp_claim_history cp) (length (cp_claim_history cp) - 1)
                      (claim_tree_height B) 0) (\<lambda>expected.
          bail_if (expected \<noteq> cp_claim_frontier cp) ''claim history does not reproduce the checkpoint frontier'')
        else Inr ()) (\<lambda>_.
     and_then
       (if cp_txo_history cp \<noteq> [] then
          (if length (cp_txo_history cp) \<noteq> unat (cp_height cp) + 1
           then Inl (Err ''TXO block history length does not match checkpoint height'')
           else
          and_then (history_frontier X B (cp_txo_history cp) (unat (cp_height cp))
                      (txo_block_num_bits B) (txo_block_tree_height B)) (\<lambda>expected.
          bail_if (expected \<noteq> cp_txo_frontier cp) ''TXO block history does not reproduce the checkpoint frontier''))
        else Inr ()) (\<lambda>_.
     and_then (ok_or (hex_decode X (cp_state_hex cp)) (Err ''invalid hex'')) (\<lambda>state_bytes.
     and_then (ok_or (state_decode B state_bytes) (Err ''malformed state'')) (\<lambda>state.
     if tip_number B state \<noteq> cp_height cp
     then Inl (Err ''checkpoint height does not match serialized state tip'')
     else validate_frontiers_against_state X B cp state))))))"

definition assert_checkpoint_matches_chain :: "crates \<Rightarrow> pipeline_checkpoint \<Rightarrow> bytes \<Rightarrow> unit res" where
  "assert_checkpoint_matches_chain X cp chain_header =
     and_then (decode_fixed X header_size (cp_header_hex cp)) (\<lambda>checkpoint_header.
     if length chain_header \<noteq> header_size
     then Inl (Err ''on-chain bridge header has an unexpected size'')
     else if checkpoint_header \<noteq> chain_header
     then Inl (Err ''Redis checkpoint does not match the current on-chain bridge header'')
     else Inr ())"

section \<open>Fee parameters\<close>

definition read_u64_le :: "bytes \<Rightarrow> nat \<Rightarrow> nat \<Rightarrow> u64 res" where
  "read_u64_le config a b = and_then (slice config a b) (\<lambda>bs. Inr (from_le_bytes bs))"

definition deposit_fee_numerator :: "bytes \<Rightarrow> u64 res" where
  "deposit_fee_numerator config = read_u64_le config 0 8"

definition deposit_fee_denominator :: "bytes \<Rightarrow> u64 res" where
  "deposit_fee_denominator config = read_u64_le config 8 16"

definition deposit_flat_fee :: "bytes \<Rightarrow> u64 res" where
  "deposit_flat_fee config = read_u64_le config 32 40"

section \<open>Lemmas\<close>

lemma copy_slice_next:
  assumes "length pre = a" and "length src = b - a" and "a \<le> b" and "b \<le> length old"
  shows "copy_slice (pre @ drop a old) a b src = Inr ((pre @ src) @ drop b old)"
  using assms by (simp add: copy_slice_def)

lemma copy_slice_skip:
  assumes "length pre = a" and "length src = c - b" and "a \<le> b" and "b \<le> c" and "c \<le> length old"
  shows "copy_slice (pre @ drop a old) b c src = Inr ((pre @ take (b - a) (drop a old) @ src) @ drop c old)"
  using assms by (simp add: copy_slice_def)

lemma copy_fields_ok:
  "list_all (\<lambda>((a, b), v). a \<le> b \<and> b \<le> length old \<and> length v = b - a) fvs \<Longrightarrow>
   \<exists>new. try_fold (\<lambda>header (rng, v). copy_slice header (fst rng) (snd rng) v) old fvs = Inr new
     \<and> length new = length old"
proof (induction fvs arbitrary: old)
  case Nil
  then show ?case by simp
next
  case (Cons f fvs)
  obtain a b v where f: "f = ((a, b), v)" by (metis prod.exhaust)
  obtain mid where mid: "copy_slice old a b v = Inr mid" using Cons.prems by (simp add: f copy_slice_def)
  then have "length mid = length old" by (rule length_copy_slice)
  then show ?case using Cons.IH[of mid] Cons.prems mid by (simp add: f)
qed

lemma build_header_ok:
  assumes "bridge_laws X B" and "hash_laws X" and "length old = header_size"
    and "length mints_hash = 32" and "length txo_hash = 32"
    and "finalized_commitment B state n = Inr fin" and "get_record B state (tip_number B state) = Inr tip_record"
    and "get_record B state (finalized_number B state n) = Inr fin_record" and "state_encode B state = Inr state_bytes"
  shows "\<exists>header. build_new_solana_header X B old state n mints_hash txo_hash = Inr header \<and> length header = header_size"
proof -
  have len: "length (sc_block_hash (tip_commitment B state)) = 32" "length (sc_merkle_root (tip_commitment B state)) = 32"
    "length (sc_block_hash fin) = 32" "length (sc_merkle_root fin) = 32" "length (sc_txo_root fin) = 32"
    "length (sc_claim_root fin) = 32" "length (sha256 X state_bytes) = 32"
    using assms(1,2,6) by (auto simp: bridge_laws_def commitment_wf_def hash_laws_def)
  let ?fields = "[(sol_tip_block_hash, sc_block_hash (tip_commitment B state)),
        (sol_tip_block_merkle_root, sc_merkle_root (tip_commitment B state)),
        (sol_tip_block_time, to_le_bytes 4 (rec_timestamp tip_record)),
        (sol_tip_block_height, to_le_bytes 4 (sc_height (tip_commitment B state))),
        (sol_finalized_block_hash, sc_block_hash fin),
        (sol_finalized_block_merkle_root, sc_merkle_root fin),
        (sol_finalized_pending_mints_hash, mints_hash),
        (sol_finalized_txo_list_hash, txo_hash),
        (sol_finalized_auto_claimed_txo_root, sc_txo_root fin),
        (sol_finalized_auto_claimed_deposits_root, sc_claim_root fin),
        (sol_finalized_auto_claimed_next_index, to_le_bytes 4 (sc_claim_next_index fin)),
        (sol_finalized_block_height, to_le_bytes 4 (sc_height fin))]"
  obtain mid where mid: "try_fold (\<lambda>header (rng, v). copy_slice header (fst rng) (snd rng) v) old ?fields = Inr mid"
    "length mid = header_size"
    using copy_fields_ok[of old ?fields] assms(3-5) len by (auto simp: sol_ranges header_size_def)
  have "\<exists>new. try_fold (\<lambda>header (rng, v). copy_slice header (fst rng) (snd rng) v) mid
      [(sol_bridge_state_hash, sha256 X state_bytes),
       (sol_total_finalized_fees, to_le_bytes 8 (rec_total_fees fin_record))] = Inr new \<and> length new = length mid"
    by (rule copy_fields_ok) (use mid(2) len in \<open>simp add: sol_ranges header_size_def\<close>)
  with mid show ?thesis
    unfolding build_new_solana_header_def Let_def assms(6-9) and_then.simps by auto
qed

lemma checked_sum:
  "try_fold (\<lambda>sum mint. ok_or (checked_add_u64 sum (pm_amount mint)) e) s ms = Inr t \<longleftrightarrow>
     unat t = unat s + (\<Sum>m \<leftarrow> ms. unat (pm_amount m))"
proof (induction ms arbitrary: s)
  case Nil
  then show ?case by (auto simp: word_unat_eq_iff)
next
  case (Cons m ms)
  show ?case
  proof (cases "unat s + unat (pm_amount m) < 2 ^ 64")
    case True
    then have "unat (s + pm_amount m) = unat s + unat (pm_amount m)" by (simp add: unat_word_ariths)
    then show ?thesis using True Cons by (simp add: checked_add_u64_def add.assoc)
  next
    case False
    then have "unat t \<noteq> unat s + (unat (pm_amount m) + (\<Sum>m \<leftarrow> ms. unat (pm_amount m)))"
      using unsigned_less[of t, where 'a = nat] by simp
    with False show ?thesis by (simp add: checked_add_u64_def)
  qed
qed

lemma decode_fixed_iff: "decode_fixed X n s = Inr bs \<longleftrightarrow> hex_decode X s = Some bs \<and> length bs = n"
  by (auto simp: decode_fixed_def ensure_length_def)

lemma assert_matches_iff:
  "assert_checkpoint_matches_chain X cp chain = Inr u \<longleftrightarrow>
     hex_decode X (cp_header_hex cp) = Some chain \<and> length chain = header_size"
  by (auto simp: assert_checkpoint_matches_chain_def decode_fixed_iff)

lemma validate_checkpoint_ok:
  assumes "validate_checkpoint X B cp = Inr u"
  shows "length (cp_claim_history cp) \<le> 1000000" and "length (cp_txo_history cp) \<le> 1000000"
    and "cp_claim_history cp \<noteq> [] \<Longrightarrow>
      history_frontier X B (cp_claim_history cp) (length (cp_claim_history cp) - 1) (claim_tree_height B) 0
        = Inr (cp_claim_frontier cp)"
    and "cp_txo_history cp \<noteq> [] \<Longrightarrow> length (cp_txo_history cp) = unat (cp_height cp) + 1 \<and>
      history_frontier X B (cp_txo_history cp) (unat (cp_height cp)) (txo_block_num_bits B)
        (txo_block_tree_height B) = Inr (cp_txo_frontier cp)"
    and "\<exists>bs state. hex_decode X (cp_state_hex cp) = Some bs \<and> state_decode B bs = Some state
      \<and> tip_number B state = cp_height cp \<and> validate_frontiers_against_state X B cp state = Inr ()"
    and "\<exists>header. hex_decode X (cp_header_hex cp) = Some header \<and> length header = header_size"
  using assms by (auto simp: validate_checkpoint_def ensure_length_def split: if_splits)

lemma history_frontier_root:
  assumes laws: "hex_laws X" "hash_laws X" "bridge_laws X B" and "\<forall>l \<in> set history. length l = 32"
    and "i < 2 ^ 32" and "history_frontier X B history i height lh = Inr fr" and "frontier_root X fr height = Inr r"
  shows "i < length history \<and> r = tree_node (sha256_two_to_one X) (zero_hashes B lh) history height 0"
proof -
  obtain ss where ss: "sparse_sha256_merkle_siblings X (zero_hashes B) history i height lh = Inr ss"
    and i: "i < length history" and fr: "fr = frontier_new X (of_nat i) (history ! i) ss"
    using assms(6) by (auto simp: history_frontier_def index_def split: if_splits)
  have u: "unat (of_nat i :: u32) = i" using assms(5) by (simp add: unat_of_nat)
  have "frontier_root X (frontier_new X (of_nat i) (history ! unat (of_nat i :: u32)) ss) height
    = (if unat (of_nat i :: u32) < 2 ^ height
       then Inr (tree_node (sha256_two_to_one X) (zero_hashes B lh) history height 0)
       else Inl (Err ''index exceeds its configured tree height''))"
    by (rule frontier_root_new[OF laws(1,2)]) (use laws(3) assms(4) i ss in \<open>simp_all add: bridge_laws_def u\<close>)
  then show ?thesis using i fr assms(7) by (simp add: u split: if_splits)
qed

section \<open>A concrete chain state for the witnesses\<close>

text \<open>
  A state is its bytes: height, claim root, output root, next claim index.
\<close>

definition demo_commitment :: "u32 \<Rightarrow> state_commitment" where
  "demo_commitment h =
     \<lparr>sc_block_hash = replicate 32 1, sc_merkle_root = replicate 32 2, sc_height = h,
      sc_txo_root = replicate 32 3, sc_claim_root = replicate 32 4, sc_claim_next_index = 0\<rparr>"

definition demo_tip :: "bytes \<Rightarrow> u32" where
  "demo_tip s = from_le_bytes (take 4 s)"

definition demo_record :: "bytes \<Rightarrow> block_record" where
  "demo_record s =
     \<lparr>rec_claim_root = take 32 (drop 4 s), rec_txo_root = take 32 (drop 36 s),
      rec_claim_next_index = from_le_bytes (take 4 (drop 68 s)), rec_timestamp = 0, rec_total_fees = 0\<rparr>"

definition demo_bridge :: "bytes bridge" where
  "demo_bridge =
     \<lparr>state_decode = Some, state_encode = Inr, tip_number = demo_tip,
      tip_block_hash = (\<lambda>_. replicate 32 1), finalized_number = (\<lambda>s n. demo_tip s - n),
      get_record = (\<lambda>s _. Inr (demo_record s)), tip_commitment = (\<lambda>s. demo_commitment (demo_tip s)),
      finalized_commitment = (\<lambda>s n. Inr (demo_commitment (demo_tip s - n))),
      mints_groups_hash = (\<lambda>ms. Inr (demo_hash (concat (map (\<lambda>(r, a). r @ to_le_bytes 8 a) ms)))),
      zero_hashes = demo_zeros, claim_tree_height = 3, txo_block_num_bits = 3,
      txo_block_tree_height = 1, hash_cache_size = 2\<rparr>"

lemma length_demo_zeros: "length (demo_zeros d) = 32"
  by (cases d) (simp_all add: demo_crates_def demo_hash_def)

lemma demo_bridge_laws: "bridge_laws demo_crates demo_bridge"
  by (auto simp: bridge_laws_def demo_bridge_def demo_zero_law length_demo_zeros commitment_wf_def
      demo_commitment_def demo_hash_def)

lemma demo_bridge_simps [simp]:
  "state_decode demo_bridge = Some" "state_encode demo_bridge = Inr" "tip_number demo_bridge = demo_tip"
  "get_record demo_bridge s h = Inr (demo_record s)" "zero_hashes demo_bridge = demo_zeros"
  "claim_tree_height demo_bridge = 3" "txo_block_num_bits demo_bridge = 3"
  "txo_block_tree_height demo_bridge = 1"
  by (simp_all add: demo_bridge_def)

definition demo_root :: "bytes list \<Rightarrow> nat \<Rightarrow> bytes" where
  "demo_root leaves lh = tree_node (sha256_two_to_one demo_crates) (demo_zeros lh) leaves 3 0"

definition demo_height :: "bytes list \<Rightarrow> u32" where
  "demo_height txos = of_nat (length txos - 1)"

definition demo_state :: "bytes list \<Rightarrow> bytes list \<Rightarrow> bytes" where
  "demo_state claims txos =
     to_le_bytes 4 (demo_height txos) @ demo_root claims 0 @ demo_root txos 1
     @ to_le_bytes 4 (of_nat (length claims) :: u32)"

definition demo_frontier :: "bytes \<Rightarrow> bytes list \<Rightarrow> nat \<Rightarrow> nat \<Rightarrow> merkle_frontier" where
  "demo_frontier leaf leaves lh i =
     frontier_new demo_crates (of_nat i) leaf
       (tree_siblings (sha256_two_to_one demo_crates) (demo_zeros lh) leaves 0 3 i)"

definition demo_header :: bytes where
  "demo_header = replicate 320 0"

definition demo_claim_frontier :: "bytes list \<Rightarrow> merkle_frontier" where
  "demo_claim_frontier claims =
     (if claims = [] then demo_frontier (demo_zeros 0) [] 0 0
      else demo_frontier (last claims) claims 0 (length claims - 1))"

definition demo_checkpoint :: "bytes list \<Rightarrow> bytes list \<Rightarrow> pipeline_checkpoint" where
  "demo_checkpoint claims txos =
     \<lparr>cp_height = demo_height txos, cp_state_hex = demo_encode (demo_state claims txos),
      cp_header_hex = demo_encode demo_header,
      cp_claim_frontier = demo_claim_frontier claims,
      cp_txo_frontier = demo_frontier (last txos) txos 1 (length txos - 1),
      cp_claim_history = claims, cp_txo_history = txos, cp_pending = []\<rparr>"

lemma demo_hex: "hex_decode demo_crates (demo_encode b) = Some b" "hex_encode demo_crates = demo_encode"
  by (simp_all add: demo_crates_def demo_decode_encode)

lemma length_demo_root: "\<forall>l \<in> set leaves. length l = 32 \<Longrightarrow> length (demo_root leaves lh) = 32"
  unfolding demo_root_def by (intro length_tree_node demo_hash_laws) (simp_all add: length_demo_zeros)

lemma demo_state_fields:
  assumes "\<forall>l \<in> set claims. length l = 32" and "\<forall>l \<in> set txos. length l = 32"
  shows "demo_tip (demo_state claims txos) = demo_height txos"
    and "rec_claim_root (demo_record (demo_state claims txos)) = demo_root claims 0"
    and "rec_txo_root (demo_record (demo_state claims txos)) = demo_root txos 1"
    and "rec_claim_next_index (demo_record (demo_state claims txos)) = of_nat (length claims)"
  using length_demo_root[OF assms(1), of 0] length_demo_root[OF assms(2), of 1]
  by (simp_all add: demo_tip_def demo_record_def demo_state_def u32_le_roundtrip)

lemma demo_frontier_root:
  assumes "\<forall>l \<in> set leaves. length l = 32" and "length leaf = 32"
    and "leaf = tree_node (sha256_two_to_one demo_crates) (demo_zeros lh) leaves 0 i" and "i < 8"
  shows "frontier_root demo_crates (demo_frontier leaf leaves lh i) 3 = Inr (demo_root leaves lh)"
proof -
  let ?ss = "tree_siblings (sha256_two_to_one demo_crates) (demo_zeros lh) leaves 0 3 i"
  have "frontier_decode demo_crates (frontier_new demo_crates (of_nat i) leaf ?ss) 3 = Inr (leaf, ?ss)"
    using frontier_decode_new[OF demo_hex_laws assms(2), of ?ss "of_nat i"]
      tree_siblings_32[OF demo_hash_laws length_demo_zeros assms(1)] by simp
  moreover have "unat (of_nat i :: u32) = i" using assms(4) by (simp add: unat_of_nat)
  ultimately show ?thesis
    using tree_siblings_verify[of "sha256_two_to_one demo_crates" i "demo_zeros lh" leaves 0 3] assms(3,4)
    by (simp add: frontier_root_def demo_frontier_def demo_root_def)
qed

lemma demo_history_frontier:
  assumes "leaves \<noteq> []" and "n = length leaves - 1"
  shows "history_frontier demo_crates demo_bridge leaves n 3 lh = Inr (demo_frontier (last leaves) leaves lh n)"
  using sparse_loop_eq[OF demo_zero_law represents_leaves, where lh = lh and leaves = leaves and n = 3 and i = n] assms
  by (cases leaves) (simp_all add: history_frontier_def sparse_sha256_merkle_siblings_def index_def demo_frontier_def last_conv_nth)

lemma demo_history_root:
  assumes "\<forall>l \<in> set leaves. length l = 32" and "leaves \<noteq> []" and "length leaves \<le> 8" and "n = length leaves - 1"
  shows "frontier_root demo_crates (demo_frontier (last leaves) leaves lh n) 3 = Inr (demo_root leaves lh)"
proof (rule demo_frontier_root[OF assms(1)])
  show "length (last leaves) = 32" using assms(1,2) by simp
  show "last leaves = tree_node (sha256_two_to_one demo_crates) (demo_zeros lh) leaves 0 n"
    using assms(2,4) by (simp add: last_conv_nth)
  show "n < 8" using assms(2,3,4) by (cases leaves) auto
qed

lemma demo_claim_frontier_root:
  assumes "\<forall>l \<in> set claims. length l = 32" and "length claims \<le> 8"
  shows "frontier_root demo_crates (demo_claim_frontier claims) 3 = Inr (demo_root claims 0)"
proof (cases "claims = []")
  case True
  show ?thesis
    unfolding True demo_claim_frontier_def if_True simp_thms
    by (rule demo_frontier_root) (simp_all add: length_demo_zeros del: demo_zeros.simps)
next
  case False
  then show ?thesis using demo_history_root[OF assms(1) False assms(2)] by (simp add: demo_claim_frontier_def)
qed

lemma demo_claim_value:
  "\<forall>l \<in> set claims. length l = 32 \<Longrightarrow> decode_hash demo_crates (fr_value_hex (demo_claim_frontier claims))
    = Inr (if claims = [] then demo_zeros 0 else last claims)"
  by (simp add: demo_claim_frontier_def demo_frontier_def frontier_new_def decode_hash_def decode_fixed_iff
      demo_hex length_demo_zeros del: demo_zeros.simps)

lemma demo_claim_index:
  assumes "length claims \<le> 8" and "list_all (\<lambda>l. l \<noteq> demo_zeros 0) claims"
  shows "(if fr_index (demo_claim_frontier claims) = 0 \<and> (if claims = [] then demo_zeros 0 else last claims) = demo_zeros 0
      then 0 else fr_index (demo_claim_frontier claims) + 1) = (of_nat (length claims) :: u32)"
proof (cases "claims = []")
  case True
  then show ?thesis by (simp add: demo_claim_frontier_def demo_frontier_def del: demo_zeros.simps)
next
  case False
  then have "last claims \<noteq> demo_zeros 0" using assms(2) by (simp add: list_all_iff del: demo_zeros.simps)
  moreover have "of_nat (length claims - 1) + 1 = (of_nat (length claims) :: u32)"
    using False by (cases claims) (simp_all add: add.commute)
  ultimately show ?thesis using False by (simp add: demo_claim_frontier_def demo_frontier_def del: demo_zeros.simps)
qed

lemma demo_frontiers_valid:
  assumes c: "\<forall>l \<in> set claims. length l = 32" "length claims \<le> 8" "list_all (\<lambda>l. l \<noteq> demo_zeros 0) claims"
    and l: "\<forall>l \<in> set txos. length l = 32" and n: "txos \<noteq> []" "length txos \<le> 8"
    and cp: "cp_claim_frontier cp = demo_claim_frontier claims"
      "cp_txo_frontier cp = demo_frontier (last txos) txos 1 (length txos - 1)" "cp_height cp = demo_height txos"
  shows "validate_frontiers_against_state demo_crates demo_bridge cp (demo_state claims txos) = Inr ()"
proof -
  obtain v where v: "decode_hash demo_crates (fr_value_hex (demo_claim_frontier claims)) = Inr v"
    "(if fr_index (demo_claim_frontier claims) = 0 \<and> v = demo_zeros 0 then 0
      else fr_index (demo_claim_frontier claims) + 1) = (of_nat (length claims) :: u32)"
    using demo_claim_value[OF c(1)] demo_claim_index[OF c(2,3)] by blast
  have t: "fr_index (cp_txo_frontier cp) = cp_height cp" by (simp add: cp demo_frontier_def demo_height_def)
  show ?thesis
    using demo_claim_frontier_root[OF c(1,2)] demo_history_root[OF l n refl, of 1] v t
      demo_state_fields[OF c(1) l]
    by (simp add: validate_frontiers_against_state_def Let_def cp del: demo_zeros.simps)
      (auto split: if_splits simp del: demo_zeros.simps)
qed

text \<open>Any header and any pending commitments.\<close>

lemma demo_valid:
  assumes c: "\<forall>l \<in> set claims. length l = 32" "length claims \<le> 8" "list_all (\<lambda>l. l \<noteq> demo_zeros 0) claims"
    and l: "\<forall>l \<in> set txos. length l = 32" and n: "txos \<noteq> []" "length txos \<le> 8" and h: "length header = 320"
  shows "validate_checkpoint demo_crates demo_bridge
    ((demo_checkpoint claims txos)\<lparr>cp_header_hex := demo_encode header, cp_pending := commitments\<rparr>) = Inr ()"
proof -
  let ?cp = "(demo_checkpoint claims txos)\<lparr>cp_header_hex := demo_encode header, cp_pending := commitments\<rparr>"
  have u: "unat (demo_height txos) = length txos - 1" using n(2) by (simp add: demo_height_def unat_of_nat)
  have len: "length txos = length txos - 1 + 1" using n(1) by (cases txos) simp_all
  have front: "validate_frontiers_against_state demo_crates demo_bridge ?cp (demo_state claims txos) = Inr ()"
    by (rule demo_frontiers_valid[OF c l n]) (simp_all add: demo_checkpoint_def)
  have hist: "history_frontier demo_crates demo_bridge txos (length txos - 1) 3 1
      = Inr (demo_frontier (last txos) txos 1 (length txos - 1))"
    by (rule demo_history_frontier[OF n(1) refl])
  have claim: "claims \<noteq> [] \<Longrightarrow> history_frontier demo_crates demo_bridge claims (length claims - 1) 3 0
      = Inr (demo_claim_frontier claims)"
    using demo_history_frontier[of claims "length claims - 1" 0] by (simp add: demo_claim_frontier_def)
  show ?thesis
    using front hist claim u len n c(2) h demo_state_fields(1)[OF c(1) l]
    by (simp add: validate_checkpoint_def demo_hex demo_checkpoint_def ensure_length_def header_size_def)
qed

lemma demo_checkpoint_valid:
  assumes "\<forall>l \<in> set txos. length l = 32" and "txos \<noteq> []" and "length txos \<le> 8"
  shows "validate_checkpoint demo_crates demo_bridge (demo_checkpoint [] txos) = Inr ()"
  using demo_valid[OF _ _ _ assms, of "[]" demo_header "[]"] by (simp add: demo_checkpoint_def demo_header_def)

lemma build_header_layout:
  assumes "bridge_laws X B" and "hash_laws X" and "length old = header_size"
    and "length mints_hash = 32" and "length txo_hash = 32"
    and fin: "finalized_commitment B state n = Inr fin"
    and "get_record B state (tip_number B state) = Inr tip_record"
    and "get_record B state (finalized_number B state n) = Inr fin_record"
    and "state_encode B state = Inr state_bytes"
  shows "build_new_solana_header X B old state n mints_hash txo_hash = Inr (
      sc_block_hash (tip_commitment B state) @ sc_merkle_root (tip_commitment B state)
      @ to_le_bytes 4 (rec_timestamp tip_record) @ to_le_bytes 4 (sc_height (tip_commitment B state))
      @ sc_block_hash fin @ sc_merkle_root fin @ mints_hash @ txo_hash @ sc_txo_root fin @ sc_claim_root fin
      @ to_le_bytes 4 (sc_claim_next_index fin) @ to_le_bytes 4 (sc_height fin)
      @ sha256 X state_bytes @ take 8 (drop 304 old) @ to_le_bytes 8 (rec_total_fees fin_record))"
proof -
  have len: "length (sc_block_hash (tip_commitment B state)) = 32" "length (sc_merkle_root (tip_commitment B state)) = 32"
    "length (sc_block_hash fin) = 32" "length (sc_merkle_root fin) = 32" "length (sc_txo_root fin) = 32"
    "length (sc_claim_root fin) = 32" "length (sha256 X state_bytes) = 32"
    using assms(1,2) fin by (auto simp: bridge_laws_def commitment_wf_def hash_laws_def)
  have start: "copy_slice old 0 32 src = Inr (([] @ src) @ drop 32 old)" if "length src = 32" for src
    using copy_slice_next[of "[]" 0 src 32 old] that assms(3) by (simp add: header_size_def)
  show ?thesis
    unfolding build_new_solana_header_def Let_def assms(6-9) and_then.simps sol_ranges
    using assms(3-5) len
    by (simp add: start copy_slice_next copy_slice_skip header_size_def append_assoc[symmetric]
        del: append_assoc and_then_eq_Inr)
qed

lemma build_header_fields:
  assumes "bridge_laws X B" and "hash_laws X" and "length old = header_size"
    and "length mints_hash = 32" and "length txo_hash = 32"
    and built: "build_new_solana_header X B old state n mints_hash txo_hash = Inr header"
  shows "take 4 (drop 68 header) = to_le_bytes 4 (sc_height (tip_commitment B state))"
    and "take 32 header = sc_block_hash (tip_commitment B state)"
proof -
  obtain fin tip_record fin_record bs where
    "finalized_commitment B state n = Inr fin" "get_record B state (tip_number B state) = Inr tip_record"
    "get_record B state (finalized_number B state n) = Inr fin_record" "state_encode B state = Inr bs"
    using built unfolding build_new_solana_header_def Let_def by (elim and_then_elim)
  from build_header_layout[OF assms(1-5) this] built assms(1)
  show "take 4 (drop 68 header) = to_le_bytes 4 (sc_height (tip_commitment B state))"
    and "take 32 header = sc_block_hash (tip_commitment B state)"
    by (auto simp: bridge_laws_def commitment_wf_def)
qed

section \<open>Properties\<close>

text \<open>
  Claim C33. The new header has 320 bytes and is, field by field, the tip, the finalized block,
  the two buffer hashes, the finalized roots, the state hash and the fees; the rollback and pause
  times are the old header's, and nothing else of the old header is left.
\<close>

theorem solana_header_layout:
  assumes "bridge_laws X B" and "hash_laws X" and "length old = header_size"
    and "length mints_hash = 32" and "length txo_hash = 32"
    and fin: "finalized_commitment B state n = Inr fin"
    and "get_record B state (tip_number B state) = Inr tip_record"
    and "get_record B state (finalized_number B state n) = Inr fin_record"
    and "state_encode B state = Inr state_bytes"
  shows "build_new_solana_header X B old state n mints_hash txo_hash = Inr (
      sc_block_hash (tip_commitment B state) @ sc_merkle_root (tip_commitment B state)
      @ to_le_bytes 4 (rec_timestamp tip_record) @ to_le_bytes 4 (sc_height (tip_commitment B state))
      @ sc_block_hash fin @ sc_merkle_root fin @ mints_hash @ txo_hash @ sc_txo_root fin @ sc_claim_root fin
      @ to_le_bytes 4 (sc_claim_next_index fin) @ to_le_bytes 4 (sc_height fin)
      @ sha256 X state_bytes @ take 8 (drop 304 old) @ to_le_bytes 8 (rec_total_fees fin_record))"
  using assms by (rule build_header_layout)

theorem solana_header_layout_witness:
  "\<exists>header. build_new_solana_header demo_crates demo_bridge demo_header (demo_state [] [replicate 32 7]) 2
      (replicate 32 8) (replicate 32 9) = Inr header \<and> length header = 320"
proof -
  let ?s = "demo_state [] [replicate 32 7]"
  have "finalized_commitment demo_bridge ?s 2 = Inr (demo_commitment (demo_tip ?s - 2))"
    by (simp add: demo_bridge_def)
  from solana_header_layout[OF demo_bridge_laws demo_hash_laws, of demo_header "replicate 32 8" "replicate 32 9"
      ?s 2, OF _ _ _ this, of "demo_record ?s" "demo_record ?s" ?s]
  have "build_new_solana_header demo_crates demo_bridge demo_header ?s 2 (replicate 32 8) (replicate 32 9)
    = Inr (sc_block_hash (tip_commitment demo_bridge ?s) @ sc_merkle_root (tip_commitment demo_bridge ?s)
      @ to_le_bytes 4 (rec_timestamp (demo_record ?s)) @ to_le_bytes 4 (sc_height (tip_commitment demo_bridge ?s))
      @ sc_block_hash (demo_commitment (demo_tip ?s - 2)) @ sc_merkle_root (demo_commitment (demo_tip ?s - 2))
      @ replicate 32 8 @ replicate 32 9 @ sc_txo_root (demo_commitment (demo_tip ?s - 2))
      @ sc_claim_root (demo_commitment (demo_tip ?s - 2))
      @ to_le_bytes 4 (sc_claim_next_index (demo_commitment (demo_tip ?s - 2)))
      @ to_le_bytes 4 (sc_height (demo_commitment (demo_tip ?s - 2)))
      @ sha256 demo_crates ?s @ take 8 (drop 304 demo_header) @ to_le_bytes 8 (rec_total_fees (demo_record ?s)))"
    by (simp add: demo_header_def header_size_def)
  then show ?thesis
    by (simp add: demo_bridge_def demo_commitment_def demo_crates_def demo_hash_def demo_header_def)
qed

text \<open>
  Claim C25. An upload payload is accepted exactly when its mints, indices and deposit count
  agree in number, the amounts add up to the committed amount as integers, without overflow, and
  both hashes are the committed ones.
\<close>

theorem buffer_payload_accepted_iff:
  "validate_buffer_payload X B c ms = Inr () \<longleftrightarrow>
     length (bc_pending_mints c) = length (bc_txo_indices c)
     \<and> length (bc_pending_mints c) = unat (bc_deposit_count c)
     \<and> length ms = length (bc_pending_mints c)
     \<and> (\<Sum>m \<leftarrow> bc_pending_mints c. unat (pm_amount m)) = unat (bc_minted_sats c)
     \<and> (\<exists>h. pending_mints_hash B (bc_pending_mints c) = Inr h \<and> bc_mints_hash X c = Inr h)
     \<and> bc_txo_hash X c = Inr (sha256 X (serialize_txo_indices (bc_txo_indices c)))"
  unfolding validate_buffer_payload_def
  by (auto simp: checked_sum word_unat_eq_iff split: if_splits)

text \<open>
  Claim C20. A validated checkpoint is consistent with its chain state: the state decodes to a
  tip of the checkpoint's height, and each Merkle root the state records is the root of the tree
  over the checkpoint's history, when it keeps one.
\<close>

theorem validated_histories_match_state:
  assumes laws: "hex_laws X" "hash_laws X" "bridge_laws X B"
    and valid: "validate_checkpoint X B cp = Inr ()"
    and sizes: "\<forall>l \<in> set (cp_claim_history cp). length l = 32" "\<forall>l \<in> set (cp_txo_history cp). length l = 32"
  shows "\<exists>bs state tip. hex_decode X (cp_state_hex cp) = Some bs \<and> state_decode B bs = Some state
    \<and> tip_number B state = cp_height cp \<and> get_record B state (cp_height cp) = Inr tip
    \<and> (cp_claim_history cp \<noteq> [] \<longrightarrow> rec_claim_root tip
         = tree_node (sha256_two_to_one X) (zero_hashes B 0) (cp_claim_history cp) (claim_tree_height B) 0)
    \<and> (cp_txo_history cp \<noteq> [] \<longrightarrow> length (cp_txo_history cp) = unat (cp_height cp) + 1 \<and> rec_txo_root tip
         = tree_node (sha256_two_to_one X) (zero_hashes B (txo_block_tree_height B)) (cp_txo_history cp)
             (txo_block_num_bits B) 0)"
proof -
  note v = validate_checkpoint_ok[OF valid]
  obtain bs state where st: "hex_decode X (cp_state_hex cp) = Some bs" "state_decode B bs = Some state"
    "tip_number B state = cp_height cp" "validate_frontiers_against_state X B cp state = Inr ()"
    using v(5) by blast
  then obtain tip where tip: "get_record B state (cp_height cp) = Inr tip"
    and c: "frontier_root X (cp_claim_frontier cp) (claim_tree_height B) = Inr (rec_claim_root tip)"
    and t: "frontier_root X (cp_txo_frontier cp) (txo_block_num_bits B) = Inr (rec_txo_root tip)"
    by (auto simp: validate_frontiers_against_state_def Let_def split: if_splits)
  have "rec_claim_root tip
      = tree_node (sha256_two_to_one X) (zero_hashes B 0) (cp_claim_history cp) (claim_tree_height B) 0"
    if "cp_claim_history cp \<noteq> []"
    using history_frontier_root[OF laws sizes(1) _ v(3)[OF that] c] v(1) by auto
  moreover have "rec_txo_root tip
      = tree_node (sha256_two_to_one X) (zero_hashes B (txo_block_tree_height B)) (cp_txo_history cp)
          (txo_block_num_bits B) 0" if "cp_txo_history cp \<noteq> []"
    using history_frontier_root[OF laws sizes(2) _ conjunct2[OF v(4)[OF that]] t]
      unsigned_less[of "cp_height cp", where 'a = nat] by auto
  ultimately show ?thesis using st tip v(4) by blast
qed

theorem validated_histories_match_state_witness:
  "\<exists>bs state tip. hex_decode demo_crates (cp_state_hex (demo_checkpoint [] [replicate 32 7, replicate 32 8])) = Some bs
    \<and> state_decode demo_bridge bs = Some state
    \<and> get_record demo_bridge state 1 = Inr tip
    \<and> rec_txo_root tip = tree_node (sha256_two_to_one demo_crates) (demo_zeros 1) [replicate 32 7, replicate 32 8] 3 0"
  using validated_histories_match_state[OF demo_hex_laws demo_hash_laws demo_bridge_laws
      demo_checkpoint_valid[of "[replicate 32 7, replicate 32 8]"]]
  by (auto simp: demo_checkpoint_def demo_height_def simp del: demo_zeros.simps)

end
