(* ===== verification/Config.thy ===== *)
theory Config
  imports Checkpoint
begin

text \<open>
  The configuration of the block pipeline (\<open>BlockPipelineConfig\<close>) and its validation
  (\<open>validate_config\<close>, \<open>validate_gen_proof_path\<close>, \<open>ensure_release_path\<close>).

  A path is the list of its components. The file system, the key files and the program-derived
  addresses of Solana are the record \<open>host\<close>. A character of a string is a code point below 256.
\<close>

section \<open>Strings\<close>

definition is_whitespace :: "char \<Rightarrow> bool" where
  "is_whitespace c = (of_char c \<in> {9, 10, 11, 12, 13, 32, 133, 160 :: nat})"

definition is_ascii_whitespace :: "char \<Rightarrow> bool" where
  "is_ascii_whitespace c = (of_char c \<in> {9, 10, 12, 13, 32 :: nat})"

definition trim :: "string \<Rightarrow> string" where
  "trim s = rev (dropWhile is_whitespace (rev (dropWhile is_whitespace s)))"

lemma trim_eq_Nil: "trim s = [] \<longleftrightarrow> list_all is_whitespace s"
proof -
  have d: "list_all is_whitespace (dropWhile is_whitespace s) = list_all is_whitespace s"
    by (induction s) simp_all
  have "trim s = [] \<longleftrightarrow> list_all is_whitespace (dropWhile is_whitespace s)"
    unfolding trim_def rev_is_Nil_conv dropWhile_eq_Nil_conv set_rev list_all_iff by (rule refl)
  then show ?thesis unfolding d .
qed

section \<open>The configuration\<close>

type_synonym path = "string list"

datatype prover_backend_kind = LocalBackend | RedisBackend

record pipeline_config =
  cfg_network :: network_profile
  cfg_electrs_url :: string
  cfg_redis_url :: string
  cfg_sender_url :: string
  cfg_sender_bearer_token :: string
  cfg_gen_proof_path :: path
  cfg_block_elf_path :: path
  cfg_expected_vk_hash :: bytes
  cfg_evidence_dir :: path
  cfg_poll_interval :: nat
  cfg_redis_seed :: u64
  cfg_prover_backend :: prover_backend_kind
  cfg_proof_prepare_window :: nat
  cfg_proof_queue_prefix :: string
  cfg_proof_wait_interval :: nat
  cfg_start_height :: "u32 option"
  cfg_old_state_dir :: "path option"
  cfg_witness_dir :: "path option"
  cfg_custody_script_config :: bytes
  cfg_recipient_atas :: "bytes list"
  cfg_required_confirmations :: u32
  cfg_config_params :: bytes
  cfg_initial_header :: bytes
  cfg_deposit_evidence_path :: "path option"
  cfg_solana_rpc_url :: string
  cfg_operator_keypair :: path
  cfg_payer_keypair :: path
  cfg_doge_mint :: bytes
  cfg_bridge_program :: bytes
  cfg_pending_mint_program :: bytes
  cfg_txo_buffer_program :: bytes

record host =
  is_file :: "path \<Rightarrow> bool"
  read_keypair :: "path \<Rightarrow> bytes option"
  find_program_address :: "bytes list \<Rightarrow> bytes \<Rightarrow> bytes"

definition read_pipeline_keypair :: "host \<Rightarrow> path \<Rightarrow> bytes res" where
  "read_pipeline_keypair E p = ok_or (read_keypair E p) (Err ''failed to read keypair'')"

section \<open>Validation\<close>

definition ensure_release_path :: "path \<Rightarrow> unit res" where
  "ensure_release_path p =
     (let has_release = list_ex (\<lambda>c. c = ''release'') p;
          has_debug = list_ex (\<lambda>c. c = ''debug'') p
      in if \<not> has_release \<or> has_debug then Inl (Err ''must be loaded from a release path'') else Inr ())"

definition validate_gen_proof_path :: "host \<Rightarrow> prover_backend_kind \<Rightarrow> path \<Rightarrow> unit res" where
  "validate_gen_proof_path E backend p =
     (if backend = RedisBackend then Inr ()
      else if \<not> is_file E p then Inl (Err ''SP1 gen-proof executable does not exist'')
      else ensure_release_path p)"

text \<open>\<open>debug\<close> is \<open>cfg!(debug_assertions)\<close> of the build.\<close>

definition validate_config :: "host \<Rightarrow> bool \<Rightarrow> pipeline_config \<Rightarrow> unit res" where
  "validate_config E debug config =
     and_then (bail_if debug ''block pipeline must be built in release mode'') (\<lambda>_.
     and_then (validate_gen_proof_path E (cfg_prover_backend config) (cfg_gen_proof_path config)) (\<lambda>_.
     and_then (bail_if (\<not> is_file E (cfg_block_elf_path config)) ''block-transition ELF does not exist'') (\<lambda>_.
     and_then (ensure_release_path (cfg_block_elf_path config)) (\<lambda>_.
     and_then (bail_if (list_all (\<lambda>b. b = 0) (cfg_expected_vk_hash config))
                 ''expected SP1 program VK hash must be non-zero'') (\<lambda>_.
     and_then (bail_if (cfg_expected_vk_hash config \<noteq> default_vk_hash (cfg_network config))
                 ''profile requires another SP1 block VK'') (\<lambda>_.
     and_then (bail_if (trim (cfg_sender_bearer_token config) = []) ''sender bearer token is required'') (\<lambda>_.
     and_then (deposit_fee_denominator (cfg_config_params config)) (\<lambda>denominator.
     and_then (bail_if (denominator = 0) ''deposit fee denominator must be non-zero'') (\<lambda>_.
     and_then (bail_if (cfg_proof_prepare_window config = 0) ''proof prepare window must be at least 1'') (\<lambda>_.
     and_then (bail_if (trim (cfg_proof_queue_prefix config) = []) ''proof queue prefix must not be empty'') (\<lambda>_.
     and_then (bail_if (cfg_proof_wait_interval config = 0) ''proof wait interval must be non-zero'') (\<lambda>_.
     let expected_bridge_state = find_program_address E [str_bytes ''bridge_state''] (cfg_bridge_program config) in
     and_then (bail_if (cfg_custody_script_config config \<noteq> expected_bridge_state)
                 ''custody script config does not match bridge-state PDA'') (\<lambda>_.
     and_then (bail_if (cfg_recipient_atas config = []) ''at least one recipient ATA is required'') (\<lambda>_.
     and_then (try_map (\<lambda>(i, key). bail_if (key \<in> set (take i (cfg_recipient_atas config))) ''duplicate recipient ATA'')
                 (zip [0..<length (cfg_recipient_atas config)] (cfg_recipient_atas config))) (\<lambda>_.
     and_then (bail_if (trim (cfg_solana_rpc_url config) = []) ''Solana RPC URL is required'') (\<lambda>_.
     and_then (try_map (\<lambda>p. bail_if (\<not> is_file E p) ''keypair does not exist'')
                 [cfg_operator_keypair config, cfg_payer_keypair config]) (\<lambda>_.
     and_then (read_pipeline_keypair E (cfg_operator_keypair config)) (\<lambda>operator.
     let expected_mint_buffer =
           find_program_address E [str_bytes ''mint_buffer'', operator] (cfg_pending_mint_program config);
         expected_txo_buffer =
           find_program_address E [str_bytes ''txo_buffer'', operator] (cfg_txo_buffer_program config)
     in bail_if (expected_mint_buffer = replicate 32 0 \<or> expected_txo_buffer = replicate 32 0)
          ''derived buffer PDA must be non-zero''))))))))))))))))))"

section \<open>Properties\<close>

lemma no_duplicates_check:
  "(\<exists>us. try_map (\<lambda>(i, key). bail_if (key \<in> set (take i xs)) m) (zip [0..<length xs] xs) = Inr us)
    \<longleftrightarrow> distinct xs"
proof -
  have "(\<exists>us. try_map (\<lambda>(i, key). bail_if (key \<in> set (take i xs)) m) (zip [0..<length xs] xs) = Inr us)
      \<longleftrightarrow> (\<forall>i < length xs. xs ! i \<notin> set (take i xs))"
  proof
    assume "\<exists>us. try_map (\<lambda>(i, key). bail_if (key \<in> set (take i xs)) m) (zip [0..<length xs] xs) = Inr us"
    then show "\<forall>i < length xs. xs ! i \<notin> set (take i xs)"
      by (auto simp: try_map_eq_Inr list_all2_conv_all_nth)
  next
    assume a: "\<forall>i < length xs. xs ! i \<notin> set (take i xs)"
    have "try_map (\<lambda>(i, key). bail_if (key \<in> set (take i xs)) m) (zip [0..<length xs] xs)
        = Inr (map (\<lambda>_. ()) (zip [0..<length xs] xs))"
      by (rule try_map_Inr) (use a in \<open>auto simp: in_set_zip\<close>)
    then show "\<exists>us. try_map (\<lambda>(i, key). bail_if (key \<in> set (take i xs)) m) (zip [0..<length xs] xs) = Inr us"
      by blast
  qed
  also have "\<dots> \<longleftrightarrow> distinct xs"
    by (induction xs rule: rev_induct) (auto simp: nth_append less_Suc_eq)
  finally show ?thesis .
qed

text \<open>
  Claim C35. A configuration is accepted exactly when the build is a release build, the proving
  artefacts lie on release paths that are not debug paths (the local prover's executable only when
  it is used), the verifying key is the one of the network, the text fields are not blank, the
  window, the wait interval and the fee denominator are not zero, the custody config is the
  bridge-state address, the recipients are distinct and at least one, and the key files and derived
  buffers exist. The number of confirmations is not looked at.
\<close>

theorem config_accepted_iff:
  "validate_config E debug c = Inr () \<longleftrightarrow>
     \<not> debug
     \<and> (cfg_prover_backend c = RedisBackend \<or> is_file E (cfg_gen_proof_path c)
          \<and> ''release'' \<in> set (cfg_gen_proof_path c) \<and> ''debug'' \<notin> set (cfg_gen_proof_path c))
     \<and> is_file E (cfg_block_elf_path c)
     \<and> ''release'' \<in> set (cfg_block_elf_path c) \<and> ''debug'' \<notin> set (cfg_block_elf_path c)
     \<and> cfg_expected_vk_hash c = default_vk_hash (cfg_network c)
     \<and> \<not> list_all is_whitespace (cfg_sender_bearer_token c)
     \<and> (\<exists>d. deposit_fee_denominator (cfg_config_params c) = Inr d \<and> d \<noteq> 0)
     \<and> 0 < cfg_proof_prepare_window c \<and> \<not> list_all is_whitespace (cfg_proof_queue_prefix c)
     \<and> 0 < cfg_proof_wait_interval c
     \<and> cfg_custody_script_config c = find_program_address E [str_bytes ''bridge_state''] (cfg_bridge_program c)
     \<and> cfg_recipient_atas c \<noteq> [] \<and> distinct (cfg_recipient_atas c)
     \<and> \<not> list_all is_whitespace (cfg_solana_rpc_url c)
     \<and> is_file E (cfg_operator_keypair c) \<and> is_file E (cfg_payer_keypair c)
     \<and> (\<exists>operator. read_keypair E (cfg_operator_keypair c) = Some operator
          \<and> find_program_address E [str_bytes ''mint_buffer'', operator] (cfg_pending_mint_program c) \<noteq> replicate 32 0
          \<and> find_program_address E [str_bytes ''txo_buffer'', operator] (cfg_txo_buffer_program c) \<noteq> replicate 32 0)"
proof -
  have release: "ensure_release_path p = Inr () \<longleftrightarrow> ''release'' \<in> set p \<and> ''debug'' \<notin> set p" for p
    by (auto simp: ensure_release_path_def list_ex_iff)
  have gen: "validate_gen_proof_path E b p = Inr () \<longleftrightarrow>
      (b = RedisBackend \<or> is_file E p \<and> ''release'' \<in> set p \<and> ''debug'' \<notin> set p)" for b p
    by (cases b) (auto simp: validate_gen_proof_path_def release)
  have nonzero: "default_vk_hash n \<noteq> replicate k 0 \<and> \<not> list_all (\<lambda>b. b = 0) (default_vk_hash n)" for n k
    by (cases n; cases k; cases "k - 1")
      (auto simp: default_vk_hash_def regtest_block_vk_hash_def testnet_block_vk_hash_def)
  have vk: "(\<not> list_all (\<lambda>b. b = 0) (cfg_expected_vk_hash c)) \<and> cfg_expected_vk_hash c = default_vk_hash (cfg_network c)
      \<longleftrightarrow> cfg_expected_vk_hash c = default_vk_hash (cfg_network c)"
    using nonzero by metis
  show ?thesis
    unfolding validate_config_def Let_def
    using vk no_duplicates_check[of "cfg_recipient_atas c" "''duplicate recipient ATA''"]
    by (auto simp: gen release trim_eq_Nil read_pipeline_keypair_def)
qed

end
