(* ===== verification/Deposits.thy ===== *)
theory Deposits
  imports Checkpoint
begin

text \<open>
  How \<open>block_pipeline.rs\<close> finds the deposits of a Dogecoin block, builds the witness the prover
  takes, evaluates it, and settles the buffers of a block that has become final.

  The block, transaction and witness types are third-party; the records hold the fields the code
  reads. The helper crate's functions are the record \<open>helpers\<close> over an abstract transition builder
  \<open>'b\<close>; one such record stands for each custody profile (the generic parameter \<open>P\<close>).
\<close>

section \<open>Third-party data and functions\<close>

record tx_output =
  out_value :: u64
  out_script :: bytes

record transaction =
  tx_raw :: bytes
  tx_outputs :: "tx_output list"

record block_header =
  bh_previous_hash :: bytes
  bh_merkle_root :: bytes
  bh_raw :: bytes

record doge_block =
  blk_header :: block_header
  blk_transactions :: "transaction list"

record deposit_item =
  di_output_index :: u32
  di_public_key_index :: u32

record tx_witness =
  tw_transaction_index :: u32
  tw_siblings :: "bytes list"
  tw_deposit_outputs :: "deposit_item list"
  tw_transaction :: transaction

record claim_witness =
  cw_txo_siblings :: "bytes list"
  cw_claim_siblings :: "bytes list"
  cw_total_outputs_hint :: u32
  cw_last_index :: u32
  cw_last_value :: bytes
  cw_public_keys :: "bytes list"
  cw_deposit_transactions :: "tx_witness list"

record incoming_witness =
  iw_block_header :: block_header
  iw_claim_witness :: claim_witness
  iw_last_rollback_at_secs :: u32
  iw_paused_until_secs :: u32

record transition =
  tr_txo_root :: bytes
  tr_claim_root :: bytes
  tr_start_index :: u32
  tr_end_index :: u32
  tr_fees :: u64

record fees =
  fee_flat :: u64
  fee_num :: u64
  fee_den :: u64

record 'b helpers =
  tx_hash :: "transaction \<Rightarrow> bytes"
  block_hash :: "block_header \<Rightarrow> bytes"
  output_script :: "bytes \<Rightarrow> bytes \<Rightarrow> bytes"
  redeem_script :: "bytes \<Rightarrow> bytes \<Rightarrow> bytes"
  calculate_fee :: "u64 \<Rightarrow> fees \<Rightarrow> (u64 \<times> u64) res"
  combined_txo_index :: "u32 \<Rightarrow> u32 \<Rightarrow> u32 res"
  hash_deposit_leaf :: "bytes \<Rightarrow> u32 \<Rightarrow> bytes \<Rightarrow> u64 \<Rightarrow> bytes"
  builder_new :: "claim_witness \<Rightarrow> bytes \<Rightarrow> fees \<Rightarrow> 'b res"
  builder_add :: "tx_witness \<Rightarrow> bytes \<Rightarrow> 'b \<Rightarrow> 'b res"
  builder_finalize :: "'b \<Rightarrow> u32 \<Rightarrow> claim_witness \<Rightarrow> fees \<Rightarrow> transition res"
  builder_txo_root :: "'b \<Rightarrow> bytes"
  builder_total :: "'b \<Rightarrow> u64"
  claim_hashes :: "claim_witness \<Rightarrow> bytes \<Rightarrow> bytes \<Rightarrow> fees \<Rightarrow> (bytes \<times> bytes) res"
  witness_encode :: "incoming_witness \<Rightarrow> bytes res"
  witness_decode :: "bytes \<Rightarrow> incoming_witness option"

section \<open>Scanning a block\<close>

definition u32_from_usize :: "nat \<Rightarrow> string \<Rightarrow> u32 res" where
  "u32_from_usize n m = (if n < 2 ^ 32 then Inr (of_nat n) else Inl (Err m))"

text \<open>\<open>iter().position(p)\<close>.\<close>

fun position :: "('a \<Rightarrow> bool) \<Rightarrow> 'a list \<Rightarrow> nat option" where
  "position p [] = None"
| "position p (x # xs) = (if p x then Some 0 else map_option Suc (position p xs))"

definition checked_add_u32 :: "u32 \<Rightarrow> u32 \<Rightarrow> u32 option" where
  "checked_add_u32 a b = (if unat a + unat b < 2 ^ 32 then Some (a + b) else None)"

definition checked_sub_u32 :: "u32 \<Rightarrow> u32 \<Rightarrow> u32 option" where
  "checked_sub_u32 a b = (if b \<le> a then Some (a - b) else None)"

text \<open>One pass over the outputs of a transaction: the running count and the deposits found.\<close>

definition scan_output ::
  "bytes list \<Rightarrow> (u32 \<times> deposit_item list) \<Rightarrow> nat \<times> tx_output \<Rightarrow> (u32 \<times> deposit_item list) res" where
  "scan_output expected_scripts = (\<lambda>(total_outputs, deposit_outputs) (output_index, output).
     case position (\<lambda>script. out_script output = script) expected_scripts of
       None \<Rightarrow> Inr (total_outputs, deposit_outputs)
     | Some public_key_index \<Rightarrow>
         and_then (u32_from_usize output_index ''transaction output index exceeds u32'') (\<lambda>oi.
         and_then (u32_from_usize public_key_index ''deposit public key index exceeds u32'') (\<lambda>ki.
         and_then (ok_or (checked_add_u32 total_outputs 1) (Err ''deposit output count overflow'')) (\<lambda>total.
         Inr (total, deposit_outputs @ [\<lparr>di_output_index = oi, di_public_key_index = ki\<rparr>])))))"

definition scan_transaction ::
  "crates \<Rightarrow> bytes list \<Rightarrow> bytes list \<Rightarrow> (u32 \<times> tx_witness list) \<Rightarrow> nat \<times> transaction
     \<Rightarrow> (u32 \<times> tx_witness list) res" where
  "scan_transaction X expected_scripts transaction_hashes = (\<lambda>(total_outputs, found) (transaction_index, tx).
     and_then (try_fold (scan_output expected_scripts) (total_outputs, [])
                 (zip [0..<length (tx_outputs tx)] (tx_outputs tx))) (\<lambda>(total, deposit_outputs).
     if deposit_outputs = [] then Inr (total, found)
     else and_then (u32_from_usize transaction_index ''transaction index exceeds u32'') (\<lambda>ti.
          and_then (bitcoin_merkle_siblings X transaction_hashes transaction_index) (\<lambda>siblings.
          Inr (total, found @ [\<lparr>tw_transaction_index = ti, tw_siblings = siblings,
                                tw_deposit_outputs = deposit_outputs, tw_transaction = tx\<rparr>])))))"

definition scan_manager_custody_deposits ::
  "crates \<Rightarrow> 'b helpers \<Rightarrow> doge_block \<Rightarrow> bytes \<Rightarrow> bytes list \<Rightarrow> (u32 \<times> tx_witness list) res" where
  "scan_manager_custody_deposits X H block custody recipient_atas =
     (if blk_transactions block = [] then Inl (Err ''Electrs block contains no transactions'')
      else
     (let transaction_hashes = map (tx_hash H) (blk_transactions block) in
     and_then (ok_or (bitcoin_merkle_root X transaction_hashes)
                 (Err ''cannot compute an empty block transaction Merkle root'')) (\<lambda>computed_merkle_root.
     if computed_merkle_root \<noteq> bh_merkle_root (blk_header block)
     then Inl (Err ''Electrs transaction data Merkle root does not match block header'')
     else
     (let expected_scripts = map (output_script H custody) recipient_atas in
      try_fold (scan_transaction X expected_scripts transaction_hashes) (0, [])
        (zip [0..<length (blk_transactions block)] (blk_transactions block))))))"

section \<open>Witnesses\<close>

definition build_hash_only_incoming_witness ::
  "crates \<Rightarrow> 'st bridge \<Rightarrow> 'b helpers \<Rightarrow> doge_block \<Rightarrow> bytes \<Rightarrow> bytes list \<Rightarrow> incoming_witness res" where
  "build_hash_only_incoming_witness X B H block custody recipient_atas =
     and_then (scan_manager_custody_deposits X H block custody recipient_atas)
       (\<lambda>(total_outputs, deposit_transactions).
     Inr \<lparr>iw_block_header = blk_header block,
          iw_claim_witness =
            \<lparr>cw_txo_siblings = map (\<lambda>i. zero_hashes B (txo_block_tree_height B + i)) [0..<txo_block_num_bits B],
             cw_claim_siblings = map (zero_hashes B) [0..<claim_tree_height B],
             cw_total_outputs_hint = total_outputs, cw_last_index = 0, cw_last_value = replicate 32 0,
             cw_public_keys = recipient_atas, cw_deposit_transactions = deposit_transactions\<rparr>,
          iw_last_rollback_at_secs = 0, iw_paused_until_secs = 0\<rparr>)"

definition claim_siblings_of :: "crates \<Rightarrow> 'st bridge \<Rightarrow> pipeline_checkpoint \<Rightarrow> bytes list res" where
  "claim_siblings_of X B cp =
     (if cp_claim_history cp = [] then
        and_then (frontier_decode X (cp_claim_frontier cp) (claim_tree_height B)) (\<lambda>(_, siblings). Inr siblings)
      else sparse_sha256_merkle_siblings X (zero_hashes B) (cp_claim_history cp)
             (length (cp_claim_history cp) - 1) (claim_tree_height B) 0)"

definition txo_siblings_of :: "crates \<Rightarrow> 'st bridge \<Rightarrow> pipeline_checkpoint \<Rightarrow> u32 \<Rightarrow> bytes list res" where
  "txo_siblings_of X B cp next_height =
     (if cp_txo_history cp = [] then
        sequential_next_leaf_siblings X (zero_hashes B) (cp_txo_frontier cp) next_height
          (txo_block_num_bits B) (txo_block_tree_height B)
      else sparse_sha256_merkle_siblings X (zero_hashes B)
             (cp_txo_history cp @ [zero_hashes B (txo_block_tree_height B)]) (unat next_height)
             (txo_block_num_bits B) (txo_block_tree_height B))"

definition read_u32_le :: "bytes \<Rightarrow> nat \<times> nat \<Rightarrow> u32 res" where
  "read_u32_le header rng = and_then (slice header (fst rng) (snd rng)) (\<lambda>bs. Inr (from_le_bytes bs))"

definition build_deposit_claim_witness ::
  "crates \<Rightarrow> 'st bridge \<Rightarrow> 'b helpers \<Rightarrow> doge_block \<Rightarrow> pipeline_checkpoint \<Rightarrow> bytes \<Rightarrow> bytes list
     \<Rightarrow> incoming_witness res" where
  "build_deposit_claim_witness X B H block cp custody recipient_atas =
     and_then (scan_manager_custody_deposits X H block custody recipient_atas)
       (\<lambda>(total_outputs, deposit_transactions).
     and_then (decode_hash X (fr_value_hex (cp_claim_frontier cp))) (\<lambda>claim_last_value.
     and_then (claim_siblings_of X B cp) (\<lambda>claim_siblings.
     and_then (ok_or (checked_add_u32 (cp_height cp) 1) (Err ''checkpoint height overflow'')) (\<lambda>next_height.
     and_then (txo_siblings_of X B cp next_height) (\<lambda>txo_siblings.
     and_then (decode_fixed X header_size (cp_header_hex cp)) (\<lambda>old_header.
     if length txo_siblings \<noteq> txo_block_num_bits B then Inl (Panic ''TXO sibling height was checked'')
     else if length claim_siblings \<noteq> claim_tree_height B then Inl (Panic ''claim sibling height was checked'')
     else
     and_then (read_u32_le old_header sol_last_rollback_at_secs) (\<lambda>rollback.
     and_then (read_u32_le old_header sol_paused_until_secs) (\<lambda>paused.
     Inr \<lparr>iw_block_header = blk_header block,
          iw_claim_witness =
            \<lparr>cw_txo_siblings = txo_siblings, cw_claim_siblings = claim_siblings,
             cw_total_outputs_hint = total_outputs, cw_last_index = fr_index (cp_claim_frontier cp),
             cw_last_value = claim_last_value, cw_public_keys = recipient_atas,
             cw_deposit_transactions = deposit_transactions\<rparr>,
          iw_last_rollback_at_secs = rollback, iw_paused_until_secs = paused\<rparr>))))))))"

section \<open>Evaluating a witness\<close>

record claim_evaluation =
  ce_transition :: transition
  ce_mints_hash :: bytes
  ce_txo_hash :: bytes
  ce_pending_mints :: "pending_mint list"
  ce_txo_indices :: "u32 list"
  ce_block_txo_root :: bytes
  ce_leaf_hashes :: "bytes list"
  ce_deposit_count :: u32
  ce_minted_sats :: u64

definition commitment_from_evaluation :: "crates \<Rightarrow> claim_evaluation \<Rightarrow> buffer_commitment" where
  "commitment_from_evaluation X e =
     \<lparr>bc_mints_hash_hex = hex_encode X (ce_mints_hash e), bc_txo_hash_hex = hex_encode X (ce_txo_hash e),
      bc_pending_mints = ce_pending_mints e, bc_txo_indices = ce_txo_indices e,
      bc_deposit_count = ce_deposit_count e, bc_minted_sats = ce_minted_sats e,
      bc_claim_start = tr_start_index (ce_transition e), bc_claim_end = tr_end_index (ce_transition e),
      bc_fees = tr_fees (ce_transition e)\<rparr>"

text \<open>One deposit: its mint, its output index and its leaf, pushed in this order.\<close>

definition evaluate_deposit ::
  "'b helpers \<Rightarrow> claim_witness \<Rightarrow> fees \<Rightarrow> tx_witness \<Rightarrow> deposit_item \<Rightarrow> (pending_mint \<times> u32 \<times> bytes) res" where
  "evaluate_deposit H witness fees tw deposit =
     and_then (ok_or (if unat (di_public_key_index deposit) < length (cw_public_keys witness)
                      then Some (cw_public_keys witness ! unat (di_public_key_index deposit)) else None)
                 (Err ''deposit public key index out of bounds'')) (\<lambda>public_key.
     and_then (ok_or (if unat (di_output_index deposit) < length (tx_outputs (tw_transaction tw))
                      then Some (tx_outputs (tw_transaction tw) ! unat (di_output_index deposit)) else None)
                 (Err ''deposit output index out of bounds'')) (\<lambda>output.
     and_then (calculate_fee H (out_value output) fees) (\<lambda>(_, net_amount).
     and_then (combined_txo_index H (tw_transaction_index tw) (di_output_index deposit)) (\<lambda>txo_index.
     Inr (\<lparr>pm_recipient = public_key, pm_amount = net_amount\<rparr>, txo_index,
          hash_deposit_leaf H (tx_hash H (tw_transaction tw)) (di_output_index deposit) public_key net_amount)))))"

definition evaluate_transaction ::
  "'b helpers \<Rightarrow> claim_witness \<Rightarrow> bytes \<Rightarrow> fees \<Rightarrow> ('b \<times> (pending_mint \<times> u32 \<times> bytes) list) \<Rightarrow> tx_witness
     \<Rightarrow> ('b \<times> (pending_mint \<times> u32 \<times> bytes) list) res" where
  "evaluate_transaction H witness root fees = (\<lambda>(builder, found) tw.
     and_then (builder_add H tw root builder) (\<lambda>builder.
     and_then (try_map (evaluate_deposit H witness fees tw) (tw_deposit_outputs tw)) (\<lambda>deposits.
     Inr (builder, found @ deposits))))"

definition evaluate_claim_witness ::
  "'b helpers \<Rightarrow> u32 \<Rightarrow> claim_witness \<Rightarrow> bytes \<Rightarrow> bytes \<Rightarrow> fees \<Rightarrow> claim_evaluation res" where
  "evaluate_claim_witness H height witness root custody fees =
     and_then (builder_new H witness custody fees) (\<lambda>builder.
     and_then (try_fold (evaluate_transaction H witness root fees) (builder, []) (cw_deposit_transactions witness))
       (\<lambda>(builder, deposits).
     if length deposits \<noteq> unat (cw_total_outputs_hint witness)
     then Inl (Err ''witness total_outputs_hint does not match deposit outputs'')
     else
     and_then (builder_finalize H builder height witness fees) (\<lambda>transition.
     and_then (claim_hashes H witness root custody fees) (\<lambda>(mints_hash, txo_hash).
     and_then (u32_from_usize (length deposits) ''deposit count exceeds u32'') (\<lambda>count.
     Inr \<lparr>ce_transition = transition, ce_mints_hash = mints_hash, ce_txo_hash = txo_hash,
          ce_pending_mints = map fst deposits, ce_txo_indices = map (fst \<circ> snd) deposits,
          ce_block_txo_root = builder_txo_root H builder, ce_leaf_hashes = map (snd \<circ> snd) deposits,
          ce_deposit_count = count, ce_minted_sats = builder_total H builder\<rparr>)))))"

section \<open>Settling a final block's buffers\<close>

definition resolve_finalized_buffers ::
  "crates \<Rightarrow> 'st bridge \<Rightarrow> 'b helpers \<Rightarrow> doge_block option \<Rightarrow> buffer_commitment option \<Rightarrow> bytes \<Rightarrow> bytes list
     \<Rightarrow> fees \<Rightarrow> (buffer_commitment \<times> string) res" where
  "resolve_finalized_buffers X B H block redis_buffers custody recipient_atas fees =
     (case redis_buffers of
        None \<Rightarrow> and_then (commitment_empty X B) (\<lambda>c. Inr (c, []))
      | Some redis \<Rightarrow>
          and_then (ok_or block (Err ''finalized Electrs block is missing'')) (\<lambda>block.
          and_then (build_hash_only_incoming_witness X B H block custody recipient_atas) (\<lambda>witness.
          and_then (claim_hashes H (iw_claim_witness witness) (bh_merkle_root (blk_header block)) custody fees)
            (\<lambda>(mints_hash, txo_hash).
          and_then (bc_mints_hash X redis) (\<lambda>redis_mints.
          if redis_mints \<noteq> mints_hash
          then Inl (Err ''Redis pending-mint hash disagrees with finalized Electrs witness'')
          else
          and_then (bc_txo_hash X redis) (\<lambda>redis_txo.
          if redis_txo \<noteq> txo_hash
          then Inl (Err ''Redis TXO-list hash disagrees with finalized Electrs witness'')
          else
          and_then (witness_encode H witness) (\<lambda>bytes.
          Inr (redis\<lparr>bc_mints_hash_hex := hex_encode X mints_hash, bc_txo_hash_hex := hex_encode X txo_hash\<rparr>,
               hex_encode X bytes))))))))"

section \<open>The recorded deposit\<close>

record deposit_evidence =
  ev_txid :: string
  ev_confirmation_height :: "u32 option"
  ev_vout :: u32
  ev_recipient_hex :: string
  ev_script_pubkey_hex :: "string option"
  ev_redeem_script_hex :: "string option"

definition decode_dogecoin_txid :: "crates \<Rightarrow> string \<Rightarrow> bytes res" where
  "decode_dogecoin_txid X s = and_then (decode_fixed X 32 s) (\<lambda>bs. Inr (rev bs))"

text \<open>
  \<open>evidence\<close> is \<open>None\<close> when no path is configured or the file is absent, otherwise what reading and
  parsing the file gives.
\<close>

definition validate_live_deposit_script ::
  "crates \<Rightarrow> 'b helpers \<Rightarrow> deposit_evidence res option \<Rightarrow> u32 \<Rightarrow> doge_block \<Rightarrow> bytes \<Rightarrow> bytes list \<Rightarrow> unit res" where
  "validate_live_deposit_script X H evidence height block custody recipient_atas =
     (case evidence of
        None \<Rightarrow> Inr ()
      | Some document \<Rightarrow>
     and_then document (\<lambda>ev.
     if ev_confirmation_height ev \<noteq> Some height then Inr ()
     else
     and_then (decode_fixed X 32 (ev_recipient_hex ev)) (\<lambda>recipient.
     if recipient \<notin> set recipient_atas
     then Inl (Err ''deposit evidence recipient ATA is not configured for block auto-claim'')
     else
     and_then (ok_or (ev_redeem_script_hex ev) (Err ''confirmed deposit evidence is missing redeem_script_hex'')) (\<lambda>redeem_hex.
     and_then (ok_or (hex_decode X redeem_hex) (Err ''invalid hex'')) (\<lambda>actual_redeem.
     if actual_redeem \<noteq> redeem_script H custody recipient
     then Inl (Err ''deposit redeem script does not match the manager custody script'')
     else
     and_then (ok_or (ev_script_pubkey_hex ev) (Err ''confirmed deposit evidence is missing script_pubkey_hex'')) (\<lambda>script_hex.
     and_then (ok_or (hex_decode X script_hex) (Err ''invalid hex'')) (\<lambda>actual_script.
     if actual_script \<noteq> output_script H custody recipient
     then Inl (Err ''deposit P2SH output does not match manager custody output'')
     else
     and_then (decode_dogecoin_txid X (ev_txid ev)) (\<lambda>txid.
     and_then (ok_or (find (\<lambda>t. tx_hash H t = txid) (blk_transactions block))
                 (Err ''deposit evidence transaction is absent from Electrs block'')) (\<lambda>tx.
     and_then (ok_or (if unat (ev_vout ev) < length (tx_outputs tx)
                      then Some (tx_outputs tx ! unat (ev_vout ev)) else None)
                 (Err ''deposit evidence vout is absent from transaction'')) (\<lambda>output.
     if out_script output \<noteq> output_script H custody recipient
     then Inl (Err ''deposit evidence output does not contain the exact manager custody output'')
     else Inr ()))))))))))"

section \<open>What the scan finds\<close>

text \<open>Specification: the outputs, by index, that pay to one of the scripts, with the script's position.\<close>

definition deposits_of :: "bytes list \<Rightarrow> (nat \<times> tx_output) list \<Rightarrow> deposit_item list" where
  "deposits_of scripts ios =
     List.map_filter (\<lambda>(i, output).
       map_option (\<lambda>k. \<lparr>di_output_index = of_nat i, di_public_key_index = of_nat k\<rparr>)
         (position (\<lambda>script. out_script output = script) scripts)) ios"

definition tx_deposits :: "bytes list \<Rightarrow> transaction \<Rightarrow> deposit_item list" where
  "tx_deposits scripts tx = deposits_of scripts (zip [0..<length (tx_outputs tx)] (tx_outputs tx))"

lemma deposits_of_Cons:
  "deposits_of scripts ((i, output) # ios) =
     (case position (\<lambda>script. out_script output = script) scripts of
        None \<Rightarrow> deposits_of scripts ios
      | Some k \<Rightarrow> \<lparr>di_output_index = of_nat i, di_public_key_index = of_nat k\<rparr> # deposits_of scripts ios)"
  by (simp add: deposits_of_def List.map_filter_def split: option.splits)

lemma checked_add_u32_Some: "checked_add_u32 a b = Some c \<longleftrightarrow> unat c = unat a + unat b"
proof (cases "unat a + unat b < 2 ^ 32")
  case True
  then have "unat (a + b) = unat a + unat b" by (simp add: unat_word_ariths)
  then show ?thesis using True by (auto simp: checked_add_u32_def word_unat_eq_iff)
next
  case False
  then show ?thesis using unsigned_less[of c, where 'a = nat] by (auto simp: checked_add_u32_def)
qed

lemma scan_outputs_spec:
  "try_fold (scan_output scripts) (n, found) ios = Inr (n', found') \<Longrightarrow>
   found' = found @ deposits_of scripts ios \<and> unat n' = unat n + length (deposits_of scripts ios)"
proof (induction ios arbitrary: n found)
  case Nil
  then show ?case by (simp add: deposits_of_def List.map_filter_def)
next
  case (Cons io ios)
  obtain i txo where io: "io = (i, txo)" by (cases io)
  show ?case
  proof (cases "position (\<lambda>script. out_script txo = script) scripts")
    case None
    then show ?thesis
      using Cons.IH[of n found] Cons.prems by (simp add: io scan_output_def deposits_of_Cons)
  next
    case (Some k)
    then obtain t where t: "checked_add_u32 n 1 = Some t"
      and rest: "try_fold (scan_output scripts)
        (t, found @ [\<lparr>di_output_index = of_nat i, di_public_key_index = of_nat k\<rparr>]) ios = Inr (n', found')"
      using Cons.prems by (auto simp: io scan_output_def u32_from_usize_def split: if_splits)
    show ?thesis
      using Cons.IH[OF rest] t Some by (simp add: io deposits_of_Cons checked_add_u32_Some)
  qed
qed

text \<open>A witness of transaction \<open>i\<close>: its index, its Merkle proof, its deposits.\<close>

definition witness_of :: "crates \<Rightarrow> bytes list \<Rightarrow> bytes list \<Rightarrow> nat \<times> transaction \<Rightarrow> tx_witness \<Rightarrow> bool" where
  "witness_of X scripts hashes = (\<lambda>(i, tx) w.
     i < 2 ^ 32 \<and> tw_transaction_index w = of_nat i \<and> bitcoin_merkle_siblings X hashes i = Inr (tw_siblings w)
     \<and> tw_deposit_outputs w = tx_deposits scripts tx \<and> tw_transaction w = tx)"

lemma scan_transactions_spec:
  "try_fold (scan_transaction X scripts hashes) (n, found) itxs = Inr (n', found') \<Longrightarrow>
   \<exists>ws. found' = found @ ws
     \<and> list_all2 (witness_of X scripts hashes) (filter (\<lambda>(i, tx). tx_deposits scripts tx \<noteq> []) itxs) ws
     \<and> unat n' = unat n + (\<Sum>(i, tx) \<leftarrow> itxs. length (tx_deposits scripts tx))"
proof (induction itxs arbitrary: n found)
  case Nil
  then show ?case by simp
next
  case (Cons itx itxs)
  obtain i tx where itx: "itx = (i, tx)" by (cases itx)
  from Cons.prems obtain t f where step: "scan_transaction X scripts hashes (n, found) (i, tx) = Inr (t, f)"
    and rest: "try_fold (scan_transaction X scripts hashes) (t, f) itxs = Inr (n', found')"
    by (auto simp: itx)
  from step obtain ds where o: "try_fold (scan_output scripts) (n, [])
      (zip [0..<length (tx_outputs tx)] (tx_outputs tx)) = Inr (t, ds)"
    and f: "if ds = [] then f = found else i < 2 ^ 32 \<and> (\<exists>sib. bitcoin_merkle_siblings X hashes i = Inr sib
      \<and> f = found @ [\<lparr>tw_transaction_index = of_nat i, tw_siblings = sib, tw_deposit_outputs = ds, tw_transaction = tx\<rparr>])"
    by (auto simp: scan_transaction_def u32_from_usize_def split: if_splits)
  have ds: "ds = tx_deposits scripts tx" "unat t = unat n + length (tx_deposits scripts tx)"
    using scan_outputs_spec[OF o] by (simp_all add: tx_deposits_def)
  obtain ws where ws: "found' = f @ ws"
    "list_all2 (witness_of X scripts hashes) (filter (\<lambda>(i, tx). tx_deposits scripts tx \<noteq> []) itxs) ws"
    "unat n' = unat t + (\<Sum>(i, tx) \<leftarrow> itxs. length (tx_deposits scripts tx))"
    using Cons.IH[OF rest] by blast
  show ?case
  proof (cases "ds = []")
    case True
    then show ?thesis using f ws ds by (auto simp: itx)
  next
    case False
    then obtain sib where sib: "i < 2 ^ 32" "bitcoin_merkle_siblings X hashes i = Inr sib"
      "f = found @ [\<lparr>tw_transaction_index = of_nat i, tw_siblings = sib, tw_deposit_outputs = ds, tw_transaction = tx\<rparr>]"
      using f by auto
    define w where "w = \<lparr>tw_transaction_index = of_nat i, tw_siblings = sib, tw_deposit_outputs = ds, tw_transaction = tx\<rparr>"
    have "witness_of X scripts hashes (i, tx) w" "f = found @ [w]"
      using sib ds(1) by (simp_all add: witness_of_def w_def)
    then show ?thesis using False ws ds by (intro exI[of _ "w # ws"]) (auto simp: itx)
  qed
qed

text \<open>Specification: the payments to a list of scripts in a block, as transaction, output and script index.\<close>

definition payments :: "bytes list \<Rightarrow> transaction list \<Rightarrow> (nat \<times> nat \<times> nat) list" where
  "payments scripts txs =
     concat (map (\<lambda>(t, tx). List.map_filter (\<lambda>(i, txo).
         map_option (\<lambda>k. (t, i, k)) (position (\<lambda>script. out_script txo = script) scripts))
       (zip [0..<length (tx_outputs tx)] (tx_outputs tx))) (zip [0..<length txs] txs))"

definition witness_payments :: "tx_witness \<Rightarrow> (nat \<times> nat \<times> nat) list" where
  "witness_payments w =
     map (\<lambda>d. (unat (tw_transaction_index w), unat (di_output_index d), unat (di_public_key_index d)))
       (tw_deposit_outputs w)"

lemma list_all2_set2_ex: "list_all2 P xs ys \<Longrightarrow> y \<in> set ys \<Longrightarrow> \<exists>x \<in> set xs. P x y"
  by (induction rule: list_all2_induct) auto

lemma deposits_of_payments:
  assumes "\<forall>(i, txo) \<in> set ios. \<forall>k. position (\<lambda>script. out_script txo = script) scripts = Some k
      \<longrightarrow> i < 2 ^ 32 \<and> k < 2 ^ 32"
  shows "map (\<lambda>d. (t, unat (di_output_index d), unat (di_public_key_index d))) (deposits_of scripts ios)
    = List.map_filter (\<lambda>(i, txo).
        map_option (\<lambda>k. (t, i, k)) (position (\<lambda>script. out_script txo = script) scripts)) ios"
  using assms
  by (induction ios)
    (auto simp: deposits_of_def List.map_filter_def unat_of_nat split: option.splits)

lemma scan_outputs_bounded:
  "try_fold (scan_output scripts) a ios = Inr b \<Longrightarrow> (i, txo) \<in> set ios
   \<Longrightarrow> position (\<lambda>script. out_script txo = script) scripts = Some k \<Longrightarrow> i < 2 ^ 32 \<and> k < 2 ^ 32"
  by (induction ios arbitrary: a)
    (auto simp: scan_output_def u32_from_usize_def split: if_splits option.splits prod.splits)

lemma scan_transactions_payments:
  assumes "try_fold (scan_transaction X scripts hashes) (n, found) itxs = Inr (n', found')"
    and "list_all2 (witness_of X scripts hashes) (filter (\<lambda>(i, tx). tx_deposits scripts tx \<noteq> []) itxs) ws"
  shows "concat (map witness_payments ws)
    = concat (map (\<lambda>(t, tx). List.map_filter (\<lambda>(i, txo).
         map_option (\<lambda>k. (t, i, k)) (position (\<lambda>script. out_script txo = script) scripts))
       (zip [0..<length (tx_outputs tx)] (tx_outputs tx))) itxs)"
  using assms
proof (induction itxs arbitrary: n found ws)
  case Nil
  then show ?case by simp
next
  case (Cons itx itxs)
  obtain t tx where itx: "itx = (t, tx)" by (cases itx)
  let ?ios = "zip [0..<length (tx_outputs tx)] (tx_outputs tx)"
  from Cons.prems(1) obtain m f where step: "scan_transaction X scripts hashes (n, found) (t, tx) = Inr (m, f)"
    and rest: "try_fold (scan_transaction X scripts hashes) (m, f) itxs = Inr (n', found')"
    by (auto simp: itx)
  from step obtain b where "try_fold (scan_output scripts) (n, []) ?ios = Inr b"
    by (auto simp: scan_transaction_def)
  note bounded = scan_outputs_bounded[OF this]
  have pay: "map (\<lambda>d. (t, unat (di_output_index d), unat (di_public_key_index d))) (tx_deposits scripts tx)
      = List.map_filter (\<lambda>(i, txo).
          map_option (\<lambda>k. (t, i, k)) (position (\<lambda>script. out_script txo = script) scripts)) ?ios"
    unfolding tx_deposits_def by (rule deposits_of_payments) (use bounded in blast)
  show ?case
  proof (cases "tx_deposits scripts tx = []")
    case True
    then show ?thesis using Cons.IH[OF rest] Cons.prems(2) pay by (simp add: itx)
  next
    case False
    then obtain w ws' where ws: "ws = w # ws'" "witness_of X scripts hashes (t, tx) w"
      "list_all2 (witness_of X scripts hashes) (filter (\<lambda>(i, tx). tx_deposits scripts tx \<noteq> []) itxs) ws'"
      using Cons.prems(2) by (auto simp: itx list_all2_Cons1)
    then have "witness_payments w
        = map (\<lambda>d. (t, unat (di_output_index d), unat (di_public_key_index d))) (tx_deposits scripts tx)"
      by (simp add: witness_payments_def witness_of_def unat_of_nat)
    then show ?thesis using Cons.IH[OF rest ws(3)] ws(1) pay by (simp add: itx)
  qed
qed

lemma scan_facts:
  assumes scan: "scan_manager_custody_deposits X H block custody atas = Inr (n, ws)"
  shows "concat (map witness_payments ws) = payments (map (output_script H custody) atas) (blk_transactions block)"
    and "unat n = length (payments (map (output_script H custody) atas) (blk_transactions block))"
    and "bitcoin_merkle_root X (map (tx_hash H) (blk_transactions block)) = Some (bh_merkle_root (blk_header block))"
    and "\<And>w. w \<in> set ws \<Longrightarrow> unat (tw_transaction_index w) < length (blk_transactions block)
      \<and> tw_transaction w = blk_transactions block ! unat (tw_transaction_index w)
      \<and> bitcoin_merkle_siblings X (map (tx_hash H) (blk_transactions block)) (unat (tw_transaction_index w))
        = Inr (tw_siblings w)"
proof -
  let ?txs = "blk_transactions block"
  let ?hashes = "map (tx_hash H) ?txs"
  let ?scripts = "map (output_script H custody) atas"
  from scan show "bitcoin_merkle_root X ?hashes = Some (bh_merkle_root (blk_header block))"
    by (auto simp: scan_manager_custody_deposits_def Let_def ok_or_def split: if_splits option.splits)
  from scan have fold: "try_fold (scan_transaction X ?scripts ?hashes) (0, []) (zip [0..<length ?txs] ?txs) = Inr (n, ws)"
    by (auto simp: scan_manager_custody_deposits_def Let_def ok_or_def split: if_splits option.splits)
  obtain ws' where ws: "ws = ws'"
    "list_all2 (witness_of X ?scripts ?hashes)
       (filter (\<lambda>(i, tx). tx_deposits ?scripts tx \<noteq> []) (zip [0..<length ?txs] ?txs)) ws'"
    "unat n = (\<Sum>(i, tx) \<leftarrow> zip [0..<length ?txs] ?txs. length (tx_deposits ?scripts tx))"
    using scan_transactions_spec[OF fold] by auto
  show pay: "concat (map witness_payments ws) = payments ?scripts ?txs"
    using scan_transactions_payments[OF fold] ws(1,2) by (simp add: payments_def)
  have "(\<Sum>(i, tx) \<leftarrow> itxs. length (tx_deposits ?scripts tx)) = length (concat (map witness_payments vs))"
    if "list_all2 (witness_of X ?scripts ?hashes) (filter (\<lambda>(i, tx). tx_deposits ?scripts tx \<noteq> []) itxs) vs"
    for itxs vs
    using that
    by (induction itxs arbitrary: vs)
      (auto simp: list_all2_Cons1 witness_payments_def witness_of_def split: if_splits)
  with ws pay show "unat n = length (payments ?scripts ?txs)" by simp
  fix w assume w: "w \<in> set ws"
  with ws(1) list_all2_set2_ex[OF ws(2)] obtain i tx where "(i, tx) \<in> set (zip [0..<length ?txs] ?txs)"
    and w: "witness_of X ?scripts ?hashes (i, tx) w"
    by fastforce
  then have "i < length ?txs" "tx = ?txs ! i" by (auto simp: in_set_zip)
  then show "unat (tw_transaction_index w) < length ?txs
      \<and> tw_transaction w = ?txs ! unat (tw_transaction_index w)
      \<and> bitcoin_merkle_siblings X ?hashes (unat (tw_transaction_index w)) = Inr (tw_siblings w)"
    using w by (simp add: witness_of_def unat_of_nat)
qed

section \<open>What an evaluation mints\<close>

lemma list_all2_mono_set:
  "list_all2 P xs ys \<Longrightarrow> (\<And>x y. x \<in> set xs \<Longrightarrow> P x y \<Longrightarrow> Q x y) \<Longrightarrow> list_all2 Q xs ys"
  by (induction rule: list_all2_induct) auto

lemma evaluate_transactions_spec:
  "try_fold (evaluate_transaction H cw root fs) (b, found) tws = Inr (b', found') \<Longrightarrow>
   \<exists>ds. found' = found @ ds
     \<and> list_all2 (\<lambda>(tw, d) r. evaluate_deposit H cw fs tw d = Inr r)
         (concat (map (\<lambda>tw. map (Pair tw) (tw_deposit_outputs tw)) tws)) ds"
proof (induction tws arbitrary: b found)
  case Nil
  then show ?case by simp
next
  case (Cons tw tws)
  from Cons.prems obtain c ds where ds: "try_map (evaluate_deposit H cw fs tw) (tw_deposit_outputs tw) = Inr ds"
    and rest: "try_fold (evaluate_transaction H cw root fs) (c, found @ ds) tws = Inr (b', found')"
    by (auto simp: evaluate_transaction_def)
  have "list_all2 (\<lambda>(tw, d) r. evaluate_deposit H cw fs tw d = Inr r) (map (Pair tw) (tw_deposit_outputs tw)) ds"
    using ds by (simp add: try_map_eq_Inr list_all2_map1)
  with Cons.IH[OF rest] show ?case by (auto intro!: list_all2_appendI)
qed

text \<open>Specification: what one payment of a block mints.\<close>

definition payment_mint ::
  "'b helpers \<Rightarrow> bytes list \<Rightarrow> fees \<Rightarrow> transaction list \<Rightarrow> nat \<times> nat \<times> nat \<Rightarrow> pending_mint \<times> u32 \<times> bytes \<Rightarrow> bool" where
  "payment_mint H atas fs txs = (\<lambda>(t, i, k) (m, txo_index, leaf).
     pm_recipient m = atas ! k
     \<and> (\<exists>fee. calculate_fee H (out_value (tx_outputs (txs ! t) ! i)) fs = Inr (fee, pm_amount m))
     \<and> combined_txo_index H (of_nat t) (of_nat i) = Inr txo_index
     \<and> leaf = hash_deposit_leaf H (tx_hash H (txs ! t)) (of_nat i) (atas ! k) (pm_amount m))"

lemma evaluate_deposit_payment:
  assumes "evaluate_deposit H cw fs w d = Inr r" and "tw_transaction w = txs ! unat (tw_transaction_index w)"
  shows "payment_mint H (cw_public_keys cw) fs txs
    (unat (tw_transaction_index w), unat (di_output_index d), unat (di_public_key_index d)) r"
  using assms by (auto simp: evaluate_deposit_def payment_mint_def ok_or_def split: if_splits option.splits)

lemma evaluate_facts:
  assumes "evaluate_claim_witness H height cw root custody fs = Inr e"
  shows "\<exists>ds. list_all2 (\<lambda>(tw, d) r. evaluate_deposit H cw fs tw d = Inr r)
        (concat (map (\<lambda>tw. map (Pair tw) (tw_deposit_outputs tw)) (cw_deposit_transactions cw))) ds
     \<and> ds = zip (ce_pending_mints e) (zip (ce_txo_indices e) (ce_leaf_hashes e))
     \<and> length (ce_pending_mints e) = length ds \<and> length (ce_txo_indices e) = length ds
     \<and> length (ce_leaf_hashes e) = length ds
     \<and> length ds = unat (ce_deposit_count e) \<and> length ds = unat (cw_total_outputs_hint cw)"
proof -
  obtain b b' ds e' where fold: "try_fold (evaluate_transaction H cw root fs) (b, []) (cw_deposit_transactions cw) = Inr (b', ds)"
    and hint: "length ds = unat (cw_total_outputs_hint cw)"
    and count: "length ds < 2 ^ 32" "ce_deposit_count e = of_nat (length ds)"
    and lists: "ce_pending_mints e = map fst ds" "ce_txo_indices e = map (fst \<circ> snd) ds"
      "ce_leaf_hashes e = map (snd \<circ> snd) ds"
    using assms by (auto simp: evaluate_claim_witness_def u32_from_usize_def split: if_splits)
  have "ds = zip (map fst ds) (zip (map (fst \<circ> snd) ds) (map (snd \<circ> snd) ds))" by (induction ds) auto
  then show ?thesis
    using evaluate_transactions_spec[OF fold] lists hint count by (auto simp: unat_of_nat)
qed

section \<open>Properties\<close>

text \<open>
  Claim C26. A successful scan of a block finds exactly its outputs that pay to the script of a
  configured recipient, in block order and each once, with the recipient's first index, and counts
  them; every witness it builds is of the block's transaction at its index, and its Merkle proof
  hashes that transaction up to the root in the block's header.
\<close>

theorem scan_finds_payments:
  assumes scan: "scan_manager_custody_deposits X H block custody atas = Inr (n, ws)"
  shows "concat (map witness_payments ws) = payments (map (output_script H custody) atas) (blk_transactions block)
    \<and> unat n = length (payments (map (output_script H custody) atas) (blk_transactions block))
    \<and> list_all (\<lambda>w. unat (tw_transaction_index w) < length (blk_transactions block)
        \<and> tw_transaction w = blk_transactions block ! unat (tw_transaction_index w)
        \<and> path_root (btc_hash256_two_to_one X) (unat (tw_transaction_index w))
            (tx_hash H (tw_transaction w)) (tw_siblings w) = bh_merkle_root (blk_header block)) ws"
proof -
  let ?hashes = "map (tx_hash H) (blk_transactions block)"
  note facts = scan_facts[OF scan]
  have "path_root (btc_hash256_two_to_one X) (unat (tw_transaction_index w))
      (tx_hash H (tw_transaction w)) (tw_siblings w) = bh_merkle_root (blk_header block)" if "w \<in> set ws" for w
    using bitcoin_siblings_verify[of "unat (tw_transaction_index w)" ?hashes "btc_hash256_two_to_one X"]
      facts(3) facts(4)[OF that]
    by (auto simp: bitcoin_merkle_siblings_def bitcoin_merkle_root_def path_root_def split: if_splits)
  then show ?thesis using facts by (simp add: list_all_iff)
qed

definition demo_helpers :: "u64 helpers" where
  "demo_helpers =
     \<lparr>tx_hash = (\<lambda>tx. demo_hash (tx_raw tx)), block_hash = (\<lambda>h. demo_hash (bh_raw h)),
      output_script = (\<lambda>custody ata. 0xa9 # custody @ ata), redeem_script = (\<lambda>custody ata. custody @ ata),
      calculate_fee = (\<lambda>v f. Inr (fee_flat f, v - fee_flat f)),
      combined_txo_index = (\<lambda>t i. Inr (2048 * t + i)),
      hash_deposit_leaf = (\<lambda>_ _ _ _. replicate 32 9),
      builder_new = (\<lambda>_ _ _. Inr 0), builder_add = (\<lambda>_ _ b. Inr (b + 1)),
      builder_finalize = (\<lambda>b height _ _. Inr
        \<lparr>tr_txo_root = replicate 32 3, tr_claim_root = replicate 32 4, tr_start_index = 0, tr_end_index = 1, tr_fees = 0\<rparr>),
      builder_txo_root = (\<lambda>_. replicate 32 3), builder_total = (\<lambda>b. b),
      claim_hashes = (\<lambda>_ _ _ _. Inr (replicate 32 5, replicate 32 6)),
      witness_encode = (\<lambda>w. Inr (bh_raw (iw_block_header w))), witness_decode = (\<lambda>_. None)\<rparr>"

lemma demo_helpers_simps [simp]:
  "tx_hash demo_helpers tx = demo_hash (tx_raw tx)"
  "output_script demo_helpers custody ata = 0xa9 # custody @ ata"
  "redeem_script demo_helpers custody ata = custody @ ata"
  "block_hash demo_helpers h = demo_hash (bh_raw h)"
  by (simp_all add: demo_helpers_def)

definition demo_tx :: "u8 \<Rightarrow> bytes list \<Rightarrow> transaction" where
  "demo_tx b scripts = \<lparr>tx_raw = [b], tx_outputs = map (\<lambda>s. \<lparr>out_value = 100, out_script = s\<rparr>) scripts\<rparr>"

definition demo_block :: "transaction list \<Rightarrow> doge_block" where
  "demo_block txs =
     \<lparr>blk_header = \<lparr>bh_previous_hash = replicate 32 1,
        bh_merkle_root = the (bitcoin_merkle_root demo_crates (map (tx_hash demo_helpers) txs)), bh_raw = [1]\<rparr>,
      blk_transactions = txs\<rparr>"

abbreviation demo_txs :: "transaction list" where
  "demo_txs \<equiv> [demo_tx 1 [[5]], demo_tx 2 [[7], [0xa9, 9, 4]]]"

lemma demo_scan:
  "\<exists>ss. scan_manager_custody_deposits demo_crates demo_helpers (demo_block demo_txs) [9] [[3], [4]]
     = Inr (1, [\<lparr>tw_transaction_index = 1, tw_siblings = ss,
         tw_deposit_outputs = [\<lparr>di_output_index = 1, di_public_key_index = 1\<rparr>],
         tw_transaction = demo_tx 2 [[7], [0xa9, 9, 4]]\<rparr>])"
proof -
  obtain ss r where tree: "bitcoin_siblings_loop (btc_hash256_two_to_one demo_crates) [demo_hash [1], demo_hash [2]] 1 = Inr ss"
    "bitcoin_root_loop (btc_hash256_two_to_one demo_crates) [demo_hash [1], demo_hash [2]] = [r]"
    using bitcoin_siblings_verify[of 1 "[demo_hash [1], demo_hash [2]]" "btc_hash256_two_to_one demo_crates"]
    by (auto simp del: bitcoin_siblings_loop.simps)
  then show ?thesis
    by (simp add: scan_manager_custody_deposits_def demo_block_def bitcoin_merkle_root_def
        bitcoin_merkle_siblings_def scan_transaction_def scan_output_def demo_tx_def
        u32_from_usize_def checked_add_u32_def ok_or_def Let_def)
qed

lemma demo_payments:
  "payments (map (output_script demo_helpers [9]) [[3], [4]]) (blk_transactions (demo_block demo_txs)) = [(1, 1, 1)]"
  by (simp add: payments_def demo_block_def demo_tx_def List.map_filter_def)

theorem scan_finds_payments_witness:
  "\<exists>n ws. scan_manager_custody_deposits demo_crates demo_helpers (demo_block demo_txs) [9] [[3], [4]] = Inr (n, ws)
     \<and> concat (map witness_payments ws) = [(1, 1, 1)] \<and> unat n = 1"
proof -
  obtain n ws where ok:
    "scan_manager_custody_deposits demo_crates demo_helpers (demo_block demo_txs) [9] [[3], [4]] = Inr (n, ws)"
    using demo_scan by blast
  with scan_finds_payments[OF ok] demo_payments show ?thesis by (intro exI[of _ n] exI[of _ ws]) simp
qed

text \<open>
  Claim C13. When the deposit witness of a block is built and evaluated, the mints are exactly the
  block's payments to the configured recipients, in block order: each has the recipient of the
  script it pays to, the amount net of the fee, the combined output index and the leaf hash, and the
  deposit count is their number.
\<close>

theorem evaluation_mints_the_payments:
  assumes built: "build_deposit_claim_witness X B H block cp custody atas = Inr w"
    and evaluated: "evaluate_claim_witness H height (iw_claim_witness w) root custody fs = Inr e"
  shows "list_all2 (payment_mint H atas fs (blk_transactions block))
      (payments (map (output_script H custody) atas) (blk_transactions block))
      (zip (ce_pending_mints e) (zip (ce_txo_indices e) (ce_leaf_hashes e)))
    \<and> length (ce_pending_mints e) = unat (ce_deposit_count e)
    \<and> length (ce_txo_indices e) = unat (ce_deposit_count e)
    \<and> length (ce_leaf_hashes e) = unat (ce_deposit_count e)"
proof -
  let ?cw = "iw_claim_witness w"
  from built obtain n where scan:
    "scan_manager_custody_deposits X H block custody atas = Inr (n, cw_deposit_transactions ?cw)"
    and keys: "cw_public_keys ?cw = atas"
    by (auto simp: build_deposit_claim_witness_def ok_or_def split: if_splits option.splits)
  note facts = scan_facts[OF scan]
  let ?pairs = "concat (map (\<lambda>tw. map (Pair tw) (tw_deposit_outputs tw)) (cw_deposit_transactions ?cw))"
  let ?ref = "\<lambda>(tw, d). (unat (tw_transaction_index tw), unat (di_output_index d), unat (di_public_key_index d))"
  obtain ds where ds: "list_all2 (\<lambda>(tw, d) r. evaluate_deposit H ?cw fs tw d = Inr r) ?pairs ds"
    "ds = zip (ce_pending_mints e) (zip (ce_txo_indices e) (ce_leaf_hashes e))"
    and lens: "length (ce_pending_mints e) = length ds" "length (ce_txo_indices e) = length ds"
      "length (ce_leaf_hashes e) = length ds" "length ds = unat (ce_deposit_count e)"
    using evaluate_facts[OF evaluated] by blast
  have refs: "payments (map (output_script H custody) atas) (blk_transactions block) = map ?ref ?pairs"
    unfolding facts(1)[symmetric] by (simp add: map_concat witness_payments_def[abs_def] comp_def)
  have "list_all2 (\<lambda>p r. payment_mint H atas fs (blk_transactions block) (?ref p) r) ?pairs ds"
  proof (rule list_all2_mono_set[OF ds(1)])
    fix p r
    assume p: "p \<in> set ?pairs" "(\<lambda>(tw, d) r. evaluate_deposit H ?cw fs tw d = Inr r) p r"
    then obtain tw d where pd: "p = (tw, d)" "tw \<in> set (cw_deposit_transactions ?cw)" by auto
    have ev: "evaluate_deposit H ?cw fs tw d = Inr r" using p(2) by (simp only: pd prod.case)
    have tx: "tw_transaction tw = blk_transactions block ! unat (tw_transaction_index tw)"
      using facts(4)[OF pd(2)] by blast
    show "payment_mint H atas fs (blk_transactions block) (?ref p) r"
      using evaluate_deposit_payment[OF ev tx] unfolding pd(1) keys prod.case .
  qed
  then show ?thesis unfolding refs list_all2_map1 ds(2)[symmetric] using lens by simp
qed

lemma demo_claim_siblings:
  "\<exists>ss. claim_siblings_of demo_crates demo_bridge (demo_checkpoint [] [replicate 32 7]) = Inr ss \<and> length ss = 3"
proof -
  let ?ss = "tree_siblings (sha256_two_to_one demo_crates) (demo_zeros 0) [] 0 3 0"
  have "frontier_decode demo_crates (frontier_new demo_crates (of_nat 0) (demo_zeros 0) ?ss) 3 = Inr (demo_zeros 0, ?ss)"
    using frontier_decode_new[OF demo_hex_laws length_demo_zeros, of ?ss "of_nat 0" 0]
      tree_siblings_32[OF demo_hash_laws length_demo_zeros, of "[]"] by (simp del: demo_zeros.simps)
  then show ?thesis
    by (simp add: claim_siblings_of_def demo_checkpoint_def demo_claim_frontier_def demo_frontier_def del: demo_zeros.simps)
qed

lemma demo_txo_siblings:
  "\<exists>ss. txo_siblings_of demo_crates demo_bridge (demo_checkpoint [] [replicate 32 7]) 1 = Inr ss \<and> length ss = 3"
  using sparse_loop_eq[OF demo_zero_law represents_leaves, where lh = 1 and n = 3 and i = 1
      and leaves = "[replicate 32 7, demo_zeros 1]"]
  by (simp add: txo_siblings_of_def demo_checkpoint_def sparse_sha256_merkle_siblings_def del: demo_zeros.simps)

theorem evaluation_mints_the_payments_witness:
  "\<exists>w e. build_deposit_claim_witness demo_crates demo_bridge demo_helpers (demo_block demo_txs)
        (demo_checkpoint [] [replicate 32 7]) [9] [[3], [4]] = Inr w
     \<and> evaluate_claim_witness demo_helpers 1 (iw_claim_witness w) [] [9] \<lparr>fee_flat = 1, fee_num = 0, fee_den = 1\<rparr> = Inr e
     \<and> map pm_recipient (ce_pending_mints e) = [[4]] \<and> unat (ce_deposit_count e) = 1"
proof -
  let ?fees = "\<lparr>fee_flat = 1, fee_num = 0, fee_den = 1\<rparr>"
  obtain ss cs ts where parts:
    "scan_manager_custody_deposits demo_crates demo_helpers (demo_block demo_txs) [9] [[3], [4]]
     = Inr (1, [\<lparr>tw_transaction_index = 1, tw_siblings = ss,
         tw_deposit_outputs = [\<lparr>di_output_index = 1, di_public_key_index = 1\<rparr>],
         tw_transaction = demo_tx 2 [[7], [0xa9, 9, 4]]\<rparr>])"
    "claim_siblings_of demo_crates demo_bridge (demo_checkpoint [] [replicate 32 7]) = Inr cs" "length cs = 3"
    "txo_siblings_of demo_crates demo_bridge (demo_checkpoint [] [replicate 32 7]) 1 = Inr ts" "length ts = 3"
    using demo_scan demo_claim_siblings demo_txo_siblings by blast
  have fields: "decode_hash demo_crates (fr_value_hex (cp_claim_frontier (demo_checkpoint [] [replicate 32 7]))) = Inr (demo_zeros 0)"
    "cp_height (demo_checkpoint [] [replicate 32 7]) = 0"
    "decode_fixed demo_crates header_size (cp_header_hex (demo_checkpoint [] [replicate 32 7])) = Inr demo_header"
    by (simp_all add: demo_checkpoint_def demo_claim_frontier_def demo_frontier_def frontier_new_def decode_hash_def decode_fixed_iff
        demo_hex length_demo_zeros demo_height_def demo_header_def header_size_def del: demo_zeros.simps)
  have "\<exists>w. build_deposit_claim_witness demo_crates demo_bridge demo_helpers (demo_block demo_txs)
      (demo_checkpoint [] [replicate 32 7]) [9] [[3], [4]] = Inr w
    \<and> cw_total_outputs_hint (iw_claim_witness w) = 1 \<and> cw_public_keys (iw_claim_witness w) = [[3], [4]]
    \<and> cw_deposit_transactions (iw_claim_witness w) = [\<lparr>tw_transaction_index = 1, tw_siblings = ss,
         tw_deposit_outputs = [\<lparr>di_output_index = 1, di_public_key_index = 1\<rparr>],
         tw_transaction = demo_tx 2 [[7], [0xa9, 9, 4]]\<rparr>]"
    using parts fields
    by (simp add: build_deposit_claim_witness_def checked_add_u32_def ok_or_def read_u32_le_def slice_def
        sol_last_rollback_at_secs_def sol_paused_until_secs_def demo_header_def)
  then obtain w where w: "build_deposit_claim_witness demo_crates demo_bridge demo_helpers (demo_block demo_txs)
      (demo_checkpoint [] [replicate 32 7]) [9] [[3], [4]] = Inr w"
    and cw: "cw_total_outputs_hint (iw_claim_witness w) = 1" "cw_public_keys (iw_claim_witness w) = [[3], [4]]"
      "cw_deposit_transactions (iw_claim_witness w) = [\<lparr>tw_transaction_index = 1, tw_siblings = ss,
         tw_deposit_outputs = [\<lparr>di_output_index = 1, di_public_key_index = 1\<rparr>],
         tw_transaction = demo_tx 2 [[7], [0xa9, 9, 4]]\<rparr>]" by blast
  obtain e where e: "evaluate_claim_witness demo_helpers 1 (iw_claim_witness w) [] [9] ?fees = Inr e"
    using cw by (simp add: evaluate_claim_witness_def evaluate_transaction_def evaluate_deposit_def
        demo_helpers_def demo_tx_def ok_or_def u32_from_usize_def)
  from evaluation_mints_the_payments[OF w e] have mints:
    "list_all2 (payment_mint demo_helpers [[3], [4]] ?fees (blk_transactions (demo_block demo_txs))) [(1, 1, 1)]
      (zip (ce_pending_mints e) (zip (ce_txo_indices e) (ce_leaf_hashes e)))"
    and lens: "length (ce_pending_mints e) = unat (ce_deposit_count e)"
      "length (ce_txo_indices e) = unat (ce_deposit_count e)" "length (ce_leaf_hashes e) = unat (ce_deposit_count e)"
    using demo_payments by simp_all
  from list_all2_lengthD[OF mints] lens have one: "unat (ce_deposit_count e) = 1" by simp
  with lens mints have "map pm_recipient (ce_pending_mints e) = [[4]]"
    by (cases "ce_pending_mints e"; cases "ce_txo_indices e"; cases "ce_leaf_hashes e")
      (auto simp: payment_mint_def)
  with w e one show ?thesis by - (rule exI, rule exI, intro conjI)
qed

end
