(* ===== verification/Prepare.thy ===== *)
theory Prepare
  imports Deposits Config
begin

text \<open>
  The preparation of a block in \<open>block_pipeline.rs\<close>: \<open>prepare_height\<close>, the first checkpoint
  (\<open>initialize_checkpoint\<close>), the optional artifacts and the recovery of a checkpoint from a proof
  archive (\<open>recover_checkpoint_from_proof_archive\<close>).

  The network, the files and the helper crates are parameters: \<open>deps\<close> gathers the third-party
  functions, \<open>node\<close> what one call sees of Electrs and of the file system. A network profile \<open>p\<close>
  selects the helper functions \<open>d_helpers D p\<close>, as the type parameters \<open>NC\<close> and \<open>P\<close> do.
\<close>

section \<open>Parameters\<close>

record 'st chain =
  append_block :: "network_profile \<Rightarrow> 'st \<Rightarrow> u32 \<Rightarrow> block_header \<Rightarrow> bytes \<Rightarrow> bytes \<Rightarrow> u32 \<Rightarrow> u64 \<Rightarrow> 'st res"
  guest_verify :: "network_profile \<Rightarrow> bytes \<Rightarrow> u32 \<Rightarrow> incoming_witness \<Rightarrow> fees \<Rightarrow> 'st \<Rightarrow> 'st res"
  init_state :: "block_header list \<Rightarrow> u32 \<Rightarrow> 'st"
  custodian_hash :: "network_profile \<Rightarrow> bytes \<Rightarrow> bytes"

record ('st, 'b, 'j) deps =
  d_crates :: crates
  d_bridge :: "'st bridge"
  d_helpers :: "network_profile \<Rightarrow> 'b helpers"
  d_chain :: "'st chain"
  d_serde :: "'j serde"
  d_checkpoint_to_string :: "pipeline_checkpoint \<Rightarrow> string res"
  d_checkpoint_from_str :: "string \<Rightarrow> pipeline_checkpoint option"

record node =
  electrs_height :: "u32 res"
  electrs_block :: "u32 \<Rightarrow> doge_block res"
  electrs_headers :: "u32 \<Rightarrow> u32 \<Rightarrow> block_header list res"
  old_state_artifact :: "(u32 \<Rightarrow> string res) option"
  witness_artifact :: "(u32 \<Rightarrow> string res) option"
  evidence_file :: "deposit_evidence res option"
  elf_file :: "bytes res"

record prepared =
  pt_height :: u32
  pt_next_checkpoint :: pipeline_checkpoint
  pt_proof_job :: proof_job
  pt_old_state_bytes :: bytes
  pt_witness_bytes :: bytes
  pt_old_header :: bytes
  pt_new_header :: bytes
  pt_evaluation :: claim_evaluation
  pt_finalized_height :: u32
  pt_finalized_buffers :: buffer_commitment
  pt_idempotency_key :: string

definition config_fees :: "pipeline_config \<Rightarrow> fees res" where
  "config_fees config =
     and_then (deposit_flat_fee (cfg_config_params config)) (\<lambda>flat.
     and_then (deposit_fee_numerator (cfg_config_params config)) (\<lambda>num.
     and_then (deposit_fee_denominator (cfg_config_params config)) (\<lambda>den.
     Inr \<lparr>fee_flat = flat, fee_num = num, fee_den = den\<rparr>)))"

section \<open>Artifacts\<close>

definition strip_prefix :: "string \<Rightarrow> string \<Rightarrow> string option" where
  "strip_prefix prefix s =
     (if take (length prefix) s = prefix then Some (drop (length prefix) s) else None)"

text \<open>The text of a hex value: blanks around and in it, and a leading \<open>0x\<close>, do not count.\<close>

definition normalized_hex :: "string \<Rightarrow> string" where
  "normalized_hex text =
     filter (\<lambda>c. \<not> is_ascii_whitespace c) (case strip_prefix ''0x'' (trim text) of Some rest \<Rightarrow> rest | None \<Rightarrow> trim text)"

definition read_optional_height_artifact ::
  "crates \<Rightarrow> (u32 \<Rightarrow> string res) option \<Rightarrow> u32 \<Rightarrow> bytes \<Rightarrow> bytes res" where
  "read_optional_height_artifact X directory height generated =
     (case directory of
        None \<Rightarrow> Inr generated
      | Some read_file \<Rightarrow>
          and_then (read_file height) (\<lambda>text. ok_or (hex_decode X (normalized_hex text)) (Err ''invalid artifact'')))"

section \<open>Histories and pending commitments\<close>

definition next_claims ::
  "crates \<Rightarrow> 'st bridge \<Rightarrow> pipeline_checkpoint \<Rightarrow> claim_evaluation \<Rightarrow> (bytes list \<times> merkle_frontier) res" where
  "next_claims X B cp e =
     (let claim_history = cp_claim_history cp @ ce_leaf_hashes e in
      if claim_history \<noteq> [] then
        (let last_index = length claim_history - 1 in
         and_then (sparse_sha256_merkle_siblings X (zero_hashes B) claim_history last_index (claim_tree_height B) 0)
           (\<lambda>siblings. Inr (claim_history, frontier_new X (of_nat last_index) (last claim_history) siblings)))
      else Inr (claim_history, cp_claim_frontier cp))"

definition next_txos ::
  "crates \<Rightarrow> 'st bridge \<Rightarrow> pipeline_checkpoint \<Rightarrow> claim_evaluation \<Rightarrow> u32 \<Rightarrow> (merkle_frontier \<times> bytes list) res" where
  "next_txos X B cp e height =
     (if cp_txo_history cp = [] then
        and_then (sequential_next_leaf_siblings X (zero_hashes B) (cp_txo_frontier cp) height
                    (txo_block_num_bits B) (txo_block_tree_height B)) (\<lambda>txo_siblings.
        Inr (frontier_new X height (ce_block_txo_root e) txo_siblings, []))
      else if length (cp_txo_history cp) \<noteq> unat height
      then Inl (Err ''TXO block history length does not match next height'')
      else
        (let history = cp_txo_history cp @ [ce_block_txo_root e] in
         and_then (sparse_sha256_merkle_siblings X (zero_hashes B) history (unat height)
                     (txo_block_num_bits B) (txo_block_tree_height B)) (\<lambda>txo_siblings.
         Inr (frontier_new X height (ce_block_txo_root e) txo_siblings, history))))"

definition next_pending ::
  "crates \<Rightarrow> (u32, buffer_commitment) btree \<Rightarrow> u32 \<Rightarrow> u32 \<Rightarrow> claim_evaluation \<Rightarrow> (u32, buffer_commitment) btree" where
  "next_pending X commitments height finalized_height e =
     bt_remove finalized_height (bt_insert height (commitment_from_evaluation X e) commitments)"

definition next_checkpoint_of ::
  "crates \<Rightarrow> 'st bridge \<Rightarrow> pipeline_checkpoint \<Rightarrow> u32 \<Rightarrow> u32 \<Rightarrow> claim_evaluation \<Rightarrow> bytes \<Rightarrow> bytes
     \<Rightarrow> pipeline_checkpoint res" where
  "next_checkpoint_of X B cp height finalized_height e new_state_bytes new_header =
     and_then (next_claims X B cp e) (\<lambda>(claim_history, claim_frontier).
     and_then (next_txos X B cp e height) (\<lambda>(txo_frontier, txo_history).
     let next = \<lparr>cp_height = height, cp_state_hex = hex_encode X new_state_bytes,
                 cp_header_hex = hex_encode X new_header, cp_claim_frontier = claim_frontier,
                 cp_txo_frontier = txo_frontier, cp_claim_history = claim_history,
                 cp_txo_history = txo_history,
                 cp_pending = next_pending X (cp_pending cp) height finalized_height e\<rparr>
     in and_then (validate_checkpoint X B next) (\<lambda>_. Inr next)))"

section \<open>The preparation of a block\<close>

definition prepare_height ::
  "('st, 'b, 'j) deps \<Rightarrow> node \<Rightarrow> pipeline_config \<Rightarrow> pipeline_checkpoint \<Rightarrow> u32 \<Rightarrow> prepared res" where
  "prepare_height D N config cp height =
     (let X = d_crates D; B = d_bridge D; H = d_helpers D (cfg_network config); C = d_chain D;
          custody = cfg_custody_script_config config; atas = cfg_recipient_atas config;
          conf = cfg_required_confirmations config
      in
     and_then (ok_or (hex_decode X (cp_state_hex cp)) (Err ''invalid hex'')) (\<lambda>generated_state_bytes.
     and_then (read_optional_height_artifact X (old_state_artifact N) height generated_state_bytes) (\<lambda>old_state_bytes.
     and_then (ok_or (state_decode B old_state_bytes) (Err ''malformed state'')) (\<lambda>old_state.
     if tip_number B old_state \<noteq> cp_height cp
     then Inl (Err ''helper state tip does not match checkpoint height'')
     else
     and_then (validate_frontiers_against_state X B cp old_state) (\<lambda>_.
     and_then (electrs_block N height) (\<lambda>block.
     if bh_previous_hash (blk_header block) \<noteq> tip_block_hash B old_state
     then Inl (Err ''block does not extend checkpoint tip; reorg handling is out of scope'')
     else
     and_then (validate_live_deposit_script X H (evidence_file N) height block custody atas) (\<lambda>_.
     and_then (build_deposit_claim_witness X B H block cp custody atas) (\<lambda>generated_witness.
     and_then (witness_encode H generated_witness) (\<lambda>generated_witness_bytes.
     and_then (read_optional_height_artifact X (witness_artifact N) height generated_witness_bytes) (\<lambda>witness_bytes.
     and_then (ok_or (witness_decode H witness_bytes) (Err ''malformed witness'')) (\<lambda>witness.
     if iw_block_header witness \<noteq> blk_header block
     then Inl (Err ''witness block header does not match Electrs block'')
     else
     and_then (config_fees config) (\<lambda>fs.
     and_then (evaluate_claim_witness H height (iw_claim_witness witness)
                 (bh_merkle_root (iw_block_header witness)) custody fs) (\<lambda>evaluation.
     and_then (ok_or (checked_sub_u32 height conf) (Err ''finalized height underflow'')) (\<lambda>finalized_height.
     let redis_finalized_buffers = bt_get (cp_pending cp) finalized_height in
     and_then (case redis_finalized_buffers of
                 None \<Rightarrow> Inr None
               | Some _ \<Rightarrow> and_then (electrs_block N finalized_height) (\<lambda>b. Inr (Some b))) (\<lambda>finalized_block.
     and_then (resolve_finalized_buffers X B H finalized_block redis_finalized_buffers custody atas fs)
       (\<lambda>(finalized_buffers, finalized_witness).
     and_then (append_block C (cfg_network config) old_state height (iw_block_header witness)
                 (tr_txo_root (ce_transition evaluation)) (tr_claim_root (ce_transition evaluation))
                 (tr_end_index (ce_transition evaluation)) (tr_fees (ce_transition evaluation))) (\<lambda>new_state.
     and_then (guest_verify C (cfg_network config) custody conf witness fs old_state) (\<lambda>verified_state.
     if verified_state \<noteq> new_state
     then Inl (Err ''pipeline and guest helper produced different new chain states'')
     else
     and_then (decode_fixed X header_size (cp_header_hex cp)) (\<lambda>old_header.
     and_then (bc_mints_hash X finalized_buffers) (\<lambda>mints_hash.
     and_then (bc_txo_hash X finalized_buffers) (\<lambda>txo_hash.
     and_then (build_new_solana_header X B old_header new_state conf mints_hash txo_hash) (\<lambda>new_header.
     and_then (state_encode B new_state) (\<lambda>new_state_bytes.
     and_then (next_checkpoint_of X B cp height finalized_height evaluation new_state_bytes new_header)
       (\<lambda>next_checkpoint.
     let request = \<lparr>rq_request_id = ''block-'' @ nat_str (unat height), rq_old_state = hex_encode X old_state_bytes,
                    rq_witness = hex_encode X witness_bytes, rq_finalized_witness = finalized_witness,
                    rq_custody_script_config = hex_encode X custody, rq_required_confirmations = conf,
                    rq_flat_fee = fee_flat fs, rq_fee_num = fee_num fs, rq_fee_den = fee_den fs,
                    rq_old_header = hex_encode X old_header, rq_new_header = hex_encode X new_header,
                    rq_config_params = hex_encode X (cfg_config_params config)\<rparr>
     in
     and_then (d_checkpoint_to_string D cp) (\<lambda>cp_json.
     and_then (elf_file N) (\<lambda>elf_bytes.
     and_then (job_new X (d_serde D) (network_str (cfg_network config)) height (sha256_hex X (str_bytes cp_json))
                 (guest_id (cfg_network config)) (sha256_hex X elf_bytes)
                 (hex_encode X (cfg_expected_vk_hash config)) request) (\<lambda>proof_job.
     Inr \<lparr>pt_height = height, pt_next_checkpoint = next_checkpoint, pt_proof_job = proof_job,
          pt_old_state_bytes = old_state_bytes, pt_witness_bytes = witness_bytes, pt_old_header = old_header,
          pt_new_header = new_header, pt_evaluation = evaluation, pt_finalized_height = finalized_height,
          pt_finalized_buffers = finalized_buffers,
          pt_idempotency_key = ''doge-block-'' @ nat_str (unat height) @ ''-''
            @ hex_encode X (block_hash H (iw_block_header witness))\<rparr>)))))))))))))))))))))))))))"

section \<open>The first checkpoint\<close>

text \<open>
  \<open>saturating_sub\<close> gives the finalized tip; \<open>start_height + 1\<close> and the subtraction of the cache size
  are \<open>u32\<close> operations, which wrap in a release build.
\<close>

definition saturating_sub :: "u32 \<Rightarrow> u32 \<Rightarrow> u32" where
  "saturating_sub a b = (if b \<le> a then a - b else 0)"

definition initialize_checkpoint ::
  "('st, 'b, 'j) deps \<Rightarrow> node \<Rightarrow> pipeline_config \<Rightarrow> pipeline_checkpoint res" where
  "initialize_checkpoint D N config =
     (let X = d_crates D; B = d_bridge D; cache = of_nat (hash_cache_size B) :: u32 in
     and_then (electrs_height N) (\<lambda>electrs_tip.
     let finalized_tip = saturating_sub electrs_tip (cfg_required_confirmations config);
         start_height = (case cfg_start_height config of Some h \<Rightarrow> h | None \<Rightarrow> finalized_tip)
     in
     if start_height > finalized_tip then Inl (Err ''start height is above finalized Electrs height'')
     else if start_height + 1 < cache then Inl (Err ''start height is too low for the helper cache'')
     else
     and_then (electrs_headers N (start_height + 1 - cache) start_height) (\<lambda>headers.
     if length headers \<noteq> hash_cache_size B then Inl (Err ''expected initialization headers'')
     else
     let state = init_state (d_chain D) headers start_height;
         zero_leaf = zero_hashes B (txo_block_tree_height B);
         claim_siblings = map (zero_hashes B) [0..<claim_tree_height B];
         txo_siblings = map (\<lambda>i. zero_hashes B (txo_block_tree_height B + i)) [0..<txo_block_num_bits B];
         txo_history = (if start_height \<le> 1000000 then replicate (unat start_height + 1) zero_leaf else [])
     in
     and_then (state_encode B state) (\<lambda>state_bytes.
     Inr \<lparr>cp_height = start_height, cp_state_hex = hex_encode X state_bytes,
          cp_header_hex = hex_encode X (cfg_initial_header config),
          cp_claim_frontier = frontier_new X 0 (zero_hashes B 0) claim_siblings,
          cp_txo_frontier = frontier_new X start_height zero_leaf txo_siblings,
          cp_claim_history = [], cp_txo_history = txo_history, cp_pending = []\<rparr>))))"

section \<open>Recovery from a proof archive\<close>

record proof_archive =
  ar_old_state :: "bytes res"
  ar_old_header :: "bytes res"
  ar_witness :: "bytes res"
  ar_new_header :: "bytes res"

definition redis_checkpoint_key :: "pipeline_config \<Rightarrow> string" where
  "redis_checkpoint_key config =
     checkpoint_prefix @ ''-'' @ network_str (cfg_network config) @ ''-'' @ nat_str (unat (cfg_redis_seed config))"

definition recovered_checkpoint ::
  "('st, 'b, 'j) deps \<Rightarrow> host \<Rightarrow> bool \<Rightarrow> node \<Rightarrow> pipeline_config \<Rightarrow> proof_archive \<Rightarrow> bytes res \<Rightarrow> redis
     \<Rightarrow> pipeline_checkpoint res" where
  "recovered_checkpoint D E debug N config archive chain_header db =
     (let X = d_crates D; B = d_bridge D; H = d_helpers D (cfg_network config); C = d_chain D;
          custody = cfg_custody_script_config config; conf = cfg_required_confirmations config
      in
     and_then (validate_config E debug config) (\<lambda>_.
     and_then (ok_or (strings db (redis_checkpoint_key config)) (Err ''current Redis checkpoint is missing'')) (\<lambda>json.
     and_then (ok_or (d_checkpoint_from_str D json) (Err ''malformed checkpoint'')) (\<lambda>cp.
     and_then (validate_checkpoint X B cp) (\<lambda>_.
     and_then (ok_or (checked_add_u32 (cp_height cp) 1) (Err ''checkpoint height overflow'')) (\<lambda>height.
     and_then (ar_old_state archive) (\<lambda>old_state_bytes.
     and_then (ar_old_header archive) (\<lambda>archived_old_header.
     and_then (ok_or (hex_decode X (cp_state_hex cp)) (Err ''invalid hex'')) (\<lambda>cp_state.
     if old_state_bytes \<noteq> cp_state
     then Inl (Err ''proof archive old state does not match the current Redis checkpoint'')
     else
     and_then (ok_or (hex_decode X (cp_header_hex cp)) (Err ''invalid hex'')) (\<lambda>cp_header.
     if archived_old_header \<noteq> cp_header
     then Inl (Err ''proof archive old header does not match the current Redis checkpoint'')
     else
     and_then (ar_witness archive) (\<lambda>witness_bytes.
     and_then (ok_or (witness_decode H witness_bytes) (Err ''malformed witness'')) (\<lambda>witness.
     and_then (config_fees config) (\<lambda>fs.
     and_then (evaluate_claim_witness H height (iw_claim_witness witness)
                 (bh_merkle_root (iw_block_header witness)) custody fs) (\<lambda>evaluation.
     and_then (ok_or (state_decode B old_state_bytes) (Err ''malformed state'')) (\<lambda>old_state.
     and_then (append_block C (cfg_network config) old_state height (iw_block_header witness)
                 (tr_txo_root (ce_transition evaluation)) (tr_claim_root (ce_transition evaluation))
                 (tr_end_index (ce_transition evaluation)) (tr_fees (ce_transition evaluation))) (\<lambda>new_state.
     and_then (ok_or (checked_sub_u32 height conf) (Err ''finalized height underflow'')) (\<lambda>finalized_height.
     let redis_finalized_buffers = bt_get (cp_pending cp) finalized_height in
     and_then (case redis_finalized_buffers of
                 None \<Rightarrow> Inr None
               | Some _ \<Rightarrow> and_then (electrs_block N finalized_height) (\<lambda>b. Inr (Some b))) (\<lambda>finalized_block.
     and_then (resolve_finalized_buffers X B H finalized_block redis_finalized_buffers custody
                 (cfg_recipient_atas config) fs) (\<lambda>(finalized_buffers, _).
     and_then (decode_fixed X header_size (cp_header_hex cp)) (\<lambda>old_header.
     and_then (bc_mints_hash X finalized_buffers) (\<lambda>mints_hash.
     and_then (bc_txo_hash X finalized_buffers) (\<lambda>txo_hash.
     and_then (build_new_solana_header X B old_header new_state conf mints_hash txo_hash) (\<lambda>new_header.
     and_then (ar_new_header archive) (\<lambda>archived_header.
     if archived_header \<noteq> new_header
     then Inl (Err ''reconstructed header does not match the proven archived header'')
     else
     and_then (state_encode B new_state) (\<lambda>new_state_bytes.
     and_then (next_checkpoint_of X B cp height finalized_height evaluation new_state_bytes new_header) (\<lambda>recovered.
     and_then (read_pipeline_keypair E (cfg_operator_keypair config)) (\<lambda>_.
     and_then (read_pipeline_keypair E (cfg_payer_keypair config)) (\<lambda>_.
     and_then chain_header (\<lambda>chain_header.
     and_then (assert_checkpoint_matches_chain X recovered chain_header) (\<lambda>_.
     Inr recovered))))))))))))))))))))))))))))))"

text \<open>\<open>set_reply\<close> is what Redis answers to the \<open>SET\<close> of the recovered checkpoint.\<close>

definition recover_checkpoint_from_proof_archive ::
  "('st, 'b, 'j) deps \<Rightarrow> host \<Rightarrow> bool \<Rightarrow> node \<Rightarrow> pipeline_config \<Rightarrow> proof_archive \<Rightarrow> bytes res \<Rightarrow> unit res
     \<Rightarrow> redis \<Rightarrow> redis \<times> u32 res" where
  "recover_checkpoint_from_proof_archive D E debug N config archive chain_header set_reply db =
     (case and_then (recovered_checkpoint D E debug N config archive chain_header db) (\<lambda>recovered.
             and_then (d_checkpoint_to_string D recovered) (\<lambda>json.
             and_then set_reply (\<lambda>_. Inr (json, cp_height recovered)))) of
        Inl e \<Rightarrow> (db, Inl e)
      | Inr (json, height) \<Rightarrow>
          (db\<lparr>strings := (strings db)(redis_checkpoint_key config \<mapsto> json)\<rparr>, Inr height))"

section \<open>Lemmas\<close>

lemma prepare_heightE:
  assumes "prepare_height D N config cp height = Inr p"
  obtains old_state_bytes old_state block witness fs finalized_block finalized_witness new_state mints_hash
    txo_hash new_state_bytes request cp_json elf_bytes
  where
    "\<exists>generated. hex_decode (d_crates D) (cp_state_hex cp) = Some generated
      \<and> read_optional_height_artifact (d_crates D) (old_state_artifact N) height generated = Inr old_state_bytes"
    "state_decode (d_bridge D) old_state_bytes = Some old_state" "tip_number (d_bridge D) old_state = cp_height cp"
    "electrs_block N height = Inr block" "iw_block_header witness = blk_header block"
    "bh_previous_hash (blk_header block) = tip_block_hash (d_bridge D) old_state"
    "witness_decode (d_helpers D (cfg_network config)) (pt_witness_bytes p) = Some witness"
    "config_fees config = Inr fs"
    "evaluate_claim_witness (d_helpers D (cfg_network config)) height (iw_claim_witness witness)
       (bh_merkle_root (blk_header block)) (cfg_custody_script_config config) fs = Inr (pt_evaluation p)"
    "checked_sub_u32 height (cfg_required_confirmations config) = Some (pt_finalized_height p)"
    "(case bt_get (cp_pending cp) (pt_finalized_height p) of
        None \<Rightarrow> Inr None
      | Some _ \<Rightarrow> and_then (electrs_block N (pt_finalized_height p)) (\<lambda>b. Inr (Some b))) = Inr finalized_block"
    "resolve_finalized_buffers (d_crates D) (d_bridge D) (d_helpers D (cfg_network config)) finalized_block
       (bt_get (cp_pending cp) (pt_finalized_height p)) (cfg_custody_script_config config) (cfg_recipient_atas config) fs
       = Inr (pt_finalized_buffers p, finalized_witness)"
    "append_block (d_chain D) (cfg_network config) old_state height (blk_header block)
       (tr_txo_root (ce_transition (pt_evaluation p))) (tr_claim_root (ce_transition (pt_evaluation p)))
       (tr_end_index (ce_transition (pt_evaluation p))) (tr_fees (ce_transition (pt_evaluation p))) = Inr new_state"
    "guest_verify (d_chain D) (cfg_network config) (cfg_custody_script_config config)
       (cfg_required_confirmations config) witness fs old_state = Inr new_state"
    "decode_fixed (d_crates D) header_size (cp_header_hex cp) = Inr (pt_old_header p)"
    "bc_mints_hash (d_crates D) (pt_finalized_buffers p) = Inr mints_hash"
    "bc_txo_hash (d_crates D) (pt_finalized_buffers p) = Inr txo_hash"
    "build_new_solana_header (d_crates D) (d_bridge D) (pt_old_header p) new_state
       (cfg_required_confirmations config) mints_hash txo_hash = Inr (pt_new_header p)"
    "state_encode (d_bridge D) new_state = Inr new_state_bytes"
    "next_checkpoint_of (d_crates D) (d_bridge D) cp height (pt_finalized_height p) (pt_evaluation p)
       new_state_bytes (pt_new_header p) = Inr (pt_next_checkpoint p)"
    "d_checkpoint_to_string D cp = Inr cp_json" "elf_file N = Inr elf_bytes"
    "job_new (d_crates D) (d_serde D) (network_str (cfg_network config)) height
       (sha256_hex (d_crates D) (str_bytes cp_json)) (guest_id (cfg_network config))
       (sha256_hex (d_crates D) elf_bytes) (hex_encode (d_crates D) (cfg_expected_vk_hash config)) request
       = Inr (pt_proof_job p)"
    "rq_old_header request = hex_encode (d_crates D) (pt_old_header p)"
    "rq_new_header request = hex_encode (d_crates D) (pt_new_header p)"
    "rq_old_state request = hex_encode (d_crates D) old_state_bytes"
    "rq_witness request = hex_encode (d_crates D) (pt_witness_bytes p)"
    "pt_old_state_bytes p = old_state_bytes" "pt_height p = height"
proof -
  show ?thesis
    by (insert assms, unfold prepare_height_def Let_def, (erule and_then_elim | split if_split_asm; simp | clarsimp)+,
        rule that, (intro exI conjI; assumption),
        (assumption | (hypsubst, unfold prepared.simps proof_request.simps, assumption) | simp)+)
qed

lemma next_claims_ok:
  "next_claims X B cp e = Inr (claims, frontier) \<Longrightarrow> claims = cp_claim_history cp @ ce_leaf_hashes e"
  by (auto simp: next_claims_def Let_def split: if_splits)

lemma next_txos_ok:
  "next_txos X B cp e height = Inr (frontier, history) \<Longrightarrow>
   history = (if cp_txo_history cp = [] then [] else cp_txo_history cp @ [ce_block_txo_root e])
   \<and> fr_index frontier = height"
  by (auto simp: next_txos_def Let_def split: if_splits)

lemma next_checkpoint_ok:
  assumes "next_checkpoint_of X B cp height fh e sb hdr = Inr cp'"
  shows "cp_height cp' = height" and "cp_state_hex cp' = hex_encode X sb" and "cp_header_hex cp' = hex_encode X hdr"
    and "cp_claim_history cp' = cp_claim_history cp @ ce_leaf_hashes e"
    and "cp_txo_history cp' = (if cp_txo_history cp = [] then [] else cp_txo_history cp @ [ce_block_txo_root e])"
    and "cp_pending cp' = next_pending X (cp_pending cp) height fh e"
    and "validate_checkpoint X B cp' = Inr ()"
  using assms
  by (auto simp: next_checkpoint_of_def Let_def dest!: next_claims_ok next_txos_ok)

lemma job_new_fields:
  assumes "job_new X J network height parent guest elf vkey request = Inr job"
  shows "job_validate X J job = Inr ()" and "job_network job = network" and "job_height job = height"
    and "job_parent job = parent" and "job_guest_id job = guest" and "job_block_elf job = elf"
    and "job_vkey_hash job = vkey" and "job_request job = request"
  using assms by (auto simp: job_new_def Let_def)

lemma checked_sub_u32_Some: "checked_sub_u32 a b = Some c \<longleftrightarrow> b \<le> a \<and> c = a - b"
  by (auto simp: checked_sub_u32_def)

section \<open>Runs of the planner\<close>

text \<open>
  The planned checkpoints of the pipeline: each block is prepared from the checkpoint planned for
  the block below it. Every preparation sees its own Electrs and its own files.
\<close>

inductive planned ::
  "('st, 'b, 'j) deps \<Rightarrow> pipeline_config \<Rightarrow> pipeline_checkpoint \<Rightarrow> prepared list \<Rightarrow> pipeline_checkpoint \<Rightarrow> bool"
  for D config cp0 where
  planned_start: "planned D config cp0 [] cp0"
| planned_next: "planned D config cp0 ps cp \<Longrightarrow> checked_add_u32 (cp_height cp) 1 = Some height \<Longrightarrow>
    prepare_height D N config cp height = Inr p \<Longrightarrow> planned D config cp0 (ps @ [p]) (pt_next_checkpoint p)"

inductive_cases planned_snocE: "planned D config cp0 (ps @ [p]) cp"

text \<open>
  The commitments that wait after the blocks \<open>ps\<close> above height \<open>h0\<close>: those of the last \<open>conf\<close> blocks.
\<close>

definition waiting :: "crates \<Rightarrow> nat \<Rightarrow> nat \<Rightarrow> prepared list \<Rightarrow> u32 \<Rightarrow> buffer_commitment option" where
  "waiting X conf h0 ps h =
     (if h0 < unat h \<and> unat h \<le> h0 + length ps \<and> h0 + length ps < unat h + conf
      then Some (commitment_from_evaluation X (pt_evaluation (ps ! (unat h - h0 - 1)))) else None)"

lemma planned_pending:
  assumes "planned D config cp0 ps cp" and "cp_pending cp0 = []"
  shows "unat (cp_height cp) = unat (cp_height cp0) + length ps
    \<and> bt_get (cp_pending cp)
      = waiting (d_crates D) (unat (cfg_required_confirmations config)) (unat (cp_height cp0)) ps"
  using assms(1)
proof induction
  case planned_start
  show ?case by (auto simp: assms(2) waiting_def fun_eq_iff)
next
  case (planned_next ps cp height N p)
  let ?X = "d_crates D"
  let ?conf = "unat (cfg_required_confirmations config)"
  let ?h0 = "unat (cp_height cp0)"
  have h: "unat height = ?h0 + length ps + 1"
    using planned_next.hyps(2) planned_next.IH by (simp add: checked_add_u32_Some)
  obtain sb where fin: "checked_sub_u32 height (cfg_required_confirmations config) = Some (pt_finalized_height p)"
    and nx: "next_checkpoint_of ?X (d_bridge D) cp height (pt_finalized_height p) (pt_evaluation p) sb (pt_new_header p)
      = Inr (pt_next_checkpoint p)"
    using planned_next.hyps(3) by (rule prepare_heightE)
  have f: "unat (pt_finalized_height p) + ?conf = unat height"
    using fin by (auto simp: checked_sub_u32_Some word_le_nat_alt unat_sub)
  have "bt_get (cp_pending (pt_next_checkpoint p)) k = waiting ?X ?conf ?h0 (ps @ [p]) k" for k
    using planned_next.IH f h
    by (auto simp: next_checkpoint_ok(6)[OF nx] next_pending_def bt_get_remove bt_get_insert waiting_def
        nth_append word_unat_eq_iff)
  then show ?case using next_checkpoint_ok(1)[OF nx] h by auto
qed

lemma planned_prefix:
  "planned D config cp0 ps cp \<Longrightarrow> i \<le> length ps \<Longrightarrow> \<exists>cp'. planned D config cp0 (take i ps) cp'"
proof (induction rule: planned.induct)
  case planned_start
  then show ?case by (auto intro: planned.planned_start)
next
  case (planned_next ps cp height N p)
  show ?case
  proof (cases "i \<le> length ps")
    case True
    then show ?thesis using planned_next.IH by simp
  next
    case False
    then have "take i (ps @ [p]) = ps @ [p]" using planned_next.prems by simp
    then show ?thesis using planned.planned_next planned_next.hyps by metis
  qed
qed

lemma planned_nth:
  assumes "planned D config cp0 ps cp" and "i < length ps"
  obtains cp' N height where "planned D config cp0 (take i ps) cp'" and "checked_add_u32 (cp_height cp') 1 = Some height"
    and "prepare_height D N config cp' height = Inr (ps ! i)"
proof -
  obtain c where "planned D config cp0 (take (Suc i) ps) c" using planned_prefix[OF assms(1), of "Suc i"] assms(2) by auto
  then have "planned D config cp0 (take i ps @ [ps ! i]) c" by (simp add: take_Suc_conv_app_nth assms(2))
  then show thesis by (rule planned_snocE) (auto intro: that)
qed

lemma resolve_none:
  "resolve_finalized_buffers X B H block None custody atas fs = Inr (c, w) \<Longrightarrow> commitment_empty X B = Inr c"
  by (auto simp: resolve_finalized_buffers_def)

lemma resolve_some:
  assumes "hex_laws X" and "c = commitment_from_evaluation X e"
    and "resolve_finalized_buffers X B H block (Some c) custody atas fs = Inr (c', w)"
  shows "c' = c"
proof -
  have h: "decode_hash X (hex_encode X h) = Inr h' \<Longrightarrow> h' = h" for h h'
    using hex_decode_encode[OF assms(1)] by (auto simp: decode_hash_def decode_fixed_iff)
  from assms(3) obtain m t where "bc_mints_hash X c = Inr m" "bc_txo_hash X c = Inr t"
    "c' = c\<lparr>bc_mints_hash_hex := hex_encode X m, bc_txo_hash_hex := hex_encode X t\<rparr>"
    by (auto simp: resolve_finalized_buffers_def split: if_splits)
  then show ?thesis
    by (auto simp: assms(2) commitment_from_evaluation_def bc_mints_hash_def bc_txo_hash_def dest!: h)
qed

lemma finalized_buffers_of:
  assumes "planned D config cp0 ps cp" and "i < length ps" and "cp_pending cp0 = []"
  obtains b f fs w where
    "unat f + unat (cfg_required_confirmations config) = unat (cp_height cp0) + i + 1"
    "resolve_finalized_buffers (d_crates D) (d_bridge D) (d_helpers D (cfg_network config)) b
      (waiting (d_crates D) (unat (cfg_required_confirmations config)) (unat (cp_height cp0)) (take i ps) f)
      (cfg_custody_script_config config) (cfg_recipient_atas config) fs = Inr (pt_finalized_buffers (ps ! i), w)"
proof -
  obtain cp' N height where run: "planned D config cp0 (take i ps) cp'"
    and h: "checked_add_u32 (cp_height cp') 1 = Some height"
    and p: "prepare_height D N config cp' height = Inr (ps ! i)"
    using planned_nth[OF assms(1,2)] .
  note pending = planned_pending[OF run assms(3)]
  obtain b fs w where fin: "checked_sub_u32 height (cfg_required_confirmations config) = Some (pt_finalized_height (ps ! i))"
    and r: "resolve_finalized_buffers (d_crates D) (d_bridge D) (d_helpers D (cfg_network config)) b
      (bt_get (cp_pending cp') (pt_finalized_height (ps ! i)))
      (cfg_custody_script_config config) (cfg_recipient_atas config) fs = Inr (pt_finalized_buffers (ps ! i), w)"
    using p by (rule prepare_heightE)
  have "unat (pt_finalized_height (ps ! i)) + unat (cfg_required_confirmations config) = unat (cp_height cp0) + i + 1"
    using fin h pending assms(2) by (auto simp: checked_sub_u32_Some checked_add_u32_Some word_le_nat_alt unat_sub)
  with that r pending show thesis by metis
qed

section \<open>A concrete run for the witnesses\<close>

text \<open>
  The chain of the demo: block 1 pays to the second recipient, the others pay to nobody. Every
  output tree has the same root, the deposit has a fixed leaf.
\<close>

definition demo_txos :: "nat \<Rightarrow> bytes list" where
  "demo_txos h = replicate 32 7 # replicate h (replicate 32 3)"

definition demo_claims :: "nat \<Rightarrow> bytes list" where
  "demo_claims h = (if h = 0 then [] else [replicate 32 9])"

definition demo_state_at :: "nat \<Rightarrow> bytes" where
  "demo_state_at h = demo_state (demo_claims h) (demo_txos h)"

definition demo_checkpoint_at :: "nat \<Rightarrow> bytes \<Rightarrow> (u32, buffer_commitment) btree \<Rightarrow> pipeline_checkpoint" where
  "demo_checkpoint_at h header commitments =
     (demo_checkpoint (demo_claims h) (demo_txos h))\<lparr>cp_header_hex := demo_encode header, cp_pending := commitments\<rparr>"

definition demo_chain :: "bytes chain" where
  "demo_chain =
     \<lparr>append_block = (\<lambda>_ st h _ _ _ _ _. Inr (demo_state_at (unat h))),
      guest_verify = (\<lambda>_ _ _ _ _ st. Inr (demo_state_at (unat (demo_tip st) + 1))),
      init_state = (\<lambda>_ h. demo_state_at (unat h)), custodian_hash = (\<lambda>_ _. replicate 32 2)\<rparr>"

definition demo_raw_block :: "nat \<Rightarrow> doge_block" where
  "demo_raw_block h = (if h = 1 then demo_block demo_txs else demo_block [demo_tx 1 [[5]]])"

definition demo_block_at :: "nat \<Rightarrow> doge_block" where
  "demo_block_at h =
     (demo_raw_block h)\<lparr>blk_header := (blk_header (demo_raw_block h))\<lparr>bh_raw := to_le_bytes 4 (of_nat h :: u32)\<rparr>\<rparr>"

definition demo_node :: node where
  "demo_node =
     \<lparr>electrs_height = Inr 9, electrs_block = (\<lambda>h. Inr (demo_block_at (unat h))),
      electrs_headers = (\<lambda>a b. Inr (map (\<lambda>_. blk_header (demo_block_at 0)) [unat a..<unat b + 1])),
      old_state_artifact = None, witness_artifact = None, evidence_file = None, elf_file = Inr [1, 2, 3]\<rparr>"

definition demo_config :: "u32 \<Rightarrow> pipeline_config" where
  "demo_config conf =
     \<lparr>cfg_network = Regtest, cfg_electrs_url = ''electrs'', cfg_redis_url = ''redis'', cfg_sender_url = ''sender'',
      cfg_sender_bearer_token = ''token'', cfg_gen_proof_path = [''release'', ''gen-proof''],
      cfg_block_elf_path = [''release'', ''block-transition''], cfg_expected_vk_hash = regtest_block_vk_hash,
      cfg_evidence_dir = [''evidence''], cfg_poll_interval = 2, cfg_redis_seed = 4, cfg_prover_backend = RedisBackend, cfg_proof_prepare_window = 2,
      cfg_proof_queue_prefix = ''q'', cfg_proof_wait_interval = 5, cfg_start_height = None,
      cfg_old_state_dir = None, cfg_witness_dir = None, cfg_custody_script_config = [9], cfg_recipient_atas = [[3], [4]], cfg_required_confirmations = conf,
      cfg_config_params = replicate 48 1, cfg_initial_header = demo_header, cfg_deposit_evidence_path = None, cfg_solana_rpc_url = ''rpc'',
      cfg_operator_keypair = [''op''], cfg_payer_keypair = [''pay''], cfg_doge_mint = [],
      cfg_bridge_program = [1], cfg_pending_mint_program = [2], cfg_txo_buffer_program = [3]\<rparr>"

definition demo_deps :: "(bytes \<Rightarrow> incoming_witness option) \<Rightarrow> (bytes, u64, prover_response) deps" where
  "demo_deps decode =
     \<lparr>d_crates = demo_crates, d_bridge = demo_bridge, d_helpers = (\<lambda>_. demo_helpers\<lparr>witness_decode := decode\<rparr>),
      d_chain = demo_chain, d_serde = demo_serde, d_checkpoint_to_string = (\<lambda>_. Inr ''c''),
      d_checkpoint_from_str = (\<lambda>_. Some (demo_checkpoint_at 0 demo_header []))\<rparr>"

lemma demo_deps_simps [simp]:
  "d_crates (demo_deps dec) = demo_crates" "d_bridge (demo_deps dec) = demo_bridge"
  "d_helpers (demo_deps dec) n = demo_helpers\<lparr>witness_decode := dec\<rparr>" "d_chain (demo_deps dec) = demo_chain"
  "d_serde (demo_deps dec) = demo_serde" "d_checkpoint_to_string (demo_deps dec) cp = Inr ''c''"
  "d_checkpoint_from_str (demo_deps dec) s = Some (demo_checkpoint_at 0 demo_header [])"
  by (simp_all add: demo_deps_def)

lemma demo_lists:
  "\<forall>l \<in> set (demo_txos h). length l = 32" "\<forall>l \<in> set (demo_claims h). length l = 32"
  "list_all (\<lambda>l. l \<noteq> demo_zeros 0) (demo_claims h)" "length (demo_txos h) = h + 1" "demo_txos h \<noteq> []"
  "length (demo_claims h) \<le> 1"
  by (simp_all add: demo_txos_def demo_claims_def)

lemma demo_height_txos: "h < 8 \<Longrightarrow> demo_height (demo_txos h) = of_nat h"
  by (simp add: demo_height_def demo_lists)

lemma demo_tip_state: "h < 8 \<Longrightarrow> demo_tip (demo_state_at h) = of_nat h"
  by (simp add: demo_state_at_def demo_state_fields demo_lists demo_height_txos)

lemma demo_valid_at:
  "h < 8 \<Longrightarrow> length header = 320 \<Longrightarrow>
   validate_checkpoint demo_crates demo_bridge (demo_checkpoint_at h header commitments) = Inr ()"
  unfolding demo_checkpoint_at_def
  by (rule demo_valid) (use demo_lists[of h] in \<open>auto simp del: demo_zeros.simps\<close>)

lemma demo_frontiers_at:
  "h < 8 \<Longrightarrow> validate_frontiers_against_state demo_crates demo_bridge (demo_checkpoint_at h header commitments)
     (demo_state_at h) = Inr ()"
  unfolding demo_state_at_def
  by (rule demo_frontiers_valid)
    (use demo_lists[of h] in \<open>auto simp: demo_checkpoint_at_def demo_checkpoint_def simp del: demo_zeros.simps\<close>)

abbreviation demo_helpers_with :: "(bytes \<Rightarrow> incoming_witness option) \<Rightarrow> u64 helpers" where
  "demo_helpers_with dec \<equiv> demo_helpers\<lparr>witness_decode := dec\<rparr>"

lemma scan_decode: "scan_manager_custody_deposits X (H\<lparr>witness_decode := dec\<rparr>) = scan_manager_custody_deposits X H"
  by (simp add: scan_manager_custody_deposits_def[abs_def] Let_def cong: if_cong)

lemma demo_scan_at:
  "\<exists>n ws. scan_manager_custody_deposits demo_crates (demo_helpers_with dec) (demo_block_at h) [9] [[3], [4]] = Inr (n, ws)
     \<and> unat n = (if h = 1 then 1 else 0)
     \<and> (if h = 1 then \<exists>ss. ws = [\<lparr>tw_transaction_index = 1, tw_siblings = ss,
         tw_deposit_outputs = [\<lparr>di_output_index = 1, di_public_key_index = 1\<rparr>],
         tw_transaction = demo_tx 2 [[7], [0xa9, 9, 4]]\<rparr>] else ws = [])"
proof (cases "h = 1")
  case True
  have "scan_manager_custody_deposits demo_crates demo_helpers (demo_block_at h) [9] [[3], [4]]
      = scan_manager_custody_deposits demo_crates demo_helpers (demo_block demo_txs) [9] [[3], [4]]"
    by (simp add: scan_manager_custody_deposits_def demo_block_at_def demo_raw_block_def True Let_def cong: if_cong)
  then show ?thesis using demo_scan True by (auto simp: scan_decode)
next
  case False
  obtain r where "bitcoin_root_loop (btc_hash256_two_to_one demo_crates) [demo_hash [1]] = [r]"
    using bitcoin_root_single[of "[demo_hash [1]]"] by auto
  then show ?thesis
    using False
    by (simp add: scan_decode scan_manager_custody_deposits_def demo_block_at_def demo_raw_block_def demo_block_def
        bitcoin_merkle_root_def scan_transaction_def scan_output_def demo_tx_def ok_or_def Let_def)
qed

lemma demo_claim_siblings_at:
  assumes "h < 8"
  shows "\<exists>ss. claim_siblings_of demo_crates demo_bridge (demo_checkpoint_at h header cs) = Inr ss \<and> length ss = 3"
proof (cases "h = 0")
  case True
  let ?ss = "tree_siblings (sha256_two_to_one demo_crates) (demo_zeros 0) [] 0 3 0"
  have "frontier_decode demo_crates (frontier_new demo_crates (of_nat 0) (demo_zeros 0) ?ss) 3 = Inr (demo_zeros 0, ?ss)"
    using frontier_decode_new[OF demo_hex_laws length_demo_zeros, of ?ss "of_nat 0" 0]
      tree_siblings_32[OF demo_hash_laws length_demo_zeros, of "[]"] by (simp del: demo_zeros.simps)
  then show ?thesis
    by (simp add: True claim_siblings_of_def demo_checkpoint_at_def demo_claims_def demo_checkpoint_def
        demo_claim_frontier_def demo_frontier_def del: demo_zeros.simps)
next
  case False
  then show ?thesis
    using sparse_loop_eq[OF demo_zero_law represents_leaves, where lh = 0 and n = 3 and i = 0 and leaves = "[replicate 32 9]"]
    by (simp add: claim_siblings_of_def demo_checkpoint_at_def demo_checkpoint_def demo_claims_def
        sparse_sha256_merkle_siblings_def del: demo_zeros.simps)
qed

lemma demo_txo_siblings_at:
  assumes "h < 7"
  shows "\<exists>ss. txo_siblings_of demo_crates demo_bridge (demo_checkpoint_at h header cs) (of_nat (h + 1)) = Inr ss \<and> length ss = 3"
  using assms sparse_loop_eq[OF demo_zero_law represents_leaves, where lh = 1 and n = 3 and i = "h + 1"
      and leaves = "demo_txos h @ [demo_zeros 1]"] demo_lists[of h]
  by (simp add: txo_siblings_of_def demo_checkpoint_at_def demo_checkpoint_def sparse_sha256_merkle_siblings_def
      unat_of_nat del: demo_zeros.simps of_nat_Suc)

lemma demo_build_at:
  assumes h: "h < 7" and hdr: "length header = 320"
  shows "\<exists>w n ws. build_deposit_claim_witness demo_crates demo_bridge (demo_helpers_with dec) (demo_block_at (h + 1))
      (demo_checkpoint_at h header cs) [9] [[3], [4]] = Inr w
    \<and> iw_block_header w = blk_header (demo_block_at (h + 1))
    \<and> scan_manager_custody_deposits demo_crates (demo_helpers_with dec) (demo_block_at (h + 1)) [9] [[3], [4]] = Inr (n, ws)
    \<and> cw_total_outputs_hint (iw_claim_witness w) = n \<and> cw_public_keys (iw_claim_witness w) = [[3], [4]]
    \<and> cw_deposit_transactions (iw_claim_witness w) = ws"
proof -
  let ?cp = "demo_checkpoint_at h header cs"
  obtain n ws where scan:
    "scan_manager_custody_deposits demo_crates (demo_helpers_with dec) (demo_block_at (h + 1)) [9] [[3], [4]] = Inr (n, ws)"
    using demo_scan_at by blast
  obtain ss ts where sib: "claim_siblings_of demo_crates demo_bridge ?cp = Inr ss" "length ss = 3"
    "txo_siblings_of demo_crates demo_bridge ?cp (of_nat (h + 1)) = Inr ts" "length ts = 3"
    using demo_claim_siblings_at[of h header cs] demo_txo_siblings_at[of h header cs] h by auto
  have val: "decode_hash demo_crates (fr_value_hex (cp_claim_frontier ?cp))
      = Inr (if demo_claims h = [] then demo_zeros 0 else last (demo_claims h))"
    unfolding demo_claim_value[OF demo_lists(2), symmetric] by (simp add: demo_checkpoint_at_def demo_checkpoint_def)
  have height: "checked_add_u32 (cp_height ?cp) 1 = Some (of_nat (h + 1))"
    using h demo_height_txos[of h]
    by (simp add: checked_add_u32_Some demo_checkpoint_at_def demo_checkpoint_def unat_of_nat del: of_nat_Suc of_nat_add)
  have old: "decode_fixed demo_crates header_size (cp_header_hex ?cp) = Inr header"
    using hdr by (simp add: demo_checkpoint_at_def decode_fixed_iff demo_hex header_size_def)
  show ?thesis
    using scan sib val height old hdr
    by (simp add: build_deposit_claim_witness_def ok_or_def read_u32_le_def slice_def
        sol_last_rollback_at_secs_def sol_paused_until_secs_def del: demo_zeros.simps of_nat_Suc)
qed

lemma demo_evaluate_at:
  assumes "scan_manager_custody_deposits demo_crates (demo_helpers_with dec) (demo_block_at h) [9] [[3], [4]] = Inr (n, ws)"
    and "cw_total_outputs_hint cw = n" and "cw_public_keys cw = [[3], [4]]" and "cw_deposit_transactions cw = ws"
  shows "\<exists>e. evaluate_claim_witness (demo_helpers_with dec) height cw root custody fs = Inr e
    \<and> ce_block_txo_root e = replicate 32 3 \<and> ce_leaf_hashes e = (if h = 1 then [replicate 32 9] else [])
    \<and> ce_mints_hash e = replicate 32 5 \<and> ce_txo_hash e = replicate 32 6
    \<and> map pm_recipient (ce_pending_mints e) = (if h = 1 then [[4]] else [])"
proof (cases "h = 1")
  case True
  obtain ss where ws: "ws = [\<lparr>tw_transaction_index = 1, tw_siblings = ss,
      tw_deposit_outputs = [\<lparr>di_output_index = 1, di_public_key_index = 1\<rparr>],
      tw_transaction = demo_tx 2 [[7], [0xa9, 9, 4]]\<rparr>]" and n: "unat n = 1"
    using demo_scan_at[of dec h] assms(1) True by auto
  show ?thesis
    by (simp add: evaluate_claim_witness_def evaluate_transaction_def evaluate_deposit_def demo_helpers_def demo_tx_def
        ok_or_def u32_from_usize_def assms(2-4) ws n True)
next
  case False
  have "ws = []" "unat n = 0" using demo_scan_at[of dec h] assms(1) False by auto
  then show ?thesis
    using False
    by (simp add: evaluate_claim_witness_def demo_helpers_def u32_from_usize_def assms(2-4))
qed

lemma demo_next_at:
  assumes h: "h < 7" and hdr: "length header' = 320" and e: "ce_block_txo_root e = replicate 32 3"
    "ce_leaf_hashes e = (if h = 0 then [replicate 32 9] else [])"
  shows "next_checkpoint_of demo_crates demo_bridge (demo_checkpoint_at h header cs) (of_nat (h + 1)) f e
      (demo_state_at (h + 1)) header'
    = Inr (demo_checkpoint_at (h + 1) header' (next_pending demo_crates cs (of_nat (h + 1)) f e))"
proof -
  let ?cp = "demo_checkpoint_at h header cs"
  have claims: "next_claims demo_crates demo_bridge ?cp e = Inr (demo_claims (h + 1), demo_claim_frontier (demo_claims (h + 1)))"
    using sparse_loop_eq[OF demo_zero_law represents_leaves, where lh = 0 and n = 3 and i = 0 and leaves = "[replicate 32 9]"]
    by (simp add: next_claims_def Let_def e(2) demo_checkpoint_at_def demo_checkpoint_def demo_claims_def
        demo_claim_frontier_def demo_frontier_def sparse_sha256_merkle_siblings_def del: demo_zeros.simps)
  have app: "demo_txos h @ [replicate 32 3] = demo_txos (h + 1)"
    by (simp add: demo_txos_def replicate_append_same)
  have lst: "last (demo_txos (h + 1)) = replicate 32 3" unfolding app[symmetric] by simp
  have txos: "next_txos demo_crates demo_bridge ?cp e (of_nat (h + 1))
      = Inr (demo_frontier (last (demo_txos (h + 1))) (demo_txos (h + 1)) 1 (h + 1), demo_txos (h + 1))"
    using h sparse_loop_eq[OF demo_zero_law represents_leaves, where lh = 1 and n = 3 and i = "h + 1" and leaves = "demo_txos (h + 1)"]
      demo_lists[of h] demo_lists[of "h + 1"]
    by (simp add: next_txos_def Let_def e(1) demo_checkpoint_at_def demo_checkpoint_def app lst[simplified] demo_frontier_def
        sparse_sha256_merkle_siblings_def unat_of_nat del: demo_zeros.simps of_nat_Suc)
  have "validate_checkpoint demo_crates demo_bridge
      (demo_checkpoint_at (h + 1) header' (next_pending demo_crates cs (of_nat (h + 1)) f e)) = Inr ()"
    by (rule demo_valid_at) (use h hdr in simp_all)
  then show ?thesis
    using claims txos demo_height_txos[of "h + 1"] h demo_lists(4)[of "h + 1"]
    by (simp add: next_checkpoint_of_def Let_def demo_checkpoint_at_def demo_checkpoint_def demo_hex demo_state_at_def
        del: demo_zeros.simps of_nat_Suc)
qed

definition demo_witness :: "nat \<Rightarrow> incoming_witness" where
  "demo_witness h =
     \<lparr>iw_block_header = blk_header (demo_block_at h),
      iw_claim_witness =
        \<lparr>cw_txo_siblings = [], cw_claim_siblings = [], cw_total_outputs_hint = (if h = 1 then 1 else 0),
         cw_last_index = 0, cw_last_value = [], cw_public_keys = [[3], [4]],
         cw_deposit_transactions =
           (if h = 1 then [\<lparr>tw_transaction_index = 1, tw_siblings = [],
              tw_deposit_outputs = [\<lparr>di_output_index = 1, di_public_key_index = 1\<rparr>],
              tw_transaction = demo_tx 2 [[7], [0xa9, 9, 4]]\<rparr>] else [])\<rparr>,
      iw_last_rollback_at_secs = 0, iw_paused_until_secs = 0\<rparr>"

definition demo_witness_decode :: "bytes \<Rightarrow> incoming_witness option" where
  "demo_witness_decode bs = Some (demo_witness (unat (from_le_bytes bs :: u32)))"

lemma demo_evaluate_witness:
  "\<exists>e. evaluate_claim_witness (demo_helpers_with dec) height (iw_claim_witness (demo_witness h)) root custody fs = Inr e
    \<and> ce_block_txo_root e = replicate 32 3 \<and> ce_leaf_hashes e = (if h = 1 then [replicate 32 9] else [])
    \<and> ce_mints_hash e = replicate 32 5 \<and> ce_txo_hash e = replicate 32 6
    \<and> map pm_recipient (ce_pending_mints e) = (if h = 1 then [[4]] else [])"
  by (simp add: demo_witness_def evaluate_claim_witness_def evaluate_transaction_def evaluate_deposit_def
      demo_helpers_def demo_tx_def ok_or_def u32_from_usize_def)

lemma demo_resolve:
  assumes "\<forall>c. pend = Some c \<longrightarrow> bc_mints_hash_hex c = demo_encode (replicate 32 5) \<and> bc_txo_hash_hex c = demo_encode (replicate 32 6)"
    and "pend = None \<or> block = Some (demo_block_at h)"
  shows "\<exists>c w m t. resolve_finalized_buffers demo_crates demo_bridge (demo_helpers_with dec) block pend [9] [[3], [4]] fs
      = Inr (c, w) \<and> length w \<le> 8 \<and> bc_mints_hash demo_crates c = Inr m \<and> bc_txo_hash demo_crates c = Inr t
    \<and> length m = 32 \<and> length t = 32"
proof (cases pend)
  case None
  have "length (sha256 demo_crates []) = 32" "length (demo_hash []) = 32"
    by (simp_all add: demo_crates_def demo_hash_def)
  then show ?thesis
    using decode_hash_encode[OF demo_hex_laws]
    by (simp add: None resolve_finalized_buffers_def commitment_empty_def demo_bridge_def bc_mints_hash_def bc_txo_hash_def)
next
  case (Some c)
  obtain n ws where scan: "scan_manager_custody_deposits demo_crates (demo_helpers_with dec) (demo_block_at h) [9] [[3], [4]] = Inr (n, ws)"
    using demo_scan_at by blast
  have dec: "decode_hash demo_crates (demo_encode (replicate 32 k)) = Inr (replicate 32 k)" for k
    using decode_hash_encode[OF demo_hex_laws, of "replicate 32 k"] by (simp add: demo_hex)
  have h: "bc_mints_hash demo_crates c = Inr (replicate 32 5)" "bc_txo_hash demo_crates c = Inr (replicate 32 6)"
    using assms(1) Some dec by (simp_all add: bc_mints_hash_def bc_txo_hash_def)
  have "\<exists>w. build_hash_only_incoming_witness demo_crates demo_bridge (demo_helpers_with dec) (demo_block_at h) [9] [[3], [4]]
      = Inr w \<and> iw_block_header w = blk_header (demo_block_at h)"
    using scan by (simp add: build_hash_only_incoming_witness_def)
  then obtain w where w: "build_hash_only_incoming_witness demo_crates demo_bridge (demo_helpers_with dec) (demo_block_at h) [9] [[3], [4]] = Inr w"
    "iw_block_header w = blk_header (demo_block_at h)" by blast
  have "claim_hashes (demo_helpers_with dec) cw r cu f = Inr (replicate 32 5, replicate 32 6)"
    "witness_encode (demo_helpers_with dec) w = Inr (to_le_bytes 4 (of_nat h :: u32))" for cw r cu f
    using w(2) by (simp_all add: demo_helpers_def demo_block_at_def)
  then show ?thesis
    using assms(2) Some w(1) h dec
    by (simp add: resolve_finalized_buffers_def bc_mints_hash_def bc_txo_hash_def demo_hex length_hex_encode[OF demo_hex_laws, unfolded demo_hex])
qed

lemma demo_request_small:
  assumes "list_all (\<lambda>s. length s \<le> 10000) [rq_request_id r, rq_old_state r, rq_witness r, rq_finalized_witness r,
    rq_custody_script_config r, rq_old_header r, rq_new_header r, rq_config_params r]"
  shows "\<exists>rb. request_to_vec demo_serde r = Inr rb \<and> length rb < 2 ^ 32"
  using assms by (simp add: demo_serde_def str_bytes_def demo_request_str_def length_esc length_word_str)

lemma length_nat_str: "n < 10 ^ (Suc k) \<Longrightarrow> length (nat_str n) \<le> Suc k"
proof (induction k arbitrary: n)
  case 0
  then show ?case by (simp add: nat_str.simps)
next
  case (Suc k)
  have "n div 10 < 10 ^ Suc k" using Suc.prems by (simp add: less_mult_imp_div_less)
  from Suc.IH[OF this] show ?case by (subst nat_str.simps) simp
qed

lemma demo_prepare_at:
  assumes h: "h < 7" and hdr: "length header = 320" and conf: "unat conf \<le> h + 1"
    and pend: "\<forall>c. bt_get cs (of_nat (h + 1) - conf) = Some c \<longrightarrow>
      bc_mints_hash_hex c = demo_encode (replicate 32 5) \<and> bc_txo_hash_hex c = demo_encode (replicate 32 6)"
  shows "\<exists>p header'. prepare_height (demo_deps demo_witness_decode) demo_node (demo_config conf) (demo_checkpoint_at h header cs)
      (of_nat (h + 1)) = Inr p \<and> length header' = 320
    \<and> pt_old_header p = header \<and> pt_new_header p = header' \<and> take 32 header' = replicate 32 1
    \<and> pt_next_checkpoint p = demo_checkpoint_at (h + 1) header'
        (next_pending demo_crates cs (of_nat (h + 1)) (of_nat (h + 1) - conf) (pt_evaluation p))
    \<and> ce_mints_hash (pt_evaluation p) = replicate 32 5 \<and> ce_txo_hash (pt_evaluation p) = replicate 32 6
    \<and> map pm_recipient (ce_pending_mints (pt_evaluation p)) = (if h = 0 then [[4]] else [])"
proof -
  let ?H = "demo_helpers_with demo_witness_decode"
  let ?cp = "demo_checkpoint_at h header cs"
  let ?h = "of_nat (h + 1) :: u32"
  let ?f = "?h - conf"
  let ?fs = "\<lparr>fee_flat = from_le_bytes (replicate 8 1), fee_num = from_le_bytes (replicate 8 1),
    fee_den = from_le_bytes (replicate 8 1)\<rparr>"
  have uh: "unat ?h = h + 1" using h by (simp add: unat_of_nat del: of_nat_Suc of_nat_add)
  have f: "checked_sub_u32 ?h conf = Some ?f"
    using conf uh by (simp add: checked_sub_u32_def word_le_nat_alt del: of_nat_Suc of_nat_add)
  have fees: "config_fees (demo_config conf) = Inr ?fs"
    by (simp add: config_fees_def deposit_flat_fee_def deposit_fee_numerator_def deposit_fee_denominator_def
        read_u64_le_def slice_def demo_config_def)
  obtain w where w: "build_deposit_claim_witness demo_crates demo_bridge ?H (demo_block_at (h + 1)) ?cp [9] [[3], [4]] = Inr w"
    "iw_block_header w = blk_header (demo_block_at (h + 1))"
    using demo_build_at[OF h hdr] by blast
  have enc: "witness_encode ?H w = Inr (to_le_bytes 4 ?h)"
    by (simp add: demo_helpers_def w(2) demo_block_at_def del: of_nat_Suc of_nat_add)
  have dec: "witness_decode ?H (to_le_bytes 4 ?h) = Some (demo_witness (h + 1))"
    using uh by (simp add: demo_witness_decode_def u32_le_roundtrip del: of_nat_Suc of_nat_add)
  obtain e where e: "evaluate_claim_witness ?H ?h (iw_claim_witness (demo_witness (h + 1)))
      (bh_merkle_root (blk_header (demo_block_at (h + 1)))) [9] ?fs = Inr e"
    "ce_block_txo_root e = replicate 32 3" "ce_leaf_hashes e = (if h = 0 then [replicate 32 9] else [])"
    "ce_mints_hash e = replicate 32 5" "ce_txo_hash e = replicate 32 6"
    "map pm_recipient (ce_pending_mints e) = (if h = 0 then [[4]] else [])"
    using demo_evaluate_witness[of demo_witness_decode ?h "h + 1"] by fastforce
  define blk where "blk = (case bt_get cs ?f of None \<Rightarrow> None | Some _ \<Rightarrow> Some (demo_block_at (unat ?f)))"
  have blk: "(case bt_get cs ?f of None \<Rightarrow> Inr None
      | Some _ \<Rightarrow> and_then (electrs_block demo_node ?f) (\<lambda>b. Inr (Some b))) = Inr blk"
    by (simp add: blk_def demo_node_def split: option.splits)
  have cond: "bt_get cs ?f = None \<or> blk = Some (demo_block_at (unat ?f))"
    unfolding blk_def by (cases "bt_get cs ?f") (simp_all only: option.case simp_thms)
  obtain c fw m t where c: "resolve_finalized_buffers demo_crates demo_bridge ?H blk (bt_get cs ?f) [9] [[3], [4]] ?fs
      = Inr (c, fw)" "length fw \<le> 8" "bc_mints_hash demo_crates c = Inr m" "bc_txo_hash demo_crates c = Inr t"
      "length m = 32" "length t = 32"
    using demo_resolve[OF pend cond] by blast
  have tip: "demo_tip (demo_state_at h) = of_nat h" using demo_tip_state h by simp
  have app: "append_block demo_chain Regtest (demo_state_at h) ?h b x y z v = Inr (demo_state_at (h + 1))"
    "guest_verify demo_chain Regtest [9] conf wit ?fs (demo_state_at h) = Inr (demo_state_at (h + 1))" for b x y z v wit
    using h by (simp_all add: demo_chain_def uh tip unat_of_nat del: of_nat_Suc of_nat_add)
  have old: "decode_fixed demo_crates header_size (cp_header_hex ?cp) = Inr header"
    using hdr by (simp add: demo_checkpoint_at_def decode_fixed_iff demo_hex header_size_def)
  obtain header' where header': "build_new_solana_header demo_crates demo_bridge header (demo_state_at (h + 1)) conf m t = Inr header'"
    "length header' = 320"
  proof -
    have b: "finalized_commitment demo_bridge s n = Inr (demo_commitment (demo_tip s - n))"
      "state_encode demo_bridge s = Inr s" for s n
      by (simp_all add: demo_bridge_def)
    show thesis
      using build_header_ok[OF demo_bridge_laws demo_hash_laws _ c(5,6) b(1) demo_bridge_simps(4) demo_bridge_simps(4) b(2),
          of header "demo_state_at (h + 1)" conf] hdr that
      by (auto simp: header_size_def)
  qed
  have nx: "next_checkpoint_of demo_crates demo_bridge ?cp ?h ?f e (demo_state_at (h + 1)) header'
      = Inr (demo_checkpoint_at (h + 1) header' (next_pending demo_crates cs ?h ?f e))"
    by (rule demo_next_at[OF h header'(2) e(2,3)])
  let ?request = "\<lparr>rq_request_id = ''block-'' @ nat_str (unat ?h), rq_old_state = hex_encode demo_crates (demo_state_at h),
      rq_witness = hex_encode demo_crates (to_le_bytes 4 ?h), rq_finalized_witness = fw,
      rq_custody_script_config = hex_encode demo_crates [9], rq_required_confirmations = conf,
      rq_flat_fee = fee_flat ?fs, rq_fee_num = fee_num ?fs, rq_fee_den = fee_den ?fs,
      rq_old_header = hex_encode demo_crates header, rq_new_header = hex_encode demo_crates header',
      rq_config_params = hex_encode demo_crates (replicate 48 1)\<rparr>"
  have st: "length (demo_state_at h) = 72"
    using length_demo_root[OF demo_lists(1), of h 1] length_demo_root[OF demo_lists(2), of h 0]
    by (simp add: demo_state_at_def demo_state_def)
  have "length (nat_str (h + 1)) \<le> Suc 0" by (rule length_nat_str) (use h in simp)
  then obtain rb where rb: "request_to_vec demo_serde ?request = Inr rb" "length rb < 2 ^ 32"
    using demo_request_small[of ?request] hdr header'(2) c(2) st uh
    by (auto simp: length_hex_encode[OF demo_hex_laws] simp del: of_nat_Suc of_nat_add)
  have sha: "length (sha256 demo_crates b) = 32" for b by (simp add: demo_crates_def demo_hash_def)
  obtain job where job: "job_new demo_crates demo_serde (network_str Regtest) ?h (sha256_hex demo_crates (str_bytes ''c''))
      (guest_id Regtest) (sha256_hex demo_crates [1, 2, 3]) (hex_encode demo_crates regtest_block_vk_hash) ?request = Inr job"
    using job_new_ok[OF demo_hex_laws demo_hash_laws rb sha sha, of regtest_block_vk_hash "network_str Regtest" "guest_id Regtest" ?h]
    by (auto simp: sha256_hex_def regtest_block_vk_hash_def network_str_def guest_id_def)
  have state: "hex_decode demo_crates (cp_state_hex ?cp) = Some (demo_state_at h)" "cp_height ?cp = of_nat h" "cp_pending ?cp = cs"
    using h by (simp_all add: demo_checkpoint_at_def demo_checkpoint_def demo_hex demo_state_at_def demo_height_txos)
  have front: "validate_frontiers_against_state demo_crates demo_bridge ?cp (demo_state_at h) = Inr ()"
    using demo_frontiers_at h by simp
  have prev: "bh_previous_hash (blk_header (demo_block_at (h + 1))) = tip_block_hash demo_bridge (demo_state_at h)"
    by (simp add: demo_block_at_def demo_raw_block_def demo_block_def demo_bridge_def)
  have node: "electrs_block demo_node ?h = Inr (demo_block_at (h + 1))" "old_state_artifact demo_node = None"
    "witness_artifact demo_node = None" "evidence_file demo_node = None" "elf_file demo_node = Inr [1, 2, 3]"
    using uh by (simp_all add: demo_node_def del: of_nat_Suc of_nat_add)
  have cfg: "cfg_network (demo_config conf) = Regtest" "cfg_custody_script_config (demo_config conf) = [9]"
    "cfg_recipient_atas (demo_config conf) = [[3], [4]]" "cfg_required_confirmations (demo_config conf) = conf"
    "cfg_expected_vk_hash (demo_config conf) = regtest_block_vk_hash" "cfg_config_params (demo_config conf) = replicate 48 1"
    by (simp_all add: demo_config_def)
  have iw: "iw_block_header (demo_witness (h + 1)) = blk_header (demo_block_at (h + 1))" by (simp add: demo_witness_def)
  have "\<exists>p. prepare_height (demo_deps demo_witness_decode) demo_node (demo_config conf) ?cp ?h = Inr p
      \<and> pt_next_checkpoint p = demo_checkpoint_at (h + 1) header' (next_pending demo_crates cs ?h ?f e) \<and> pt_evaluation p = e
      \<and> pt_old_header p = header \<and> pt_new_header p = header'"
    unfolding prepare_height_def Let_def demo_deps_simps cfg node state read_optional_height_artifact_def option.case
      validate_live_deposit_script_def ok_or_simps and_then.simps demo_bridge_simps
    by (simp only: tip front prev w(1) enc dec iw fees e(1) f blk c old header' app nx job and_then.simps ok_or_simps
        prod.case option.case simp_thms if_True if_False prepared.simps not_not) simp
  moreover have "take 32 header' = replicate 32 1"
    using build_header_fields(2)[OF demo_bridge_laws demo_hash_laws _ c(5,6) header'(1)] hdr header_size_def by (simp add: demo_bridge_def demo_commitment_def)
  ultimately show ?thesis using header'(2) e by blast
qed

lemma demo_height_at: "h < 8 \<Longrightarrow> cp_height (demo_checkpoint_at h header cs) = of_nat h"
  by (simp add: demo_checkpoint_at_def demo_checkpoint_def demo_height_txos)

abbreviation demo_start :: pipeline_checkpoint where
  "demo_start \<equiv> demo_checkpoint_at 0 demo_header []"

lemma demo_first_block:
  assumes "unat conf \<le> 1"
  obtains p header' where
    "prepare_height (demo_deps demo_witness_decode) demo_node (demo_config conf) demo_start 1 = Inr p"
    "length header' = 320" "pt_next_checkpoint p = demo_checkpoint_at 1 header' (next_pending demo_crates [] 1 (1 - conf) (pt_evaluation p))"
    "ce_mints_hash (pt_evaluation p) = replicate 32 5" "ce_txo_hash (pt_evaluation p) = replicate 32 6"
    "map pm_recipient (ce_pending_mints (pt_evaluation p)) = [[4]]"
  using demo_prepare_at[of 0 demo_header conf "[]"] assms by (auto simp: demo_header_def)

lemma demo_planned_first:
  assumes "prepare_height (demo_deps demo_witness_decode) demo_node (demo_config conf) demo_start 1 = Inr p"
  shows "planned (demo_deps demo_witness_decode) (demo_config conf) demo_start [p] (pt_next_checkpoint p)"
proof -
  have "checked_add_u32 (cp_height demo_start) 1 = Some 1" by (simp add: demo_height_at checked_add_u32_def)
  from planned_next[OF planned_start this assms] show ?thesis by simp
qed

lemma demo_run:
  obtains p1 p2 where
    "planned (demo_deps demo_witness_decode) (demo_config 1) demo_start [p1, p2] (pt_next_checkpoint p2)"
    "map pm_recipient (ce_pending_mints (pt_evaluation p1)) = [[4]]"
proof -
  obtain p1 header' where p1: "prepare_height (demo_deps demo_witness_decode) demo_node (demo_config 1) demo_start 1 = Inr p1"
    and hdr: "length header' = 320"
    and nx: "pt_next_checkpoint p1 = demo_checkpoint_at 1 header' (next_pending demo_crates [] 1 (1 - 1) (pt_evaluation p1))"
    and e: "ce_mints_hash (pt_evaluation p1) = replicate 32 5" "ce_txo_hash (pt_evaluation p1) = replicate 32 6"
    and m: "map pm_recipient (ce_pending_mints (pt_evaluation p1)) = [[4]]"
    using demo_first_block[of 1] by auto
  let ?cs = "next_pending demo_crates [] 1 (1 - 1) (pt_evaluation p1)"
  have "\<forall>c. bt_get ?cs (of_nat (1 + 1) - 1) = Some c \<longrightarrow>
      bc_mints_hash_hex c = demo_encode (replicate 32 5) \<and> bc_txo_hash_hex c = demo_encode (replicate 32 6)"
    using e unfolding next_pending_def bt_get_remove bt_get_insert
    by (simp add: commitment_from_evaluation_def demo_hex)
  then obtain p2 where p2: "prepare_height (demo_deps demo_witness_decode) demo_node (demo_config 1)
      (demo_checkpoint_at 1 header' ?cs) 2 = Inr p2"
    using demo_prepare_at[of 1 header' 1 ?cs] hdr by auto
  have "checked_add_u32 (cp_height (pt_next_checkpoint p1)) 1 = Some 2"
    by (simp add: nx demo_height_at checked_add_u32_def)
  from planned_next[OF demo_planned_first[OF p1] this, of demo_node p2] p2
  have "planned (demo_deps demo_witness_decode) (demo_config 1) demo_start [p1, p2] (pt_next_checkpoint p2)"
    by (simp add: nx)
  from that[OF this m] show thesis .
qed

lemma commitment_empty_mints: "commitment_empty X B = Inr c \<Longrightarrow> bc_pending_mints c = []"
  by (auto simp: commitment_empty_def)

lemma settled_by:
  assumes "hex_laws (d_crates D)" and "planned D config cp0 ps cp" and "cp_pending cp0 = []"
    and "0 < cfg_required_confirmations config" and "i < length ps"
  shows "if unat (cfg_required_confirmations config) \<le> i
    then pt_finalized_buffers (ps ! i) = commitment_from_evaluation (d_crates D)
           (pt_evaluation (ps ! (i - unat (cfg_required_confirmations config))))
    else commitment_empty (d_crates D) (d_bridge D) = Inr (pt_finalized_buffers (ps ! i))"
proof -
  let ?conf = "unat (cfg_required_confirmations config)"
  obtain b f fs w where f: "unat f + ?conf = unat (cp_height cp0) + i + 1"
    and r: "resolve_finalized_buffers (d_crates D) (d_bridge D) (d_helpers D (cfg_network config)) b
      (waiting (d_crates D) ?conf (unat (cp_height cp0)) (take i ps) f)
      (cfg_custody_script_config config) (cfg_recipient_atas config) fs = Inr (pt_finalized_buffers (ps ! i), w)"
    using finalized_buffers_of[OF assms(2,5,3)] .
  have pos: "0 < ?conf" using assms(4) by (simp add: unat_gt_0 word_gt_0)
  show ?thesis
  proof (cases "?conf \<le> i")
    case True
    then have "unat f - unat (cp_height cp0) - 1 = i - ?conf" using f by simp
    then have "waiting (d_crates D) ?conf (unat (cp_height cp0)) (take i ps) f
        = Some (commitment_from_evaluation (d_crates D) (pt_evaluation (ps ! (i - ?conf))))"
      using True f pos assms(5) by (simp add: waiting_def)
    with r resolve_some[OF assms(1) refl] True show ?thesis by simp
  next
    case False
    then have "waiting (d_crates D) ?conf (unat (cp_height cp0)) (take i ps) f = None"
      using f assms(5) by (auto simp: waiting_def)
    with r resolve_none False show ?thesis by simp
  qed
qed

section \<open>Properties\<close>

text \<open>
  Claim C3. Along any run of the planner that starts with nothing pending, and with at
  least one required confirmation, block \<open>i\<close> settles exactly the deposits of the block that many
  blocks below it: the buffers it submits are the commitment made when that block was evaluated,
  and the first blocks, which have no such block below them, submit empty buffers. So every
  evaluated block is settled once, by one block, with its own mints.
\<close>

theorem deposits_settled_once:
  assumes "hex_laws (d_crates D)" and "planned D config cp0 ps cp" and "cp_pending cp0 = []"
    and "0 < cfg_required_confirmations config" and "i < length ps"
  shows "if unat (cfg_required_confirmations config) \<le> i
    then pt_finalized_buffers (ps ! i) = commitment_from_evaluation (d_crates D)
           (pt_evaluation (ps ! (i - unat (cfg_required_confirmations config))))
    else commitment_empty (d_crates D) (d_bridge D) = Inr (pt_finalized_buffers (ps ! i))"
  using assms by (rule settled_by)

theorem deposits_settled_once_witness:
  "\<exists>ps cp. planned (demo_deps demo_witness_decode) (demo_config 1) demo_start ps cp \<and> length ps = 2
     \<and> map pm_recipient (bc_pending_mints (pt_finalized_buffers (ps ! 1))) = [[4]]"
proof -
  obtain p1 p2 where run: "planned (demo_deps demo_witness_decode) (demo_config 1) demo_start [p1, p2] (pt_next_checkpoint p2)"
    and m: "map pm_recipient (ce_pending_mints (pt_evaluation p1)) = [[4]]"
    by (rule demo_run)
  have "pt_finalized_buffers ([p1, p2] ! 1) = commitment_from_evaluation demo_crates (pt_evaluation p1)"
    using deposits_settled_once[OF _ run, of 1] demo_hex_laws by (simp add: demo_checkpoint_at_def demo_config_def)
  then have "map pm_recipient (bc_pending_mints (pt_finalized_buffers ([p1, p2] ! 1))) = [[4]]"
    using m by (simp add: commitment_from_evaluation_def)
  then show ?thesis using run by (intro exI[of _ "[p1, p2]"] exI[of _ "pt_next_checkpoint p2"]) simp
qed

text \<open>
  Claim C40. With no required confirmations, which the validation of the configuration
  accepts, every block submits empty buffers, whatever deposits were evaluated: its commitment is
  inserted and removed again in the same step, so no deposit is ever minted.
\<close>

theorem zero_confirmations_lose_deposits:
  assumes "planned D config cp0 ps cp" and "cp_pending cp0 = []"
    and "cfg_required_confirmations config = 0" and "i < length ps"
  shows "commitment_empty (d_crates D) (d_bridge D) = Inr (pt_finalized_buffers (ps ! i))"
proof -
  obtain b f fs w where
    r: "resolve_finalized_buffers (d_crates D) (d_bridge D) (d_helpers D (cfg_network config)) b
      (waiting (d_crates D) (unat (cfg_required_confirmations config)) (unat (cp_height cp0)) (take i ps) f)
      (cfg_custody_script_config config) (cfg_recipient_atas config) fs = Inr (pt_finalized_buffers (ps ! i), w)"
    using finalized_buffers_of[OF assms(1,4,2)] .
  have "waiting (d_crates D) (unat (cfg_required_confirmations config)) (unat (cp_height cp0)) (take i ps) f = None"
    using assms(3) by (auto simp: waiting_def)
  with r show ?thesis using resolve_none by simp
qed

theorem zero_confirmations_lose_deposits_witness:
  "\<exists>p cp. planned (demo_deps demo_witness_decode) (demo_config 0) demo_start [p] cp
     \<and> map pm_recipient (ce_pending_mints (pt_evaluation p)) = [[4]]
     \<and> bc_pending_mints (pt_finalized_buffers p) = [] \<and> bt_get (cp_pending cp) 1 = None"
proof -
  obtain p header' where p: "prepare_height (demo_deps demo_witness_decode) demo_node (demo_config 0) demo_start 1 = Inr p"
    and nx: "pt_next_checkpoint p = demo_checkpoint_at 1 header' (next_pending demo_crates [] 1 (1 - 0) (pt_evaluation p))"
    and m: "map pm_recipient (ce_pending_mints (pt_evaluation p)) = [[4]]"
  proof -
    have "unat (0 :: u32) \<le> 1" by simp
    then show thesis by (rule demo_first_block) (rule that)
  qed
  note run = demo_planned_first[OF p]
  have "commitment_empty demo_crates demo_bridge = Inr (pt_finalized_buffers p)"
    using zero_confirmations_lose_deposits[OF run, of 0] by (simp add: demo_checkpoint_at_def demo_config_def)
  then have "bc_pending_mints (pt_finalized_buffers p) = []" by (rule commitment_empty_mints)
  moreover have "bt_get (cp_pending (pt_next_checkpoint p)) 1 = None"
    by (simp add: nx demo_checkpoint_at_def next_pending_def bt_get_remove)
  ultimately show ?thesis using run m
    by - (rule exI[of _ p], rule exI[of _ "pt_next_checkpoint p"], intro conjI)
qed

text \<open>
  Claim C12. A prepared transition extends its checkpoint by the block at its height: the block
  links to the tip of the decoded state, the helper and the guest agree on the next state, and the
  next checkpoint holds that state and the new header, appends the leaves to its histories and
  passes its own validation. The proof job is valid, is for that height and these headers, and
  names the checkpoint it starts from.
\<close>

theorem prepared_transition_extends_checkpoint:
  assumes "prepare_height D N config cp height = Inr p"
  shows "\<exists>old_state block witness fs new_state sb json.
      state_decode (d_bridge D) (pt_old_state_bytes p) = Some old_state
    \<and> tip_number (d_bridge D) old_state = cp_height cp
    \<and> electrs_block N height = Inr block
    \<and> bh_previous_hash (blk_header block) = tip_block_hash (d_bridge D) old_state
    \<and> append_block (d_chain D) (cfg_network config) old_state height (blk_header block)
        (tr_txo_root (ce_transition (pt_evaluation p))) (tr_claim_root (ce_transition (pt_evaluation p)))
        (tr_end_index (ce_transition (pt_evaluation p))) (tr_fees (ce_transition (pt_evaluation p))) = Inr new_state
    \<and> guest_verify (d_chain D) (cfg_network config) (cfg_custody_script_config config)
        (cfg_required_confirmations config) witness fs old_state = Inr new_state
    \<and> iw_block_header witness = blk_header block
    \<and> state_encode (d_bridge D) new_state = Inr sb
    \<and> cp_height (pt_next_checkpoint p) = height
    \<and> cp_state_hex (pt_next_checkpoint p) = hex_encode (d_crates D) sb
    \<and> cp_header_hex (pt_next_checkpoint p) = hex_encode (d_crates D) (pt_new_header p)
    \<and> cp_claim_history (pt_next_checkpoint p) = cp_claim_history cp @ ce_leaf_hashes (pt_evaluation p)
    \<and> cp_txo_history (pt_next_checkpoint p)
        = (if cp_txo_history cp = [] then [] else cp_txo_history cp @ [ce_block_txo_root (pt_evaluation p)])
    \<and> validate_checkpoint (d_crates D) (d_bridge D) (pt_next_checkpoint p) = Inr ()
    \<and> job_validate (d_crates D) (d_serde D) (pt_proof_job p) = Inr ()
    \<and> job_height (pt_proof_job p) = height
    \<and> rq_old_header (job_request (pt_proof_job p)) = hex_encode (d_crates D) (pt_old_header p)
    \<and> rq_new_header (job_request (pt_proof_job p)) = hex_encode (d_crates D) (pt_new_header p)
    \<and> d_checkpoint_to_string D cp = Inr json
    \<and> job_parent (pt_proof_job p) = sha256_hex (d_crates D) (str_bytes json)"
  using assms
proof (rule prepare_heightE, goal_cases)
  case (1 osb old_state block witness fs fb fw new_state mh th sb request json elf)
  note n = next_checkpoint_ok[OF 1(20)] and j = job_new_fields[OF 1(23)]
  show ?case
    by (rule exI[of _ old_state], rule exI[of _ block], rule exI[of _ witness], rule exI[of _ fs],
        rule exI[of _ new_state], rule exI[of _ sb], rule exI[of _ json])
      (use 1 n j in simp)
qed

theorem prepared_transition_extends_checkpoint_witness:
  "\<exists>p. prepare_height (demo_deps demo_witness_decode) demo_node (demo_config 1) demo_start 1 = Inr p
     \<and> validate_checkpoint demo_crates demo_bridge (pt_next_checkpoint p) = Inr ()
     \<and> cp_claim_history (pt_next_checkpoint p) = ce_leaf_hashes (pt_evaluation p)
     \<and> job_validate demo_crates demo_serde (pt_proof_job p) = Inr () \<and> job_height (pt_proof_job p) = 1"
proof -
  obtain p where p: "prepare_height (demo_deps demo_witness_decode) demo_node (demo_config 1) demo_start 1 = Inr p"
    using demo_first_block[of 1] by auto
  have "cp_claim_history demo_start = []"
    by (simp add: demo_checkpoint_at_def demo_checkpoint_def demo_claims_def)
  then show ?thesis using prepared_transition_extends_checkpoint[OF p] p by auto
qed

text \<open>
  The first checkpoint may start at height 999999 or 1000000, with one history
  entry per height; no block can ever be prepared from it, because the next checkpoint would have
  more entries than its validation allows.
\<close>

theorem start_at_history_limit_is_stuck:
  assumes "initialize_checkpoint D N config = Inr cp" and "999999 \<le> cp_height cp" and "cp_height cp \<le> 1000000"
  shows "\<not> is_ok (prepare_height D N' config' cp height)"
proof
  assume "is_ok (prepare_height D N' config' cp height)"
  then obtain p where "prepare_height D N' config' cp height = Inr p" by (auto simp: is_ok_iff)
  then obtain sb where "next_checkpoint_of (d_crates D) (d_bridge D) cp height (pt_finalized_height p)
      (pt_evaluation p) sb (pt_new_header p) = Inr (pt_next_checkpoint p)"
    by (rule prepare_heightE)
  note n = next_checkpoint_ok(5)[OF this] validate_checkpoint_ok(2)[OF next_checkpoint_ok(7)[OF this]]
  have "length (cp_txo_history cp) = unat (cp_height cp) + 1"
    using assms(1,3) by (auto simp: initialize_checkpoint_def Let_def split: if_splits)
  moreover have "999999 \<le> unat (cp_height cp)" using assms(2) by (simp add: word_le_nat_alt)
  ultimately show False using n by (auto split: if_splits)
qed

theorem start_at_history_limit_is_stuck_witness:
  "\<exists>cp. initialize_checkpoint (demo_deps demo_witness_decode) (demo_node\<lparr>electrs_height := Inr 1000000\<rparr>) (demo_config 1)
     = Inr cp \<and> \<not> is_ok (prepare_height (demo_deps demo_witness_decode) demo_node (demo_config 1) cp 1000000)"
proof -
  let ?N = "demo_node\<lparr>electrs_height := Inr 1000000\<rparr>"
  have "\<exists>cp. initialize_checkpoint (demo_deps demo_witness_decode) ?N (demo_config 1) = Inr cp \<and> cp_height cp = 999999"
    by (simp add: initialize_checkpoint_def Let_def saturating_sub_def demo_config_def demo_node_def demo_bridge_def)
  then obtain cp where cp: "initialize_checkpoint (demo_deps demo_witness_decode) ?N (demo_config 1) = Inr cp"
    "cp_height cp = 999999" by blast
  from start_at_history_limit_is_stuck[OF cp(1)] cp show ?thesis by auto
qed

text \<open>
  Recovery from the archive of a proven block, when the chain already has the proven
  header, stores exactly the checkpoint the pipeline had prepared for that block. It writes nothing
  else: the checkpoint is promoted without the pending mints of the block being processed.
\<close>

theorem archive_recovery_restores_prepared_checkpoint:
  assumes "hex_laws (d_crates D)" and "validate_config E debug config = Inr ()"
    and "strings db (redis_checkpoint_key config) = Some json" and "d_checkpoint_from_str D json = Some cp"
    and "validate_checkpoint (d_crates D) (d_bridge D) cp = Inr ()"
    and "checked_add_u32 (cp_height cp) 1 = Some height"
    and "prepare_height D N config cp height = Inr p" and "old_state_artifact N = None"
    and "archive = \<lparr>ar_old_state = Inr (pt_old_state_bytes p), ar_old_header = Inr (pt_old_header p),
                    ar_witness = Inr (pt_witness_bytes p), ar_new_header = Inr (pt_new_header p)\<rparr>"
    and "read_keypair E (cfg_operator_keypair config) = Some operator"
    and "read_keypair E (cfg_payer_keypair config) = Some payer"
    and "d_checkpoint_to_string D (pt_next_checkpoint p) = Inr json'"
  shows "recover_checkpoint_from_proof_archive D E debug N config archive (Inr (pt_new_header p)) (Inr ()) db
    = (db\<lparr>strings := (strings db)(redis_checkpoint_key config \<mapsto> json')\<rparr>, Inr height)"
  using assms(7)
proof (rule prepare_heightE, goal_cases)
  case (1 osb old_state block witness fs fb fw new_state mh th sb request cp_json elf)
  note n = next_checkpoint_ok[OF 1(20)]
  have osb: "hex_decode (d_crates D) (cp_state_hex cp) = Some osb"
    using 1(1) assms(8) by (auto simp: read_optional_height_artifact_def)
  have hdr: "hex_decode (d_crates D) (cp_header_hex cp) = Some (pt_old_header p)"
    using 1(15) by (simp add: decode_fixed_iff)
  have len: "length (pt_new_header p) = header_size"
    using validate_checkpoint_ok(6)[OF n(7)] n(3) hex_decode_encode[OF assms(1)] by auto
  have match: "assert_checkpoint_matches_chain (d_crates D) (pt_next_checkpoint p) (pt_new_header p) = Inr ()"
    using len n(3) hex_decode_encode[OF assms(1)] by (simp add: assert_matches_iff)
  have "recovered_checkpoint D E debug N config archive (Inr (pt_new_header p)) db = Inr (pt_next_checkpoint p)"
    using assms 1 osb hdr match
    by (simp add: recovered_checkpoint_def Let_def read_pipeline_keypair_def)
  then show ?case
    using assms(12) n(1) by (simp add: recover_checkpoint_from_proof_archive_def)
qed

definition demo_host :: host where
  "demo_host =
     \<lparr>is_file = (\<lambda>_. True), read_keypair = (\<lambda>_. Some [7]), find_program_address = (\<lambda>_ _. [9])\<rparr>"

lemma demo_config_valid: "validate_config demo_host False (demo_config conf) = Inr ()"
proof -
  have "replicate 8 1 = [1, 1, 1, 1, 1, 1, 1, 1 :: u8]" by (simp add: numeral_eq_Suc)
  then have "(from_le_bytes (replicate 8 1) :: u64) \<noteq> 0" by (simp add: from_le_bytes_def)
  moreover have "[9] \<noteq> replicate 32 (0 :: u8)" by (simp add: list_eq_iff_nth_eq)
  ultimately show ?thesis
    by (simp add: validate_config_def Let_def validate_gen_proof_path_def ensure_release_path_def demo_config_def demo_host_def
        regtest_block_vk_hash_def default_vk_hash_def trim_eq_Nil is_whitespace_def deposit_fee_denominator_def
        read_u64_le_def slice_def read_pipeline_keypair_def)
qed

theorem archive_recovery_restores_prepared_checkpoint_witness:
  "\<exists>p. prepare_height (demo_deps demo_witness_decode) demo_node (demo_config 1) demo_start 1 = Inr p
     \<and> recover_checkpoint_from_proof_archive (demo_deps demo_witness_decode) demo_host False demo_node (demo_config 1)
         \<lparr>ar_old_state = Inr (pt_old_state_bytes p), ar_old_header = Inr (pt_old_header p),
          ar_witness = Inr (pt_witness_bytes p), ar_new_header = Inr (pt_new_header p)\<rparr>
         (Inr (pt_new_header p)) (Inr ())
         \<lparr>strings = [redis_checkpoint_key (demo_config 1) \<mapsto> ''x''], lists = (\<lambda>_. [])\<rparr>
       = (\<lparr>strings = [redis_checkpoint_key (demo_config 1) \<mapsto> ''c''], lists = (\<lambda>_. [])\<rparr>, Inr 1)"
proof -
  let ?db = "\<lparr>strings = [redis_checkpoint_key (demo_config 1) \<mapsto> ''x''], lists = (\<lambda>_. [])\<rparr>"
  obtain p where p: "prepare_height (demo_deps demo_witness_decode) demo_node (demo_config 1) demo_start 1 = Inr p"
    using demo_first_block[of 1] by auto
  have v: "validate_checkpoint (d_crates (demo_deps demo_witness_decode)) (d_bridge (demo_deps demo_witness_decode)) demo_start = Inr ()"
    by (simp add: demo_valid_at demo_header_def)
  have k: "read_keypair demo_host q = Some [7]" for q by (simp add: demo_host_def)
  have "checked_add_u32 (cp_height demo_start) 1 = Some 1" by (simp add: demo_height_at checked_add_u32_def)
  note rec = archive_recovery_restores_prepared_checkpoint[OF _ demo_config_valid _ _ v this p _ refl k k]
  show ?thesis using rec[of ?db "''x''" "''c''"] p demo_hex_laws by (simp add: demo_node_def)
qed

end
