(* ===== verification/Effects.thy ===== *)
theory Effects
  imports Prelude
begin

text \<open>
  Programs that are sequences of effects on a world outside the process (Redis, files, a remote
  service), and what can happen to them.

  A program takes a list of fates, one per effect, and the world. When the list is used up the
  process has been killed. So a statement about all lists of fates covers every crash and every
  failure. \<open>keeps\<close> is a Hoare triple with a second postcondition \<open>I\<close> that holds wherever the
  program may stop short of its end; \<open>completes\<close> says that with enough fates \<open>Applied\<close> the
  program reaches its end.
\<close>

section \<open>Effects and their fates\<close>

text \<open>
  \<open>Applied\<close>: done and answered. \<open>Lost\<close>: not done, an error. \<open>Late\<close>: done, but the answer is an error.
  \<open>Partial n\<close>: \<open>n\<close> parts of the operation are done, then a transient error; where the operation has
  no parts it is \<open>Lost\<close>.
\<close>

datatype fate = Applied | Lost | Late | Partial nat

type_synonym ('w, 'a) io = "fate list \<times> 'w \<Rightarrow> (fate list \<times> 'w) \<times> 'a res"

definition io_then :: "('w, 'a) io \<Rightarrow> ('a \<Rightarrow> ('w, 'b) io) \<Rightarrow> ('w, 'b) io" where
  "io_then m f = (\<lambda>s. case m s of (s', Inl e) \<Rightarrow> (s', Inl e) | (s', Inr x) \<Rightarrow> f x s')"

definition io_lift :: "'a res \<Rightarrow> ('w, 'a) io" where
  "io_lift r = (\<lambda>s. (s, r))"

definition io_get :: "('w \<Rightarrow> 'a) \<Rightarrow> ('w, 'a) io" where
  "io_get g = (\<lambda>(fates, w). ((fates, w), Inr (g w)))"

text \<open>A change of the process's own memory: it cannot fail.\<close>

definition io_update :: "('w \<Rightarrow> 'w) \<Rightarrow> ('w, unit) io" where
  "io_update f = (\<lambda>(fates, w). ((fates, f w), Inr ()))"

text \<open>An operation with effect \<open>f\<close> and answer \<open>g\<close>.\<close>

definition effect :: "('w \<Rightarrow> 'w) \<Rightarrow> ('w \<Rightarrow> 'a) \<Rightarrow> ('w, 'a) io" where
  "effect f g = (\<lambda>(fates, w).
     case fates of
       [] \<Rightarrow> (([], w), Inl (Panic ''killed''))
     | Applied # rest \<Rightarrow> ((rest, f w), Inr (g w))
     | Late # rest \<Rightarrow> ((rest, f w), Inl (Err ''answer lost''))
     | _ # rest \<Rightarrow> ((rest, w), Inl (Err ''operation failed'')))"

section \<open>Whatever happens\<close>

definition keeps :: "('w \<Rightarrow> bool) \<Rightarrow> ('w \<Rightarrow> bool) \<Rightarrow> ('w, 'a) io \<Rightarrow> ('a \<Rightarrow> 'w \<Rightarrow> bool) \<Rightarrow> bool" where
  "keeps I P m Q \<longleftrightarrow>
     (\<forall>fates w fates' w' r. P w \<longrightarrow> m (fates, w) = ((fates', w'), r) \<longrightarrow>
        (\<forall>e. r = Inl e \<longrightarrow> I w') \<and> (\<forall>x. r = Inr x \<longrightarrow> Q x w'))"

named_theorems keeps_rules

lemma keepsI:
  assumes "\<And>fates w fates' w' e. \<lbrakk>P w; m (fates, w) = ((fates', w'), Inl e)\<rbrakk> \<Longrightarrow> I w'"
    and "\<And>fates w fates' w' x. \<lbrakk>P w; m (fates, w) = ((fates', w'), Inr x)\<rbrakk> \<Longrightarrow> Q x w'"
  shows "keeps I P m Q"
  using assms unfolding keeps_def by blast

lemma keeps_error: "keeps I P m Q \<Longrightarrow> P w \<Longrightarrow> m (fates, w) = ((fates', w'), Inl e) \<Longrightarrow> I w'"
  unfolding keeps_def by blast

lemma keeps_value: "keeps I P m Q \<Longrightarrow> P w \<Longrightarrow> m (fates, w) = ((fates', w'), Inr x) \<Longrightarrow> Q x w'"
  unfolding keeps_def by blast

lemma keeps_pre:
  assumes "keeps I P m Q" and "\<And>w. P' w \<Longrightarrow> P w"
  shows "keeps I P' m Q"
  using assms unfolding keeps_def by blast

lemma keeps_post:
  assumes "keeps I P m Q" and "\<And>x w. Q x w \<Longrightarrow> Q' x w"
  shows "keeps I P m Q'"
  by (rule keepsI) (auto dest: keeps_error[OF assms(1)] keeps_value[OF assms(1)] assms(2))

lemma keeps_cases:
  assumes "keeps I P m Q" and "keeps I P' m Q"
  shows "keeps I (\<lambda>w. P w \<or> P' w) m Q"
  using assms unfolding keeps_def by blast

lemma keeps_contradiction:
  assumes "\<And>w. P w \<Longrightarrow> False"
  shows "keeps I P m Q"
  using assms unfolding keeps_def by blast

lemma keeps_ex:
  assumes "\<And>x. keeps I (P x) m Q"
  shows "keeps I (\<lambda>w. \<exists>x. P x w) m Q"
  using assms unfolding keeps_def by blast

lemma keeps_weaken:
  assumes "keeps J P m Q" and "\<And>w. J w \<Longrightarrow> I w"
  shows "keeps I P m Q"
  using assms unfolding keeps_def by blast

lemma keeps_pure:
  assumes "F \<Longrightarrow> keeps I P m Q"
  shows "keeps I (\<lambda>w. P w \<and> F) m Q"
  using assms unfolding keeps_def by blast

lemma io_then_run:
  "io_then m f s = (let (s', r) = m s in case r of Inl e \<Rightarrow> (s', Inl e) | Inr x \<Rightarrow> f x s')"
  by (simp add: io_then_def split: prod.split sum.split)

lemma keeps_then [keeps_rules]:
  assumes "keeps I P m Q" and "\<And>x. keeps I (Q x) (f x) R"
  shows "keeps I P (io_then m f) R"
  unfolding keeps_def
proof (intro allI impI)
  fix fates w fates' w' r
  assume P: "P w" and run: "io_then m f (fates, w) = ((fates', w'), r)"
  obtain fates1 w1 r1 where m: "m (fates, w) = ((fates1, w1), r1)" by (metis prod.exhaust)
  show "(\<forall>e. r = Inl e \<longrightarrow> I w') \<and> (\<forall>x. r = Inr x \<longrightarrow> R x w')"
  proof (cases r1)
    case (Inl e)
    then show ?thesis using run m keeps_error[OF assms(1) P] by (auto simp: io_then_run)
  next
    case (Inr x)
    then have Q: "Q x w1" using keeps_value[OF assms(1) P] m by simp
    from Inr run m have "f x (fates1, w1) = ((fates', w'), r)" by (simp add: io_then_run)
    then show ?thesis
      using keeps_error[OF assms(2) Q] keeps_value[OF assms(2) Q] by blast
  qed
qed

lemma keeps_lift [keeps_rules]:
  assumes "\<And>w e. P w \<Longrightarrow> r = Inl e \<Longrightarrow> I w" and "\<And>w x. P w \<Longrightarrow> r = Inr x \<Longrightarrow> Q x w"
  shows "keeps I P (io_lift r) Q"
  using assms unfolding keeps_def io_lift_def by blast

lemma keeps_get [keeps_rules]:
  assumes "\<And>w. P w \<Longrightarrow> Q (g w) w"
  shows "keeps I P (io_get g) Q"
  using assms unfolding keeps_def io_get_def by simp

lemma keeps_update [keeps_rules]:
  assumes "\<And>w. P w \<Longrightarrow> Q () (f w)"
  shows "keeps I P (io_update f) Q"
  using assms unfolding keeps_def io_update_def by simp

text \<open>An effect may stop the program before it is done and after.\<close>

lemma keeps_effect [keeps_rules]:
  assumes "\<And>w. P w \<Longrightarrow> I w" and "\<And>w. P w \<Longrightarrow> I (f w)" and "\<And>w. P w \<Longrightarrow> Q (g w) (f w)"
  shows "keeps I P (effect f g) Q"
  using assms unfolding keeps_def effect_def by (auto split: list.splits fate.splits)

section \<open>When nothing goes wrong\<close>

definition smooth :: "nat \<Rightarrow> fate list \<Rightarrow> bool" where
  "smooth n fates \<longleftrightarrow> n \<le> length fates \<and> set fates \<subseteq> {Applied}"

definition completes :: "nat \<Rightarrow> ('w \<Rightarrow> bool) \<Rightarrow> ('w, 'a) io \<Rightarrow> ('a \<Rightarrow> 'w \<Rightarrow> bool) \<Rightarrow> bool" where
  "completes n P m Q \<longleftrightarrow>
     (\<forall>k fates w. P w \<and> smooth (n + k) fates \<longrightarrow>
        (\<exists>fates' w' x. m (fates, w) = ((fates', w'), Inr x) \<and> smooth k fates' \<and> Q x w'))"

named_theorems completes_rules

lemma smooth_mono: "smooth n fates \<Longrightarrow> m \<le> n \<Longrightarrow> smooth m fates"
  by (auto simp: smooth_def)

lemma smooth_Suc: "smooth (Suc n) fates \<longleftrightarrow> (\<exists>rest. fates = Applied # rest \<and> smooth n rest)"
  by (cases fates) (auto simp: smooth_def)

lemma smooth_replicate: "smooth n (replicate n Applied)"
  by (auto simp: smooth_def)

lemma completesD:
  assumes "completes n P m Q" and "P w" and "smooth (n + k) fates"
  obtains fates' w' x where "m (fates, w) = ((fates', w'), Inr x)" "smooth k fates'" "Q x w'"
  using assms unfolding completes_def by blast

lemma completes_pre:
  assumes "completes n P m Q" and "\<And>w. P' w \<Longrightarrow> P w"
  shows "completes n P' m Q"
  using assms unfolding completes_def by blast

lemma completes_more:
  assumes "completes n P m Q" and "n \<le> n'"
  shows "completes n' P m Q"
  unfolding completes_def
proof (intro allI impI)
  fix k fates w
  assume *: "P w \<and> smooth (n' + k) fates"
  then have "smooth (n + k) fates" using assms(2) smooth_mono[of "n' + k" fates "n + k"] by simp
  with completesD[OF assms(1)] *
  show "\<exists>fates' w' x. m (fates, w) = ((fates', w'), Inr x) \<and> smooth k fates' \<and> Q x w'"
    by blast
qed

lemma completes_pure:
  assumes "F \<Longrightarrow> completes n P m Q"
  shows "completes n (\<lambda>w. P w \<and> F) m Q"
  using assms unfolding completes_def by blast

lemma completes_then [completes_rules]:
  assumes "completes n P m Q" and "\<And>x. completes n' (Q x) (f x) R"
  shows "completes (n + n') P (io_then m f) R"
  unfolding completes_def
proof (intro allI impI)
  fix k fates w
  assume "P w \<and> smooth (n + n' + k) fates"
  then have "P w" and "smooth (n + (n' + k)) fates" by (simp_all add: add.assoc)
  from completesD[OF assms(1) this]
  obtain fates1 w1 x where 1: "m (fates, w) = ((fates1, w1), Inr x)" "smooth (n' + k) fates1" "Q x w1" .
  from completesD[OF assms(2) 1(3) 1(2)]
  obtain fates2 w2 y where "f x (fates1, w1) = ((fates2, w2), Inr y)" "smooth k fates2" "R y w2" .
  with 1 show "\<exists>fates' w' x. io_then m f (fates, w) = ((fates', w'), Inr x) \<and> smooth k fates' \<and> R x w'"
    by (simp add: io_then_def)
qed

lemma completes_seq:
  assumes "n + n' \<le> k" and "completes n P m Q" and "\<And>x. completes n' (Q x) (f x) R"
  shows "completes k P (io_then m f) R"
  using completes_more[OF completes_then[OF assms(2,3)] assms(1)] .

lemma completes_lift [completes_rules]:
  assumes "\<And>w. P w \<Longrightarrow> \<exists>x. r = Inr x \<and> Q x w"
  shows "completes n P (io_lift r) Q"
proof (rule completes_more[of 0])
  show "completes 0 P (io_lift r) Q"
  unfolding completes_def io_lift_def
proof (intro allI impI)
  fix k fates w
  assume "P w \<and> smooth (0 + k) fates"
  with assms[of w] obtain x where "r = Inr x" "Q x w" "smooth k fates" by auto
  then show "\<exists>fates' w' x. ((fates, w), r) = ((fates', w'), Inr x) \<and> smooth k fates' \<and> Q x w'"
    by simp
qed
qed simp

lemma completes_get [completes_rules]:
  assumes "\<And>w. P w \<Longrightarrow> Q (g w) w"
  shows "completes 0 P (io_get g) Q"
  using assms unfolding completes_def io_get_def by simp

lemma completes_update [completes_rules]:
  assumes "\<And>w. P w \<Longrightarrow> Q () (f w)"
  shows "completes 0 P (io_update f) Q"
  using assms unfolding completes_def io_update_def by simp

lemma completes_one [completes_rules]:
  assumes "\<And>w. P w \<Longrightarrow> Q (g w) (f w)"
  shows "completes 1 P (effect f g) Q"
  using assms unfolding completes_def effect_def by (auto simp: smooth_Suc)

lemma completes_keeps:
  assumes "completes n P m (\<lambda>_ _. True)" and "keeps I P m Q"
  shows "completes n P m Q"
  unfolding completes_def
proof (intro allI impI)
  fix k fates w
  assume *: "P w \<and> smooth (n + k) fates"
  then obtain fates' w' x where "m (fates, w) = ((fates', w'), Inr x)" "smooth k fates'"
    using completesD[OF assms(1)] by blast
  with keeps_value[OF assms(2)] *
  show "\<exists>fates' w' x. m (fates, w) = ((fates', w'), Inr x) \<and> smooth k fates' \<and> Q x w'" by blast
qed

end
