(* ===== verification/Recovery.thy ===== *)
theory Recovery
  imports Prepare Retry Effects
begin

text \<open>
  The commit of a prepared block (\<open>commit_prepared\<close> and the functions it calls) and the recovery at
  the next start (\<open>plan_journal_recovery\<close>, \<open>reconcile_checkpoint_journal\<close>).

  A commit is a sequence of effects on Redis, the files, the sender and the chain. It may stop at
  any of them: the process may be killed, or the operation may fail with or without having had its
  effect. A program here takes a list of fates, one per effect; when the list is used up the process
  is killed. So a statement about all lists of fates covers every crash and every failure.

  The values under the two Redis keys are kept parsed: an absent journal, one that does not parse,
  or a journal. The Solana programs are the record \<open>program\<close> of functions over an abstract chain
  \<open>'c\<close>; the locale \<open>bridge_program\<close> states what the code relies on: the upload of buffers changes neither header
  nor mints, an accepted update sets the header and starts a new count of claimed mints, and
  processing pays out the mints not yet claimed, in order.
\<close>

section \<open>Errors of the Solana client\<close>

datatype solana_error =
    SolanaIo io_error_kind
  | SolanaReqwest reqwest_error
  | SolanaMiddleware error_chain
  | RpcRequestError
  | RpcResponseError int
  | OtherSolanaError

datatype bridge_error = Rpc solana_error | RateLimited u64 | ConnectionTimeout | ConfirmationTimeout | OtherBridgeError

definition is_retryable_solana_client_error :: "solana_error \<Rightarrow> bool" where
  "is_retryable_solana_client_error e =
     (case e of
        SolanaIo kind \<Rightarrow> is_retryable_io_kind kind
      | SolanaReqwest error \<Rightarrow>
          err_timeout error \<or> err_connect error \<or> err_request error \<or> err_body error
          \<or> has_retryable_io_source (err_sources error)
      | SolanaMiddleware sources \<Rightarrow> has_retryable_io_source sources
      | RpcRequestError \<Rightarrow> True
      | RpcResponseError code \<Rightarrow> code \<in> {429, -32004, -32005, -32007, -32009}
      | OtherSolanaError \<Rightarrow> False)"

definition is_retryable_bridge_error :: "bridge_error \<Rightarrow> bool" where
  "is_retryable_bridge_error e =
     (case e of
        Rpc error \<Rightarrow> is_retryable_solana_client_error error
      | RateLimited _ \<Rightarrow> True
      | ConnectionTimeout \<Rightarrow> True
      | ConfirmationTimeout \<Rightarrow> False
      | OtherBridgeError \<Rightarrow> False)"

definition retry_bridge_network ::
  "retry_policy \<Rightarrow> (nat \<Rightarrow> bridge_error + 't) \<Rightarrow> (nat \<Rightarrow> duration) \<Rightarrow> (nat \<Rightarrow> duration)
     \<Rightarrow> ((bridge_error + 't) \<times> duration list) option" where
  "retry_bridge_network p replies spent lags =
     retry_run p
       \<lparr>call_outcome = (\<lambda>n. case replies n of
          Inr v \<Rightarrow> Success v
        | Inl e \<Rightarrow> if is_retryable_bridge_error e then Retry e else Fatal e),
        call_time = spent, oversleep = lags\<rparr>"

section \<open>The journal\<close>

record uploaded_buffers =
  ub_mint_buffer :: bytes
  ub_mint_buffer_bump :: u8
  ub_txo_buffer :: bytes
  ub_txo_buffer_bump :: u8

record mint_progress_record =
  mp_signatures :: "string list"
  mp_groups_processed :: nat
  mp_total_mints_processed :: nat

record mint_processing_evidence =
  me_signatures :: "string list"
  me_groups_processed :: nat
  me_total_mints_processed :: nat

definition mint_progress_of :: "mint_processing_evidence \<Rightarrow> mint_progress_record" where
  "mint_progress_of e =
     \<lparr>mp_signatures = me_signatures e, mp_groups_processed = me_groups_processed e,
      mp_total_mints_processed = me_total_mints_processed e\<rparr>"

record checkpoint_journal =
  cj_checkpoint :: pipeline_checkpoint
  cj_uploaded_buffers :: "uploaded_buffers option"
  cj_finalized_commitment :: "buffer_commitment option"
  cj_submission_signature :: "string option"
  cj_mint_progress :: "mint_progress_record option"

record process_mints_result =
  pm_fully_completed :: bool
  pm_total_mints_processed :: nat
  pm_groups_processed :: nat
  pm_signatures :: "string list"

definition mint_recovery_succeeded :: "process_mints_result \<Rightarrow> unit res" where
  "mint_recovery_succeeded r =
     bail_if (\<not> pm_fully_completed r) ''mint recovery did not fully complete pending mints''"

datatype stale_journal_action = JournalUpToDate | DiscardRaw

definition stale_journal_action :: "bool \<Rightarrow> bool \<Rightarrow> stale_journal_action" where
  "stale_journal_action committed_matches_chain journal_present =
     (if committed_matches_chain then (if journal_present then DiscardRaw else JournalUpToDate)
      else JournalUpToDate)"

datatype journal_recovery_plan =
    PlanUpToDate
  | DiscardStaleJournal
  | PromoteCheckpoint pipeline_checkpoint
  | CompleteMint pipeline_checkpoint buffer_commitment uploaded_buffers
  | FailClosed string

definition saturating_add_u32 :: "u32 \<Rightarrow> u32 \<Rightarrow> u32" where
  "saturating_add_u32 a b = (if unat a + unat b < 2 ^ 32 then a + b else - 1)"

definition plan_journal_recovery ::
  "crates \<Rightarrow> pipeline_checkpoint \<Rightarrow> bytes \<Rightarrow> checkpoint_journal option \<Rightarrow> journal_recovery_plan" where
  "plan_journal_recovery X cp chain_header journal =
     (if is_ok (assert_checkpoint_matches_chain X cp chain_header) then
        (if journal \<noteq> None then DiscardStaleJournal else PlanUpToDate)
      else case journal of
        None \<Rightarrow> FailClosed ''on-chain bridge header advanced without a pending journal''
      | Some j \<Rightarrow>
          if cp_height (cj_checkpoint j) \<noteq> saturating_add_u32 (cp_height cp) 1
          then FailClosed ''checkpoint journal height is not exactly one above committed checkpoint height''
          else if \<not> is_ok (assert_checkpoint_matches_chain X (cj_checkpoint j) chain_header)
          then FailClosed ''journal checkpoint does not match the advanced on-chain bridge header''
          else if cj_mint_progress j \<noteq> None then PromoteCheckpoint (cj_checkpoint j)
          else case cj_finalized_commitment j of
            None \<Rightarrow> FailClosed ''the journal lacks the finalized commitment''
          | Some finalized \<Rightarrow>
              (case cj_uploaded_buffers j of
                 None \<Rightarrow> FailClosed ''the journal lacks the uploaded buffer addresses''
               | Some uploaded \<Rightarrow> CompleteMint (cj_checkpoint j) finalized uploaded))"

section \<open>The chain and the world\<close>

record submission =
  su_idempotency_key :: string
  su_proof :: bytes
  su_header :: bytes
  su_buffers :: uploaded_buffers

record 'c program =
  on_chain_header :: "'c \<Rightarrow> bytes"
  paid_mints :: "'c \<Rightarrow> pending_mint list"
  claimed_mints :: "'c \<Rightarrow> nat"
  setup_mint_buffer :: "u32 \<Rightarrow> pending_mint list \<Rightarrow> 'c \<Rightarrow> 'c"
  mint_buffer_address :: "u32 \<Rightarrow> pending_mint list \<Rightarrow> bytes \<times> u8"
  setup_txo_buffer :: "u32 \<Rightarrow> u32 list \<Rightarrow> 'c \<Rightarrow> 'c"
  txo_buffer_address :: "u32 \<Rightarrow> u32 list \<Rightarrow> bytes \<times> u8"
  accept_update :: "submission \<Rightarrow> 'c \<Rightarrow> 'c"
  update_reply :: "submission \<Rightarrow> block_update_response"
  pay_mints :: "pending_mint list \<Rightarrow> uploaded_buffers \<Rightarrow> nat \<Rightarrow> 'c \<Rightarrow> 'c"
  group_signatures :: "pending_mint list \<Rightarrow> string list"

locale bridge_program =
  fixes P :: "'c program"
  assumes setup_mint_header: "on_chain_header P (setup_mint_buffer P h ms c) = on_chain_header P c"
    and setup_mint_paid: "paid_mints P (setup_mint_buffer P h ms c) = paid_mints P c"
    and setup_txo_header: "on_chain_header P (setup_txo_buffer P h is c) = on_chain_header P c"
    and setup_txo_paid: "paid_mints P (setup_txo_buffer P h is c) = paid_mints P c"
    and update_header: "on_chain_header P (accept_update P s c) = su_header s"
    and update_paid: "paid_mints P (accept_update P s c) = paid_mints P c"
    and update_claimed: "claimed_mints P (accept_update P s c) = 0"
    and pay_header: "on_chain_header P (pay_mints P ms b n c) = on_chain_header P c"
    and pay_paid: "paid_mints P (pay_mints P ms b n c) = paid_mints P c @ take n (drop (claimed_mints P c) ms)"
    and pay_claimed: "claimed_mints P (pay_mints P ms b n c)
      = max (claimed_mints P c) (min (claimed_mints P c + n) (length ms))"
begin

lemmas program_simps = setup_mint_header setup_mint_paid setup_txo_header setup_txo_paid update_header update_paid
  update_claimed pay_header pay_paid pay_claimed

end

datatype stored_journal = Corrupt | Journal checkpoint_journal

record 'c world =
  w_chain :: 'c
  w_checkpoint :: "pipeline_checkpoint option"
  w_journal :: "stored_journal option"
  w_evidence :: "(u32 \<times> string) list"
  w_memory :: pipeline_checkpoint

type_synonym ('c, 'a) step = "('c world, 'a) io"

definition set_memory :: "pipeline_checkpoint \<Rightarrow> ('c, unit) step" where
  "set_memory cp = io_update (\<lambda>w. w\<lparr>w_memory := cp\<rparr>)"

definition get_memory :: "('c, pipeline_checkpoint) step" where
  "get_memory = io_get w_memory"

definition set_journal :: "checkpoint_journal \<Rightarrow> ('c, unit) step" where
  "set_journal j = effect (\<lambda>w. w\<lparr>w_journal := Some (Journal j)\<rparr>) (\<lambda>_. ())"

definition del_journal :: "('c, unit) step" where
  "del_journal = effect (\<lambda>w. w\<lparr>w_journal := None\<rparr>) (\<lambda>_. ())"

definition set_checkpoint :: "pipeline_checkpoint \<Rightarrow> ('c, unit) step" where
  "set_checkpoint cp = effect (\<lambda>w. w\<lparr>w_checkpoint := Some cp\<rparr>) (\<lambda>_. ())"

definition write_evidence :: "u32 \<Rightarrow> string \<Rightarrow> ('c, unit) step" where
  "write_evidence h status = effect (\<lambda>w. w\<lparr>w_evidence := w_evidence w @ [(h, status)]\<rparr>) (\<lambda>_. ())"

section \<open>The operations of a commit\<close>

text \<open>\<open>retry_bridge_network\<close> makes at most 20 attempts at the payment; each sees what is left to claim.\<close>

fun pay_attempts ::
  "'c program \<Rightarrow> pending_mint list \<Rightarrow> uploaded_buffers \<Rightarrow> nat \<Rightarrow> ('c, process_mints_result) step" where
  "pay_attempts P ms buffers retries ([], w) = (([], w), Inl (Panic ''killed''))"
| "pay_attempts P ms buffers retries (Lost # fates, w) = ((fates, w), Inl (Err ''operation failed''))"
| "pay_attempts P ms buffers retries (Late # fates, w) =
     ((fates, w\<lparr>w_chain := pay_mints P ms buffers (length ms) (w_chain w)\<rparr>), Inl (Err ''answer lost''))"
| "pay_attempts P ms buffers retries (Partial n # fates, w) =
     (let w' = w\<lparr>w_chain := pay_mints P ms buffers n (w_chain w)\<rparr>
      in case retries of
           0 \<Rightarrow> ((fates, w'), Inl (Err ''transient network error''))
         | Suc k \<Rightarrow> pay_attempts P ms buffers k (fates, w'))"
| "pay_attempts P ms buffers retries (Applied # fates, w) =
     (let c = w_chain w; c' = pay_mints P ms buffers (length ms) c
      in ((fates, w\<lparr>w_chain := c'\<rparr>),
          Inr \<lparr>pm_fully_completed = (length ms \<le> claimed_mints P c'),
               pm_total_mints_processed = claimed_mints P c' - claimed_mints P c,
               pm_groups_processed = length (group_signatures P (drop (claimed_mints P c) ms)),
               pm_signatures = group_signatures P (drop (claimed_mints P c) ms)\<rparr>))"

definition process_remaining_pending_mints ::
  "'c program \<Rightarrow> pending_mint list \<Rightarrow> uploaded_buffers \<Rightarrow> ('c, process_mints_result) step" where
  "process_remaining_pending_mints P ms buffers = pay_attempts P ms buffers 19"

fun ensure_recipient_token_accounts :: "pipeline_config \<Rightarrow> pending_mint list \<Rightarrow> ('c, unit) step" where
  "ensure_recipient_token_accounts config [] = io_lift (Inr ())"
| "ensure_recipient_token_accounts config (mint # pending_mints) =
     (if pm_recipient mint \<notin> set (cfg_recipient_atas config)
      then io_lift (Inl (Err ''pending mint recipient is not a configured recipient ATA''))
      else io_then (effect (\<lambda>w. w) (\<lambda>_. ())) (\<lambda>_. ensure_recipient_token_accounts config pending_mints))"

definition upload_finalized_buffers ::
  "('st, 'b, 'j) deps \<Rightarrow> 'c program \<Rightarrow> pipeline_config \<Rightarrow> u32 \<Rightarrow> buffer_commitment \<Rightarrow> ('c, uploaded_buffers) step" where
  "upload_finalized_buffers D P config finalized_height finalized =
     (let pending_mints = bc_pending_mints finalized in
     io_then (io_lift (validate_buffer_payload (d_crates D) (d_bridge D) finalized pending_mints)) (\<lambda>_.
     io_then (ensure_recipient_token_accounts config pending_mints) (\<lambda>_.
     io_then (effect (\<lambda>w. w\<lparr>w_chain := setup_mint_buffer P finalized_height pending_mints (w_chain w)\<rparr>)
                (\<lambda>_. mint_buffer_address P finalized_height pending_mints)) (\<lambda>(mint_buffer, mint_buffer_bump).
     io_then (effect (\<lambda>w. w\<lparr>w_chain := setup_txo_buffer P finalized_height (bc_txo_indices finalized) (w_chain w)\<rparr>)
                (\<lambda>_. txo_buffer_address P finalized_height (bc_txo_indices finalized))) (\<lambda>(txo_buffer, txo_buffer_bump).
     io_lift (Inr \<lparr>ub_mint_buffer = mint_buffer, ub_mint_buffer_bump = mint_buffer_bump,
                   ub_txo_buffer = txo_buffer, ub_txo_buffer_bump = txo_buffer_bump\<rparr>))))))"

definition process_finalized_mints ::
  "'c program \<Rightarrow> buffer_commitment \<Rightarrow> uploaded_buffers \<Rightarrow> ('c, mint_processing_evidence) step" where
  "process_finalized_mints P finalized buffers =
     (let pending_mints = bc_pending_mints finalized in
     io_then (process_remaining_pending_mints P pending_mints buffers) (\<lambda>result.
     if \<not> pm_fully_completed result \<or> pm_total_mints_processed result \<noteq> length pending_mints
     then io_lift (Inl (Err ''mint processing is incomplete''))
     else io_lift (Inr \<lparr>me_signatures = pm_signatures result, me_groups_processed = pm_groups_processed result,
                        me_total_mints_processed = pm_total_mints_processed result\<rparr>)))"

text \<open>What the proof's public values must be for a transition.\<close>

definition expected_public_values ::
  "('st, 'b, 'j) deps \<Rightarrow> pipeline_config \<Rightarrow> bytes \<Rightarrow> bytes \<Rightarrow> bytes" where
  "expected_public_values D config old_header new_header =
     (let X = d_crates D;
          transition_hash = sha256_two_to_one X (sha256 X old_header) (sha256 X new_header);
          config_hash = sha256 X (cfg_config_params config);
          custodian = custodian_hash (d_chain D) (cfg_network config) (cfg_custody_script_config config)
      in sha256 X (transition_hash @ config_hash @ custodian))"

definition check_prepared ::
  "('st, 'b, 'j) deps \<Rightarrow> pipeline_config \<Rightarrow> pipeline_checkpoint \<Rightarrow> prepared \<Rightarrow> prover_output \<Rightarrow> unit res" where
  "check_prepared D config cp p output =
     (let X = d_crates D in
     and_then (ok_or (checked_add_u32 (cp_height cp) 1) (Err ''checkpoint height overflow'')) (\<lambda>expected_height.
     if pt_height p \<noteq> expected_height \<or> cp_height (pt_next_checkpoint p) \<noteq> expected_height
     then Inl (Err ''prepared height is not the next committed height'')
     else
     and_then (d_checkpoint_to_string D cp) (\<lambda>json.
     if job_parent (pt_proof_job p) \<noteq> sha256_hex X (str_bytes json)
     then Inl (Err ''parent checkpoint fingerprint no longer matches committed tip'')
     else
     and_then (ensure_length (po_proof output) proof_size) (\<lambda>_.
     and_then (ensure_length (po_public_values output) public_values_size) (\<lambda>_.
     if list_all (\<lambda>b. b = 0) (po_proof output) then Inl (Err ''SP1 proof is an all-zero placeholder'')
     else if po_public_values output \<noteq> expected_public_values D config (pt_old_header p) (pt_new_header p)
     then Inl (Err ''SP1 public values do not bind the prepared transition'')
     else Inr ())))))"

definition commit_prepared ::
  "('st, 'b, 'j) deps \<Rightarrow> 'c program \<Rightarrow> pipeline_config \<Rightarrow> prepared \<Rightarrow> prover_output \<Rightarrow> ('c, unit) step" where
  "commit_prepared D P config p output =
     io_then get_memory (\<lambda>cp.
     io_then (io_lift (check_prepared D config cp p output)) (\<lambda>_.
     let next = pt_next_checkpoint p; finalized = pt_finalized_buffers p;
         journal = \<lparr>cj_checkpoint = next, cj_uploaded_buffers = None, cj_finalized_commitment = Some finalized,
                    cj_submission_signature = None, cj_mint_progress = None\<rparr>
     in
     io_then (set_journal journal) (\<lambda>_.
     io_then (upload_finalized_buffers D P config (pt_finalized_height p) finalized) (\<lambda>uploaded.
     let journal = journal\<lparr>cj_uploaded_buffers := Some uploaded\<rparr> in
     io_then (set_journal journal) (\<lambda>_.
     io_then (write_evidence (pt_height p) ''buffers_uploaded'') (\<lambda>_.
     let update = \<lparr>su_idempotency_key = pt_idempotency_key p, su_proof = po_proof output,
                   su_header = pt_new_header p, su_buffers = uploaded\<rparr>
     in
     io_then (effect (\<lambda>w. w\<lparr>w_chain := accept_update P update (w_chain w)\<rparr>) (\<lambda>_. update_reply P update)) (\<lambda>response.
     if resp_idempotency_key response \<noteq> pt_idempotency_key p
     then io_lift (Inl (Err ''sender returned another idempotency key''))
     else
     let journal = journal\<lparr>cj_submission_signature := Some (resp_signature response)\<rparr> in
     io_then (set_journal journal) (\<lambda>_.
     io_then (process_finalized_mints P finalized uploaded) (\<lambda>mint_processing.
     io_then (set_journal (journal\<lparr>cj_mint_progress := Some (mint_progress_of mint_processing)\<rparr>)) (\<lambda>_.
     io_then (set_memory next) (\<lambda>_.
     io_then (set_checkpoint next) (\<lambda>_.
     io_then del_journal (\<lambda>_.
     write_evidence (pt_height p) ''minted'')))))))))))))"

section \<open>Recovery at the start\<close>

definition reconcile_checkpoint_journal ::
  "('st, 'b, 'j) deps \<Rightarrow> 'c program \<Rightarrow> pipeline_checkpoint \<Rightarrow> bytes \<Rightarrow> ('c, pipeline_checkpoint) step" where
  "reconcile_checkpoint_journal D P cp chain_header =
     (let X = d_crates D; B = d_bridge D in
     if is_ok (assert_checkpoint_matches_chain X cp chain_header) then
       io_then (effect (\<lambda>w. w) (\<lambda>w. w_journal w \<noteq> None)) (\<lambda>journal_present.
       if stale_journal_action True journal_present = DiscardRaw
       then io_then del_journal (\<lambda>_. io_lift (Inr cp))
       else io_lift (Inr cp))
     else
       io_then (effect (\<lambda>w. w) w_journal) (\<lambda>stored.
       io_then (io_lift (case stored of
           None \<Rightarrow> Inl (Err ''on-chain bridge header advanced without a pending journal'')
         | Some Corrupt \<Rightarrow> Inl (Err ''malformed journal'')
         | Some (Journal j) \<Rightarrow> Inr j)) (\<lambda>journal.
       io_then (io_lift (validate_checkpoint X B (cj_checkpoint journal))) (\<lambda>_.
       case plan_journal_recovery X cp chain_header (Some journal) of
         PlanUpToDate \<Rightarrow> io_lift (Inr cp)
       | DiscardStaleJournal \<Rightarrow> io_lift (Inr cp)
       | PromoteCheckpoint checkpoint \<Rightarrow>
           io_then (io_lift (validate_checkpoint X B checkpoint)) (\<lambda>_.
           io_then (set_checkpoint checkpoint) (\<lambda>_.
           io_then del_journal (\<lambda>_. io_lift (Inr checkpoint))))
       | CompleteMint checkpoint finalized uploaded \<Rightarrow>
           io_then (io_lift (validate_checkpoint X B checkpoint)) (\<lambda>_.
           io_then (if bc_pending_mints finalized \<noteq> [] then
                      io_then (process_remaining_pending_mints P (bc_pending_mints finalized) uploaded)
                        (\<lambda>result. io_lift (mint_recovery_succeeded result))
                    else io_lift (Inr ())) (\<lambda>_.
           io_then (set_checkpoint checkpoint) (\<lambda>_.
           io_then del_journal (\<lambda>_. io_lift (Inr checkpoint)))))
       | FailClosed reason \<Rightarrow> io_lift (Inl (Err reason))))))"

text \<open>
  The part of \<open>initialize\<close> that restores the checkpoint: the header is read from the chain, the
  checkpoint from Redis or made anew, the journal is reconciled and the result compared again with
  the header read before.
\<close>

definition restore_checkpoint ::
  "('st, 'b, 'j) deps \<Rightarrow> 'c program \<Rightarrow> node \<Rightarrow> pipeline_config \<Rightarrow> ('c, unit) step" where
  "restore_checkpoint D P N config =
     io_then (effect (\<lambda>w. w) (\<lambda>w. on_chain_header P (w_chain w))) (\<lambda>chain_header.
     io_then (effect (\<lambda>w. w) w_checkpoint) (\<lambda>stored.
     io_then (io_lift (case stored of Some cp \<Rightarrow> Inr cp | None \<Rightarrow> initialize_checkpoint D N config)) (\<lambda>cp.
     io_then (reconcile_checkpoint_journal D P cp chain_header) (\<lambda>cp.
     io_then (io_lift (assert_checkpoint_matches_chain (d_crates D) cp chain_header)) (\<lambda>_.
     set_memory cp)))))"

end
