(* ===== verification/Crash_Safety.thy ===== *)
theory Crash_Safety
  imports Recovery
begin

text \<open>
  Crash safety of the commit. A life of the process restores the checkpoint and commits a prepared
  block; it may stop at any effect. Over any number of lives the world is in one of three phases:
  the chain has not accepted the block; it has, and the journal holds what is needed to pay the
  rest of its mints; or the checkpoint is the new one and the mints are paid.
\<close>

section \<open>Lives and phases\<close>

definition process_life ::
  "('st, 'b, 'j) deps \<Rightarrow> 'c program \<Rightarrow> node \<Rightarrow> pipeline_config \<Rightarrow> prepared \<Rightarrow> prover_output \<Rightarrow> ('c, unit) step" where
  "process_life D P N config p output =
     io_then (restore_checkpoint D P N config) (\<lambda>_. commit_prepared D P config p output)"

primrec process_lives ::
  "('st, 'b, 'j) deps \<Rightarrow> 'c program \<Rightarrow> node \<Rightarrow> pipeline_config \<Rightarrow> prepared \<Rightarrow> (prover_output \<times> fate list) list
     \<Rightarrow> 'c world \<Rightarrow> 'c world" where
  "process_lives D P N config p [] w = w"
| "process_lives D P N config p (life # lives) w =
     process_lives D P N config p lives
       (snd (fst (process_life D P N config p (fst life) (snd life, w))))"

abbreviation mints_of :: "prepared \<Rightarrow> pending_mint list" where
  "mints_of p \<equiv> bc_pending_mints (pt_finalized_buffers p)"

definition uncommitted :: "crates \<Rightarrow> 'c program \<Rightarrow> pipeline_checkpoint \<Rightarrow> pending_mint list \<Rightarrow> 'c world \<Rightarrow> bool" where
  "uncommitted X P cp L w \<longleftrightarrow>
     assert_checkpoint_matches_chain X cp (on_chain_header P (w_chain w)) = Inr ()
     \<and> paid_mints P (w_chain w) = L \<and> w_checkpoint w = Some cp"

definition paying :: "'c program \<Rightarrow> prepared \<Rightarrow> pending_mint list \<Rightarrow> 'c \<Rightarrow> bool" where
  "paying P p L c \<longleftrightarrow>
     on_chain_header P c = pt_new_header p \<and> claimed_mints P c \<le> length (mints_of p)
     \<and> paid_mints P c = L @ take (claimed_mints P c) (mints_of p)"

definition names_rest :: "'c program \<Rightarrow> prepared \<Rightarrow> 'c \<Rightarrow> checkpoint_journal \<Rightarrow> bool" where
  "names_rest P p c j \<longleftrightarrow>
     cj_checkpoint j = pt_next_checkpoint p \<and> cj_finalized_commitment j = Some (pt_finalized_buffers p)
     \<and> cj_uploaded_buffers j \<noteq> None \<and> (cj_mint_progress j \<noteq> None \<longrightarrow> claimed_mints P c = length (mints_of p))"

definition recoverable ::
  "'c program \<Rightarrow> pipeline_checkpoint \<Rightarrow> prepared \<Rightarrow> pending_mint list \<Rightarrow> 'c world \<Rightarrow> bool" where
  "recoverable P cp p L w \<longleftrightarrow>
     paying P p L (w_chain w) \<and> w_checkpoint w = Some cp
     \<and> (\<exists>j. w_journal w = Some (Journal j) \<and> names_rest P p (w_chain w) j)"

definition committed :: "'c program \<Rightarrow> prepared \<Rightarrow> pending_mint list \<Rightarrow> 'c world \<Rightarrow> bool" where
  "committed P p L w \<longleftrightarrow>
     on_chain_header P (w_chain w) = pt_new_header p \<and> paid_mints P (w_chain w) = L @ mints_of p
     \<and> w_checkpoint w = Some (pt_next_checkpoint p)"

definition safe ::
  "crates \<Rightarrow> 'c program \<Rightarrow> pipeline_checkpoint \<Rightarrow> prepared \<Rightarrow> pending_mint list \<Rightarrow> 'c world \<Rightarrow> bool" where
  "safe X P cp p L w \<longleftrightarrow> uncommitted X P cp L w \<or> recoverable P cp p L w \<or> committed P p L w"

text \<open>What a prepared block guarantees, as far as the commit is concerned.\<close>

definition extends :: "('st, 'b, 'j) deps \<Rightarrow> pipeline_checkpoint \<Rightarrow> prepared \<Rightarrow> bool" where
  "extends D cp p \<longleftrightarrow>
     assert_checkpoint_matches_chain (d_crates D) (pt_next_checkpoint p) (pt_new_header p) = Inr ()
     \<and> assert_checkpoint_matches_chain (d_crates D) cp (pt_new_header p) \<noteq> Inr ()
     \<and> validate_checkpoint (d_crates D) (d_bridge D) (pt_next_checkpoint p) = Inr ()
     \<and> checked_add_u32 (cp_height cp) 1 = Some (cp_height (pt_next_checkpoint p))
     \<and> pt_height p = cp_height (pt_next_checkpoint p)"

lemma is_ok_unit: "is_ok (r :: unit res) \<longleftrightarrow> r = Inr ()"
  by (cases r) auto

lemma prepared_extends:
  assumes "hex_laws (d_crates D)" and "prepare_height D N config cp height = Inr p"
    and "checked_add_u32 (cp_height cp) 1 = Some height" and "pt_new_header p \<noteq> pt_old_header p"
  shows "extends D cp p"
proof -
  obtain bs mh th fh e ns where
    old: "decode_fixed (d_crates D) header_size (cp_header_hex cp) = Inr (pt_old_header p)"
    and nx: "next_checkpoint_of (d_crates D) (d_bridge D) cp height (pt_finalized_height p) (pt_evaluation p) bs
      (pt_new_header p) = Inr (pt_next_checkpoint p)" and ph: "pt_height p = height"
    by (rule prepare_heightE[OF assms(2)]) blast
  note n = next_checkpoint_ok[OF nx]
  have dec: "hex_decode (d_crates D) (cp_header_hex (pt_next_checkpoint p)) = Some (pt_new_header p)"
    using assms(1) n(3) by (simp add: hex_laws_def)
  have "length (pt_new_header p) = header_size"
    using n(7) dec unfolding validate_checkpoint_def
    by (auto simp: ok_or_def ensure_length_def split: if_splits elim!: and_then_elim)
  then show ?thesis
    using dec old assms(3,4) n(1,7) ph
    by (auto simp: extends_def assert_matches_iff decode_fixed_def ok_or_def ensure_length_def)
qed

section \<open>Paying the mints\<close>

context bridge_program
begin

lemma pay_keeps_paying:
  assumes "paying P p L c"
  shows "paying P p L (pay_mints P (mints_of p) b n c)"
    and "claimed_mints P c \<le> claimed_mints P (pay_mints P (mints_of p) b n c)"
    and "length (mints_of p) \<le> n \<Longrightarrow> claimed_mints P (pay_mints P (mints_of p) b n c) = length (mints_of p)"
proof -
  have *: "take k ms @ take n (drop k ms) = take (min (k + n) (length ms))  ms" for k and ms :: "pending_mint list"
    by (simp add: take_add[symmetric] min_def)
  show "paying P p L (pay_mints P (mints_of p) b n c)"
    using assms by (auto simp: paying_def program_simps * max_def)
  show "claimed_mints P c \<le> claimed_mints P (pay_mints P (mints_of p) b n c)"
    by (simp add: program_simps)
  show "length (mints_of p) \<le> n \<Longrightarrow> claimed_mints P (pay_mints P (mints_of p) b n c) = length (mints_of p)"
    using assms by (simp add: paying_def program_simps)
qed

lemma pay_attempts_run:
  assumes "pay_attempts P (mints_of p) b k (fates, w) = ((fates', w'), r)" and "paying P p L (w_chain w)"
  shows "\<exists>c. w' = w\<lparr>w_chain := c\<rparr> \<and> paying P p L c \<and> claimed_mints P (w_chain w) \<le> claimed_mints P c
    \<and> (\<forall>x. r = Inr x \<longrightarrow> claimed_mints P c = length (mints_of p) \<and> pm_fully_completed x)"
  using assms
proof (induction fates arbitrary: k w)
  case Nil
  then show ?case by (auto intro!: exI[of _ "w_chain w"])
next
  case (Cons fate fates)
  note pay = pay_keeps_paying[OF Cons.prems(2), where b = b]
  show ?case
  proof (cases fate)
    case Applied
    then show ?thesis
      using Cons.prems(1) pay by (auto simp: Let_def intro!: exI[of _ "pay_mints P (mints_of p) b (length (mints_of p)) (w_chain w)"])
  next
    case Lost
    then show ?thesis using Cons.prems by (auto intro!: exI[of _ "w_chain w"])
  next
    case Late
    then show ?thesis
      using Cons.prems(1) pay by (auto simp: Let_def intro!: exI[of _ "pay_mints P (mints_of p) b (length (mints_of p)) (w_chain w)"])
  next
    case (Partial n)
    let ?w = "w\<lparr>w_chain := pay_mints P (mints_of p) b n (w_chain w)\<rparr>"
    show ?thesis
    proof (cases k)
      case 0
      then show ?thesis
        using Partial Cons.prems(1) pay by (auto simp: Let_def intro!: exI[of _ "pay_mints P (mints_of p) b n (w_chain w)"])
    next
      case (Suc l)
      then have "pay_attempts P (mints_of p) b l (fates, ?w) = ((fates', w'), r)"
        using Partial Cons.prems(1) by (simp add: Let_def)
      from Cons.IH[OF this] pay(1)
      obtain c where "w' = ?w\<lparr>w_chain := c\<rparr>" "paying P p L c"
        "claimed_mints P (pay_mints P (mints_of p) b n (w_chain w)) \<le> claimed_mints P c"
        "\<forall>x. r = Inr x \<longrightarrow> claimed_mints P c = length (mints_of p) \<and> pm_fully_completed x"
        by auto
      with pay(2)[of n] show ?thesis by (intro exI[of _ c]) auto
    qed
  qed
qed

lemma names_rest_mono:
  "names_rest P p c j \<Longrightarrow> paying P p L c' \<Longrightarrow> claimed_mints P c \<le> claimed_mints P c' \<Longrightarrow> names_rest P p c' j"
  by (auto simp: names_rest_def paying_def)

lemma pay_keeps_recoverable:
  "keeps (recoverable P cp p L) (recoverable P cp p L) (process_remaining_pending_mints P (mints_of p) b)
     (\<lambda>r w. recoverable P cp p L w \<and> claimed_mints P (w_chain w) = length (mints_of p) \<and> pm_fully_completed r)"
proof (rule keepsI)
  fix fates w fates' w' e
  assume "recoverable P cp p L w" "process_remaining_pending_mints P (mints_of p) b (fates, w) = ((fates', w'), Inl e)"
  with pay_attempts_run[of p b 19 fates w fates' w' "Inl e" L]
  show "recoverable P cp p L w'"
    by (auto simp: process_remaining_pending_mints_def recoverable_def intro: names_rest_mono)
next
  fix fates w fates' w' x
  assume "recoverable P cp p L w" "process_remaining_pending_mints P (mints_of p) b (fates, w) = ((fates', w'), Inr x)"
  with pay_attempts_run[of p b 19 fates w fates' w' "Inr x" L]
  show "recoverable P cp p L w' \<and> claimed_mints P (w_chain w') = length (mints_of p) \<and> pm_fully_completed x"
    by (auto simp: process_remaining_pending_mints_def recoverable_def names_rest_def)
qed

lemma committedI:
  "recoverable P cp p L w \<Longrightarrow> claimed_mints P (w_chain w) = length (mints_of p)
   \<Longrightarrow> committed P p L (w\<lparr>w_checkpoint := Some (pt_next_checkpoint p)\<rparr>)"
  by (simp add: recoverable_def committed_def paying_def)

section \<open>The commit\<close>

lemma phase_memory [simp]:
  "uncommitted X P cp L (w\<lparr>w_memory := m\<rparr>) = uncommitted X P cp L w"
  "recoverable P cp p L (w\<lparr>w_memory := m\<rparr>) = recoverable P cp p L w"
  "committed P p L (w\<lparr>w_memory := m\<rparr>) = committed P p L w"
  "uncommitted X P cp L (w\<lparr>w_evidence := e\<rparr>) = uncommitted X P cp L w"
  "committed P p L (w\<lparr>w_evidence := e\<rparr>) = committed P p L w"
  "uncommitted X P cp L (w\<lparr>w_journal := j\<rparr>) = uncommitted X P cp L w"
  "committed P p L (w\<lparr>w_journal := j\<rparr>) = committed P p L w"
  by (simp_all add: uncommitted_def recoverable_def committed_def)

lemma uncommitted_setup [simp]:
  "uncommitted X P cp L (w\<lparr>w_chain := setup_mint_buffer P h ms (w_chain w)\<rparr>) = uncommitted X P cp L w"
  "uncommitted X P cp L (w\<lparr>w_chain := setup_txo_buffer P h is (w_chain w)\<rparr>) = uncommitted X P cp L w"
  by (simp_all add: uncommitted_def program_simps)

lemma ensure_keeps:
  assumes "\<And>w. Q w \<Longrightarrow> I w"
  shows "keeps I Q (ensure_recipient_token_accounts config ms) (\<lambda>_. Q)"
proof (induction ms)
  case Nil
  then show ?case by (auto intro!: keeps_lift)
next
  case (Cons m ms)
  then show ?case
    using assms by (auto intro!: keeps_then[where Q = "\<lambda>_. Q"] keeps_lift keeps_effect)
qed

lemma upload_keeps:
  "keeps (uncommitted X P cp L) (uncommitted X P cp L) (upload_finalized_buffers D P config h fin)
     (\<lambda>_. uncommitted X P cp L)"
  unfolding upload_finalized_buffers_def Let_def
  by (auto intro!: keeps_then[where Q = "\<lambda>_. uncommitted X P cp L"] keeps_lift ensure_keeps keeps_effect split: prod.split)

lemma recoverable_journal:
  "recoverable P cp p L w \<Longrightarrow> names_rest P p (w_chain w) j \<Longrightarrow> recoverable P cp p L (w\<lparr>w_journal := Some (Journal j)\<rparr>)"
  by (simp add: recoverable_def)

lemma update_recoverable:
  assumes "uncommitted X P cp L w" and "w_journal w = Some (Journal j)" and "cj_checkpoint j = pt_next_checkpoint p"
    and "cj_finalized_commitment j = Some (pt_finalized_buffers p)" and "cj_uploaded_buffers j \<noteq> None"
    and "cj_mint_progress j = None" and "su_header s = pt_new_header p"
  shows "recoverable P cp p L (w\<lparr>w_chain := accept_update P s (w_chain w)\<rparr>)"
  using assms by (simp add: uncommitted_def recoverable_def paying_def names_rest_def program_simps)

lemma process_keeps:
  "keeps (recoverable P cp p L) (recoverable P cp p L) (process_finalized_mints P (pt_finalized_buffers p) b)
     (\<lambda>r w. recoverable P cp p L w \<and> claimed_mints P (w_chain w) = length (mints_of p))"
  unfolding process_finalized_mints_def Let_def
  by (rule keeps_then[OF pay_keeps_recoverable]) (auto intro!: keeps_lift)

lemma commit_keeps:
  "keeps (safe X P cp p L) (uncommitted X P cp L) (commit_prepared D P config p output)
     (\<lambda>_ w. committed P p L w \<and> w_memory w = pt_next_checkpoint p \<and> w_journal w = None)"
proof -
  let ?U = "uncommitted X P cp L" and ?R = "recoverable P cp p L" and ?C = "committed P p L"
  let ?I = "safe X P cp p L"
  let ?j = "\<lambda>up sig prog. \<lparr>cj_checkpoint = pt_next_checkpoint p, cj_uploaded_buffers = up,
     cj_finalized_commitment = Some (pt_finalized_buffers p), cj_submission_signature = sig, cj_mint_progress = prog\<rparr>"
  have I: "?U w \<Longrightarrow> ?I w" "?R w \<Longrightarrow> ?I w" "?C w \<Longrightarrow> ?I w" for w by (simp_all add: safe_def)
  have weaken: "keeps ?I A m Q" if "keeps J A m Q" "\<And>w. J w \<Longrightarrow> ?I w" for A m Q J
    using that unfolding keeps_def by blast
  have upd: "?R (w\<lparr>w_chain := accept_update P s (w_chain w)\<rparr>)"
    if "?U w \<and> w_journal w = Some (Journal (?j (Some up) None None))" "su_header s = pt_new_header p" for w s up
    using that update_recoverable[of X cp L w "?j (Some up) None None" p s] by simp
  show ?thesis
    unfolding commit_prepared_def Let_def get_memory_def set_journal_def write_evidence_def set_memory_def
      set_checkpoint_def del_journal_def
    apply (rule keeps_then[where Q = "\<lambda>_. ?U"])
     apply (rule keeps_get, assumption)
    apply (rule keeps_then[where Q = "\<lambda>_. ?U"])
     apply (rule keeps_lift; simp add: I)
    apply (rule keeps_then[where Q = "\<lambda>_. ?U"])
     apply (rule keeps_effect; simp add: I)
    apply (rule keeps_then[where Q = "\<lambda>_. ?U"])
     apply (rule weaken[OF upload_keeps I(1)], assumption)
    subgoal for _ _ _ up
      apply (rule keeps_then[where Q = "\<lambda>_ w. ?U w \<and> w_journal w = Some (Journal (?j (Some up) None None))"])
       apply (rule keeps_effect; simp add: I)
      apply (rule keeps_then[where Q = "\<lambda>_ w. ?U w \<and> w_journal w = Some (Journal (?j (Some up) None None))"])
       apply (rule keeps_effect; simp add: I)
      apply (rule keeps_then[where Q = "\<lambda>_. ?R"])
       apply (rule keeps_effect; simp add: I upd)
      subgoal for _ _ response
        apply (cases "resp_idempotency_key response = pt_idempotency_key p"; simp)
         apply (rule keeps_then[where Q = "\<lambda>_. ?R"])
          apply (rule keeps_effect; auto intro!: I(2) recoverable_journal simp: names_rest_def)
         apply (rule keeps_then)
          apply (rule weaken[OF process_keeps I(2)], assumption)
         apply (rule keeps_then[where Q = "\<lambda>_ w. ?R w \<and> claimed_mints P (w_chain w) = length (mints_of p)"])
          apply (rule keeps_effect; auto intro!: I(2) recoverable_journal simp: names_rest_def)
         apply (rule keeps_then[where Q = "\<lambda>_ w. ?R w \<and> claimed_mints P (w_chain w) = length (mints_of p)
               \<and> w_memory w = pt_next_checkpoint p"])
          apply (rule keeps_update, simp)
         apply (rule keeps_then[where Q = "\<lambda>_ w. ?C w \<and> w_memory w = pt_next_checkpoint p"])
          apply (rule keeps_effect; auto intro: I committedI)
         apply (rule keeps_then[where Q = "\<lambda>_ w. ?C w \<and> w_memory w = pt_next_checkpoint p \<and> w_journal w = None"])
          apply (rule keeps_effect; simp add: I)
         apply (rule keeps_effect; simp add: I)
        apply (rule keeps_lift; simp add: I)
        done
      done
    done
qed

section \<open>The recovery\<close>

lemma reconcile_matching_keeps:
  assumes "assert_checkpoint_matches_chain (d_crates D) c h = Inr ()" and "\<And>w. R w \<Longrightarrow> I w"
    and "\<And>w j. R (w\<lparr>w_journal := j\<rparr>) = R w"
  shows "keeps I R (reconcile_checkpoint_journal D P c h) (\<lambda>c' w. R w \<and> c' = c \<and> w_journal w = None)"
  unfolding reconcile_checkpoint_journal_def Let_def assms(1) is_ok.simps if_True
  apply (rule keeps_then[where Q = "\<lambda>present w. R w \<and> present = (w_journal w \<noteq> None)"])
   apply (rule keeps_effect; simp add: assms(2,3))
  subgoal for present
    apply (cases present; simp add: stale_journal_action_def del_journal_def)
     apply (rule keeps_then[where Q = "\<lambda>_ w. R w \<and> w_journal w = None"])
      apply (rule keeps_effect; simp add: assms(2,3))
     apply (rule keeps_lift; simp)
    apply (rule keeps_lift; simp)
    done
  done

lemma plan_of_recoverable:
  assumes "extends D cp p" and "names_rest P p c j"
  shows "plan_journal_recovery (d_crates D) cp (pt_new_header p) (Some j)
    = (if cj_mint_progress j \<noteq> None then PromoteCheckpoint (pt_next_checkpoint p)
       else CompleteMint (pt_next_checkpoint p) (pt_finalized_buffers p) (the (cj_uploaded_buffers j)))"
proof -
  have "unat (cp_height cp) + 1 < 2 ^ 32 \<and> cp_height (pt_next_checkpoint p) = cp_height cp + 1"
    using assms(1) by (simp add: extends_def checked_add_u32_def split: if_splits)
  then have "saturating_add_u32 (cp_height cp) 1 = cp_height (pt_next_checkpoint p)"
    by (simp add: saturating_add_u32_def)
  then show ?thesis
    using assms by (auto simp: plan_journal_recovery_def extends_def names_rest_def is_ok_unit)
qed

lemma reconcile_recoverable_keeps:
  assumes ext: "extends D cp p"
  shows "keeps (safe (d_crates D) P cp p L) (recoverable P cp p L)
     (reconcile_checkpoint_journal D P cp (pt_new_header p))
     (\<lambda>c w. committed P p L w \<and> c = pt_next_checkpoint p \<and> w_journal w = None)"
proof -
  let ?R = "recoverable P cp p L" and ?C = "committed P p L" and ?I = "safe (d_crates D) P cp p L"
  have I: "?R w \<Longrightarrow> ?I w" "?C w \<Longrightarrow> ?I w" for w by (simp_all add: safe_def)
  have weaken: "keeps ?I A m Q" if "keeps ?R A m Q" for A m Q
    using that I(1) unfolding keeps_def by blast
  have no: "\<not> is_ok (assert_checkpoint_matches_chain (d_crates D) cp (pt_new_header p))"
    and valid: "validate_checkpoint (d_crates D) (d_bridge D) (pt_next_checkpoint p) = Inr ()"
    using ext by (simp_all add: extends_def is_ok_unit)
  have finish: "keeps ?I (\<lambda>w. ?R w \<and> claimed_mints P (w_chain w) = length (mints_of p))
      (io_then (set_checkpoint (pt_next_checkpoint p)) (\<lambda>_. io_then del_journal (\<lambda>_. io_lift (Inr (pt_next_checkpoint p)))))
      (\<lambda>c w. ?C w \<and> c = pt_next_checkpoint p \<and> w_journal w = None)"
    unfolding set_checkpoint_def del_journal_def
    apply (rule keeps_then[where Q = "\<lambda>_. ?C"])
     apply (rule keeps_effect; auto intro: I committedI)
    apply (rule keeps_then[where Q = "\<lambda>_ w. ?C w \<and> w_journal w = None"])
     apply (rule keeps_effect; simp add: I)
    apply (rule keeps_lift; simp)
    done
  have step: "keeps ?I ?R
      (io_then (if bc_pending_mints (pt_finalized_buffers p) \<noteq> [] then
          io_then (process_remaining_pending_mints P (mints_of p) b) (\<lambda>result. io_lift (mint_recovery_succeeded result))
        else io_lift (Inr ()))
       (\<lambda>_. io_then (set_checkpoint (pt_next_checkpoint p)) (\<lambda>_. io_then del_journal (\<lambda>_. io_lift (Inr (pt_next_checkpoint p))))))
      (\<lambda>c w. ?C w \<and> c = pt_next_checkpoint p \<and> w_journal w = None)" for b
    apply (rule keeps_then[OF _ finish])
    apply (cases "mints_of p = []"; simp)
     apply (rule keeps_lift; simp add: I recoverable_def paying_def)
    apply (rule keeps_then)
     apply (rule weaken[OF pay_keeps_recoverable])
    apply (rule keeps_lift; simp add: I)
    done
  have after: "keeps ?I (\<lambda>w. ?R w \<and> names_rest P p (w_chain w) j)
      (io_then (io_lift (validate_checkpoint (d_crates D) (d_bridge D) (cj_checkpoint j))) (\<lambda>_.
       case plan_journal_recovery (d_crates D) cp (pt_new_header p) (Some j) of
         PlanUpToDate \<Rightarrow> io_lift (Inr cp)
       | DiscardStaleJournal \<Rightarrow> io_lift (Inr cp)
       | PromoteCheckpoint checkpoint \<Rightarrow>
           io_then (io_lift (validate_checkpoint (d_crates D) (d_bridge D) checkpoint)) (\<lambda>_.
           io_then (set_checkpoint checkpoint) (\<lambda>_.
           io_then del_journal (\<lambda>_. io_lift (Inr checkpoint))))
       | CompleteMint checkpoint finalized uploaded \<Rightarrow>
           io_then (io_lift (validate_checkpoint (d_crates D) (d_bridge D) checkpoint)) (\<lambda>_.
           io_then (if bc_pending_mints finalized \<noteq> [] then
                      io_then (process_remaining_pending_mints P (bc_pending_mints finalized) uploaded)
                        (\<lambda>result. io_lift (mint_recovery_succeeded result))
                    else io_lift (Inr ())) (\<lambda>_.
           io_then (set_checkpoint checkpoint) (\<lambda>_.
           io_then del_journal (\<lambda>_. io_lift (Inr checkpoint)))))
       | FailClosed reason \<Rightarrow> io_lift (Inl (Err reason))))
      (\<lambda>c w. ?C w \<and> c = pt_next_checkpoint p \<and> w_journal w = None)" for j
  proof (cases "\<exists>c. names_rest P p c j")
    case False
    then show ?thesis by (intro keeps_contradiction) blast
  next
    case True
    then have plan: "plan_journal_recovery (d_crates D) cp (pt_new_header p) (Some j)
        = (if cj_mint_progress j \<noteq> None then PromoteCheckpoint (pt_next_checkpoint p)
           else CompleteMint (pt_next_checkpoint p) (pt_finalized_buffers p) (the (cj_uploaded_buffers j)))"
      and cj: "cj_checkpoint j = pt_next_checkpoint p"
      using plan_of_recoverable[OF ext] by (auto simp: names_rest_def)
    have lift: "keeps ?I A (io_lift (Inr ())) (\<lambda>_. A)" for A by (rule keeps_lift; simp)
    show ?thesis
    proof (cases "cj_mint_progress j")
      case None
      then show ?thesis
        apply (simp only: plan cj valid None simp_thms if_False journal_recovery_plan.case)
        apply (rule keeps_then[where Q = "\<lambda>_. ?R"])
         apply (rule keeps_lift; simp)
        apply (rule keeps_then[OF lift])
        using step by simp
    next
      case (Some m)
      show ?thesis
        apply (simp only: plan cj valid Some option.distinct simp_thms if_True journal_recovery_plan.case)
        apply (rule keeps_then[where Q = "\<lambda>_ w. ?R w \<and> claimed_mints P (w_chain w) = length (mints_of p)"])
         apply (rule keeps_lift; simp add: names_rest_def Some)
        apply (rule keeps_then[OF lift])
        by (rule finish)
    qed
  qed
  show ?thesis
    unfolding reconcile_checkpoint_journal_def Let_def if_not_P[OF no]
    apply (rule keeps_then[where Q = "\<lambda>stored w. ?R w \<and> stored = w_journal w"])
     apply (rule keeps_effect; simp add: I)
    apply (rule keeps_then[OF _ after])
    apply (rule keeps_lift; auto simp: I recoverable_def split: option.splits stored_journal.splits)
    done
qed

lemma restore_keeps:
  assumes ext: "extends D cp p"
  shows "keeps (safe (d_crates D) P cp p L) (safe (d_crates D) P cp p L) (restore_checkpoint D P N config)
     (\<lambda>_ w. (uncommitted (d_crates D) P cp L w \<and> w_memory w = cp
            \<or> committed P p L w \<and> w_memory w = pt_next_checkpoint p) \<and> w_journal w = None)"
proof -
  let ?U = "uncommitted (d_crates D) P cp L" and ?R = "recoverable P cp p L" and ?C = "committed P p L"
  let ?I = "safe (d_crates D) P cp p L"
  let ?ok = "\<lambda>c h. assert_checkpoint_matches_chain (d_crates D) c h = Inr ()"
  let ?rest = "\<lambda>h c. io_then (reconcile_checkpoint_journal D P c h) (\<lambda>c.
     io_then (io_lift (assert_checkpoint_matches_chain (d_crates D) c h)) (\<lambda>_. set_memory c))"
  let ?done = "\<lambda>_ w. (?U w \<and> w_memory w = cp \<or> ?C w \<and> w_memory w = pt_next_checkpoint p) \<and> w_journal w = None"
  have I: "?U w \<Longrightarrow> ?I w" "?R w \<Longrightarrow> ?I w" "?C w \<Longrightarrow> ?I w" for w by (simp_all add: safe_def)
  have next_ok: "?ok (pt_next_checkpoint p) (pt_new_header p)" using ext by (simp add: extends_def)
  have tail: "keeps ?I (\<lambda>w. B w \<and> c = c' \<and> w_journal w = None)
      (io_then (io_lift (assert_checkpoint_matches_chain (d_crates D) c h)) (\<lambda>_. set_memory c)) ?done"
    if "?ok c' h" and "\<And>w. B w \<Longrightarrow> ?I w"
      and "\<And>w. B w \<Longrightarrow> ?U w \<and> c' = cp \<or> ?C w \<and> c' = pt_next_checkpoint p" for B c c' h
    unfolding set_memory_def
    apply (rule keeps_then[where Q = "\<lambda>_ w. B w \<and> c = c' \<and> w_journal w = None"])
     apply (rule keeps_lift; use that(1,2) in auto)
    apply (rule keeps_update)
    subgoal for _ w using that(3)[of w] by auto
    done
  have U: "keeps ?I ?U (?rest h cp) ?done" if "?ok cp h" for h
    by (rule keeps_then[OF reconcile_matching_keeps[where R = "?U"]]) (use that tail[of cp h ?U] I in auto)
  have C: "keeps ?I ?C (?rest (pt_new_header p) (pt_next_checkpoint p)) ?done"
    by (rule keeps_then[OF reconcile_matching_keeps[where R = "?C"]])
      (use next_ok tail[of "pt_next_checkpoint p" "pt_new_header p" ?C] I in auto)
  have R: "keeps ?I ?R (?rest (pt_new_header p) cp) ?done"
    by (rule keeps_then[OF reconcile_recoverable_keeps[OF ext]])
      (use next_ok tail[of "pt_next_checkpoint p" "pt_new_header p" ?C] I in auto)
  have start: "keeps ?I A (restore_checkpoint D P N config) ?done"
    if A: "\<And>w. A w \<Longrightarrow> ?I w \<and> F (on_chain_header P (w_chain w)) \<and> w_checkpoint w = Some c"
      and rest: "\<And>h. F h \<Longrightarrow> keeps ?I A (?rest h c) ?done" for A F c
    unfolding restore_checkpoint_def
    apply (rule keeps_then[where Q = "\<lambda>h w. A w \<and> F h"])
     apply (rule keeps_effect; use A in auto)
    apply (rule keeps_pure)
    apply (rule keeps_then[where Q = "\<lambda>stored w. A w \<and> stored = Some c"])
     apply (rule keeps_effect; use A in auto)
    apply (rule keeps_pure)
    apply (rule keeps_then[where Q = "\<lambda>c' w. A w \<and> c' = c"])
     apply (rule keeps_lift; use A in auto)
    apply (rule keeps_pure)
    using rest by simp
  have "keeps ?I ?U (restore_checkpoint D P N config) ?done"
    by (rule start[of ?U "?ok cp" cp, OF _ U]) (auto simp: I uncommitted_def)
  moreover have "keeps ?I ?R (restore_checkpoint D P N config) ?done"
    by (rule start[of ?R "(=) (pt_new_header p)" cp]) (use R I in \<open>auto simp: recoverable_def paying_def\<close>)
  moreover have "keeps ?I ?C (restore_checkpoint D P N config) ?done"
    by (rule start[of ?C "(=) (pt_new_header p)" "pt_next_checkpoint p"])
      (use C I in \<open>auto simp: committed_def\<close>)
  ultimately have "keeps ?I (\<lambda>w. ?U w \<or> ?R w \<or> ?C w) (restore_checkpoint D P N config) ?done"
    by (intro keeps_cases)
  then show ?thesis by (simp add: safe_def[abs_def])
qed

lemma restore_uncommitted_keeps:
  "keeps (uncommitted (d_crates D) P cp L) (uncommitted (d_crates D) P cp L) (restore_checkpoint D P N config)
     (\<lambda>_ w. uncommitted (d_crates D) P cp L w \<and> w_memory w = cp \<and> w_journal w = None)"
proof -
  let ?U = "uncommitted (d_crates D) P cp L"
  let ?ok = "\<lambda>h. assert_checkpoint_matches_chain (d_crates D) cp h = Inr ()"
  show ?thesis
    unfolding restore_checkpoint_def set_memory_def
    apply (rule keeps_then[where Q = "\<lambda>h w. ?U w \<and> ?ok h"])
     apply (rule keeps_effect; simp add: uncommitted_def)
    apply (rule keeps_pure)
    apply (rule keeps_then[where Q = "\<lambda>stored w. ?U w \<and> stored = Some cp"])
     apply (rule keeps_effect; simp add: uncommitted_def)
    apply (rule keeps_pure)
    apply (rule keeps_then[where Q = "\<lambda>c w. ?U w \<and> c = cp"])
     apply (rule keeps_lift; simp)
    apply (rule keeps_pure)
    apply (simp only: simp_thms)
    apply (rule keeps_then)
     apply (rule reconcile_matching_keeps[where R = ?U], assumption, assumption, simp)
    subgoal for _ _ _ c
      apply (rule keeps_then[where Q = "\<lambda>_ w. ?U w \<and> w_journal w = None \<and> c = cp"])
       apply (rule keeps_lift; auto)
      apply (rule keeps_update; auto)
      done
    done
qed

section \<open>Any number of lives\<close>

lemma next_does_not_fit:
  assumes "extends D cp p"
  shows "check_prepared D config (pt_next_checkpoint p) p output \<noteq> Inr ()"
  using assms by (auto simp: check_prepared_def extends_def checked_add_u32_def ok_or_def Let_def split: if_splits)

lemma commit_after_commit:
  assumes "extends D cp p" and "w_memory w = pt_next_checkpoint p"
  shows "\<exists>e. commit_prepared D P config p output (fates, w) = ((fates, w), Inl e)"
  using next_does_not_fit[OF assms(1)] assms(2)
  by (cases "check_prepared D config (pt_next_checkpoint p) p output")
    (auto simp: commit_prepared_def get_memory_def io_then_run io_get_def io_lift_def)

lemma life_keeps:
  assumes ext: "extends D cp p"
  shows "keeps (safe (d_crates D) P cp p L) (safe (d_crates D) P cp p L) (process_life D P N config p output)
     (\<lambda>_ w. committed P p L w \<and> w_journal w = None)"
proof -
  let ?U = "\<lambda>w. uncommitted (d_crates D) P cp L w \<and> w_memory w = cp \<and> w_journal w = None"
  let ?C = "\<lambda>w. committed P p L w \<and> w_memory w = pt_next_checkpoint p \<and> w_journal w = None"
  have U: "keeps (safe (d_crates D) P cp p L) ?U (commit_prepared D P config p output)
      (\<lambda>_ w. committed P p L w \<and> w_journal w = None)"
    by (rule keeps_post[OF keeps_pre[OF commit_keeps]]) auto
  have C: "keeps (safe (d_crates D) P cp p L) ?C (commit_prepared D P config p output)
      (\<lambda>_ w. committed P p L w \<and> w_journal w = None)"
  proof (rule keepsI)
    fix fates w fates' w' r
    assume "?C w" and "commit_prepared D P config p output (fates, w) = ((fates', w'), Inl r)"
    moreover have "\<exists>e. commit_prepared D P config p output (fates, w) = ((fates, w), Inl e)"
      by (rule commit_after_commit[OF ext]) (use \<open>?C w\<close> in simp)
    ultimately show "safe (d_crates D) P cp p L w'" by (auto simp: safe_def)
  next
    fix fates w fates' w' x
    assume "?C w" and "commit_prepared D P config p output (fates, w) = ((fates', w'), Inr x)"
    moreover have "\<exists>e. commit_prepared D P config p output (fates, w) = ((fates, w), Inl e)"
      by (rule commit_after_commit[OF ext]) (use \<open>?C w\<close> in simp)
    ultimately show "committed P p L w' \<and> w_journal w' = None" by auto
  qed
  show ?thesis
    unfolding process_life_def
    by (rule keeps_then[OF restore_keeps[OF ext]], rule keeps_pre[OF keeps_cases[OF U C]]) auto
qed

lemma lives_safe:
  assumes "extends D cp p"
  shows "safe (d_crates D) P cp p L w \<Longrightarrow> safe (d_crates D) P cp p L (process_lives D P N config p lives w)"
proof (induction lives arbitrary: w)
  case (Cons life lives)
  obtain fates' w' r where run: "process_life D P N config p (fst life) (snd life, w) = ((fates', w'), r)"
    by (metis prod.exhaust)
  have "safe (d_crates D) P cp p L w'"
  proof (cases r)
    case (Inl e)
    then show ?thesis using keeps_error[OF life_keeps[OF assms] Cons.prems] run by blast
  next
    case (Inr x)
    then have "committed P p L w'" using keeps_value[OF life_keeps[OF assms] Cons.prems] run by blast
    then show ?thesis by (simp add: safe_def)
  qed
  with Cons.IH run show ?case by simp
qed simp

section \<open>An undisturbed life\<close>

lemma pay_completes:
  "completes 1 (recoverable P cp p L) (process_remaining_pending_mints P (mints_of p) b) (\<lambda>_ _. True)"
  by (auto simp: completes_def smooth_Suc process_remaining_pending_mints_def Let_def)

lemma reconcile_matching_completes:
  assumes "assert_checkpoint_matches_chain (d_crates D) c h = Inr ()"
  shows "completes 2 (\<lambda>_. True) (reconcile_checkpoint_journal D P c h) (\<lambda>_ _. True)"
proof -
  show ?thesis
    unfolding reconcile_checkpoint_journal_def Let_def assms is_ok.simps if_True
    apply (rule completes_seq[where n = 1 and n' = 1 and Q = "\<lambda>_ _. True"], simp)
     apply (rule completes_one; simp)
    subgoal for present
      apply (cases present; simp add: stale_journal_action_def del_journal_def)
       apply (rule completes_seq[where n = 1 and n' = 0 and Q = "\<lambda>_ _. True"], simp)
        apply (rule completes_one; simp)
       apply (rule completes_lift; simp)
      apply (rule completes_lift; simp)
      done
    done
qed

lemma reconcile_recoverable_completes:
  assumes ext: "extends D cp p"
  shows "completes 4 (recoverable P cp p L) (reconcile_checkpoint_journal D P cp (pt_new_header p)) (\<lambda>_ _. True)"
proof -
  let ?R = "recoverable P cp p L"
  have no: "\<not> is_ok (assert_checkpoint_matches_chain (d_crates D) cp (pt_new_header p))"
    and valid: "validate_checkpoint (d_crates D) (d_bridge D) (pt_next_checkpoint p) = Inr ()"
    using ext by (simp_all add: extends_def is_ok_unit)
  have finish: "completes 2 (\<lambda>_. True)
      (io_then (set_checkpoint c) (\<lambda>_. io_then del_journal (\<lambda>_. io_lift (Inr c)))) (\<lambda>_ _. True)" for c
    unfolding set_checkpoint_def del_journal_def
    apply (rule completes_seq[where n = 1 and n' = 1 and Q = "\<lambda>_ _. True"], simp)
     apply (rule completes_one; simp)
    apply (rule completes_seq[where n = 1 and n' = 0 and Q = "\<lambda>_ _. True"], simp)
     apply (rule completes_one; simp)
    apply (rule completes_lift; simp)
    done
  have skip: "completes 0 A (io_lift (Inr x)) (\<lambda>_. A)" for A :: "'c world \<Rightarrow> bool" and x :: "'z"
    by (rule completes_lift; simp)
  have "completes 3 (\<lambda>w. ?R w \<and> names_rest P p (w_chain w) j)
      (io_then (io_lift (validate_checkpoint (d_crates D) (d_bridge D) (cj_checkpoint j))) (\<lambda>_.
       case plan_journal_recovery (d_crates D) cp (pt_new_header p) (Some j) of
         PlanUpToDate \<Rightarrow> io_lift (Inr cp)
       | DiscardStaleJournal \<Rightarrow> io_lift (Inr cp)
       | PromoteCheckpoint checkpoint \<Rightarrow>
           io_then (io_lift (validate_checkpoint (d_crates D) (d_bridge D) checkpoint)) (\<lambda>_.
           io_then (set_checkpoint checkpoint) (\<lambda>_.
           io_then del_journal (\<lambda>_. io_lift (Inr checkpoint))))
       | CompleteMint checkpoint finalized uploaded \<Rightarrow>
           io_then (io_lift (validate_checkpoint (d_crates D) (d_bridge D) checkpoint)) (\<lambda>_.
           io_then (if bc_pending_mints finalized \<noteq> [] then
                      io_then (process_remaining_pending_mints P (bc_pending_mints finalized) uploaded)
                        (\<lambda>result. io_lift (mint_recovery_succeeded result))
                    else io_lift (Inr ())) (\<lambda>_.
           io_then (set_checkpoint checkpoint) (\<lambda>_.
           io_then del_journal (\<lambda>_. io_lift (Inr checkpoint)))))
       | FailClosed reason \<Rightarrow> io_lift (Inl (Err reason))))
      (\<lambda>_ _. True)" for j
  proof (cases "\<exists>c. names_rest P p c j")
    case False
    then show ?thesis by (auto simp: completes_def)
  next
    case True
    then have plan: "plan_journal_recovery (d_crates D) cp (pt_new_header p) (Some j)
        = (if cj_mint_progress j \<noteq> None then PromoteCheckpoint (pt_next_checkpoint p)
           else CompleteMint (pt_next_checkpoint p) (pt_finalized_buffers p) (the (cj_uploaded_buffers j)))"
      and cj: "cj_checkpoint j = pt_next_checkpoint p"
      using plan_of_recoverable[OF ext] by (auto simp: names_rest_def)
    have pay: "completes 1 ?R
       (if mints_of p \<noteq> [] then io_then (process_remaining_pending_mints P (mints_of p) b)
          (\<lambda>result. io_lift (mint_recovery_succeeded result)) else io_lift (Inr ())) (\<lambda>_ _. True)" for b
      apply (cases "mints_of p = []"; simp only: simp_thms if_True if_False)
       apply (rule completes_lift; simp)
      apply (rule completes_seq[where n = 1 and n' = 0, OF _
            completes_keeps[OF pay_completes pay_keeps_recoverable]], simp)
      apply (rule completes_lift; simp add: mint_recovery_succeeded_def)
      done
    show ?thesis
    proof (cases "cj_mint_progress j")
      case None
      show ?thesis
        apply (simp only: plan cj valid None simp_thms if_False journal_recovery_plan.case)
        apply (rule completes_seq[where n = 0 and n' = 3 and Q = "\<lambda>_. ?R"], simp)
         apply (rule completes_lift; simp)
        apply (rule completes_seq[where n = 0 and n' = 3, OF _ skip], simp)
        apply (rule completes_seq[where n = 1 and n' = 2, OF _ pay], simp)
        apply (rule finish)
        done
    next
      case (Some m)
      show ?thesis
        apply (simp only: plan cj valid Some option.distinct simp_thms if_True journal_recovery_plan.case)
        apply (rule completes_seq[where n = 0 and n' = 2 and Q = "\<lambda>_ _. True"], simp)
         apply (rule completes_lift; simp)
        apply (rule completes_seq[where n = 0 and n' = 2, OF _ skip], simp)
        apply (rule finish)
        done
    qed
  qed
  note after = this
  show ?thesis
    unfolding reconcile_checkpoint_journal_def Let_def if_not_P[OF no]
    apply (rule completes_seq[where n = 1 and n' = 3 and Q = "\<lambda>stored w. ?R w \<and> stored = w_journal w"], simp)
     apply (rule completes_one; simp)
    apply (rule completes_seq[where n = 0 and n' = 3, OF _ _ after], simp)
    apply (rule completes_lift; auto simp: recoverable_def split: option.splits stored_journal.splits)
    done
qed

lemma restore_completes:
  assumes ext: "extends D cp p"
  shows "completes 6 (safe (d_crates D) P cp p L) (restore_checkpoint D P N config)
     (\<lambda>_ w. (uncommitted (d_crates D) P cp L w \<and> w_memory w = cp
            \<or> committed P p L w \<and> w_memory w = pt_next_checkpoint p) \<and> w_journal w = None)"
proof (rule completes_keeps[OF _ restore_keeps[OF ext]])
  let ?U = "uncommitted (d_crates D) P cp L" and ?R = "recoverable P cp p L" and ?C = "committed P p L"
  let ?ok = "\<lambda>c h. assert_checkpoint_matches_chain (d_crates D) c h = Inr ()"
  let ?rest = "\<lambda>h c. io_then (reconcile_checkpoint_journal D P c h) (\<lambda>c.
     io_then (io_lift (assert_checkpoint_matches_chain (d_crates D) c h)) (\<lambda>_. set_memory c))"
  have next_ok: "?ok (pt_next_checkpoint p) (pt_new_header p)" using ext by (simp add: extends_def)
  have tail: "completes 0 (\<lambda>w. B w \<and> c = c' \<and> w_journal w = None)
      (io_then (io_lift (assert_checkpoint_matches_chain (d_crates D) c h)) (\<lambda>_. set_memory c)) (\<lambda>_ _. True)"
    if "?ok c' h" for B c c' h
    unfolding set_memory_def
    apply (rule completes_seq[where n = 0 and n' = 0 and Q = "\<lambda>_ w. c = c'"], simp)
     apply (rule completes_lift; use that in auto)
    apply (rule completes_update; simp)
    done
  have matching: "completes 4 A (?rest h c) (\<lambda>_ _. True)"
    if "?ok c h" and "\<And>w j. A (w\<lparr>w_journal := j\<rparr>) = A w" for A c h
    by (rule completes_seq[where n = 2 and n' = 0, OF _
          completes_keeps[OF completes_pre[OF reconcile_matching_completes] reconcile_matching_keeps[where I = A and R = A]] tail])
      (use that in auto)
  have R: "completes 4 ?R (?rest (pt_new_header p) cp) (\<lambda>_ _. True)"
    by (rule completes_seq[where n = 4 and n' = 0, OF _
          completes_keeps[OF reconcile_recoverable_completes[OF ext] reconcile_recoverable_keeps[OF ext]] tail])
      (use next_ok in auto)
  have start: "completes 6 A (restore_checkpoint D P N config) (\<lambda>_ _. True)"
    if A: "\<And>w. A w \<Longrightarrow> F (on_chain_header P (w_chain w)) \<and> w_checkpoint w = Some c"
      and rest: "\<And>h. F h \<Longrightarrow> completes 4 A (?rest h c) (\<lambda>_ _. True)" for A F c
    unfolding restore_checkpoint_def
    apply (rule completes_seq[where n = 1 and n' = 5 and Q = "\<lambda>h w. A w \<and> F h"], simp)
     apply (rule completes_one; use A in auto)
    apply (rule completes_pure)
    apply (rule completes_seq[where n = 1 and n' = 4 and Q = "\<lambda>stored w. A w \<and> stored = Some c"], simp)
     apply (rule completes_one; use A in auto)
    apply (rule completes_pure)
    apply (rule completes_seq[where n = 0 and n' = 4 and Q = "\<lambda>c' w. A w \<and> c' = c"], simp)
     apply (rule completes_lift; use A in auto)
    apply (rule completes_pure)
    using rest by simp
  have "completes 6 ?U (restore_checkpoint D P N config) (\<lambda>_ _. True)"
    by (rule start[of ?U "?ok cp" cp, OF _ matching]) (auto simp: uncommitted_def)
  moreover have "completes 6 ?R (restore_checkpoint D P N config) (\<lambda>_ _. True)"
    by (rule start[of ?R "(=) (pt_new_header p)" cp]) (use R in \<open>auto simp: recoverable_def paying_def\<close>)
  moreover have "completes 6 ?C (restore_checkpoint D P N config) (\<lambda>_ _. True)"
    by (rule start[of ?C "(=) (pt_new_header p)" "pt_next_checkpoint p"])
      (use matching[of "pt_next_checkpoint p" "pt_new_header p" ?C] next_ok in \<open>auto simp: committed_def\<close>)
  ultimately show "completes 6 (safe (d_crates D) P cp p L) (restore_checkpoint D P N config) (\<lambda>_ _. True)"
    unfolding completes_def safe_def by blast
qed

lemma ensure_completes:
  assumes "\<forall>m \<in> set ms. pm_recipient m \<in> set (cfg_recipient_atas config)"
  shows "completes (length ms) Q (ensure_recipient_token_accounts config ms) (\<lambda>_. Q)"
  using assms
proof (induction ms)
  case Nil
  then show ?case by (auto intro!: completes_lift)
next
  case (Cons m ms)
  then show ?case
    by (auto intro!: completes_seq[where n = 1 and n' = "length ms" and Q = "\<lambda>_. Q"] completes_one)
qed

lemma process_completes:
  fixes p :: prepared
  shows "completes 1 (\<lambda>w. claimed_mints P (w_chain w) = 0) (process_finalized_mints P (pt_finalized_buffers p) b) (\<lambda>_ _. True)"
  unfolding process_finalized_mints_def Let_def
  apply (rule completes_seq[where n = 1 and n' = 0 and
        Q = "\<lambda>r w. pm_fully_completed r \<and> pm_total_mints_processed r = length (mints_of p)"], simp)
   apply (auto simp: completes_def smooth_Suc process_remaining_pending_mints_def Let_def program_simps)[1]
  apply (auto simp: completes_def io_lift_def)
  done

lemma commit_completes:
  assumes "check_prepared D config cp p output = Inr ()"
    and "validate_buffer_payload (d_crates D) (d_bridge D) (pt_finalized_buffers p) (mints_of p) = Inr ()"
    and "\<forall>m \<in> set (mints_of p). pm_recipient m \<in> set (cfg_recipient_atas config)"
    and "\<forall>s. resp_idempotency_key (update_reply P s) = su_idempotency_key s"
  shows "completes (length (mints_of p) + 12) (\<lambda>w. w_memory w = cp) (commit_prepared D P config p output) (\<lambda>_ _. True)"
proof -
  let ?T = "\<lambda>_ _. True" and ?n = "length (mints_of p)"
  have upload: "completes (?n + 2) (\<lambda>_. True)
      (upload_finalized_buffers D P config (pt_finalized_height p) (pt_finalized_buffers p)) ?T"
    unfolding upload_finalized_buffers_def Let_def
    apply (rule completes_seq[where n = 0 and n' = "?n + 2" and Q = ?T], simp)
     apply (rule completes_lift; simp add: assms)
    apply (rule completes_seq[where n = "?n" and n' = 2, OF _ ensure_completes[OF assms(3)]], simp)
    apply (rule completes_seq[where n = 1 and n' = 1 and Q = ?T], simp)
     apply (rule completes_one; simp)
    apply (clarsimp split: prod.split)
    apply (rule completes_seq[where n = 1 and n' = 0 and Q = ?T], simp)
     apply (rule completes_one; simp)
    apply (auto intro!: completes_lift)
    done
  show ?thesis
    unfolding commit_prepared_def Let_def get_memory_def set_journal_def write_evidence_def set_memory_def
      set_checkpoint_def del_journal_def
    apply (rule completes_seq[where n = 0 and n' = "?n + 12" and Q = "\<lambda>m w. m = cp"], simp)
     apply (rule completes_get; simp)
    apply (rule completes_seq[where n = 0 and n' = "?n + 12" and Q = ?T], simp)
     apply (rule completes_lift; simp add: assms)
    apply (rule completes_seq[where n = 1 and n' = "?n + 11" and Q = ?T], simp)
     apply (rule completes_one; simp)
    apply (rule completes_seq[where n = "?n + 2" and n' = 9, OF _ upload], simp)
    apply (rule completes_seq[where n = 1 and n' = 8 and Q = ?T], simp)
     apply (rule completes_one; simp)
    apply (rule completes_seq[where n = 1 and n' = 7 and Q = ?T], simp)
     apply (rule completes_one; simp)
    apply (rule completes_seq[where n = 1 and n' = 6 and
          Q = "\<lambda>r w. claimed_mints P (w_chain w) = 0 \<and> resp_idempotency_key r = pt_idempotency_key p"], simp)
     apply (rule completes_one; simp add: assms(4) program_simps)
    apply (rule completes_pure)
    apply (simp only: simp_thms if_False)
    apply (rule completes_seq[where n = 1 and n' = 5 and Q = "\<lambda>_ w. claimed_mints P (w_chain w) = 0"], simp)
     apply (rule completes_one; simp)
    apply (rule completes_seq[where n = 1 and n' = 4, OF _ process_completes], simp)
    apply (rule completes_seq[where n = 1 and n' = 3 and Q = ?T], simp)
     apply (rule completes_one; simp)
    apply (rule completes_seq[where n = 0 and n' = 3 and Q = ?T], simp)
     apply (rule completes_update; simp)
    apply (rule completes_seq[where n = 1 and n' = 2 and Q = ?T], simp)
     apply (rule completes_one; simp)
    apply (rule completes_seq[where n = 1 and n' = 1 and Q = ?T], simp)
     apply (rule completes_one; simp)
    apply (rule completes_one; simp)
    done
qed

lemma undisturbed_life:
  assumes ext: "extends D cp p" and safe: "safe (d_crates D) P cp p L w"
    and commit: "check_prepared D config cp p output = Inr ()"
      "validate_buffer_payload (d_crates D) (d_bridge D) (pt_finalized_buffers p) (mints_of p) = Inr ()"
      "\<forall>m \<in> set (mints_of p). pm_recipient m \<in> set (cfg_recipient_atas config)"
      "\<forall>s. resp_idempotency_key (update_reply P s) = su_idempotency_key s"
    and fates: "smooth (length (mints_of p) + 18) fates"
  shows "committed P p L (process_lives D P N config p [(output, fates)] w)
    \<and> w_journal (process_lives D P N config p [(output, fates)] w) = None"
proof -
  have "smooth (6 + (length (mints_of p) + 12 + 0)) fates" using fates by (simp add: add.commute)
  then obtain fates1 w1 where restored: "restore_checkpoint D P N config (fates, w) = ((fates1, w1), Inr ())"
    and s1: "smooth (length (mints_of p) + 12 + 0) fates1"
    and phase: "(uncommitted (d_crates D) P cp L w1 \<and> w_memory w1 = cp
        \<or> committed P p L w1 \<and> w_memory w1 = pt_next_checkpoint p) \<and> w_journal w1 = None"
    by (rule completesD[OF restore_completes[OF ext] safe]) auto
  from phase consider (old) "uncommitted (d_crates D) P cp L w1" "w_memory w1 = cp"
    | (new) "committed P p L w1" "w_memory w1 = pt_next_checkpoint p" "w_journal w1 = None" by auto
  then show ?thesis
  proof cases
    case old
    obtain fates2 w2 where done_: "commit_prepared D P config p output (fates1, w1) = ((fates2, w2), Inr ())"
      by (rule completesD[OF commit_completes[OF commit], of w1 0 fates1]) (use old s1 in auto)
    then have "committed P p L w2 \<and> w_journal w2 = None"
      using keeps_value[OF commit_keeps old(1)] by blast
    with restored done_ show ?thesis by (simp add: process_life_def io_then_run)
  next
    case new
    from commit_after_commit[OF ext new(2)]
    obtain e where "commit_prepared D P config p output (fates1, w1) = ((fates1, w1), Inl e)" by blast
    with restored new show ?thesis by (simp add: process_life_def io_then_run)
  qed
qed

lemma process_lives_append:
  "process_lives D P N config p (as @ bs) w = process_lives D P N config p bs (process_lives D P N config p as w)"
  by (induction as arbitrary: w) auto

end

section \<open>A ledger program\<close>

text \<open>
  The bridge, pending-mint and buffer programs on Solana as the node uses them: the header account,
  the two buffer accounts, the tracker of claimed mints and the payments made so far.
\<close>

record ledger =
  lg_header :: bytes
  lg_mint_buffer :: "pending_mint list"
  lg_txo_buffer :: "u32 list"
  lg_claimed :: nat
  lg_paid :: "pending_mint list"

definition ledger_program :: "ledger program" where
  "ledger_program =
     \<lparr>on_chain_header = lg_header, paid_mints = lg_paid, claimed_mints = lg_claimed,
      setup_mint_buffer = (\<lambda>_ ms c. c\<lparr>lg_mint_buffer := ms\<rparr>), mint_buffer_address = (\<lambda>_ _. (replicate 32 1, 0)),
      setup_txo_buffer = (\<lambda>_ is c. c\<lparr>lg_txo_buffer := is\<rparr>), txo_buffer_address = (\<lambda>_ _. (replicate 32 2, 0)),
      accept_update = (\<lambda>s c. c\<lparr>lg_header := su_header s, lg_claimed := 0\<rparr>),
      update_reply = (\<lambda>s. \<lparr>resp_signature = ''sig'', resp_idempotency_key = su_idempotency_key s\<rparr>),
      pay_mints = (\<lambda>ms b n c. c\<lparr>lg_claimed := max (lg_claimed c) (min (lg_claimed c + n) (length ms)),
        lg_paid := lg_paid c @ take n (drop (lg_claimed c) ms)\<rparr>),
      group_signatures = map (\<lambda>_. ''sig'')\<rparr>"

lemma ledger_simps [simp]:
  "on_chain_header ledger_program c = lg_header c" "paid_mints ledger_program c = lg_paid c"
  "claimed_mints ledger_program c = lg_claimed c"
  "resp_idempotency_key (update_reply ledger_program s) = su_idempotency_key s"
  by (simp_all add: ledger_program_def)

interpretation ledger: bridge_program ledger_program
  by unfold_locales (simp_all add: ledger_program_def)

definition ledger_world :: "pipeline_checkpoint \<Rightarrow> ledger world" where
  "ledger_world cp =
     \<lparr>w_chain = \<lparr>lg_header = demo_header, lg_mint_buffer = [], lg_txo_buffer = [], lg_claimed = 0, lg_paid = []\<rparr>,
      w_checkpoint = Some cp, w_journal = None, w_evidence = [], w_memory = cp\<rparr>"

abbreviation demo_D :: "(bytes, u64, prover_response) deps" where
  "demo_D \<equiv> demo_deps demo_witness_decode"

definition demo_output :: "prepared \<Rightarrow> prover_output" where
  "demo_output p =
     \<lparr>po_stdout = [], po_stderr = [], po_vk_hash = [], po_proof = replicate 356 1,
      po_public_values = expected_public_values demo_D (demo_config 1) (pt_old_header p) (pt_new_header p)\<rparr>"

lemma prepared_passes:
  assumes "prepare_height D N config cp height = Inr p" and "checked_add_u32 (cp_height cp) 1 = Some height"
    and "length (po_proof output) = proof_size" and "\<not> list_all (\<lambda>b. b = 0) (po_proof output)"
    and "po_public_values output = expected_public_values D config (pt_old_header p) (pt_new_header p)"
    and "hash_laws (d_crates D)"
  shows "check_prepared D config cp p output = Inr ()"
proof -
  have "pt_height p = height \<and> cp_height (pt_next_checkpoint p) = height
    \<and> (\<exists>json. d_checkpoint_to_string D cp = Inr json
        \<and> job_parent (pt_proof_job p) = sha256_hex (d_crates D) (str_bytes json))"
    by (rule prepare_heightE[OF assms(1)]) (auto dest: job_new_fields(4) next_checkpoint_ok(1))
  moreover have "length (po_public_values output) = public_values_size"
    using assms(5,6) by (simp add: expected_public_values_def Let_def hash_laws_def public_values_size_def)
  ultimately show ?thesis
    using assms(2-5) by (auto simp: check_prepared_def ensure_length_def ok_or_def Let_def)
qed

lemma demo_output_passes:
  assumes "prepare_height demo_D demo_node (demo_config 1) cp height = Inr p" and "checked_add_u32 (cp_height cp) 1 = Some height"
  shows "check_prepared demo_D (demo_config 1) cp p (demo_output p) = Inr ()"
  by (rule prepared_passes[OF assms]) (simp_all add: demo_output_def proof_size_def list_all_iff demo_hash_laws)

lemma demo_header_differs: "take 32 h = replicate 32 1 \<Longrightarrow> h \<noteq> demo_header"
  by (auto simp: demo_header_def)

lemma demo_matches:
  "assert_checkpoint_matches_chain demo_crates (demo_checkpoint_at h demo_header cs)
     (on_chain_header ledger_program (w_chain (ledger_world cp))) = Inr ()"
  by (simp add: assert_matches_iff ledger_world_def demo_checkpoint_at_def decode_fixed_iff demo_hex demo_header_def header_size_def)

lemma empty_payload_valid:
  assumes "hex_laws X" and "hash_laws X" and "commitment_empty X B = Inr c" and "\<forall>h. mints_groups_hash B [] = Inr h \<longrightarrow> length h = 32"
  shows "validate_buffer_payload X B c (bc_pending_mints c) = Inr ()"
proof -
  obtain h where h: "mints_groups_hash B [] = Inr h" using assms(3) by (auto simp: commitment_empty_def)
  have "decode_hash X (hex_encode X h) = Inr h" "decode_hash X (hex_encode X (sha256 X [])) = Inr (sha256 X [])"
    using assms(2,4) h by (auto intro!: decode_hash_encode[OF assms(1)] simp: hash_laws_def)
  with assms(3) h show ?thesis
    by (auto simp: commitment_empty_def validate_buffer_payload_def pending_mints_hash_def bc_mints_hash_def bc_txo_hash_def
        serialize_txo_indices_def)
qed

definition demo_mint :: pending_mint where
  "demo_mint = \<lparr>pm_recipient = [4], pm_amount = 7\<rparr>"

definition demo_buffers :: buffer_commitment where
  "demo_buffers =
     \<lparr>bc_mints_hash_hex = demo_encode (replicate 32 5), bc_txo_hash_hex = demo_encode (replicate 32 6),
      bc_pending_mints = [demo_mint], bc_txo_indices = [0], bc_deposit_count = 1, bc_minted_sats = 7,
      bc_claim_start = 0, bc_claim_end = 1, bc_fees = 0\<rparr>"

definition demo_cp :: pipeline_checkpoint where
  "demo_cp = demo_checkpoint_at 1 demo_header [(1, demo_buffers)]"

lemma resolve_mints:
  "resolve_finalized_buffers X B H b (Some c) custody atas fs = Inr (c', w) \<Longrightarrow> bc_pending_mints c' = bc_pending_mints c"
  by (auto simp: resolve_finalized_buffers_def split: if_splits)

lemma demo_second_block:
  obtains p where "prepare_height demo_D demo_node (demo_config 1) demo_cp 2 = Inr p" "mints_of p = [demo_mint]"
    "pt_new_header p \<noteq> pt_old_header p" "pt_next_checkpoint p \<noteq> demo_cp" "pt_old_header p = demo_header"
proof -
  have cp: "demo_cp = demo_checkpoint_at 1 demo_header [(1, demo_buffers)]" by (simp add: demo_cp_def)
  have get: "bt_get [(1, demo_buffers)] 1 = Some demo_buffers" by (simp add: bt_get_def)
  then obtain p h' where p: "prepare_height demo_D demo_node (demo_config 1) demo_cp 2 = Inr p"
    and hdr: "pt_old_header p = demo_header" "pt_new_header p = h'" "take 32 h' = replicate 32 1"
    and nx: "pt_next_checkpoint p = demo_checkpoint_at (1 + 1) h' (next_pending demo_crates [(1, demo_buffers)] (of_nat (1 + 1)) (of_nat (1 + 1) - 1) (pt_evaluation p))"
    using demo_prepare_at[of 1 demo_header 1 "[(1, demo_buffers)]"] unfolding cp by (auto simp: demo_header_def demo_buffers_def bt_get_def)
  have f: "pt_finalized_height p = 1"
    by (rule prepare_heightE[OF p]) (simp add: demo_config_def checked_sub_u32_def split: if_splits)
  obtain b fs fw where "resolve_finalized_buffers demo_crates demo_bridge (demo_helpers_with demo_witness_decode) b
      (Some demo_buffers) [9] [[3], [4]] fs = Inr (pt_finalized_buffers p, fw)"
    by (rule prepare_heightE[OF p]) (simp add: f cp demo_checkpoint_at_def demo_config_def get)
  then have "mints_of p = bc_pending_mints demo_buffers" by (rule resolve_mints)
  moreover have "pt_new_header p \<noteq> pt_old_header p" using hdr demo_header_differs by metis
  moreover have "cp_height (pt_next_checkpoint p) \<noteq> cp_height demo_cp"
    by (simp add: nx cp demo_height_at)
  then have "pt_next_checkpoint p \<noteq> demo_cp" by metis
  ultimately show thesis using that[OF p] hdr by (auto simp: demo_buffers_def)
qed

lemma demo_cp_next: "checked_add_u32 (cp_height demo_cp) 1 = Some 2"
  by (simp add: demo_cp_def demo_height_at checked_add_u32_def)

section \<open>Properties\<close>

text \<open>
  Claim C4. Whatever interrupts the commit of a prepared block and the recoveries after it, at
  whatever effects and however often: the mints paid are a prefix of the block's mints, in order and
  each once; none is paid unless the chain has accepted the block's header; and the new checkpoint
  is stored only when all of them are paid.
\<close>

theorem commit_is_crash_safe:
  assumes "bridge_program P" and "hex_laws (d_crates D)"
    and "prepare_height D N config cp height = Inr p" and "checked_add_u32 (cp_height cp) 1 = Some height"
    and "pt_new_header p \<noteq> pt_old_header p"
    and "assert_checkpoint_matches_chain (d_crates D) cp (on_chain_header P (w_chain w)) = Inr ()"
    and "w_checkpoint w = Some cp" and "w' = process_lives D P N' config p lives w"
  shows "\<exists>k \<le> length (mints_of p). paid_mints P (w_chain w') = paid_mints P (w_chain w) @ take k (mints_of p)
    \<and> (on_chain_header P (w_chain w') = on_chain_header P (w_chain w) \<and> k = 0 \<and> w_checkpoint w' = Some cp
      \<or> on_chain_header P (w_chain w') = pt_new_header p \<and> w_checkpoint w' = Some cp
      \<or> on_chain_header P (w_chain w') = pt_new_header p \<and> w_checkpoint w' = Some (pt_next_checkpoint p)
          \<and> k = length (mints_of p))"
proof -
  let ?L = "paid_mints P (w_chain w)"
  have ext: "extends D cp p" by (rule prepared_extends[OF assms(2-5)])
  have "safe (d_crates D) P cp p ?L w" using assms(6,7) by (simp add: safe_def uncommitted_def)
  from bridge_program.lives_safe[OF assms(1) ext this, of N' config lives]
  have "safe (d_crates D) P cp p ?L w'" using assms(8) by simp
  then consider "uncommitted (d_crates D) P cp ?L w'" | "recoverable P cp p ?L w'" | "committed P p ?L w'"
    by (auto simp: safe_def)
  then show ?thesis
  proof cases
    case 1
    then show ?thesis using assms(6) by (intro exI[of _ 0]) (auto simp: uncommitted_def assert_matches_iff)
  next
    case 2
    then show ?thesis by (intro exI[of _ "claimed_mints P (w_chain w')"]) (auto simp: recoverable_def paying_def)
  next
    case 3
    then show ?thesis by (intro exI[of _ "length (mints_of p)"]) (auto simp: committed_def)
  qed
qed

theorem commit_is_crash_safe_witness:
  "\<exists>p k w'. prepare_height demo_D demo_node (demo_config 1) demo_cp 2 = Inr p \<and> mints_of p = [demo_mint]
     \<and> w' = process_lives demo_D ledger_program demo_node (demo_config 1) p
          [(demo_output p, [Applied, Applied, Applied, Late]), (demo_output p, replicate 10 Applied @ [Partial 1, Lost])]
          (ledger_world demo_cp)
     \<and> k \<le> 1 \<and> lg_paid (w_chain w') = take k [demo_mint]
     \<and> (lg_header (w_chain w') = demo_header \<longrightarrow> k = 0)
     \<and> (w_checkpoint w' = Some (pt_next_checkpoint p) \<longrightarrow> k = 1)"
proof -
  obtain p where p: "prepare_height demo_D demo_node (demo_config 1) demo_cp 2 = Inr p" "mints_of p = [demo_mint]"
    "pt_new_header p \<noteq> pt_old_header p" "pt_next_checkpoint p \<noteq> demo_cp" "pt_old_header p = demo_header"
    by (rule demo_second_block)
  define lives where "lives = [(demo_output p, [Applied, Applied, Applied, Late]),
    (demo_output p, replicate 10 Applied @ [Partial 1, Lost])]"
  define w' where "w' = process_lives demo_D ledger_program demo_node (demo_config 1) p lives (ledger_world demo_cp)"
  have laws: "hex_laws (d_crates demo_D)" by (simp add: demo_hex_laws)
  have "assert_checkpoint_matches_chain (d_crates demo_D) demo_cp (on_chain_header ledger_program (w_chain (ledger_world demo_cp))) = Inr ()"
    unfolding demo_deps_simps demo_cp_def by (rule demo_matches)
  from commit_is_crash_safe[OF ledger.bridge_program_axioms laws p(1) demo_cp_next p(3) this _ w'_def]
  have "\<exists>k\<le>1. lg_paid (w_chain w') = take k [demo_mint]
    \<and> (lg_header (w_chain w') = demo_header \<and> k = 0 \<and> w_checkpoint w' = Some demo_cp
      \<or> lg_header (w_chain w') = pt_new_header p \<and> w_checkpoint w' = Some demo_cp
      \<or> lg_header (w_chain w') = pt_new_header p \<and> w_checkpoint w' = Some (pt_next_checkpoint p) \<and> k = 1)"
    by (simp add: p(2) ledger_world_def)
  with p show ?thesis unfolding w'_def lives_def by auto
qed

text \<open>
  Claim C5. After any number of interrupted commits and recoveries, one life in which every
  operation is applied ends with the block committed: the header on the chain, each of its mints
  paid exactly once, the new checkpoint stored and the journal gone.
\<close>

theorem undisturbed_life_commits:
  assumes "bridge_program P" and "hex_laws (d_crates D)"
    and "prepare_height D N config cp height = Inr p" and "checked_add_u32 (cp_height cp) 1 = Some height"
    and "pt_new_header p \<noteq> pt_old_header p"
    and "assert_checkpoint_matches_chain (d_crates D) cp (on_chain_header P (w_chain w)) = Inr ()"
    and "w_checkpoint w = Some cp"
    and "check_prepared D config cp p output = Inr ()"
    and "validate_buffer_payload (d_crates D) (d_bridge D) (pt_finalized_buffers p) (mints_of p) = Inr ()"
    and "\<forall>m \<in> set (mints_of p). pm_recipient m \<in> set (cfg_recipient_atas config)"
    and "\<forall>s. resp_idempotency_key (update_reply P s) = su_idempotency_key s"
    and "w' = process_lives D P N' config p (lives @ [(output, replicate (length (mints_of p) + 18) Applied)]) w"
  shows "on_chain_header P (w_chain w') = pt_new_header p
    \<and> paid_mints P (w_chain w') = paid_mints P (w_chain w) @ mints_of p
    \<and> w_checkpoint w' = Some (pt_next_checkpoint p) \<and> w_journal w' = None"
proof -
  let ?L = "paid_mints P (w_chain w)"
  have ext: "extends D cp p" by (rule prepared_extends[OF assms(2-5)])
  have "safe (d_crates D) P cp p ?L w" using assms(6,7) by (simp add: safe_def uncommitted_def)
  from bridge_program.undisturbed_life[OF assms(1) ext bridge_program.lives_safe[OF assms(1) ext this] assms(8-11) smooth_replicate]
  show ?thesis using assms(12) by (simp add: bridge_program.process_lives_append[OF assms(1)] committed_def)
qed

theorem undisturbed_life_commits_witness:
  "\<exists>p w'. prepare_height demo_D demo_node (demo_config 1) demo_start 1 = Inr p
     \<and> w' = process_lives demo_D ledger_program demo_node (demo_config 1) p
          [(demo_output p, replicate 8 Applied @ [Late]), (demo_output p, replicate 18 Applied)] (ledger_world demo_start)
     \<and> lg_header (w_chain w') = pt_new_header p \<and> lg_header (w_chain w') \<noteq> demo_header
     \<and> w_checkpoint w' = Some (pt_next_checkpoint p) \<and> w_journal w' = None"
proof -
  obtain p h' where p: "prepare_height demo_D demo_node (demo_config 1) demo_start 1 = Inr p"
    and hdr: "pt_old_header p = demo_header" "pt_new_header p = h'" "take 32 h' = replicate 32 1"
    using demo_prepare_at[of 0 demo_header 1 "[]"] by (auto simp: demo_header_def)
  have new: "pt_new_header p \<noteq> pt_old_header p" using hdr demo_header_differs by metis
  have next_height: "checked_add_u32 (cp_height demo_start) 1 = Some 1" by (simp add: demo_height_at checked_add_u32_def)
  obtain b fs fw where "resolve_finalized_buffers demo_crates demo_bridge (demo_helpers_with demo_witness_decode) b
      None [9] [[3], [4]] fs = Inr (pt_finalized_buffers p, fw)"
    by (rule prepare_heightE[OF p]) (simp add: demo_checkpoint_at_def demo_config_def)
  then have c: "commitment_empty demo_crates demo_bridge = Inr (pt_finalized_buffers p)" by (rule resolve_none)
  then have ms: "mints_of p = []" by (rule commitment_empty_mints)
  have payload: "validate_buffer_payload (d_crates demo_D) (d_bridge demo_D) (pt_finalized_buffers p) (mints_of p) = Inr ()"
    unfolding demo_deps_simps
    by (rule empty_payload_valid[OF demo_hex_laws demo_hash_laws c]) (simp add: demo_bridge_def demo_hash_def)
  have laws: "hex_laws (d_crates demo_D)" by (simp add: demo_hex_laws)
  have m: "assert_checkpoint_matches_chain (d_crates demo_D) demo_start (on_chain_header ledger_program (w_chain (ledger_world demo_start))) = Inr ()"
    unfolding demo_deps_simps by (rule demo_matches)
  define w' where "w' = process_lives demo_D ledger_program demo_node (demo_config 1) p
      ([(demo_output p, replicate 8 Applied @ [Late])] @ [(demo_output p, replicate (length (mints_of p) + 18) Applied)]) (ledger_world demo_start)"
  from undisturbed_life_commits[OF ledger.bridge_program_axioms laws p next_height new m _ demo_output_passes[OF p next_height] payload _ _ w'_def]
  have "lg_header (w_chain w') = pt_new_header p \<and> w_checkpoint w' = Some (pt_next_checkpoint p) \<and> w_journal w' = None"
    by (simp add: ms ledger_world_def)
  then show ?thesis
    using p new hdr(1) unfolding w'_def ms by (intro exI[of _ p]) auto
qed

text \<open>
  A submission whose outcome is unknown may still be accepted after the process
  has stopped. If the next start comes first, it finds the old header and discards the journal; once
  the update is then accepted, no later start succeeds: each fails and leaves the world as it is.
\<close>

theorem late_update_fails_closed:
  assumes "bridge_program P" and "hex_laws (d_crates D)"
    and "prepare_height D N config cp height = Inr p" and "checked_add_u32 (cp_height cp) 1 = Some height"
    and "pt_new_header p \<noteq> pt_old_header p"
    and "assert_checkpoint_matches_chain (d_crates D) cp (on_chain_header P (w_chain w)) = Inr ()"
    and "w_checkpoint w = Some cp"
    and "restore_checkpoint D P N' config (fates, w) = ((rest, w1), Inr ())"
    and "su_header update = pt_new_header p" and "w2 = w1\<lparr>w_chain := accept_update P update (w_chain w1)\<rparr>"
  shows "\<exists>rest' e. restore_checkpoint D P N' config (fates', w2) = ((rest', w2), Inl e)"
proof -
  let ?L = "paid_mints P (w_chain w)"
  have ext: "extends D cp p" by (rule prepared_extends[OF assms(2-5)])
  have "uncommitted (d_crates D) P cp ?L w" using assms(6,7) by (simp add: uncommitted_def)
  from keeps_value[OF bridge_program.restore_uncommitted_keeps[OF assms(1)] this assms(8)]
  have w1: "w_checkpoint w1 = Some cp" "w_journal w1 = None" by (auto simp: uncommitted_def)
  have w2: "on_chain_header P (w_chain w2) = pt_new_header p" "w_checkpoint w2 = Some cp" "w_journal w2 = None"
    using assms(9,10) w1 by (simp_all add: bridge_program.update_header[OF assms(1)])
  have no: "\<not> is_ok (assert_checkpoint_matches_chain (d_crates D) cp (pt_new_header p))"
    using ext by (simp add: extends_def is_ok_unit)
  have "keeps (\<lambda>w. w = w2) (\<lambda>w. w = w2) (restore_checkpoint D P N' config) (\<lambda>_ _. False)"
    unfolding restore_checkpoint_def
    apply (rule keeps_then[where Q = "\<lambda>h w. w = w2 \<and> h = pt_new_header p"])
     apply (rule keeps_effect; simp add: w2)
    apply (rule keeps_pure)
    apply (rule keeps_then[where Q = "\<lambda>stored w. w = w2 \<and> stored = Some cp"])
     apply (rule keeps_effect; simp add: w2)
    apply (rule keeps_pure)
    apply (rule keeps_then[where Q = "\<lambda>c w. w = w2 \<and> c = cp"])
     apply (rule keeps_lift; simp)
    apply (rule keeps_pure)
    apply (rule keeps_then[where Q = "\<lambda>_ _. False"])
     apply (simp only: reconcile_checkpoint_journal_def Let_def if_not_P[OF no])
     apply (rule keeps_then[where Q = "\<lambda>stored w. w = w2 \<and> stored = None"])
      apply (rule keeps_effect; simp add: w2)
     apply (rule keeps_then[where Q = "\<lambda>_ _. False"])
      apply (rule keeps_lift; simp)
     apply (rule keeps_contradiction; simp)
    apply (rule keeps_contradiction; simp)
    done
  note stuck = this
  obtain rest' w' r where run: "restore_checkpoint D P N' config (fates', w2) = ((rest', w'), r)" by (metis prod.exhaust)
  show ?thesis
  proof (cases r)
    case (Inl e)
    then show ?thesis using keeps_error[OF stuck refl] run by blast
  next
    case (Inr x)
    then show ?thesis using keeps_value[OF stuck refl] run by blast
  qed
qed

theorem late_update_fails_closed_witness:
  "\<exists>p rest w1. prepare_height demo_D demo_node (demo_config 1) demo_cp 2 = Inr p
     \<and> restore_checkpoint demo_D ledger_program demo_node (demo_config 1) (replicate 6 Applied, ledger_world demo_cp)
         = ((rest, w1), Inr ())
     \<and> (\<exists>rest' e. restore_checkpoint demo_D ledger_program demo_node (demo_config 1)
           (replicate 10 Applied, w1\<lparr>w_chain := (w_chain w1)\<lparr>lg_header := pt_new_header p, lg_claimed := 0\<rparr>\<rparr>)
         = ((rest', w1\<lparr>w_chain := (w_chain w1)\<lparr>lg_header := pt_new_header p, lg_claimed := 0\<rparr>\<rparr>), Inl e))"
proof -
  obtain p where p: "prepare_height demo_D demo_node (demo_config 1) demo_cp 2 = Inr p"
    "pt_new_header p \<noteq> pt_old_header p"
    by (rule demo_second_block)
  have laws: "hex_laws (d_crates demo_D)" by (simp add: demo_hex_laws)
  have m: "assert_checkpoint_matches_chain (d_crates demo_D) demo_cp (on_chain_header ledger_program (w_chain (ledger_world demo_cp))) = Inr ()"
    unfolding demo_deps_simps demo_cp_def by (rule demo_matches)
  have cp: "w_checkpoint (ledger_world demo_cp) = Some demo_cp" by (simp add: ledger_world_def)
  have "safe (d_crates demo_D) ledger_program demo_cp p [] (ledger_world demo_cp)"
    using m by (simp add: safe_def uncommitted_def) (simp add: ledger_world_def)
  then obtain rest w1 where restored: "restore_checkpoint demo_D ledger_program demo_node (demo_config 1)
      (replicate 6 Applied, ledger_world demo_cp) = ((rest, w1), Inr ())"
    by (rule completesD[OF ledger.restore_completes[OF prepared_extends[OF laws p(1) demo_cp_next p(2)]], of _ _ 0])
      (auto intro: smooth_replicate)
  let ?up = "\<lparr>su_idempotency_key = [], su_proof = [], su_header = pt_new_header p,
    su_buffers = \<lparr>ub_mint_buffer = [], ub_mint_buffer_bump = 0, ub_txo_buffer = [], ub_txo_buffer_bump = 0\<rparr>\<rparr>"
  have "w1\<lparr>w_chain := (w_chain w1)\<lparr>lg_header := pt_new_header p, lg_claimed := 0\<rparr>\<rparr>
    = w1\<lparr>w_chain := accept_update ledger_program ?up (w_chain w1)\<rparr>"
    by (simp add: ledger_program_def)
  from late_update_fails_closed[OF ledger.bridge_program_axioms laws p(1) demo_cp_next p(2) m cp restored _ this]
  show ?thesis using p(1) restored by simp
qed

text \<open>
  When a payment attempt fails transiently after it has paid some of the mints, the
  retry pays the rest, but its own count is short of the total: the commit reports incomplete mint
  processing although every mint is paid.
\<close>

theorem partial_payment_reported_incomplete:
  assumes "bridge_program P" and "claimed_mints P (w_chain w) = 0" and "0 < n" and "bc_pending_mints finalized \<noteq> []"
  shows "\<exists>w'. process_finalized_mints P finalized buffers (Partial n # Applied # fates, w)
      = ((fates, w'), Inl (Err ''mint processing is incomplete''))
    \<and> paid_mints P (w_chain w') = paid_mints P (w_chain w) @ bc_pending_mints finalized"
proof -
  have "take n ms @ drop (min n (length ms)) ms = ms" for ms :: "pending_mint list" by (simp add: min_def)
  moreover have "ms \<noteq> [] \<Longrightarrow> length ms - min n (length ms) \<noteq> length ms" for ms :: "pending_mint list"
    using assms(3) by (cases ms) (auto simp: min_def)
  ultimately
  show ?thesis
    using assms(2-4)
    by (auto simp: process_finalized_mints_def process_remaining_pending_mints_def io_then_run io_lift_def Let_def
        bridge_program.program_simps[OF assms(1)] numeral_eq_Suc split: if_splits)
qed

theorem partial_payment_reported_incomplete_witness:
  "\<exists>w'. process_finalized_mints ledger_program
        ((demo_buffers)\<lparr>bc_pending_mints := [demo_mint, demo_mint]\<rparr>)
        \<lparr>ub_mint_buffer = [], ub_mint_buffer_bump = 0, ub_txo_buffer = [], ub_txo_buffer_bump = 0\<rparr>
        ([Partial 1, Applied], ledger_world demo_cp) = (([], w'), Inl (Err ''mint processing is incomplete''))
      \<and> lg_paid (w_chain w') = [demo_mint, demo_mint]"
  using partial_payment_reported_incomplete[OF ledger.bridge_program_axioms, of "ledger_world demo_cp" 1
      "(demo_buffers)\<lparr>bc_pending_mints := [demo_mint, demo_mint]\<rparr>"
      "\<lparr>ub_mint_buffer = [], ub_mint_buffer_bump = 0, ub_txo_buffer = [], ub_txo_buffer_bump = 0\<rparr>" "[]"]
  by (simp add: ledger_world_def)

end
