(* ===== verification/Pipeline.thy ===== *)
theory Pipeline
  imports Crash_Safety
begin

text \<open>
  The driver of the pipeline: \<open>poll_once\<close> plans ahead of the committed tip, up to a window of blocks
  whose proofs are under way, and commits the next block in height order; \<open>run\<close> repeats it. A life
  of the process is the recovery of \<open>Recovery\<close> followed by polls, each of which may meet another
  state of the network. The state is the planned checkpoint and the table of blocks in flight; the
  committed checkpoint is the memory of the world.

  The watchdog of \<open>poll_once\<close> drops the poll at an await point. That is one of the fates: the poll
  stops before an effect and the process ends with an error.
\<close>

section \<open>The order of commits\<close>

datatype simulated_proof_state = Pending | Ready | FailedProof

datatype ordered_proof_action = Idle | Wait u32 | Commit u32 | FailAction u32

definition ordered_proof_action :: "u32 \<Rightarrow> (u32, simulated_proof_state) btree \<Rightarrow> ordered_proof_action" where
  "ordered_proof_action committed_height inflight =
     (case checked_add_u32 committed_height 1 of
        None \<Rightarrow> Idle
      | Some expected \<Rightarrow>
          (case bt_get inflight expected of
             None \<Rightarrow> Idle
           | Some Pending \<Rightarrow> Wait expected
           | Some Ready \<Rightarrow> Commit expected
           | Some FailedProof \<Rightarrow> FailAction expected))"

datatype proof_disposition = Preparing | Waiting | Failure | Validated

definition commit_may_start :: "proof_disposition \<Rightarrow> bool" where
  "commit_may_start disposition = (disposition = Validated)"

section \<open>Polling\<close>

text \<open>The answers of the proof backend during a poll: a ticket for a job, the output for a ticket.\<close>

record 't backend =
  be_submit :: "proof_job \<Rightarrow> 't res"
  be_wait :: "'t \<Rightarrow> prover_output res"

record 't poll_state =
  ps_planned :: pipeline_checkpoint
  ps_inflight :: "(u32, prepared \<times> 't) btree"

lemma and_then_cong [fundef_cong]:
  "r = r' \<Longrightarrow> (\<And>x. r' = Inr x \<Longrightarrow> f x = g x) \<Longrightarrow> and_then r f = and_then r' g"
  by (cases r') auto

function plan_ahead ::
  "('st, 'b, 'j) deps \<Rightarrow> node \<Rightarrow> 't backend \<Rightarrow> pipeline_config \<Rightarrow> u32 \<Rightarrow> 't poll_state \<times> bool
     \<Rightarrow> ('t poll_state \<times> bool) res" where
  "plan_ahead D N B config finalized_tip (s, did_work) =
     (if length (ps_inflight s) < cfg_proof_prepare_window config \<and> cp_height (ps_planned s) < finalized_tip
      then
        and_then (ok_or (checked_add_u32 (cp_height (ps_planned s)) 1) (Err ''planned checkpoint height overflow'')) (\<lambda>height.
        and_then (prepare_height D N config (ps_planned s) height) (\<lambda>p.
        and_then (be_submit B (pt_proof_job p)) (\<lambda>ticket.
        if bt_get (ps_inflight s) height \<noteq> None then Inl (Err ''duplicate in-flight proof height'')
        else plan_ahead D N B config finalized_tip
               (\<lparr>ps_planned = pt_next_checkpoint p, ps_inflight = bt_insert height (p, ticket) (ps_inflight s)\<rparr>, True))))
      else Inr (s, did_work))"
  by pat_completeness auto
termination
  by (relation "measure (\<lambda>(D, N, B, config, tip, s, w). cfg_proof_prepare_window config - length (ps_inflight s))")
    (auto simp: length_bt_insert simp del: not_None_eq)

declare plan_ahead.simps [simp del]

definition poll_once ::
  "('st, 'b, 'j) deps \<Rightarrow> 'c program \<Rightarrow> node \<Rightarrow> 't backend \<Rightarrow> pipeline_config \<Rightarrow> 't poll_state
     \<Rightarrow> ('c, 't poll_state \<times> bool) step" where
  "poll_once D P N B config s =
     io_then (io_lift (electrs_height N)) (\<lambda>electrs_tip.
     let finalized_tip = saturating_sub electrs_tip (cfg_required_confirmations config) in
     io_then (io_lift (plan_ahead D N B config finalized_tip (s, False))) (\<lambda>(s, did_work).
     io_then get_memory (\<lambda>checkpoint.
     io_then (io_lift (ok_or (checked_add_u32 (cp_height checkpoint) 1) (Err ''checkpoint height overflow''))) (\<lambda>expected_height.
     case bt_get (ps_inflight s) expected_height of
       None \<Rightarrow> io_lift (Inr (s, did_work))
     | Some (p, ticket) \<Rightarrow>
         io_then (io_lift (be_wait B ticket)) (\<lambda>output.
         io_then (commit_prepared D P config p output) (\<lambda>_.
         io_lift (Inr (s\<lparr>ps_inflight := bt_remove expected_height (ps_inflight s)\<rparr>, True))))))))"

text \<open>\<open>run\<close> polls until an error or a signal; each poll meets its own node and backend.\<close>

fun run_polls ::
  "('st, 'b, 'j) deps \<Rightarrow> 'c program \<Rightarrow> pipeline_config \<Rightarrow> (node \<times> 't backend) list \<Rightarrow> 't poll_state \<Rightarrow> ('c, unit) step" where
  "run_polls D P config [] s = io_lift (Inr ())"
| "run_polls D P config ((N, B) # polls) s =
     io_then (poll_once D P N B config s) (\<lambda>(s, did_work). run_polls D P config polls s)"

definition node_life ::
  "('st, 'b, 'j) deps \<Rightarrow> 'c program \<Rightarrow> pipeline_config \<Rightarrow> node \<Rightarrow> (node \<times> 't backend) list \<Rightarrow> ('c, unit) step" where
  "node_life D P config N polls =
     io_then (restore_checkpoint D P N config) (\<lambda>_.
     io_then get_memory (\<lambda>checkpoint.
     run_polls D P config polls \<lparr>ps_planned = checkpoint, ps_inflight = []\<rparr>))"

primrec node_lives ::
  "('st, 'b, 'j) deps \<Rightarrow> 'c program \<Rightarrow> pipeline_config \<Rightarrow> (node \<times> (node \<times> 't backend) list \<times> fate list) list
     \<Rightarrow> 'c world \<Rightarrow> 'c world" where
  "node_lives D P config [] w = w"
| "node_lives D P config (life # lives) w =
     node_lives D P config lives
       (snd (fst (node_life D P config (fst life) (fst (snd life)) (snd (snd life), w))))"

section \<open>Blocks in flight\<close>

lemma prepared_heights:
  assumes "prepare_height D N config cp height = Inr p"
  shows "pt_height p = height" and "cp_height (pt_next_checkpoint p) = height"
  by (rule prepare_heightE[OF assms]; auto dest: next_checkpoint_ok(1))+

lemma planned_heights:
  "planned D config cp qs cp' \<Longrightarrow> unat (cp_height cp') = unat (cp_height cp) + length qs
    \<and> map (unat \<circ> pt_height) qs = [unat (cp_height cp) + 1..<unat (cp_height cp) + length qs + 1]"
proof (induction rule: planned.induct)
  case planned_start
  then show ?case by simp
next
  case (planned_next ps cp2 height N p)
  have "unat height = unat (cp_height cp2) + 1"
    using planned_next.hyps(2) by (auto simp: checked_add_u32_def unat_word_ariths split: if_splits)
  then show ?case using planned_next.IH prepared_heights[OF planned_next.hyps(3)] by simp
qed

lemma planned_trans:
  "planned D config cp qs cp' \<Longrightarrow> planned D config cp0 ps cp \<Longrightarrow> planned D config cp0 (ps @ qs) cp'"
proof (induction rule: planned.induct)
  case (planned_next qs cp2 height N p)
  from planned.planned_next[OF planned_next.IH[OF planned_next.prems] planned_next.hyps(2,3)] show ?case by simp
qed simp

lemma planned_single:
  "checked_add_u32 (cp_height cp) 1 = Some height \<Longrightarrow> prepare_height D N config cp height = Inr p
   \<Longrightarrow> planned D config cp [p] (pt_next_checkpoint p)"
  using planned.planned_next[OF planned.planned_start] by fastforce

lemma planned_ConsD:
  assumes "planned D config cp qs cp'" and "qs = p # rest"
  shows "\<exists>N height. checked_add_u32 (cp_height cp) 1 = Some height \<and> prepare_height D N config cp height = Inr p
    \<and> planned D config (pt_next_checkpoint p) rest cp'"
  using assms
proof (induction arbitrary: rest rule: planned.induct)
  case (planned_next ps cp2 height N q)
  show ?case
  proof (cases ps)
    case Nil
    then have "cp2 = cp" using planned_next.hyps(1) by (auto elim: planned.cases)
    with Nil planned_next.hyps(2,3) planned_next.prems show ?thesis by (auto intro: planned.planned_start)
  next
    case (Cons p' rest')
    with planned_next.prems have p: "p' = p" "rest = rest' @ [q]" by simp_all
    from Cons p(1) have "ps = p # rest'" by simp
    from planned_next.IH[OF this] obtain N' h where
      "checked_add_u32 (cp_height cp) 1 = Some h" "prepare_height D N' config cp h = Inr p"
      "planned D config (pt_next_checkpoint p) rest' cp2" by auto
    with planned.planned_next[OF this(3) planned_next.hyps(2,3)] p show ?thesis by blast
  qed
qed simp

definition flight ::
  "('st, 'b, 'j) deps \<Rightarrow> pipeline_config \<Rightarrow> pipeline_checkpoint \<Rightarrow> 't poll_state \<Rightarrow> prepared list \<Rightarrow> bool" where
  "flight D config cp s qs \<longleftrightarrow>
     planned D config cp qs (ps_planned s) \<and> map (fst \<circ> snd) (ps_inflight s) = qs
     \<and> map fst (ps_inflight s) = map pt_height qs"

lemma flight_start: "flight D config cp \<lparr>ps_planned = cp, ps_inflight = []\<rparr> []"
  by (simp add: flight_def planned.planned_start)

lemma flight_next:
  assumes "flight D config cp s qs" and "checked_add_u32 (cp_height (ps_planned s)) 1 = Some height"
    and "prepare_height D N config (ps_planned s) height = Inr p"
  shows "flight D config cp \<lparr>ps_planned = pt_next_checkpoint p, ps_inflight = bt_insert height (p, t) (ps_inflight s)\<rparr> (qs @ [p])"
proof -
  have run: "planned D config cp qs (ps_planned s)" and fl: "map fst (ps_inflight s) = map pt_height qs"
    using assms(1) by (simp_all add: flight_def)
  have h: "unat height = unat (cp_height (ps_planned s)) + 1"
    using assms(2) by (auto simp: checked_add_u32_def unat_word_ariths split: if_splits)
  have "k < height" if "k \<in> set (map fst (ps_inflight s))" for k
  proof -
    have "unat k \<in> set (map (unat \<circ> pt_height) qs)" using that fl by (simp add: image_image[symmetric])
    then show ?thesis using planned_heights[OF run] h by (auto simp: word_less_nat_alt)
  qed
  then have "bt_insert height (p, t) (ps_inflight s) = ps_inflight s @ [(height, p, t)]"
    by (intro bt_insert_last) blast
  then show ?thesis
    using assms planned.planned_next[OF run assms(2,3)] prepared_heights[OF assms(3)] by (simp add: flight_def)
qed

lemma plan_ahead_stop:
  "\<not> (length (ps_inflight s) < cfg_proof_prepare_window config \<and> cp_height (ps_planned s) < tip)
   \<Longrightarrow> plan_ahead D N B config tip (s, w) = Inr (s, w)"
  by (subst plan_ahead.simps) (rule if_not_P)

lemma plan_ahead_go:
  assumes "length (ps_inflight s) < cfg_proof_prepare_window config \<and> cp_height (ps_planned s) < tip"
  shows "plan_ahead D N B config tip (s, w) =
    and_then (ok_or (checked_add_u32 (cp_height (ps_planned s)) 1) (Err ''planned checkpoint height overflow'')) (\<lambda>height.
    and_then (prepare_height D N config (ps_planned s) height) (\<lambda>p.
    and_then (be_submit B (pt_proof_job p)) (\<lambda>ticket.
    if bt_get (ps_inflight s) height \<noteq> None then Inl (Err ''duplicate in-flight proof height'')
    else plan_ahead D N B config tip
           (\<lparr>ps_planned = pt_next_checkpoint p, ps_inflight = bt_insert height (p, ticket) (ps_inflight s)\<rparr>, True))))"
  using assms by (subst plan_ahead.simps) (rule if_P)

lemma plan_ahead_flight:
  "plan_ahead D N B config tip (s, did_work) = Inr (s', did_work') \<Longrightarrow> flight D config cp s qs
   \<Longrightarrow> \<exists>qs'. flight D config cp s' (qs @ qs')"
proof (induction D N B config tip "(s, did_work)" arbitrary: s did_work qs rule: plan_ahead.induct)
  case (1 D N B config tip s did_work)
  show ?case
  proof (cases "length (ps_inflight s) < cfg_proof_prepare_window config \<and> cp_height (ps_planned s) < tip")
    case False
    with 1(2) have "s' = s" by (simp add: plan_ahead_stop)
    then show ?thesis using 1(3) by (intro exI[of _ "[]"]) simp
  next
    case True
    from 1(2) True obtain height p ticket where
      h: "checked_add_u32 (cp_height (ps_planned s)) 1 = Some height"
      and p: "prepare_height D N config (ps_planned s) height = Inr p" and t: "be_submit B (pt_proof_job p) = Inr ticket"
      and new: "bt_get (ps_inflight s) height = None"
      and rec: "plan_ahead D N B config tip (\<lparr>ps_planned = pt_next_checkpoint p,
          ps_inflight = bt_insert height (p, ticket) (ps_inflight s)\<rparr>, True) = Inr (s', did_work')"
      unfolding plan_ahead_go[OF True]
      by (elim and_then_elim) (simp del: not_None_eq add: ok_or_eq_Inr split: if_split_asm)
    from 1(1)[OF True _ p t _ rec flight_next[OF 1(3) h p]] h new
    show ?thesis by (auto simp: ok_or_def)
  qed
qed

section \<open>The height in the header\<close>

definition names_height :: "crates \<Rightarrow> pipeline_checkpoint \<Rightarrow> bool" where
  "names_height X cp \<longleftrightarrow>
     (\<exists>h. hex_decode X (cp_header_hex cp) = Some h \<and> take 4 (drop 68 h) = to_le_bytes 4 (cp_height cp))"

text \<open>Documented behaviour of the chain state: its tip commitment is at its tip, and it decodes as encoded.\<close>

definition tip_law :: "'st bridge \<Rightarrow> bool" where
  "tip_law B \<longleftrightarrow>
     (\<forall>s. sc_height (tip_commitment B s) = tip_number B s)
     \<and> (\<forall>s bs. state_encode B s = Inr bs \<longrightarrow> state_decode B bs = Some s)"

definition third_party_laws :: "('st, 'b, 'j) deps \<Rightarrow> bool" where
  "third_party_laws D \<longleftrightarrow>
     hex_laws (d_crates D) \<and> hash_laws (d_crates D) \<and> bridge_laws (d_crates D) (d_bridge D) \<and> tip_law (d_bridge D)"

lemma prepared_names_height:
  assumes laws: "third_party_laws D" and "prepare_height D N config cp height = Inr p"
  shows "names_height (d_crates D) (pt_next_checkpoint p)"
    and "take 4 (drop 68 (pt_new_header p)) = to_le_bytes 4 height"
proof -
  have X: "hex_laws (d_crates D)" "hash_laws (d_crates D)" "bridge_laws (d_crates D) (d_bridge D)" "tip_law (d_bridge D)"
    using laws by (simp_all add: third_party_laws_def)
  obtain new_state mh th bs fh e where
    old: "decode_fixed (d_crates D) header_size (cp_header_hex cp) = Inr (pt_old_header p)"
    and hashes: "bc_mints_hash (d_crates D) (pt_finalized_buffers p) = Inr mh" "bc_txo_hash (d_crates D) (pt_finalized_buffers p) = Inr th"
    and built: "build_new_solana_header (d_crates D) (d_bridge D) (pt_old_header p) new_state (cfg_required_confirmations config) mh th
      = Inr (pt_new_header p)"
    and enc: "state_encode (d_bridge D) new_state = Inr bs"
    and nx: "next_checkpoint_of (d_crates D) (d_bridge D) cp height fh e bs (pt_new_header p) = Inr (pt_next_checkpoint p)"
    by (rule prepare_heightE[OF assms(2)]) blast
  note n = next_checkpoint_ok[OF nx]
  have "tip_number (d_bridge D) new_state = height"
    using validate_checkpoint_ok(5)[OF n(7)] n(1,2) X(1,4) enc by (auto simp: hex_laws_def tip_law_def)
  then have "sc_height (tip_commitment (d_bridge D) new_state) = height" using X(4) by (simp add: tip_law_def)
  moreover have "length (pt_old_header p) = header_size" using old by (simp add: decode_fixed_iff)
  moreover have "length mh = 32" "length th = 32"
    using hashes decode_hash_length by (auto simp: bc_mints_hash_def bc_txo_hash_def)
  ultimately show *: "take 4 (drop 68 (pt_new_header p)) = to_le_bytes 4 height"
    using build_header_fields(1)[OF X(3,2) _ _ _ built] by simp
  show "names_height (d_crates D) (pt_next_checkpoint p)"
    using * n(1,3) X(1) by (simp add: names_height_def hex_laws_def)
qed

lemma names_height_extends:
  assumes laws: "third_party_laws D" and names: "names_height (d_crates D) cp"
    and add: "checked_add_u32 (cp_height cp) 1 = Some height" and p: "prepare_height D N config cp height = Inr p"
  shows "extends D cp p"
proof (rule prepared_extends[OF _ p add])
  show "hex_laws (d_crates D)" using laws by (simp add: third_party_laws_def)
  have "decode_fixed (d_crates D) header_size (cp_header_hex cp) = Inr (pt_old_header p)"
    by (rule prepare_heightE[OF p])
  then have "take 4 (drop 68 (pt_old_header p)) = to_le_bytes 4 (cp_height cp)"
    using names by (auto simp: names_height_def decode_fixed_iff)
  moreover have "cp_height cp \<noteq> height" using add by (auto simp: checked_add_u32_def split: if_splits)
  ultimately show "pt_new_header p \<noteq> pt_old_header p"
    using prepared_names_height(2)[OF laws p] u32_le_roundtrip by metis
qed

section \<open>Safety of a poll\<close>

lemma flight_first:
  assumes "flight D config cp s qs" and "checked_add_u32 (cp_height cp) 1 = Some h" and "bt_get (ps_inflight s) h = Some (p, t)"
  shows "\<exists>N. prepare_height D N config cp h = Inr p"
    and "flight D config (pt_next_checkpoint p) (s\<lparr>ps_inflight := bt_remove h (ps_inflight s)\<rparr>) (tl qs)"
proof -
  have run: "planned D config cp qs (ps_planned s)" and fl: "map (fst \<circ> snd) (ps_inflight s) = qs"
      "map fst (ps_inflight s) = map pt_height qs"
    using assms(1) by (simp_all add: flight_def)
  note hs = planned_heights[OF run]
  have uh: "unat h = unat (cp_height cp) + 1"
    using assms(2) by (auto simp: checked_add_u32_def unat_word_ariths split: if_splits)
  obtain k q t' m where m: "ps_inflight s = (k, q, t') # m"
    using assms(3) by (cases "ps_inflight s") (auto simp: bt_get_def)
  then obtain rest where qs: "qs = q # rest" and k: "k = pt_height q" and rest: "map fst m = map pt_height rest"
      "map (fst \<circ> snd) m = rest"
    using fl by auto
  have heights: "map (unat \<circ> pt_height) qs = [unat h..<unat h + length qs]" using hs uh by simp
  moreover have "[unat h..<unat h + length qs] = unat h # [Suc (unat h)..<unat h + length qs]"
    by (subst upt_conv_Cons) (simp_all add: qs)
  ultimately have "map (unat \<circ> pt_height) (q # rest) = unat h # [Suc (unat h)..<unat h + length qs]" by (simp only: qs)
  then have q: "unat (pt_height q) = unat h" and later: "map (unat \<circ> pt_height) rest = [Suc (unat h)..<unat h + length qs]"
    by (simp_all only: list.map list.inject o_apply)
  then have kh: "k = h" using k by (simp add: word_unat_eq_iff)
  have "unat (fst e) \<noteq> unat h" if "e \<in> set m" for e
  proof -
    have "unat (fst e) \<in> set (map (unat \<circ> pt_height) rest)"
      using that rest(1) by (metis image_comp image_eqI list.set_map)
    then show ?thesis unfolding later by auto
  qed
  then have m': "bt_remove h (ps_inflight s) = m" by (auto simp: bt_remove_def m kh filter_id_conv)
  have p: "p = q" using assms(3) by (simp add: bt_get_def m kh)
  from planned_ConsD[OF run qs] assms(2) p
  show "\<exists>N. prepare_height D N config cp h = Inr p" by auto
  from planned_ConsD[OF run qs] p rest m'
  show "flight D config (pt_next_checkpoint p) (s\<lparr>ps_inflight := bt_remove h (ps_inflight s)\<rparr>) (tl qs)"
    by (auto simp: flight_def qs)
qed

definition settled ::
  "('st, 'b, 'j) deps \<Rightarrow> 'c program \<Rightarrow> pipeline_config \<Rightarrow> pipeline_checkpoint \<Rightarrow> pending_mint list
     \<Rightarrow> prepared list \<Rightarrow> pipeline_checkpoint \<Rightarrow> 'c world \<Rightarrow> bool" where
  "settled D P config cp0 L ps cp w \<longleftrightarrow>
     planned D config cp0 ps cp \<and> names_height (d_crates D) cp
     \<and> uncommitted (d_crates D) P cp (L @ concat (map mints_of ps)) w"

definition under_way ::
  "('st, 'b, 'j) deps \<Rightarrow> 'c program \<Rightarrow> pipeline_config \<Rightarrow> pipeline_checkpoint \<Rightarrow> pending_mint list
     \<Rightarrow> prepared list \<Rightarrow> pipeline_checkpoint \<Rightarrow> prepared \<Rightarrow> 'c world \<Rightarrow> bool" where
  "under_way D P config cp0 L ps cp p w \<longleftrightarrow>
     planned D config cp0 ps cp \<and> names_height (d_crates D) cp
     \<and> (\<exists>N height. checked_add_u32 (cp_height cp) 1 = Some height \<and> prepare_height D N config cp height = Inr p)
     \<and> recoverable P cp p (L @ concat (map mints_of ps)) w"

definition node_safe ::
  "('st, 'b, 'j) deps \<Rightarrow> 'c program \<Rightarrow> pipeline_config \<Rightarrow> pipeline_checkpoint \<Rightarrow> pending_mint list \<Rightarrow> 'c world \<Rightarrow> bool" where
  "node_safe D P config cp0 L w \<longleftrightarrow>
     (\<exists>ps cp. settled D P config cp0 L ps cp w \<or> (\<exists>p. under_way D P config cp0 L ps cp p w))"

lemma committed_settled:
  assumes "third_party_laws D" and "planned D config cp0 ps cp" and "names_height (d_crates D) cp"
    and "checked_add_u32 (cp_height cp) 1 = Some height" and "prepare_height D N config cp height = Inr p"
    and "committed P p (L @ concat (map mints_of ps)) w"
  shows "settled D P config cp0 L (ps @ [p]) (pt_next_checkpoint p) w"
proof -
  have "extends D cp p" by (rule names_height_extends[OF assms(1,3-5)])
  then show ?thesis
    using assms(6) planned.planned_next[OF assms(2,4,5)] prepared_names_height(1)[OF assms(1,5)]
    by (simp add: settled_def uncommitted_def committed_def extends_def)
qed

lemma safe_node_safe:
  assumes "third_party_laws D" and "planned D config cp0 ps cp" and "names_height (d_crates D) cp"
    and "checked_add_u32 (cp_height cp) 1 = Some height" and "prepare_height D N config cp height = Inr p"
    and "safe (d_crates D) P cp p (L @ concat (map mints_of ps)) w"
  shows "node_safe D P config cp0 L w"
proof -
  consider "uncommitted (d_crates D) P cp (L @ concat (map mints_of ps)) w"
    | "recoverable P cp p (L @ concat (map mints_of ps)) w" | "committed P p (L @ concat (map mints_of ps)) w"
    using assms(6) by (auto simp: safe_def)
  then show ?thesis
  proof cases
    case 1
    then show ?thesis using assms(2,3) unfolding node_safe_def settled_def by blast
  next
    case 2
    then show ?thesis using assms(2-5) unfolding node_safe_def under_way_def by blast
  next
    case 3
    from committed_settled[OF assms(1-5) this] show ?thesis unfolding node_safe_def by blast
  qed
qed

definition ready ::
  "('st, 'b, 'j) deps \<Rightarrow> 'c program \<Rightarrow> pipeline_config \<Rightarrow> pipeline_checkpoint \<Rightarrow> pending_mint list
     \<Rightarrow> 't poll_state \<Rightarrow> 'c world \<Rightarrow> bool" where
  "ready D P config cp0 L s w \<longleftrightarrow>
     (\<exists>ps cp qs. settled D P config cp0 L ps cp w \<and> w_memory w = cp \<and> flight D config cp s qs)"

lemma readyI:
  "settled D P config cp0 L ps cp w \<Longrightarrow> w_memory w = cp \<Longrightarrow> flight D config cp s qs \<Longrightarrow> ready D P config cp0 L s w"
  unfolding ready_def by blast

lemma ready_safe: "ready D P config cp0 L s w \<Longrightarrow> node_safe D P config cp0 L w"
  unfolding ready_def node_safe_def by blast

context bridge_program
begin

lemma commit_settles:
  assumes laws: "third_party_laws D" and run: "planned D config cp0 ps cp" and names: "names_height (d_crates D) cp"
    and add: "checked_add_u32 (cp_height cp) 1 = Some height" and p: "prepare_height D N config cp height = Inr p"
  shows "keeps (node_safe D P config cp0 L) (\<lambda>w. settled D P config cp0 L ps cp w \<and> w_memory w = cp)
     (commit_prepared D P config p output)
     (\<lambda>_ w. settled D P config cp0 L (ps @ [p]) (pt_next_checkpoint p) w \<and> w_memory w = pt_next_checkpoint p)"
proof -
  have "keeps (node_safe D P config cp0 L) (uncommitted (d_crates D) P cp (L @ concat (map mints_of ps)))
     (commit_prepared D P config p output)
     (\<lambda>_ w. committed P p (L @ concat (map mints_of ps)) w \<and> w_memory w = pt_next_checkpoint p \<and> w_journal w = None)"
    by (rule keeps_weaken[OF commit_keeps]) (rule safe_node_safe[OF assms])
  then have "keeps (node_safe D P config cp0 L) (\<lambda>w. settled D P config cp0 L ps cp w \<and> w_memory w = cp)
     (commit_prepared D P config p output)
     (\<lambda>_ w. committed P p (L @ concat (map mints_of ps)) w \<and> w_memory w = pt_next_checkpoint p \<and> w_journal w = None)"
    by (rule keeps_pre) (simp add: settled_def)
  then show ?thesis by (rule keeps_post) (auto intro: committed_settled[OF assms])
qed

lemma poll_keeps:
  fixes s :: "'t poll_state"
  assumes laws: "third_party_laws D"
  shows "keeps (node_safe D P config cp0 L) (ready D P config cp0 L s) (poll_once D P N B config s)
     (\<lambda>r w. ready D P config cp0 L (fst r) w)"
proof -
  let ?I = "node_safe D P config cp0 L"
  have "keeps ?I (\<lambda>w. settled D P config cp0 L ps cp w \<and> w_memory w = cp \<and> flight D config cp s qs)
      (poll_once D P N B config s) (\<lambda>r w. ready D P config cp0 L (fst r) w)" for ps cp qs
  proof -
    let ?A = "\<lambda>w. settled D P config cp0 L ps cp w \<and> w_memory w = cp"
    have I: "?A w \<Longrightarrow> ?I w" for w unfolding node_safe_def by blast
    have commit: "keeps ?I ?A
        (case bt_get (ps_inflight s') h of
           None \<Rightarrow> io_lift (Inr (s', did_work))
         | Some (p, ticket) \<Rightarrow>
             io_then (io_lift (be_wait B ticket)) (\<lambda>output.
             io_then (commit_prepared D P config p output) (\<lambda>_.
             io_lift (Inr (s'\<lparr>ps_inflight := bt_remove h (ps_inflight s')\<rparr>, True)))))
        (\<lambda>r w. ready D P config cp0 L (fst r) w)"
      if fl: "flight D config cp s' qs'" and add: "checked_add_u32 (cp_height cp) 1 = Some h" for s' :: "'t poll_state" and qs' h did_work
    proof (cases "bt_get (ps_inflight s') h")
      case None
      then show ?thesis using fl by (auto intro!: keeps_lift simp: ready_def)
    next
      case (Some e)
      obtain p t where e: "e = (p, t)" by (cases e)
      note first = flight_first[OF fl add Some[unfolded e]]
      have run: "keeps ?I (\<lambda>w. ?A w \<and> planned D config cp0 ps cp \<and> names_height (d_crates D) cp)
          (commit_prepared D P config p out)
          (\<lambda>_ w. settled D P config cp0 L (ps @ [p]) (pt_next_checkpoint p) w \<and> w_memory w = pt_next_checkpoint p)" for out
        by (rule keeps_pure) (use first(1) add commit_settles[OF laws] in blast)
      show ?thesis
        unfolding Some e option.case prod.case
        apply (rule keeps_then[where Q = "\<lambda>_. ?A"])
         apply (rule keeps_lift; simp add: I)
        apply (rule keeps_then[OF keeps_pre[OF run]])
         apply (simp add: settled_def)
        by (rule keeps_lift) (auto intro: readyI[OF _ _ first(2)])
    qed
    show ?thesis
      unfolding poll_once_def Let_def get_memory_def
      apply (rule keeps_then[where Q = "\<lambda>_ w. ?A w \<and> flight D config cp s qs"])
       apply (rule keeps_lift; simp add: I)
      apply (rule keeps_then[where Q = "\<lambda>r w. ?A w \<and> (\<exists>qs'. flight D config cp (fst r) qs')"])
       apply (rule keeps_lift; use I plan_ahead_flight in fastforce)
      apply (clarsimp split: prod.split)
      subgoal for s' did_work
        apply (rule keeps_then[where Q = "\<lambda>m w. (?A w \<and> m = cp) \<and> (\<exists>qs'. flight D config cp s' qs')"])
         apply (rule keeps_get; simp)
        apply (rule keeps_pure)
        apply (erule exE)
        apply (rule keeps_pure)
        apply (rule keeps_then[where Q = "\<lambda>h w. ?A w \<and> checked_add_u32 (cp_height cp) 1 = Some h"])
         apply (rule keeps_lift; auto simp: I ok_or_def split: option.splits)
        apply (rule keeps_pure)
        by (rule commit)
      done
  qed
  then show ?thesis unfolding ready_def by (intro keeps_ex)
qed

end

context bridge_program
begin

lemma restore_settles:
  assumes laws: "third_party_laws D"
  shows "keeps (node_safe D P config cp0 L) (node_safe D P config cp0 L) (restore_checkpoint D P N config)
     (\<lambda>_ w. \<exists>ps cp. settled D P config cp0 L ps cp w \<and> w_memory w = cp)"
proof -
  let ?I = "node_safe D P config cp0 L" and ?Q = "\<lambda>_ w. \<exists>ps cp. settled D P config cp0 L ps cp w \<and> w_memory w = cp"
  have before: "keeps ?I (settled D P config cp0 L ps cp) (restore_checkpoint D P N config) ?Q" for ps cp
  proof -
    have "keeps ?I (\<lambda>w. uncommitted (d_crates D) P cp (L @ concat (map mints_of ps)) w
        \<and> planned D config cp0 ps cp \<and> names_height (d_crates D) cp) (restore_checkpoint D P N config) ?Q"
    proof (rule keeps_pure)
      assume "planned D config cp0 ps cp \<and> names_height (d_crates D) cp"
      then have s: "settled D P config cp0 L ps cp w" if "uncommitted (d_crates D) P cp (L @ concat (map mints_of ps)) w" for w
        using that by (simp add: settled_def)
      show "keeps ?I (uncommitted (d_crates D) P cp (L @ concat (map mints_of ps))) (restore_checkpoint D P N config) ?Q"
        by (rule keeps_weaken[OF keeps_post[OF restore_uncommitted_keeps]]) (use s in \<open>auto simp: node_safe_def\<close>)
    qed
    then show ?thesis by (rule keeps_pre) (simp add: settled_def)
  qed
  have during: "keeps ?I (under_way D P config cp0 L ps cp p) (restore_checkpoint D P N config) ?Q" for ps cp p
  proof -
    let ?L = "L @ concat (map mints_of ps)"
    have "keeps ?I (\<lambda>w. recoverable P cp p ?L w \<and> planned D config cp0 ps cp \<and> names_height (d_crates D) cp
        \<and> (\<exists>N height. checked_add_u32 (cp_height cp) 1 = Some height \<and> prepare_height D N config cp height = Inr p))
      (restore_checkpoint D P N config) ?Q"
    proof (rule keeps_pure)
      assume *: "planned D config cp0 ps cp \<and> names_height (d_crates D) cp
        \<and> (\<exists>N height. checked_add_u32 (cp_height cp) 1 = Some height \<and> prepare_height D N config cp height = Inr p)"
      then obtain N' height where h: "planned D config cp0 ps cp" "names_height (d_crates D) cp"
        "checked_add_u32 (cp_height cp) 1 = Some height" "prepare_height D N' config cp height = Inr p" by auto
      have ext: "extends D cp p" by (rule names_height_extends[OF laws h(2-4)])
      have behind: "settled D P config cp0 L ps cp w" if "uncommitted (d_crates D) P cp ?L w" for w
        using that h(1,2) by (simp add: settled_def)
      have ahead: "settled D P config cp0 L (ps @ [p]) (pt_next_checkpoint p) w" if "committed P p ?L w" for w
        using that by (rule committed_settled[OF laws h])
      have "keeps ?I (safe (d_crates D) P cp p ?L) (restore_checkpoint D P N config) ?Q"
        by (rule keeps_weaken[OF keeps_post[OF restore_keeps[OF ext]]])
          (use behind ahead in blast, rule safe_node_safe[OF laws h])
      then show "keeps ?I (recoverable P cp p ?L) (restore_checkpoint D P N config) ?Q"
        by (rule keeps_pre) (simp add: safe_def)
    qed
    then show ?thesis by (rule keeps_pre) (simp add: under_way_def)
  qed
  have I: "?I = (\<lambda>w. \<exists>ps cp. settled D P config cp0 L ps cp w \<or> (\<exists>p. under_way D P config cp0 L ps cp p w))"
    by (simp add: node_safe_def fun_eq_iff)
  show ?thesis by (subst (2) I) (intro keeps_ex keeps_cases before during)
qed

lemma polls_keep:
  assumes laws: "third_party_laws D"
  shows "keeps (node_safe D P config cp0 L) (ready D P config cp0 L s) (run_polls D P config polls s)
     (\<lambda>_. node_safe D P config cp0 L)"
proof (induction polls arbitrary: s)
  case Nil
  show ?case by (auto intro!: keeps_lift ready_safe)
next
  case (Cons poll polls)
  obtain N B where "poll = (N, B)" by (cases poll)
  then show ?case
    by (auto intro!: keeps_then[OF poll_keeps[OF laws]] Cons.IH split: prod.split)
qed

lemma node_life_keeps:
  assumes laws: "third_party_laws D"
  shows "keeps (node_safe D P config cp0 L) (node_safe D P config cp0 L) (node_life D P config N polls)
     (\<lambda>_. node_safe D P config cp0 L)"
  unfolding node_life_def get_memory_def
  apply (rule keeps_then[OF restore_settles[OF laws]])
  apply (rule keeps_then[where Q = "\<lambda>m w. ready D P config cp0 L \<lparr>ps_planned = m, ps_inflight = []\<rparr> w"])
   apply (rule keeps_get; auto intro: readyI flight_start)
  by (rule polls_keep[OF laws])

lemma node_lives_safe:
  assumes laws: "third_party_laws D"
  shows "node_safe D P config cp0 L w \<Longrightarrow> node_safe D P config cp0 L (node_lives D P config lives w)"
proof (induction lives arbitrary: w)
  case (Cons life lives)
  obtain fates w' r where run: "node_life D P config (fst life) (fst (snd life)) (snd (snd life), w) = ((fates, w'), r)"
    by (metis prod.exhaust)
  have "node_safe D P config cp0 L w'"
    using keeps_error[OF node_life_keeps[OF laws] Cons.prems] keeps_value[OF node_life_keeps[OF laws] Cons.prems] run
    by (cases r) blast+
  then show ?case using Cons.IH run by simp
qed simp

end

section \<open>Deposits of planned blocks\<close>

text \<open>The mints of the deposits of the blocks that have \<open>conf\<close> further blocks above them.\<close>

definition deposits :: "nat \<Rightarrow> prepared list \<Rightarrow> pending_mint list" where
  "deposits conf ps = concat (map (ce_pending_mints \<circ> pt_evaluation) (take (length ps - conf) ps))"

lemma planned_snocD: "planned D config cp0 (ps @ [p]) cp \<Longrightarrow> cp = pt_next_checkpoint p \<and> (\<exists>cp1. planned D config cp0 ps cp1)"
  by (auto elim: planned_snocE)

lemma planned_mints:
  assumes laws: "hex_laws (d_crates D)" and pending: "cp_pending cp0 = []" and conf: "0 < cfg_required_confirmations config"
  shows "planned D config cp0 ps cp \<Longrightarrow>
    concat (map mints_of ps) = deposits (unat (cfg_required_confirmations config)) ps"
proof (induction ps arbitrary: cp rule: rev_induct)
  case Nil
  then show ?case by (simp add: deposits_def)
next
  case (snoc p ps)
  let ?conf = "unat (cfg_required_confirmations config)"
  have IH: "concat (map mints_of ps) = deposits ?conf ps" using snoc.IH planned_snocD[OF snoc.prems] by blast
  have settles: "if ?conf \<le> length ps
    then pt_finalized_buffers p = commitment_from_evaluation (d_crates D) (pt_evaluation ((ps @ [p]) ! (length ps - ?conf)))
    else commitment_empty (d_crates D) (d_bridge D) = Inr (pt_finalized_buffers p)"
    using settled_by[OF laws snoc.prems pending conf, of "length ps"] unfolding nth_append_length by simp
  show ?case
  proof (cases "?conf \<le> length ps")
    case True
    have pos: "0 < ?conf" using conf by (simp add: unat_gt_0 word_gt_0)
    then have i: "length ps - ?conf < length ps" using True by simp
    have "length (ps @ [p]) - ?conf = Suc (length ps - ?conf)" using True by simp
    then have "take (length (ps @ [p]) - ?conf) (ps @ [p]) = take (length ps - ?conf) ps @ [ps ! (length ps - ?conf)]"
      using i by (simp add: take_Suc_conv_app_nth nth_append)
    with IH settles True i show ?thesis by (simp add: deposits_def commitment_from_evaluation_def nth_append)
  next
    case False
    then show ?thesis using IH settles commitment_empty_mints by (auto simp: deposits_def)
  qed
qed

section \<open>The window\<close>

lemma plan_ahead_bounds:
  "plan_ahead D N B config tip (s, did_work) = Inr (s', did_work') \<Longrightarrow> length (ps_inflight s) \<le> cfg_proof_prepare_window config
   \<Longrightarrow> length (ps_inflight s') \<le> cfg_proof_prepare_window config
     \<and> (ps_planned s' = ps_planned s \<and> did_work' = did_work
        \<or> cp_height (ps_planned s) < cp_height (ps_planned s') \<and> cp_height (ps_planned s') \<le> tip \<and> did_work')
     \<and> (length (ps_inflight s') = cfg_proof_prepare_window config \<or> tip \<le> cp_height (ps_planned s'))"
proof (induction D N B config tip "(s, did_work)" arbitrary: s did_work rule: plan_ahead.induct)
  case (1 D N B config tip s did_work)
  show ?case
  proof (cases "length (ps_inflight s) < cfg_proof_prepare_window config \<and> cp_height (ps_planned s) < tip")
    case False
    with 1(2) have "s' = s" "did_work' = did_work" by (simp_all add: plan_ahead_stop)
    then show ?thesis using 1(3) False by (auto simp: not_less)
  next
    case True
    from 1(2) True obtain height p ticket where
      h: "checked_add_u32 (cp_height (ps_planned s)) 1 = Some height"
      and p: "prepare_height D N config (ps_planned s) height = Inr p" and t: "be_submit B (pt_proof_job p) = Inr ticket"
      and new: "bt_get (ps_inflight s) height = None"
      and rec: "plan_ahead D N B config tip (\<lparr>ps_planned = pt_next_checkpoint p,
          ps_inflight = bt_insert height (p, ticket) (ps_inflight s)\<rparr>, True) = Inr (s', did_work')"
      unfolding plan_ahead_go[OF True]
      by (elim and_then_elim) (simp del: not_None_eq add: ok_or_eq_Inr split: if_split_asm)
    have u: "unat height = unat (cp_height (ps_planned s)) + 1"
      using h by (auto simp: checked_add_u32_def unat_word_ariths split: if_splits)
    then have step: "cp_height (ps_planned s) < height" "height \<le> tip"
      using True by (simp_all add: word_less_nat_alt word_le_nat_alt)
    have len: "length (bt_insert height (p, ticket) (ps_inflight s)) = Suc (length (ps_inflight s))"
      using new by (simp add: length_bt_insert)
    from 1(1)[OF True _ p t _ rec] h new len True prepared_heights(2)[OF p] step
    show ?thesis by (auto simp: ok_or_def)
  qed
qed

definition proof_states :: "'t backend \<Rightarrow> (u32, prepared \<times> 't) btree \<Rightarrow> (u32, simulated_proof_state) btree" where
  "proof_states B inflight =
     map (\<lambda>(h, p, t). (h, case be_wait B t of Inl e \<Rightarrow> FailedProof | Inr output \<Rightarrow> Ready)) inflight"

lemma proof_states_get:
  "bt_get (proof_states B m) h =
     (case bt_get m h of None \<Rightarrow> None | Some (p, t) \<Rightarrow> Some (case be_wait B t of Inl e \<Rightarrow> FailedProof | Inr output \<Rightarrow> Ready))"
  by (induction m) (auto simp: proof_states_def bt_get_def split: prod.splits)

text \<open>The part of a poll after planning.\<close>

lemma poll_after_planning:
  assumes "electrs_height N = Inr tip"
    and "plan_ahead D N B config (saturating_sub tip (cfg_required_confirmations config)) (s, False) = Inr (s1, did_work)"
    and "checked_add_u32 (cp_height (w_memory w)) 1 = Some h"
  shows "poll_once D P N B config s (fates, w) =
    (case bt_get (ps_inflight s1) h of
       None \<Rightarrow> io_lift (Inr (s1, did_work))
     | Some (p, ticket) \<Rightarrow>
         io_then (io_lift (be_wait B ticket)) (\<lambda>output.
         io_then (commit_prepared D P config p output) (\<lambda>_.
         io_lift (Inr (s1\<lparr>ps_inflight := bt_remove h (ps_inflight s1)\<rparr>, True))))) (fates, w)"
  using assms by (simp add: poll_once_def io_then_run io_lift_def get_memory_def io_get_def ok_or_def Let_def)

context bridge_program
begin

lemma poll_completes:
  assumes laws: "third_party_laws D" and settled: "settled D P config cp0 L ps cp w" "w_memory w = cp"
    and flight: "flight D config cp s qs"
    and plan: "electrs_height N = Inr tip"
      "plan_ahead D N B config (saturating_sub tip (cfg_required_confirmations config)) (s, False) = Inr (s1, did_work)"
    and first: "checked_add_u32 (cp_height cp) 1 = Some h" "bt_get (ps_inflight s1) h = Some (p, t)" "be_wait B t = Inr output"
    and output_ok: "length (po_proof output) = proof_size" "\<not> list_all (\<lambda>b. b = 0) (po_proof output)"
      "po_public_values output = expected_public_values D config (pt_old_header p) (pt_new_header p)"
    and payload: "validate_buffer_payload (d_crates D) (d_bridge D) (pt_finalized_buffers p) (mints_of p) = Inr ()"
      "\<forall>m \<in> set (mints_of p). pm_recipient m \<in> set (cfg_recipient_atas config)"
      "\<forall>s. resp_idempotency_key (update_reply P s) = su_idempotency_key s"
    and fates: "smooth (length (mints_of p) + 12) fates"
  shows "\<exists>fates' w'. poll_once D P N B config s (fates, w)
      = ((fates', w'), Inr (s1\<lparr>ps_inflight := bt_remove h (ps_inflight s1)\<rparr>, True))
    \<and> settled D P config cp0 L (ps @ [p]) (pt_next_checkpoint p) w'
    \<and> on_chain_header P (w_chain w') = pt_new_header p
    \<and> w_memory w' = pt_next_checkpoint p \<and> w_journal w' = None"
proof -
  obtain qs' where fl: "flight D config cp s1 qs'" using plan_ahead_flight[OF plan(2) flight] by blast
  obtain N' where p: "prepare_height D N' config cp h = Inr p" using flight_first(1)[OF fl first(1,2)] by blast
  have old: "planned D config cp0 ps cp" "names_height (d_crates D) cp"
    "uncommitted (d_crates D) P cp (L @ concat (map mints_of ps)) w"
    using settled(1) by (simp_all add: settled_def)
  have "check_prepared D config cp p output = Inr ()"
    using laws by (intro prepared_passes[OF p first(1) output_ok]) (simp add: third_party_laws_def)
  from commit_completes[OF this payload]
  obtain fates' w' where run: "commit_prepared D P config p output (fates, w) = ((fates', w'), Inr ())"
    by (rule completesD[where k = 0]) (use settled(2) fates in auto)
  have done_: "committed P p (L @ concat (map mints_of ps)) w'" "w_memory w' = pt_next_checkpoint p" "w_journal w' = None"
    using keeps_value[OF commit_keeps old(3) run] by auto
  have "checked_add_u32 (cp_height (w_memory w)) 1 = Some h" using settled(2) first(1) by simp
  from poll_after_planning[OF plan this] run first(2,3)
  have "poll_once D P N B config s (fates, w)
      = ((fates', w'), Inr (s1\<lparr>ps_inflight := bt_remove h (ps_inflight s1)\<rparr>, True))"
    by (simp add: io_then_run io_lift_def)
  then show ?thesis
    using committed_settled[OF laws old(1,2) first(1) p done_(1)] done_ by (auto simp: committed_def)
qed

end

section \<open>A concrete node\<close>

definition demo_backend :: "prover_output \<Rightarrow> proof_job backend" where
  "demo_backend output = \<lparr>be_submit = Inr, be_wait = \<lambda>_. Inr output\<rparr>"

definition node_at :: "u32 \<Rightarrow> node" where
  "node_at tip = demo_node\<lparr>electrs_height := Inr tip\<rparr>"

lemma node_at_simps:
  "electrs_block (node_at tip) = electrs_block demo_node" "old_state_artifact (node_at tip) = old_state_artifact demo_node"
  "witness_artifact (node_at tip) = witness_artifact demo_node" "evidence_file (node_at tip) = evidence_file demo_node"
  "elf_file (node_at tip) = elf_file demo_node" "electrs_height (node_at tip) = Inr tip"
  by (simp_all add: node_at_def)

lemma prepare_node_at: "prepare_height D (node_at tip) config cp h = prepare_height D demo_node config cp h"
  unfolding prepare_height_def node_at_simps ..

lemma demo_third_party: "third_party_laws demo_D"
proof -
  have "tip_law demo_bridge" by (simp add: tip_law_def demo_bridge_def demo_commitment_def)
  then show ?thesis by (simp add: third_party_laws_def demo_hex_laws demo_hash_laws demo_bridge_laws)
qed

lemma demo_start_names: "names_height (d_crates demo_D) demo_start"
proof -
  have zero: "nat_le_bytes 4 0 = replicate 4 0" by code_simp
  have "cp_height demo_start = 0" by (simp add: demo_height_at)
  moreover have "cp_header_hex demo_start = demo_encode demo_header" by (simp add: demo_checkpoint_at_def)
  ultimately show ?thesis by (simp add: names_height_def demo_hex demo_header_def to_le_bytes_def zero)
qed

lemma demo_start_matches:
  "assert_checkpoint_matches_chain (d_crates demo_D) demo_start (on_chain_header ledger_program (w_chain (ledger_world cp))) = Inr ()"
  unfolding demo_deps_simps by (rule demo_matches)

lemma demo_plan:
  obtains p where "prepare_height demo_D demo_node (demo_config 1) demo_start 1 = Inr p"
    "plan_ahead demo_D (node_at 2) (demo_backend output) (demo_config 1) (saturating_sub 2 1)
       (\<lparr>ps_planned = demo_start, ps_inflight = []\<rparr>, False)
     = Inr (\<lparr>ps_planned = pt_next_checkpoint p, ps_inflight = [(1, p, pt_proof_job p)]\<rparr>, True)"
    "validate_buffer_payload (d_crates demo_D) (d_bridge demo_D) (pt_finalized_buffers p) (mints_of p) = Inr ()"
    "mints_of p = []" "pt_new_header p \<noteq> demo_header"
proof -
  obtain p h' where p: "prepare_height demo_D demo_node (demo_config 1) demo_start 1 = Inr p"
    and hdr: "pt_new_header p = h'" "take 32 h' = replicate 32 1"
    using demo_prepare_at[of 0 demo_header 1 "[]"] by (auto simp: demo_header_def)
  obtain b fs fw where "resolve_finalized_buffers demo_crates demo_bridge (demo_helpers_with demo_witness_decode) b
      None [9] [[3], [4]] fs = Inr (pt_finalized_buffers p, fw)"
    by (rule prepare_heightE[OF p]) (simp add: demo_checkpoint_at_def demo_config_def)
  then have c: "commitment_empty demo_crates demo_bridge = Inr (pt_finalized_buffers p)" by (rule resolve_none)
  have payload: "validate_buffer_payload (d_crates demo_D) (d_bridge demo_D) (pt_finalized_buffers p) (mints_of p) = Inr ()"
    unfolding demo_deps_simps
    by (rule empty_payload_valid[OF demo_hex_laws demo_hash_laws c]) (simp add: demo_bridge_def demo_hash_def)
  have h0: "cp_height demo_start = 0" and h1: "cp_height (pt_next_checkpoint p) = 1"
    using prepared_heights(2)[OF p] by (simp_all add: demo_height_at)
  have next_: "checked_add_u32 0 1 = Some 1" by (simp add: checked_add_u32_def)
  have "plan_ahead demo_D (node_at 2) (demo_backend output) (demo_config 1) (saturating_sub 2 1)
       (\<lparr>ps_planned = demo_start, ps_inflight = []\<rparr>, False)
     = plan_ahead demo_D (node_at 2) (demo_backend output) (demo_config 1) (saturating_sub 2 1)
       (\<lparr>ps_planned = pt_next_checkpoint p, ps_inflight = [(1, p, pt_proof_job p)]\<rparr>, True)"
    by (subst plan_ahead_go)
      (simp_all add: h0 next_ saturating_sub_def demo_config_def[of 1] ok_or_def prepare_node_at p[unfolded demo_config_def]
        demo_backend_def bt_get_def)
  also have "\<dots> = Inr (\<lparr>ps_planned = pt_next_checkpoint p, ps_inflight = [(1, p, pt_proof_job p)]\<rparr>, True)"
    by (rule plan_ahead_stop) (simp add: h1 saturating_sub_def)
  finally show thesis using that[OF p _ payload commitment_empty_mints[OF c]] demo_header_differs[OF hdr(2)] hdr(1) by blast
qed

section \<open>Properties\<close>

text \<open>What a safe world has paid, in terms of the deposits of the planned blocks.\<close>

lemma node_safe_pays:
  assumes "hex_laws (d_crates D)" and "cp_pending cp0 = []" and "0 < cfg_required_confirmations config"
    and "conf = unat (cfg_required_confirmations config)" and "node_safe D P config cp0 L w'"
  shows "\<exists>ps cp. planned D config cp0 ps cp \<and> w_checkpoint w' = Some cp
    \<and> (assert_checkpoint_matches_chain (d_crates D) cp (on_chain_header P (w_chain w')) = Inr ()
         \<and> paid_mints P (w_chain w') = L @ deposits conf ps
      \<or> (\<exists>p k. planned D config cp0 (ps @ [p]) (pt_next_checkpoint p) \<and> w_journal w' \<noteq> None
         \<and> on_chain_header P (w_chain w') = pt_new_header p
         \<and> deposits conf (ps @ [p]) = deposits conf ps @ mints_of p
         \<and> paid_mints P (w_chain w') = L @ deposits conf ps @ take k (mints_of p)))"
proof -
  have mints: "concat (map mints_of ps) = deposits conf ps" if "planned D config cp0 ps cp" for ps cp
    using planned_mints[OF assms(1-3) that] assms(4) by simp
  from assms(5) consider ps cp where "settled D P config cp0 L ps cp w'" | ps cp p where "under_way D P config cp0 L ps cp p w'"
    unfolding node_safe_def by blast
  then show ?thesis
  proof cases
    case 1
    then have "planned D config cp0 ps cp" by (simp add: settled_def)
    from 1 mints[OF this] show ?thesis
      by (intro exI[of _ ps] exI[of _ cp]) (simp add: settled_def uncommitted_def)
  next
    case 2
    then have run: "planned D config cp0 ps cp" and next_: "planned D config cp0 (ps @ [p]) (pt_next_checkpoint p)"
      by (auto simp: under_way_def intro: planned.planned_next)
    have "deposits conf (ps @ [p]) = deposits conf ps @ mints_of p"
      using mints[OF run] mints[OF next_] by simp
    with 2 run next_ mints[OF run] show ?thesis
      by (intro exI[of _ ps] exI[of _ cp] conjI disjI2 exI[of _ p] exI[of _ "claimed_mints P (w_chain w')"])
        (auto simp: under_way_def recoverable_def paying_def)
  qed
qed

lemma node_safe_start:
  assumes "names_height (d_crates D) cp0" and "w_checkpoint w = Some cp0"
    and "assert_checkpoint_matches_chain (d_crates D) cp0 (on_chain_header P (w_chain w)) = Inr ()"
  shows "node_safe D P config cp0 (paid_mints P (w_chain w)) w"
proof -
  have "settled D P config cp0 (paid_mints P (w_chain w)) [] cp0 w"
    using assms by (simp add: settled_def planned.planned_start uncommitted_def)
  then show ?thesis unfolding node_safe_def by blast
qed

text \<open>
  Claim C2. The node may be stopped and restarted any number of times, in the middle of any
  operation, and each life may poll any number of times and see other answers of the network and of
  the prover. Starting from a checkpoint that matches the chain, with nothing pending and at least
  one required confirmation, the mints paid are at every moment those of the deposits of the
  successive blocks that have the required blocks above them, in block order and each once: either
  all those of the blocks that extend the stored checkpoint's chain, or, when a commit was cut short, all those before the
  block under way and a first part of its own.
\<close>

theorem node_pays_deposits_once_in_order:
  assumes "bridge_program P" and "third_party_laws D" and "names_height (d_crates D) cp0"
    and "assert_checkpoint_matches_chain (d_crates D) cp0 (on_chain_header P (w_chain w)) = Inr ()"
    and "w_checkpoint w = Some cp0" and "cp_pending cp0 = []" and "0 < cfg_required_confirmations config"
    and "conf = unat (cfg_required_confirmations config)" and "w' = node_lives D P config lives w"
  shows "\<exists>ps cp. planned D config cp0 ps cp \<and> w_checkpoint w' = Some cp
    \<and> (assert_checkpoint_matches_chain (d_crates D) cp (on_chain_header P (w_chain w')) = Inr ()
         \<and> paid_mints P (w_chain w') = paid_mints P (w_chain w) @ deposits conf ps
      \<or> (\<exists>p k. planned D config cp0 (ps @ [p]) (pt_next_checkpoint p) \<and> w_journal w' \<noteq> None
         \<and> on_chain_header P (w_chain w') = pt_new_header p
         \<and> deposits conf (ps @ [p]) = deposits conf ps @ mints_of p
         \<and> paid_mints P (w_chain w') = paid_mints P (w_chain w) @ deposits conf ps @ take k (mints_of p)))"
proof -
  have "hex_laws (d_crates D)" using assms(2) by (simp add: third_party_laws_def)
  moreover have "node_safe D P config cp0 (paid_mints P (w_chain w)) w'"
    unfolding assms(9) by (rule bridge_program.node_lives_safe[OF assms(1,2) node_safe_start[OF assms(3,5,4)]])
  ultimately show ?thesis using assms(6-8) by (intro node_safe_pays)
qed

theorem node_pays_deposits_once_in_order_witness:
  "\<exists>p ps cp w'. prepare_height demo_D demo_node (demo_config 1) demo_start 1 = Inr p
     \<and> w' = node_lives demo_D ledger_program (demo_config 1)
          [(demo_node, [(node_at 2, demo_backend (demo_output p))], replicate 12 Applied @ [Late]),
           (demo_node, [(node_at 9, demo_backend (demo_output p))], replicate 40 Applied @ [Lost])] (ledger_world demo_start)
     \<and> planned demo_D (demo_config 1) demo_start ps cp \<and> w_checkpoint w' = Some cp
     \<and> (lg_paid (w_chain w') = deposits 1 ps \<or> (\<exists>q k. deposits 1 (ps @ [q]) = deposits 1 ps @ mints_of q
          \<and> lg_paid (w_chain w') = deposits 1 ps @ take k (mints_of q)))"
proof -
  obtain p where p: "prepare_height demo_D demo_node (demo_config 1) demo_start 1 = Inr p" by (rule demo_plan)
  define w' where "w' = node_lives demo_D ledger_program (demo_config 1)
      [(demo_node, [(node_at 2, demo_backend (demo_output p))], replicate 12 Applied @ [Late]),
       (demo_node, [(node_at 9, demo_backend (demo_output p))], replicate 40 Applied @ [Lost])] (ledger_world demo_start)"
  have "cp_pending demo_start = []" "0 < cfg_required_confirmations (demo_config 1)"
    "1 = unat (cfg_required_confirmations (demo_config 1))" "w_checkpoint (ledger_world demo_start) = Some demo_start"
    by (simp_all add: demo_checkpoint_at_def demo_config_def ledger_world_def)
  from node_pays_deposits_once_in_order[OF ledger.bridge_program_axioms demo_third_party demo_start_names demo_start_matches
      this(4,1-3) w'_def]
  have "\<exists>ps cp. planned demo_D (demo_config 1) demo_start ps cp \<and> w_checkpoint w' = Some cp
     \<and> (lg_paid (w_chain w') = deposits 1 ps \<or> (\<exists>q k. deposits 1 (ps @ [q]) = deposits 1 ps @ mints_of q
          \<and> lg_paid (w_chain w') = deposits 1 ps @ take k (mints_of q)))"
    by (auto simp: ledger_world_def)
  with p w'_def show ?thesis by blast
qed

text \<open>
  Claim C7. A poll does what the ordered proof action prescribes for the committed height and
  the state of the proofs in flight: idle, it leaves the world as it is; when the proof of the next
  height has failed, it ends with an error and commits nothing, whatever is ready above; when it is
  ready, exactly this block is committed and removed. It never waits for another height.
\<close>

theorem poll_follows_proof_order:
  assumes "electrs_height N = Inr tip"
    and "plan_ahead D N B config (saturating_sub tip (cfg_required_confirmations config)) (s, False) = Inr (s1, did_work)"
    and "cp_height (w_memory w) \<noteq> 2 ^ 32 - 1"
  shows "case ordered_proof_action (cp_height (w_memory w)) (proof_states B (ps_inflight s1)) of
      Idle \<Rightarrow> poll_once D P N B config s (fates, w) = ((fates, w), Inr (s1, did_work))
    | Wait h \<Rightarrow> False
    | FailAction h \<Rightarrow> unat h = unat (cp_height (w_memory w)) + 1
        \<and> (\<exists>e. poll_once D P N B config s (fates, w) = ((fates, w), Inl e))
    | Commit h \<Rightarrow> unat h = unat (cp_height (w_memory w)) + 1
        \<and> (\<exists>p t output. bt_get (ps_inflight s1) h = Some (p, t) \<and> be_wait B t = Inr output
            \<and> poll_once D P N B config s (fates, w)
              = io_then (commit_prepared D P config p output)
                  (\<lambda>_. io_lift (Inr (s1\<lparr>ps_inflight := bt_remove h (ps_inflight s1)\<rparr>, True))) (fates, w))"
proof -
  let ?h = "cp_height (w_memory w)"
  obtain h where h: "checked_add_u32 ?h 1 = Some h" "unat h = unat ?h + 1"
  proof -
    have "unat ?h \<noteq> unat (2 ^ 32 - 1 :: u32)" using assms(3) by (simp only: word_unat_eq_iff) simp
    then have "unat ?h + 1 < 2 ^ 32" using unsigned_less[where 'a = nat, of ?h] by simp
    then show thesis using that by (simp add: checked_add_u32_def unat_word_ariths)
  qed
  note poll = poll_after_planning[OF assms(1,2) h(1)]
  show ?thesis
  proof (cases "bt_get (ps_inflight s1) h")
    case None
    then show ?thesis by (simp add: ordered_proof_action_def proof_states_get h poll io_lift_def)
  next
    case (Some e)
    obtain p t where e: "e = (p, t)" by (cases e)
    show ?thesis
    proof (cases "be_wait B t")
      case (Inl err)
      then show ?thesis using Some e by (simp add: ordered_proof_action_def proof_states_get h poll io_lift_def io_then_run)
    next
      case (Inr out)
      then show ?thesis using Some e by (simp add: ordered_proof_action_def proof_states_get h poll io_lift_def io_then_run)
    qed
  qed
qed

theorem poll_follows_proof_order_witness:
  "\<exists>p B. B = demo_backend (demo_output p) \<and> prepare_height demo_D demo_node (demo_config 1) demo_start 1 = Inr p
     \<and> ordered_proof_action (cp_height (w_memory (ledger_world demo_start))) (proof_states B [(1, p, pt_proof_job p)]) = Commit 1
     \<and> poll_once demo_D ledger_program (node_at 2) B (demo_config 1) \<lparr>ps_planned = demo_start, ps_inflight = []\<rparr>
         ([Lost], ledger_world demo_start)
       = io_then (commit_prepared demo_D ledger_program (demo_config 1) p (demo_output p))
           (\<lambda>_. io_lift (Inr (\<lparr>ps_planned = pt_next_checkpoint p, ps_inflight = []\<rparr>, True))) ([Lost], ledger_world demo_start)"
proof -
  obtain p where p: "prepare_height demo_D demo_node (demo_config 1) demo_start 1 = Inr p" by (rule demo_plan)
  let ?B = "demo_backend (demo_output p)" and ?w = "ledger_world demo_start"
  have plan: "plan_ahead demo_D (node_at 2) ?B (demo_config 1)
      (saturating_sub 2 (cfg_required_confirmations (demo_config 1))) (\<lparr>ps_planned = demo_start, ps_inflight = []\<rparr>, False)
      = Inr (\<lparr>ps_planned = pt_next_checkpoint p, ps_inflight = [(1, p, pt_proof_job p)]\<rparr>, True)"
    by (rule demo_plan[of "demo_output p"]) (use p in \<open>simp add: demo_config_def\<close>)
  have height: "cp_height (w_memory ?w) = 0" by (simp add: ledger_world_def demo_height_at)
  have action: "ordered_proof_action (cp_height (w_memory ?w)) (proof_states ?B [(1, p, pt_proof_job p)]) = Commit 1"
    by (simp add: height ordered_proof_action_def checked_add_u32_def proof_states_def demo_backend_def bt_get_def)
  have "cp_height (w_memory ?w) \<noteq> 2 ^ 32 - 1" by (simp add: height)
  from poll_follows_proof_order[OF node_at_simps(6) plan this, of ledger_program "[Lost]"] action p
  show ?thesis by (auto simp: demo_backend_def bt_get_def bt_remove_def)
qed

text \<open>
  Claim C10. Planning ahead keeps the blocks in flight a gapless sequence of transitions, each
  prepared from the one before, from the committed checkpoint to the planned one, at most as many as
  the configured window. It stops only when the window is full or the tip less the required
  confirmations is reached, and never plans a block with fewer confirmations.
\<close>

theorem plan_ahead_fills_window:
  assumes "planned D config cp qs (ps_planned s)" and "map (fst \<circ> snd) (ps_inflight s) = qs"
    and "map fst (ps_inflight s) = map pt_height qs" and "length (ps_inflight s) \<le> cfg_proof_prepare_window config"
    and "plan_ahead D N B config (saturating_sub tip (cfg_required_confirmations config)) (s, did_work) = Inr (s', did_work')"
  shows "\<exists>qs'. planned D config cp (qs @ qs') (ps_planned s') \<and> map (fst \<circ> snd) (ps_inflight s') = qs @ qs'
    \<and> map (unat \<circ> fst) (ps_inflight s') = [unat (cp_height cp) + 1..<unat (cp_height cp) + 1 + length (qs @ qs')]
    \<and> length (qs @ qs') \<le> cfg_proof_prepare_window config
    \<and> (qs' \<noteq> [] \<longrightarrow> unat (cp_height (ps_planned s')) + unat (cfg_required_confirmations config) \<le> unat tip)
    \<and> (length (qs @ qs') = cfg_proof_prepare_window config
        \<or> unat tip \<le> unat (cp_height (ps_planned s')) + unat (cfg_required_confirmations config))"
proof -
  have fl: "flight D config cp s qs" using assms(1-3) by (simp add: flight_def)
  obtain qs' where fl': "flight D config cp s' (qs @ qs')" using plan_ahead_flight[OF assms(5) fl] by blast
  let ?tip = "saturating_sub tip (cfg_required_confirmations config)"
  have run: "planned D config cp (qs @ qs') (ps_planned s')" "map (fst \<circ> snd) (ps_inflight s') = qs @ qs'"
    "map fst (ps_inflight s') = map pt_height (qs @ qs')"
    using fl' by (simp_all only: flight_def)
  have len: "length (ps_inflight s') = length (qs @ qs')" using run(2) by (metis length_map)
  have "map (unat \<circ> fst) (ps_inflight s') = map unat (map fst (ps_inflight s'))" by simp
  then have heights: "map (unat \<circ> fst) (ps_inflight s')
      = [unat (cp_height cp) + 1..<unat (cp_height cp) + 1 + length (qs @ qs')]"
    unfolding run(3) using planned_heights[OF run(1)] by (simp add: add.commute add.left_commute)
  have heights_grow: "unat (cp_height (ps_planned s')) = unat (cp_height (ps_planned s)) + length qs'"
    using planned_heights[OF run(1)] planned_heights[OF assms(1)] by simp
  have tip: "unat ?tip = unat tip - unat (cfg_required_confirmations config)"
    by (simp add: saturating_sub_def unat_sub word_le_nat_alt)
  note b = plan_ahead_bounds[OF assms(5,4), unfolded len]
  have "0 < unat ?tip \<and> unat (cp_height (ps_planned s')) \<le> unat ?tip" if "qs' \<noteq> []"
  proof -
    from that obtain n where "length qs' = Suc n" by (cases qs') auto
    then show ?thesis using b heights_grow by (auto simp: word_le_nat_alt)
  qed
  moreover have "length (qs @ qs') = cfg_proof_prepare_window config
      \<or> unat ?tip \<le> unat (cp_height (ps_planned s'))"
    using b by (auto simp: word_le_nat_alt)
  ultimately show ?thesis using run heights b tip by (intro exI[of _ qs'] conjI) auto
qed

theorem plan_ahead_fills_window_witness:
  "\<exists>p output s'. plan_ahead demo_D (node_at 2) (demo_backend output) (demo_config 1) (saturating_sub 2 1)
       (\<lparr>ps_planned = demo_start, ps_inflight = []\<rparr>, False) = Inr (s', True)
     \<and> ps_planned s' = pt_next_checkpoint p \<and> planned demo_D (demo_config 1) demo_start [p] (ps_planned s')
     \<and> map (unat \<circ> fst) (ps_inflight s') = [1]"
proof -
  fix out
  obtain p where p: "plan_ahead demo_D (node_at 2) (demo_backend out) (demo_config 1) (saturating_sub 2 1)
       (\<lparr>ps_planned = demo_start, ps_inflight = []\<rparr>, False)
     = Inr (\<lparr>ps_planned = pt_next_checkpoint p, ps_inflight = [(1, p, pt_proof_job p)]\<rparr>, True)"
    by (rule demo_plan[of out])
  have conf: "cfg_required_confirmations (demo_config 1) = 1" "cp_height demo_start = 0"
    by (simp_all add: demo_config_def demo_height_at)
  have plan: "plan_ahead demo_D (node_at 2) (demo_backend out) (demo_config 1)
      (saturating_sub 2 (cfg_required_confirmations (demo_config 1))) (\<lparr>ps_planned = demo_start, ps_inflight = []\<rparr>, False)
      = Inr (\<lparr>ps_planned = pt_next_checkpoint p, ps_inflight = [(1, p, pt_proof_job p)]\<rparr>, True)"
    unfolding conf by (rule p)
  from plan_ahead_fills_window[where cp = demo_start and qs = "[]", OF _ _ _ _ plan]
  have run: "planned demo_D (demo_config 1) demo_start [p] (pt_next_checkpoint p)"
    using planned.planned_start[of demo_D "demo_config 1" demo_start] by auto
  show ?thesis
    by (rule exI[of _ p], rule exI[of _ out], rule exI, intro conjI, rule p) (simp_all add: run)
qed

text \<open>
  Claim C6. When nothing interferes, a poll makes progress: with the committed checkpoint stored
  and matching the chain, the blocks in flight planned on top of it, and a good proof for the next
  height, the poll commits this block, pays each of its mints once, stores and adopts its
  checkpoint, removes the journal, and the blocks still in flight extend the new checkpoint.
\<close>

theorem undisturbed_poll_commits_next:
  assumes "bridge_program P" and "third_party_laws D" and "names_height (d_crates D) cp"
    and "assert_checkpoint_matches_chain (d_crates D) cp (on_chain_header P (w_chain w)) = Inr ()"
    and "w_checkpoint w = Some cp" and "w_memory w = cp" and "flight D config cp s qs"
    and "electrs_height N = Inr tip"
    and "plan_ahead D N B config (saturating_sub tip (cfg_required_confirmations config)) (s, False) = Inr (s1, did_work)"
    and "checked_add_u32 (cp_height cp) 1 = Some h" and "bt_get (ps_inflight s1) h = Some (p, t)" and "be_wait B t = Inr output"
    and "length (po_proof output) = proof_size" and "\<not> list_all (\<lambda>b. b = 0) (po_proof output)"
    and "po_public_values output = expected_public_values D config (pt_old_header p) (pt_new_header p)"
    and "validate_buffer_payload (d_crates D) (d_bridge D) (pt_finalized_buffers p) (mints_of p) = Inr ()"
    and "\<forall>m \<in> set (mints_of p). pm_recipient m \<in> set (cfg_recipient_atas config)"
    and "\<forall>s. resp_idempotency_key (update_reply P s) = su_idempotency_key s"
    and "fates = replicate (length (mints_of p) + 12) Applied"
  shows "\<exists>fates' w' s' qs'. poll_once D P N B config s (fates, w) = ((fates', w'), Inr (s', True))
    \<and> on_chain_header P (w_chain w') = pt_new_header p
    \<and> paid_mints P (w_chain w') = paid_mints P (w_chain w) @ mints_of p
    \<and> w_checkpoint w' = Some (pt_next_checkpoint p) \<and> w_memory w' = pt_next_checkpoint p \<and> w_journal w' = None
    \<and> flight D config (pt_next_checkpoint p) s' qs'"
proof -
  have settled: "settled D P config cp (paid_mints P (w_chain w)) [] cp w"
    using assms(3-5) by (simp add: settled_def planned.planned_start uncommitted_def)
  obtain qs1 where "flight D config cp s1 qs1" using plan_ahead_flight[OF assms(9,7)] by blast
  note left = flight_first(2)[OF this assms(10,11)]
  have "smooth (length (mints_of p) + 12) fates" using assms(19) by (simp add: smooth_replicate)
  from bridge_program.poll_completes[OF assms(1,2) settled assms(6-18) this] left
  show ?thesis by (auto simp: settled_def uncommitted_def)
qed

theorem undisturbed_poll_commits_next_witness:
  "\<exists>p fates' w' s'. prepare_height demo_D demo_node (demo_config 1) demo_start 1 = Inr p
     \<and> poll_once demo_D ledger_program (node_at 2) (demo_backend (demo_output p)) (demo_config 1)
         \<lparr>ps_planned = demo_start, ps_inflight = []\<rparr> (replicate 12 Applied, ledger_world demo_start) = ((fates', w'), Inr (s', True))
     \<and> lg_header (w_chain w') = pt_new_header p \<and> lg_header (w_chain w') \<noteq> demo_header
     \<and> w_checkpoint w' = Some (pt_next_checkpoint p) \<and> w_journal w' = None"
proof -
  obtain p where p: "prepare_height demo_D demo_node (demo_config 1) demo_start 1 = Inr p"
    and payload: "validate_buffer_payload (d_crates demo_D) (d_bridge demo_D) (pt_finalized_buffers p) (mints_of p) = Inr ()"
    and ms: "mints_of p = []" and new: "pt_new_header p \<noteq> demo_header"
    by (rule demo_plan)
  have plan: "plan_ahead demo_D (node_at 2) (demo_backend (demo_output p)) (demo_config 1)
      (saturating_sub 2 (cfg_required_confirmations (demo_config 1))) (\<lparr>ps_planned = demo_start, ps_inflight = []\<rparr>, False)
      = Inr (\<lparr>ps_planned = pt_next_checkpoint p, ps_inflight = [(1, p, pt_proof_job p)]\<rparr>, True)"
    by (rule demo_plan[of "demo_output p"]) (use p in \<open>simp add: demo_config_def\<close>)
  have next_: "checked_add_u32 (cp_height demo_start) 1 = Some 1" by (simp add: demo_height_at checked_add_u32_def)
  have got: "bt_get (ps_inflight \<lparr>ps_planned = pt_next_checkpoint p, ps_inflight = [(1, p, pt_proof_job p)]\<rparr>) 1
      = Some (p, pt_proof_job p)" "be_wait (demo_backend (demo_output p)) (pt_proof_job p) = Inr (demo_output p)"
    by (simp_all add: bt_get_def demo_backend_def)
  have out: "length (po_proof (demo_output p)) = proof_size" "\<not> list_all (\<lambda>b. b = 0) (po_proof (demo_output p))"
    "po_public_values (demo_output p) = expected_public_values demo_D (demo_config 1) (pt_old_header p) (pt_new_header p)"
    by (simp_all add: demo_output_def proof_size_def list_all_iff)
  have w: "w_checkpoint (ledger_world demo_start) = Some demo_start" "w_memory (ledger_world demo_start) = demo_start"
    by (simp_all add: ledger_world_def)
  from undisturbed_poll_commits_next[OF ledger.bridge_program_axioms demo_third_party demo_start_names demo_start_matches w
      flight_start node_at_simps(6) plan next_ got out payload _ _ refl]
  show ?thesis using p new by (auto simp: ms)
qed

end
