(* ===== verification/Prover_Daemon.thy ===== *)
theory Prover_Daemon
  imports Prepare
begin

text \<open>
  The local prover of \<open>block_pipeline.rs\<close> and the worker task of \<open>proof_queue.rs\<close>: a child process that
  introduces itself with an identity line, then answers each request line with a response line. What
  the child does is a list of events: chunks of stderr, lines of stdout, the end of stdout, its exit,
  a broken pipe, or silence past the deadline. Lines that are not JSON objects are diagnostics and
  go to the stderr buffer, which is cut to its last 256 KiB.

  The starts of a child, the writes of requests and the reading of the configured ELF are
  answers of the environment as well.
\<close>

section \<open>Lines\<close>

datatype daemon_event =
    StderrChunk bytes
  | StdoutLine bytes
  | StdoutClosed
  | ChildExited
  | PipeError
  | DeadlinePassed

definition max_prover_diagnostics_bytes :: nat where
  "max_prover_diagnostics_bytes = 256 * 1024"

definition push_diagnostics :: "bytes \<Rightarrow> bytes \<Rightarrow> bytes" where
  "push_diagnostics diagnostics chunk =
     (let diagnostics = diagnostics @ chunk in
      if max_prover_diagnostics_bytes < length diagnostics
      then drop (length diagnostics - max_prover_diagnostics_bytes) diagnostics
      else diagnostics)"

text \<open>\<open>while matches!(line.last(), Some(b'\n' | b'\r')) { line.pop(); }\<close>\<close>

definition strip_line :: "bytes \<Rightarrow> bytes" where
  "strip_line line = rev (dropWhile (\<lambda>b. b = 10 \<or> b = 13) (rev line))"

definition open_brace :: u8 where
  "open_brace = 123"

fun read_response_line :: "daemon_event list \<Rightarrow> bytes \<Rightarrow> (daemon_event list \<times> bytes) \<times> bytes res" where
  "read_response_line [] diagnostics = (([], diagnostics), Inl (Err ''gen-proof daemon did not respond''))"
| "read_response_line (StderrChunk chunk # events) diagnostics =
     read_response_line events (push_diagnostics diagnostics chunk)"
| "read_response_line (StdoutLine line # events) diagnostics =
     (let line = strip_line line in
      if line = [] then read_response_line events diagnostics
      else if hd line = open_brace then ((events, diagnostics), Inr line)
      else read_response_line events (push_diagnostics diagnostics (line @ [10])))"
| "read_response_line (StdoutClosed # events) diagnostics =
     ((events, []), Inl (Err ''gen-proof daemon closed stdout''))"
| "read_response_line (ChildExited # events) diagnostics =
     ((events, []), Inl (Err ''gen-proof daemon exited before returning a response''))"
| "read_response_line (PipeError # events) diagnostics = ((events, diagnostics), Inl (Err ''broken pipe''))"
| "read_response_line (DeadlinePassed # events) diagnostics =
     ((events, diagnostics), Inl (Err ''gen-proof daemon did not respond''))"

section \<open>Identity and responses\<close>

record prover_identity =
  id_kind :: string
  id_network :: string
  id_guest_id :: string
  id_block_elf :: string
  id_vkey_hash :: string

text \<open>\<open>serde_json::from_slice\<close> at the two types of line.\<close>

record prover_json =
  identity_from_slice :: "bytes \<Rightarrow> prover_identity option"
  response_from_slice :: "bytes \<Rightarrow> prover_response option"

definition decode_prover_hash :: "crates \<Rightarrow> string \<Rightarrow> bytes res" where
  "decode_prover_hash X value =
     decode_fixed X 32 (case strip_prefix ''0x'' value of Some rest \<Rightarrow> rest | None \<Rightarrow> value)"

definition validate_prover_elf_sha256 :: "crates \<Rightarrow> bytes res \<Rightarrow> string \<Rightarrow> unit res" where
  "validate_prover_elf_sha256 X configured_elf prover_elf_sha256 =
     and_then configured_elf (\<lambda>elf.
     if prover_elf_sha256 \<noteq> sha256_hex X elf then Inl (Err ''SP1 ELF hash mismatch'') else Inr ())"

definition validate_prover_identity ::
  "crates \<Rightarrow> pipeline_config \<Rightarrow> bytes res \<Rightarrow> prover_identity \<Rightarrow> bytes res" where
  "validate_prover_identity X config elf identity =
     (if id_kind identity \<noteq> ''identity'' then Inl (Err ''gen-proof initial response kind was not identity'')
      else if id_network identity \<noteq> network_str (cfg_network config) then Inl (Err ''SP1 prover network mismatch'')
      else if id_guest_id identity \<noteq> guest_id (cfg_network config) then Inl (Err ''SP1 prover guest id mismatch'')
      else
      and_then (validate_prover_elf_sha256 X elf (id_block_elf identity)) (\<lambda>_.
      and_then (decode_prover_hash X (id_vkey_hash identity)) (\<lambda>vk_hash.
      if vk_hash \<noteq> cfg_expected_vk_hash config then Inl (Err ''SP1 program VK mismatch'') else Inr vk_hash)))"

definition validate_proof_response ::
  "crates \<Rightarrow> pipeline_config \<Rightarrow> bytes res \<Rightarrow> bytes \<Rightarrow> prover_response \<Rightarrow> unit res" where
  "validate_proof_response X config elf identity_vk_hash response =
     (if pr_network response \<noteq> Some (network_str (cfg_network config))
      then Inl (Err ''gen-proof response network did not match'')
      else if pr_guest_id response \<noteq> Some (guest_id (cfg_network config))
      then Inl (Err ''gen-proof response guest id did not match'')
      else
      and_then elf (\<lambda>configured_elf.
      if pr_block_elf response \<noteq> Some (sha256_hex X configured_elf)
      then Inl (Err ''gen-proof response block_elf_sha256 changed after identity validation'')
      else
      and_then (ok_or (pr_vkey_hash response) (Err ''gen-proof response omitted vkey_hash'')) (\<lambda>vkey.
      and_then (decode_prover_hash X vkey) (\<lambda>response_vk_hash.
      if response_vk_hash \<noteq> identity_vk_hash \<or> response_vk_hash \<noteq> cfg_expected_vk_hash config
      then Inl (Err ''gen-proof response VK hash changed after identity validation'')
      else Inr ()))))"

section \<open>A running daemon\<close>

record daemon =
  dm_events :: "daemon_event list"
  dm_writes :: "unit res list"
  dm_stderr :: bytes
  dm_vk_hash :: bytes

text \<open>\<open>start\<close>: a child is spawned; it is killed unless its identity is the expected one.\<close>

definition prover_start ::
  "crates \<Rightarrow> prover_json \<Rightarrow> pipeline_config \<Rightarrow> bytes res \<Rightarrow> (daemon_event list \<times> unit res list) res \<Rightarrow> daemon res" where
  "prover_start X JP config elf spawned =
     and_then spawned (\<lambda>(events, writes).
     case read_response_line events [] of
       (_, Inl e) \<Rightarrow> Inl (Err ''gen-proof daemon startup failed'')
     | ((events, stderr), Inr identity_line) \<Rightarrow>
         and_then (ok_or (identity_from_slice JP identity_line) (Err ''malformed gen-proof identity response'')) (\<lambda>identity.
         case validate_prover_identity X config elf identity of
           Inl e \<Rightarrow> Inl (Err ''gen-proof daemon identity validation failed'')
         | Inr vk_hash \<Rightarrow>
             Inr \<lparr>dm_events = events, dm_writes = writes, dm_stderr = stderr, dm_vk_hash = vk_hash\<rparr>))"

text \<open>The environment's answer to the next write and flush; without one, they succeed.\<close>

fun next_write :: "unit res list \<Rightarrow> unit res \<times> unit res list" where
  "next_write [] = (Inr (), [])"
| "next_write (r # writes) = (r, writes)"

fun contains_str :: "string \<Rightarrow> string \<Rightarrow> bool" where
  "contains_str [] pat = (pat = [])"
| "contains_str (c # s) pat = (take (length pat) (c # s) = pat \<or> contains_str s pat)"

text \<open>What \<open>prove\<close> makes of a response line.\<close>

definition proof_of_response ::
  "crates \<Rightarrow> pipeline_config \<Rightarrow> bytes res \<Rightarrow> bytes \<Rightarrow> prover_response \<Rightarrow> (bytes \<times> bytes) res" where
  "proof_of_response X config elf vk_hash response =
     and_then (validate_proof_response X config elf vk_hash response) (\<lambda>_.
     and_then (decode_required_response_bytes X (pr_proof_bytes response)) (\<lambda>proof.
     and_then (decode_required_response_bytes X (pr_public_values response)) (\<lambda>public_values.
     if pr_proof_size response \<noteq> Some (length proof)
     then Inl (Err ''gen-proof proof_size did not match returned bytes'')
     else if pr_public_values_size response \<noteq> Some (length public_values)
     then Inl (Err ''gen-proof public_values_size did not match returned bytes'')
     else Inr (proof, public_values))))"

definition check_response ::
  "crates \<Rightarrow> prover_json \<Rightarrow> pipeline_config \<Rightarrow> bytes res \<Rightarrow> bytes \<Rightarrow> string \<Rightarrow> bytes \<Rightarrow> prove_error + (bytes \<times> bytes)" where
  "check_response X JP config elf vk_hash request_id line =
     (case response_from_slice JP line of
        None \<Rightarrow> Inl (DaemonError ''malformed gen-proof response'')
      | Some response \<Rightarrow>
          if pr_kind response \<noteq> ''proof'' then Inl (DaemonError ''gen-proof response kind was not proof'')
          else if pr_request_id response \<noteq> Some request_id
          then Inl (DaemonError ''gen-proof response request id did not match'')
          else if \<not> pr_ok response then
            (let error_message = (case pr_error response of Some e \<Rightarrow> e | None \<Rightarrow> ''missing error message'') in
             if contains_str error_message ''timed out'' then Inl (DaemonError (''timed out: '' @ error_message))
             else Inl (RequestError (''gen-proof request failed: '' @ error_message)))
          else
            (case proof_of_response X config elf vk_hash response of
               Inl e \<Rightarrow> Inl (DaemonError ''invalid gen-proof response'')
             | Inr out \<Rightarrow> Inr out))"

definition prover_prove ::
  "crates \<Rightarrow> 'j serde \<Rightarrow> prover_json \<Rightarrow> pipeline_config \<Rightarrow> bytes res \<Rightarrow> daemon \<Rightarrow> proof_request
     \<Rightarrow> daemon \<times> (prove_error + prover_output)" where
  "prover_prove X J JP config elf d request =
     (case request_to_vec J request of
        Inl e \<Rightarrow> (d, Inl (DaemonError ''request cannot be encoded''))
      | Inr request_line \<Rightarrow>
          (case next_write (dm_writes d) of
             (Inl e, writes) \<Rightarrow> (d\<lparr>dm_writes := writes\<rparr>, Inl (DaemonError ''gen-proof daemon stdin write failed''))
           | (Inr _, writes) \<Rightarrow>
               (case read_response_line (dm_events d) (dm_stderr d) of
                  ((events, stderr), Inl e) \<Rightarrow>
                    (d\<lparr>dm_writes := writes, dm_events := events, dm_stderr := stderr\<rparr>,
                     Inl (DaemonError ''gen-proof daemon did not return a response''))
                | ((events, stderr), Inr line) \<Rightarrow>
                    (case check_response X JP config elf (dm_vk_hash d) (rq_request_id request) line of
                       Inl e \<Rightarrow> (d\<lparr>dm_writes := writes, dm_events := events, dm_stderr := stderr\<rparr>, Inl e)
                     | Inr (proof, public_values) \<Rightarrow>
                         (d\<lparr>dm_writes := writes, dm_events := events, dm_stderr := []\<rparr>,
                          Inr \<lparr>po_stdout = line, po_stderr = stderr, po_vk_hash = dm_vk_hash d, po_proof = proof,
                               po_public_values = public_values\<rparr>)))))"

section \<open>The worker task\<close>

text \<open>
  The environment of one job: whether the request file can be written, what a restart would
  spawn, and what reading the ELF gives. \<open>run_local_job\<close> uses it as its daemon operations.
\<close>

record job_env =
  je_prepare :: "unit res"
  je_spawn :: "(daemon_event list \<times> unit res list) res"
  je_elf :: "bytes res"

definition prover_ops ::
  "crates \<Rightarrow> 'j serde \<Rightarrow> prover_json \<Rightarrow> pipeline_config \<Rightarrow> job_env \<Rightarrow> daemon daemon_ops" where
  "prover_ops X J JP config env =
     \<lparr>prepare_request = (\<lambda>_. je_prepare env),
      daemon_start = prover_start X JP config (je_elf env) (je_spawn env),
      daemon_prove = prover_prove X J JP config (je_elf env)\<rparr>"

text \<open>The loop of \<open>LocalProofBackend::start\<close> over the requests in the order they were sent.\<close>

fun serve ::
  "crates \<Rightarrow> 'j serde \<Rightarrow> prover_json \<Rightarrow> pipeline_config \<Rightarrow> daemon option \<Rightarrow> (proof_job \<times> job_env) list
     \<Rightarrow> 'j proof_result res list" where
  "serve X J JP config d [] = []"
| "serve X J JP config d ((job, env) # requests) =
     (case run_local_job X J (prover_ops X J JP config env) d job of
        (d', result) \<Rightarrow> result # serve X J JP config d' requests)"

section \<open>Reading\<close>

definition noise :: "daemon_event \<Rightarrow> bool" where
  "noise e =
     (case e of
        StderrChunk _ \<Rightarrow> True
      | StdoutLine line \<Rightarrow> strip_line line = [] \<or> hd (strip_line line) \<noteq> open_brace
      | _ \<Rightarrow> False)"

lemma push_diagnostics_bound: "length (push_diagnostics d c) \<le> max_prover_diagnostics_bytes"
  unfolding push_diagnostics_def Let_def by (simp only: length_drop split: if_split) arith

lemma push_diagnostics_suffix: "\<exists>dropped. d @ c = dropped @ push_diagnostics d c"
proof (cases "max_prover_diagnostics_bytes < length (d @ c)")
  case True
  then have "push_diagnostics d c = drop (length (d @ c) - max_prover_diagnostics_bytes) (d @ c)"
    by (simp only: push_diagnostics_def Let_def if_True)
  then show ?thesis by (metis append_take_drop_id)
qed (simp add: push_diagnostics_def)

lemma read_response_line_bound:
  "length diagnostics \<le> max_prover_diagnostics_bytes \<Longrightarrow>
   length (snd (fst (read_response_line events diagnostics))) \<le> max_prover_diagnostics_bytes"
  by (induction events diagnostics rule: read_response_line.induct) (auto simp: Let_def push_diagnostics_bound)

lemma read_response_line_iff:
  "(\<exists>stderr. read_response_line events diagnostics = ((rest, stderr), Inr line)) \<longleftrightarrow>
   (\<exists>skipped l. events = skipped @ StdoutLine l # rest \<and> list_all noise skipped
      \<and> line = strip_line l \<and> line \<noteq> [] \<and> hd line = open_brace)"
proof (induction events diagnostics rule: read_response_line.induct)
  case (3 l events diagnostics)
  show ?case
  proof (cases "strip_line l \<noteq> [] \<and> hd (strip_line l) = open_brace")
    case True
    then show ?thesis by (auto simp: Let_def Cons_eq_append_conv noise_def)
  next
    case False
    have "(\<exists>stderr. read_response_line (StdoutLine l # events) diagnostics = ((rest, stderr), Inr line)) \<longleftrightarrow>
        (\<exists>skipped l'. events = skipped @ StdoutLine l' # rest \<and> list_all noise skipped
          \<and> line = strip_line l' \<and> line \<noteq> [] \<and> hd line = open_brace)"
      using False 3 by (cases "strip_line l = []") (simp_all add: Let_def)
    also have "\<dots> \<longleftrightarrow> (\<exists>skipped l'. StdoutLine l # events = skipped @ StdoutLine l' # rest \<and> list_all noise skipped
          \<and> line = strip_line l' \<and> line \<noteq> [] \<and> hd line = open_brace)"
      using False by (auto simp: Cons_eq_append_conv noise_def)
    finally show ?thesis .
  qed
qed (auto simp: Cons_eq_append_conv noise_def)

section \<open>Answers\<close>

lemma check_response_ok:
  assumes "check_response X JP config elf vk_hash request_id line = Inr (proof, public_values)"
  obtains r e vkey where "response_from_slice JP line = Some r" "pr_kind r = ''proof''" "pr_request_id r = Some request_id" "pr_ok r"
    "pr_network r = Some (network_str (cfg_network config))" "pr_guest_id r = Some (guest_id (cfg_network config))"
    "elf = Inr e" "pr_block_elf r = Some (sha256_hex X e)" "pr_vkey_hash r = Some vkey"
    "decode_prover_hash X vkey = Inr vk_hash" "vk_hash = cfg_expected_vk_hash config"
    "decode_required_response_bytes X (pr_proof_bytes r) = Inr proof" "pr_proof_size r = Some (length proof)"
    "decode_required_response_bytes X (pr_public_values r) = Inr public_values"
    "pr_public_values_size r = Some (length public_values)"
proof -
  obtain r where r: "response_from_slice JP line = Some r"
    using assms by (cases "response_from_slice JP line") (simp_all add: check_response_def)
  have head: "pr_kind r = ''proof''" "pr_request_id r = Some request_id" "pr_ok r"
    using assms by (auto simp: check_response_def r Let_def split: if_splits)
  have "proof_of_response X config elf vk_hash r = Inr (proof, public_values)"
    using assms by (auto simp: check_response_def r head Let_def split: sum.splits)
  then have v: "validate_proof_response X config elf vk_hash r = Inr ()"
    and p: "decode_required_response_bytes X (pr_proof_bytes r) = Inr proof" "pr_proof_size r = Some (length proof)"
      "decode_required_response_bytes X (pr_public_values r) = Inr public_values"
      "pr_public_values_size r = Some (length public_values)"
    unfolding proof_of_response_def by (elim and_then_elim; simp split: if_split_asm)+
  from v obtain e vkey where "elf = Inr e" "pr_block_elf r = Some (sha256_hex X e)" "pr_vkey_hash r = Some vkey"
    "decode_prover_hash X vkey = Inr vk_hash" "vk_hash = cfg_expected_vk_hash config"
    "pr_network r = Some (network_str (cfg_network config))" "pr_guest_id r = Some (guest_id (cfg_network config))"
    by (auto simp: validate_proof_response_def ok_or_eq_Inr elim!: and_then_elim split: if_splits)
  with that[OF r head] p show thesis by blast
qed

lemma prover_prove_ok:
  assumes "prover_prove X J JP config elf d request = (d', Inr output)"
  shows "check_response X JP config elf (dm_vk_hash d) (rq_request_id request) (po_stdout output)
      = Inr (po_proof output, po_public_values output)"
    and "po_vk_hash output = dm_vk_hash d"
    and "\<exists>rest. read_response_line (dm_events d) (dm_stderr d) = ((rest, po_stderr output), Inr (po_stdout output))"
  using assms
  by (auto simp: prover_prove_def split: sum.splits prod.splits)

text \<open>What \<open>serde_json\<close> reads as a response it reads as a JSON value with the same response, and writes again.\<close>

definition prover_json_law :: "'j serde \<Rightarrow> prover_json \<Rightarrow> bool" where
  "prover_json_law J JP \<longleftrightarrow>
     (\<forall>line r. response_from_slice JP line = Some r \<longrightarrow>
        (\<exists>j bs. json_from_slice J line = Some j \<and> response_from_json J j = Some r \<and> json_to_vec J j = Inr bs))"

text \<open>The results of the worker belong to the job, whatever the daemon had written before.\<close>

definition answers :: "'j serde \<Rightarrow> prover_json \<Rightarrow> proof_job \<Rightarrow> 'j proof_result \<Rightarrow> bool" where
  "answers J JP job result \<longleftrightarrow>
     identity_matches job result
     \<and> (\<forall>j stderr. res_outcome result = OutSuccess j stderr \<longrightarrow>
         (\<exists>line r. json_from_slice J line = Some j \<and> response_from_slice JP line = Some r \<and> pr_ok r
            \<and> pr_request_id r = Some (rq_request_id (job_request job))))"

lemma error_answers: "answers J JP job (result_error job e)"
  by (simp add: answers_def result_error_def result_from_job_def identity_matches_def)

lemma output_answers:
  assumes "prover_prove X J JP config elf d (job_request job) = (d', Inr output)"
    and "local_output_result X J job output = Inr result"
  shows "answers J JP job result"
proof -
  obtain r where "response_from_slice JP (po_stdout output) = Some r" "pr_request_id r = Some (rq_request_id (job_request job))" "pr_ok r"
    by (rule check_response_ok[OF prover_prove_ok(1)[OF assms(1)]]) blast
  then show ?thesis
    using assms(2)
    by (auto simp: local_output_result_def answers_def result_success_def result_from_job_def identity_matches_def
        ok_or_eq_Inr elim!: and_then_elim)
qed

lemma run_local_job_answers:
  assumes "run_local_job X J (prover_ops X J JP config env) d job = (d', Inr result)"
  shows "answers J JP job result"
  using assms
  by (auto simp: run_local_job_def prover_ops_def Let_def error_answers dest: output_answers
      split: sum.splits option.splits prod.splits prove_error.splits)

lemma serve_answers:
  "length (serve X J JP config d requests) = length requests
   \<and> (\<forall>i < length requests. \<forall>result. serve X J JP config d requests ! i = Inr result \<longrightarrow>
        answers J JP (fst (requests ! i)) result)"
proof (induction X J JP config d requests rule: serve.induct)
  case (2 X J JP config d job env requests)
  obtain d' r where run: "run_local_job X J (prover_ops X J JP config env) d job = (d', r)" by (metis prod.exhaust)
  then have "r = Inr result \<Longrightarrow> answers J JP job result" for result using run_local_job_answers by metis
  with 2[OF run[symmetric]] run show ?case by (auto simp: less_Suc_eq_0_disj)
qed simp

lemma stopped_stays: "\<forall>r \<in> set (serve X J JP config None requests). \<exists>e. r = Inl e"
  by (induction requests) (auto simp: run_local_job_def Let_def split: sum.splits)

section \<open>From the daemon to the pipeline\<close>

lemma into_prover_output_of_daemon:
  assumes X: "hex_laws X" and json: "prover_json_law J JP" and valid: "job_validate X J job = Inr ()"
    and job: "job_network job = network_str (cfg_network config)" "job_guest_id job = guest_id (cfg_network config)"
      "elf = Inr e" "job_block_elf job = sha256_hex X e" "job_vkey_hash job = hex_encode X (cfg_expected_vk_hash config)"
    and vk: "length (cfg_expected_vk_hash config) = 32"
    and run: "prover_prove X J JP config elf d (job_request job) = (d', Inr output)"
  shows "\<exists>r bs result. response_from_slice JP (po_stdout output) = Some r
    \<and> pr_request_id r = Some (rq_request_id (job_request job)) \<and> po_vk_hash output = cfg_expected_vk_hash config
    \<and> local_output_result X J job output = Inr result
    \<and> (if pr_vkey_hash r = Some (job_vkey_hash job)
       then into_prover_output X J result job = Inr (output\<lparr>po_stdout := bs\<rparr>)
       else \<exists>e. into_prover_output X J result job = Inl e)"
proof -
  obtain r e' vkey where r: "response_from_slice JP (po_stdout output) = Some r" "pr_kind r = ''proof''"
      "pr_request_id r = Some (rq_request_id (job_request job))" "pr_ok r"
      "pr_network r = Some (job_network job)" "pr_guest_id r = Some (job_guest_id job)"
    and elf': "elf = Inr e'" "pr_block_elf r = Some (sha256_hex X e')" and vkey: "pr_vkey_hash r = Some vkey"
    and vk_hash: "dm_vk_hash d = cfg_expected_vk_hash config"
    and bytes: "decode_required_response_bytes X (pr_proof_bytes r) = Inr (po_proof output)"
      "pr_proof_size r = Some (length (po_proof output))"
      "decode_required_response_bytes X (pr_public_values r) = Inr (po_public_values output)"
      "pr_public_values_size r = Some (length (po_public_values output))"
    by (rule check_response_ok[OF prover_prove_ok(1)[OF run]], rule that) (simp_all add: job(1,2))
  from json r(1) obtain j bs where j: "json_from_slice J (po_stdout output) = Some j" "response_from_json J j = Some r"
    "json_to_vec J j = Inr bs"
    unfolding prover_json_law_def by blast
  let ?result = "result_success X job j (po_stderr output)"
  have result: "local_output_result X J job output = Inr ?result" by (simp add: local_output_result_def j(1) ok_or_def)
  have hex: "hex_decode X (hex_encode X bs) = Some bs" for bs using X by (simp add: hex_laws_def)
  have identity: "validate_for X J ?result job = Inr ()"
    by (simp add: validate_for_def valid identity_matches_def result_success_def result_from_job_def)
  have outcome: "res_outcome ?result = OutSuccess j (hex_encode X (po_stderr output))"
    by (simp add: result_success_def result_from_job_def)
  have vk_job: "decode_hex_32 X (job_vkey_hash job) = Inr (po_vk_hash output)"
    using prover_prove_ok(2)[OF run] vk_hash by (simp add: decode_hex_32_def job(5) hex vk)
  have elf: "pr_block_elf r = Some (job_block_elf job)" using elf' job(3,4) by simp
  have "if pr_vkey_hash r = Some (job_vkey_hash job)
      then into_prover_output X J ?result job = Inr (output\<lparr>po_stdout := bs\<rparr>)
      else \<exists>e. into_prover_output X J ?result job = Inl e"
    by (simp add: into_prover_output_def identity outcome hex j ok_or_def
        validate_daemon_response_def r(2-6) elf bytes vk_job bail_if_def)
  moreover have "po_vk_hash output = cfg_expected_vk_hash config" using prover_prove_ok(2)[OF run] vk_hash by simp
  ultimately show ?thesis using r(1,3) result by (intro exI conjI)
qed

lemma stderr_bound:
  assumes "length (dm_stderr d) \<le> max_prover_diagnostics_bytes"
  shows "length (dm_stderr (fst (prover_prove X J JP config elf d request))) \<le> max_prover_diagnostics_bytes"
proof -
  obtain evs se r where read: "read_response_line (dm_events d) (dm_stderr d) = ((evs, se), r)" by (metis prod.exhaust)
  with read_response_line_bound[OF assms, of "dm_events d"] have "length se \<le> max_prover_diagnostics_bytes" by simp
  with assms read show ?thesis by (auto simp: prover_prove_def split: sum.splits prod.splits)
qed

lemma start_stderr_bound:
  "prover_start X JP config elf spawned = Inr d \<Longrightarrow> length (dm_stderr d) \<le> max_prover_diagnostics_bytes"
proof -
  assume start: "prover_start X JP config elf spawned = Inr d"
  then obtain events writes where sp: "spawned = Inr (events, writes)" by (cases spawned) (auto simp: prover_start_def)
  obtain evs se r where read: "read_response_line events [] = ((evs, se), r)" by (metis prod.exhaust)
  with read_response_line_bound[of "[]" events] have "length se \<le> max_prover_diagnostics_bytes" by simp
  with start read show ?thesis
    apply (auto simp: prover_start_def sp elim!: and_then_elim split: sum.split_asm)
    subgoal for line identity by (cases "validate_prover_identity X config elf identity") auto
    done
qed

section \<open>Properties\<close>

text \<open>
  Claim C23. When the local daemon proves the request of a prepared block, the result made from
  its output passes the checks of the pipeline and gives back the same proof, public values, key and
  diagnostics, provided the daemon wrote the verifying key as the job does. Otherwise, as with the
  prefix \<open>0x\<close> that the daemon's own check strips, the pipeline rejects the proof.
\<close>

theorem daemon_proof_delivered:
  assumes "hex_laws (d_crates D)" and "prover_json_law (d_serde D) JP"
    and "prepare_height D N config cp height = Inr p" and "length (cfg_expected_vk_hash config) = 32"
    and "prover_prove (d_crates D) (d_serde D) JP config (elf_file N) d (job_request (pt_proof_job p)) = (d', Inr output)"
  shows "\<exists>r bs result. response_from_slice JP (po_stdout output) = Some r
    \<and> pr_request_id r = Some (rq_request_id (job_request (pt_proof_job p)))
    \<and> po_vk_hash output = cfg_expected_vk_hash config
    \<and> local_output_result (d_crates D) (d_serde D) (pt_proof_job p) output = Inr result
    \<and> (if pr_vkey_hash r = Some (hex_encode (d_crates D) (cfg_expected_vk_hash config))
       then into_prover_output (d_crates D) (d_serde D) result (pt_proof_job p) = Inr (output\<lparr>po_stdout := bs\<rparr>)
       else \<exists>e. into_prover_output (d_crates D) (d_serde D) result (pt_proof_job p) = Inl e)"
proof -
  obtain elf request json where elf: "elf_file N = Inr elf"
    and job: "job_new (d_crates D) (d_serde D) (network_str (cfg_network config)) height
       (sha256_hex (d_crates D) (str_bytes json)) (guest_id (cfg_network config))
       (sha256_hex (d_crates D) elf) (hex_encode (d_crates D) (cfg_expected_vk_hash config)) request
       = Inr (pt_proof_job p)"
    by (rule prepare_heightE[OF assms(3)]) blast
  note j = job_new_fields[OF job]
  from into_prover_output_of_daemon[OF assms(1,2) j(1,2,5) elf j(6,7) assms(4,5)] show ?thesis
    unfolding j(7) .
qed


section \<open>Witnesses\<close>

lemma job_new_serde:
  assumes "request_to_vec J = request_to_vec J'"
  shows "job_new X J = job_new X J'"
proof -
  have c: "canonical_request_bytes J = canonical_request_bytes J'"
    using assms by (intro ext) (simp add: canonical_request_bytes_def)
  have i: "compute_job_id X J = compute_job_id X J'"
    by (intro ext) (simp only: compute_job_id_def job_identity_def c)
  have "job_validate X J = job_validate X J'" by (intro ext) (simp only: job_validate_def c i)
  then show ?thesis by (intro ext) (simp only: job_new_def c i)
qed

lemma prepare_height_serde:
  assumes "request_to_vec J = request_to_vec (d_serde D)"
  shows "prepare_height (D\<lparr>d_serde := J\<rparr>) N config cp height = prepare_height D N config cp height"
proof -
  have fields: "d_crates (D\<lparr>d_serde := J\<rparr>) = d_crates D" "d_bridge (D\<lparr>d_serde := J\<rparr>) = d_bridge D"
    "d_helpers (D\<lparr>d_serde := J\<rparr>) = d_helpers D" "d_chain (D\<lparr>d_serde := J\<rparr>) = d_chain D"
    "d_serde (D\<lparr>d_serde := J\<rparr>) = J" "d_checkpoint_to_string (D\<lparr>d_serde := J\<rparr>) = d_checkpoint_to_string D"
    by simp_all
  show ?thesis unfolding prepare_height_def fields job_new_serde[OF assms] ..
qed

definition reply_to :: "proof_request \<Rightarrow> prover_response" where
  "reply_to request =
     \<lparr>pr_kind = ''proof'', pr_request_id = Some (rq_request_id request), pr_ok = True, pr_network = Some ''regtest'',
      pr_guest_id = Some (guest_id Regtest), pr_block_elf = Some (sha256_hex demo_crates [1, 2, 3]),
      pr_vkey_hash = Some (demo_encode regtest_block_vk_hash), pr_proof_size = Some 1,
      pr_proof_bytes = Some (demo_encode [7]), pr_public_values_size = Some 1,
      pr_public_values = Some (demo_encode [8]), pr_error = None\<rparr>"

definition reply_json :: "prover_response \<Rightarrow> prover_json" where
  "reply_json r = \<lparr>identity_from_slice = (\<lambda>_. None), response_from_slice = (\<lambda>_. Some r)\<rparr>"

definition reply_daemon :: daemon where
  "reply_daemon =
     \<lparr>dm_events = [StderrChunk [9], StdoutLine [], StdoutLine [123, 10]], dm_writes = [], dm_stderr = [],
      dm_vk_hash = regtest_block_vk_hash\<rparr>"

definition reply_output :: prover_output where
  "reply_output =
     \<lparr>po_stdout = [123], po_stderr = [9], po_vk_hash = regtest_block_vk_hash, po_proof = [7], po_public_values = [8]\<rparr>"

lemma decode_prover_demo: "decode_prover_hash demo_crates (demo_encode regtest_block_vk_hash) = Inr regtest_block_vk_hash"
proof -
  have "strip_prefix ''0x'' (demo_encode regtest_block_vk_hash) = None" by code_simp
  then show ?thesis by (simp add: decode_prover_hash_def decode_fixed_iff demo_hex regtest_block_vk_hash_def)
qed

lemma reply_proves:
  assumes "request_to_vec J request = Inr line"
  shows "\<exists>d'. prover_prove demo_crates J (reply_json (reply_to request)) (demo_config 1) (Inr [1, 2, 3]) reply_daemon request
    = (d', Inr reply_output)"
proof -
  have read: "read_response_line (dm_events reply_daemon) (dm_stderr reply_daemon) = (([], [9]), Inr [123])"
    by (simp add: reply_daemon_def push_diagnostics_def max_prover_diagnostics_bytes_def strip_line_def open_brace_def Let_def)
  have "validate_proof_response demo_crates (demo_config 1) (Inr [1, 2, 3]) regtest_block_vk_hash (reply_to request) = Inr ()"
    by (simp add: validate_proof_response_def reply_to_def demo_config_def network_str_def ok_or_def decode_prover_demo)
  then have "check_response demo_crates (reply_json (reply_to request)) (demo_config 1) (Inr [1, 2, 3]) regtest_block_vk_hash
      (rq_request_id request) [123] = Inr ([7], [8])"
    by (simp add: check_response_def reply_json_def proof_of_response_def)
      (simp add: reply_to_def decode_required_response_bytes_def demo_hex)
  with read show ?thesis
    by (simp add: prover_prove_def assms reply_daemon_def reply_output_def)
qed

lemma daemon_proof_delivered_witness:
  "\<exists>p (D :: (bytes, u64, prover_response) deps) bs result. prepare_height D demo_node (demo_config 1) demo_start 1 = Inr p
     \<and> local_output_result (d_crates D) (d_serde D) (pt_proof_job p) reply_output = Inr result
     \<and> into_prover_output (d_crates D) (d_serde D) result (pt_proof_job p) = Inr (reply_output\<lparr>po_stdout := bs\<rparr>)"
proof -
  obtain p where p: "prepare_height (demo_deps demo_witness_decode) demo_node (demo_config 1) demo_start 1 = Inr p"
    using demo_first_block[of 1] by auto
  define r where "r = reply_to (job_request (pt_proof_job p))"
  define J where "J = demo_serde\<lparr>json_from_slice := \<lambda>_. Some r\<rparr>"
  define D where "D = demo_deps demo_witness_decode\<lparr>d_serde := J\<rparr>"
  have D: "d_crates D = demo_crates" "d_serde D = J" by (simp_all add: D_def)
  have p': "prepare_height D demo_node (demo_config 1) demo_start 1 = Inr p"
    unfolding p[symmetric] D_def by (rule prepare_height_serde) (simp add: J_def)
  have json: "prover_json_law J (reply_json r)"
    by (simp add: prover_json_law_def reply_json_def demo_serde_def J_def)
  have elf: "elf_file demo_node = Inr [1, 2, 3]" by (simp add: demo_node_def)
  have req: "request_to_vec J = request_to_vec demo_serde" by (simp add: J_def)
  obtain d' where run: "prover_prove demo_crates J (reply_json r) (demo_config 1) (elf_file demo_node) reply_daemon
      (job_request (pt_proof_job p)) = (d', Inr reply_output)"
    unfolding elf r_def using reply_proves[of J "job_request (pt_proof_job p)"] by (auto simp: demo_serde_def req)
  have vk: "cfg_expected_vk_hash (demo_config 1) = regtest_block_vk_hash" "length regtest_block_vk_hash = 32"
    by (simp_all add: demo_config_def regtest_block_vk_hash_def)
  have key: "pr_vkey_hash r = Some (hex_encode demo_crates regtest_block_vk_hash)"
    by (simp add: r_def reply_to_def demo_hex)
  from daemon_proof_delivered[of D "reply_json r" demo_node "demo_config 1" demo_start 1 p reply_daemon d' reply_output,
      unfolded D vk, OF demo_hex_laws json p' _ run] vk(2)
  obtain r' bs result where "response_from_slice (reply_json r) (po_stdout reply_output) = Some r'"
    "local_output_result demo_crates J (pt_proof_job p) reply_output = Inr result"
    "if pr_vkey_hash r' = Some (hex_encode demo_crates regtest_block_vk_hash)
     then into_prover_output demo_crates J result (pt_proof_job p) = Inr (reply_output\<lparr>po_stdout := bs\<rparr>)
     else \<exists>e. into_prover_output demo_crates J result (pt_proof_job p) = Inl e"
    by blast
  moreover from this(1) have "r' = r" by (simp add: reply_json_def)
  ultimately have "local_output_result demo_crates J (pt_proof_job p) reply_output = Inr result"
    "into_prover_output demo_crates J result (pt_proof_job p) = Inr (reply_output\<lparr>po_stdout := bs\<rparr>)"
    using key by simp_all
  with p' have "prepare_height D demo_node (demo_config 1) demo_start 1 = Inr p
      \<and> local_output_result (d_crates D) (d_serde D) (pt_proof_job p) reply_output = Inr result
      \<and> into_prover_output (d_crates D) (d_serde D) result (pt_proof_job p) = Inr (reply_output\<lparr>po_stdout := bs\<rparr>)"
    by (simp add: D)
  then show ?thesis by blast
qed


text \<open>
  Claim C22. The worker answers every request it is sent, in order. Whatever the daemon writes, and
  however often it has to be restarted, an answer to a request names its job, and a successful one
  holds a response that the daemon gave to this very request id. Once the daemon cannot be
  restarted, or the retry after a restart fails, every later request is refused.
\<close>

theorem worker_answers_own_job:
  "length (serve X J JP config d requests) = length requests
   \<and> (\<forall>i < length requests. \<forall>result. serve X J JP config d requests ! i = Inr result \<longrightarrow>
        identity_matches (fst (requests ! i)) result
        \<and> (\<forall>j stderr. res_outcome result = OutSuccess j stderr \<longrightarrow>
            (\<exists>line r. json_from_slice J line = Some j \<and> response_from_slice JP line = Some r \<and> pr_ok r
              \<and> pr_request_id r = Some (rq_request_id (job_request (fst (requests ! i)))))))
   \<and> (\<forall>result \<in> set (serve X J JP config None requests). \<exists>e. result = Inl e)"
  using serve_answers[of X J JP config d requests] stopped_stays[of X J JP config requests]
  unfolding answers_def by blast

lemma worker_answers_own_job_witness:
  "\<exists>(job :: proof_job) J JP env result j stderr. serve demo_crates J JP (demo_config 1) (Some reply_daemon) [(job, env)] = [Inr result]
     \<and> identity_matches job result \<and> res_outcome result = OutSuccess (j :: prover_response) stderr
     \<and> (\<exists>line r. json_from_slice J line = Some j \<and> response_from_slice JP line = Some r \<and> pr_ok r
          \<and> pr_request_id r = Some (rq_request_id (job_request job)))"
proof -
  obtain job where "demo_new 1 = Inr job" by (rule demo_job[of 1])
  let ?r = "reply_to (job_request job)"
  let ?J = "demo_serde\<lparr>json_from_slice := \<lambda>_. Some ?r\<rparr>"
  let ?env = "\<lparr>je_prepare = Inr (), je_spawn = Inl (Err ''gone''), je_elf = Inr [1, 2, 3]\<rparr>"
  let ?result = "result_success demo_crates job ?r (po_stderr reply_output)"
  obtain d' where prove: "prover_prove demo_crates ?J (reply_json ?r) (demo_config 1) (Inr [1, 2, 3]) reply_daemon
      (job_request job) = (d', Inr reply_output)"
    using reply_proves[of ?J "job_request job"] by (auto simp: demo_serde_def)
  have run: "serve demo_crates ?J (reply_json ?r) (demo_config 1) (Some reply_daemon) [(job, ?env)] = [Inr ?result]"
    by (simp add: run_local_job_def prover_ops_def prove local_output_result_def ok_or_def)
  have out: "res_outcome ?result = OutSuccess ?r (demo_encode (po_stderr reply_output))"
    by (simp add: result_success_def result_from_job_def demo_hex)
  from worker_answers_own_job[of demo_crates ?J "reply_json ?r" "demo_config 1" "Some reply_daemon" "[(job, ?env)]", unfolded run] out
  have "identity_matches job ?result
    \<and> (\<exists>line r. json_from_slice ?J line = Some ?r \<and> response_from_slice (reply_json ?r) line = Some r \<and> pr_ok r
        \<and> pr_request_id r = Some (rq_request_id (job_request job)))"
    by simp
  with run out show ?thesis by blast
qed

end
