(* ===== verification/Job_Id.thy ===== *)
theory Job_Id
  imports Kvq_Codec
begin

text \<open>
  \<open>job/id.rs\<close> and \<open>job/mode.rs\<close>: the identifiers of proving jobs, their 24-byte form, the aggregation
  tree they form, and the filter of a worker's mode; and the queue metadata of \<open>drain_queue.rs\<close> and
  \<open>history_queue.rs\<close>, which is stored in the same way. An enum's discriminants are a function to
  \<open>u8\<close>, its \<open>try_from\<close> a table.
\<close>

section \<open>Tags\<close>

datatype job_topic = GenerateStandardProof | GenerateGroth16Proof | BlockUserSignatureProof | NotifyOrchestratorComplete | AggregateJobs

primrec topic_u8 :: "job_topic \<Rightarrow> u8" where
  "topic_u8 GenerateStandardProof = 0"
| "topic_u8 GenerateGroth16Proof = 1"
| "topic_u8 BlockUserSignatureProof = 2"
| "topic_u8 NotifyOrchestratorComplete = 3"
| "topic_u8 AggregateJobs = 4"

definition topic_of_u8 :: "u8 \<Rightarrow> job_topic res" where
  "topic_of_u8 value =
     ok_or (map_of
       [(0, GenerateStandardProof), (1, GenerateGroth16Proof), (2, BlockUserSignatureProof),
        (3, NotifyOrchestratorComplete), (4, AggregateJobs)] value) (Err ''invalid value'')"

datatype job_data_type = InputWitness | BaseInputProof | OutputProof | Counter

primrec data_type_u8 :: "job_data_type \<Rightarrow> u8" where
  "data_type_u8 InputWitness = 0"
| "data_type_u8 BaseInputProof = 1"
| "data_type_u8 OutputProof = 8"
| "data_type_u8 Counter = 16"

definition data_type_of_u8 :: "u8 \<Rightarrow> job_data_type res" where
  "data_type_of_u8 value =
     ok_or (map_of
       [(0, InputWitness), (1, BaseInputProof), (8, OutputProof),
        (16, Counter)] value) (Err ''invalid value'')"

datatype circuit_type =
    AppendUserRegistrationTree | AppendUserRegistrationTreeAggregate | AddL1Deposit | AddL1DepositAggregate
  | ClaimL1Deposit | ClaimL1DepositAggregate | UserEndCap | GUTATwoEndCap | GUTATwoGUTA
  | GUTALeftEndCapRightGUTA | GUTALeftGUTARightEndCap | GUTASingleEndCap | GUTARegisterUsers
  | GUTAVerifyToCap | GUTAOnlyRegisterUsers | GUTANoChange | AddL1Withdrawal | AddL1WithdrawalAggregate
  | BatchDeployContracts | BatchDeployContractsAggregate | ProcessL1Withdrawal
  | ProcessL1WithdrawalAggregate | GenerateRollupStateTransitionProof | GenerateSigHashIntrospectionProof
  | GenerateFinalSigHashProof | GenerateFinalSigHashProofGroth16 | WrapFinalSigHashProofBLS12381
  | AggUserRegisterDeployContractsGUTA | AggAddProcessL1WithdrawalAddL1Deposit
  | DummyAppendUserRegistrationTreeAggregate | DummyAddL1DepositAggregate | DummyClaimL1DepositAggregate
  | DummyGUTA | DummyAddL1WithdrawalAggregate | DummyProcessL1WithdrawalAggregate
  | DummyBatchDeployContractsAggregate | WrappedSignatureProof | Secp256K1SignatureProof
  | NotifyRealmComplete | TypeA | TypeB | TypeC | TypeD | TypeE | Unknown 

primrec circuit_u8 :: "circuit_type \<Rightarrow> u8" where
  "circuit_u8 AppendUserRegistrationTree = 0"
| "circuit_u8 AppendUserRegistrationTreeAggregate = 1"
| "circuit_u8 AddL1Deposit = 2"
| "circuit_u8 AddL1DepositAggregate = 3"
| "circuit_u8 ClaimL1Deposit = 4"
| "circuit_u8 ClaimL1DepositAggregate = 5"
| "circuit_u8 UserEndCap = 6"
| "circuit_u8 GUTATwoEndCap = 7"
| "circuit_u8 GUTATwoGUTA = 8"
| "circuit_u8 GUTALeftEndCapRightGUTA = 9"
| "circuit_u8 GUTALeftGUTARightEndCap = 10"
| "circuit_u8 GUTASingleEndCap = 11"
| "circuit_u8 GUTARegisterUsers = 12"
| "circuit_u8 GUTAVerifyToCap = 13"
| "circuit_u8 GUTAOnlyRegisterUsers = 14"
| "circuit_u8 GUTANoChange = 15"
| "circuit_u8 AddL1Withdrawal = 16"
| "circuit_u8 AddL1WithdrawalAggregate = 17"
| "circuit_u8 BatchDeployContracts = 18"
| "circuit_u8 BatchDeployContractsAggregate = 19"
| "circuit_u8 ProcessL1Withdrawal = 20"
| "circuit_u8 ProcessL1WithdrawalAggregate = 21"
| "circuit_u8 GenerateRollupStateTransitionProof = 32"
| "circuit_u8 GenerateSigHashIntrospectionProof = 33"
| "circuit_u8 GenerateFinalSigHashProof = 34"
| "circuit_u8 GenerateFinalSigHashProofGroth16 = 35"
| "circuit_u8 WrapFinalSigHashProofBLS12381 = 36"
| "circuit_u8 AggUserRegisterDeployContractsGUTA = 40"
| "circuit_u8 AggAddProcessL1WithdrawalAddL1Deposit = 41"
| "circuit_u8 DummyAppendUserRegistrationTreeAggregate = 48"
| "circuit_u8 DummyAddL1DepositAggregate = 49"
| "circuit_u8 DummyClaimL1DepositAggregate = 50"
| "circuit_u8 DummyGUTA = 51"
| "circuit_u8 DummyAddL1WithdrawalAggregate = 52"
| "circuit_u8 DummyProcessL1WithdrawalAggregate = 53"
| "circuit_u8 DummyBatchDeployContractsAggregate = 54"
| "circuit_u8 WrappedSignatureProof = 64"
| "circuit_u8 Secp256K1SignatureProof = 65"
| "circuit_u8 NotifyRealmComplete = 192"
| "circuit_u8 TypeA = 224"
| "circuit_u8 TypeB = 225"
| "circuit_u8 TypeC = 226"
| "circuit_u8 TypeD = 227"
| "circuit_u8 TypeE = 228"
| "circuit_u8 Unknown = 255"

definition circuit_of_u8 :: "u8 \<Rightarrow> circuit_type res" where
  "circuit_of_u8 value =
     ok_or (map_of
       [(0, AppendUserRegistrationTree), (1, AppendUserRegistrationTreeAggregate), (2, AddL1Deposit),
        (3, AddL1DepositAggregate), (4, ClaimL1Deposit), (5, ClaimL1DepositAggregate), (6, UserEndCap),
        (7, GUTATwoEndCap), (8, GUTATwoGUTA), (9, GUTALeftEndCapRightGUTA), (10, GUTALeftGUTARightEndCap),
        (11, GUTASingleEndCap), (12, GUTARegisterUsers), (13, GUTAVerifyToCap),
        (14, GUTAOnlyRegisterUsers), (15, GUTANoChange), (16, AddL1Withdrawal),
        (17, AddL1WithdrawalAggregate), (18, BatchDeployContracts), (19, BatchDeployContractsAggregate),
        (20, ProcessL1Withdrawal), (21, ProcessL1WithdrawalAggregate),
        (32, GenerateRollupStateTransitionProof), (33, GenerateSigHashIntrospectionProof),
        (34, GenerateFinalSigHashProof), (35, GenerateFinalSigHashProofGroth16),
        (36, WrapFinalSigHashProofBLS12381), (40, AggUserRegisterDeployContractsGUTA),
        (41, AggAddProcessL1WithdrawalAddL1Deposit), (48, DummyAppendUserRegistrationTreeAggregate),
        (49, DummyAddL1DepositAggregate), (50, DummyClaimL1DepositAggregate), (51, DummyGUTA),
        (52, DummyAddL1WithdrawalAggregate), (53, DummyProcessL1WithdrawalAggregate),
        (54, DummyBatchDeployContractsAggregate), (64, WrappedSignatureProof),
        (65, Secp256K1SignatureProof), (192, NotifyRealmComplete), (224, TypeA), (225, TypeB),
        (226, TypeC), (227, TypeD), (228, TypeE), (255, Unknown)] value) (Err ''invalid value'')"

definition to_circuit_group_id :: "circuit_type \<Rightarrow> u32" where
  "to_circuit_group_id c = ucast (circuit_u8 c) + 0xCF00"

definition get_agg_leaf_circuit_type_or_err :: "circuit_type \<Rightarrow> circuit_type res" where
  "get_agg_leaf_circuit_type_or_err c =
     (case c of
        AppendUserRegistrationTree \<Rightarrow> Inr AppendUserRegistrationTree
      | AppendUserRegistrationTreeAggregate \<Rightarrow> Inr AppendUserRegistrationTree
      | AddL1Deposit \<Rightarrow> Inr AddL1Deposit
      | AddL1DepositAggregate \<Rightarrow> Inr AddL1Deposit
      | ClaimL1Deposit \<Rightarrow> Inr ClaimL1Deposit
      | ClaimL1DepositAggregate \<Rightarrow> Inr ClaimL1Deposit
      | AddL1Withdrawal \<Rightarrow> Inr AddL1Withdrawal
      | AddL1WithdrawalAggregate \<Rightarrow> Inr AddL1Withdrawal
      | BatchDeployContracts \<Rightarrow> Inr BatchDeployContracts
      | BatchDeployContractsAggregate \<Rightarrow> Inr BatchDeployContracts
      | ProcessL1Withdrawal \<Rightarrow> Inr ProcessL1Withdrawal
      | ProcessL1WithdrawalAggregate \<Rightarrow> Inr ProcessL1Withdrawal
      | _ \<Rightarrow> Inl (Err ''circuit type does not have this type''))"

definition get_agg_circuit_type_or_err :: "circuit_type \<Rightarrow> circuit_type res" where
  "get_agg_circuit_type_or_err c =
     (case c of
        AppendUserRegistrationTree \<Rightarrow> Inr AppendUserRegistrationTreeAggregate
      | AppendUserRegistrationTreeAggregate \<Rightarrow> Inr AppendUserRegistrationTreeAggregate
      | AddL1Deposit \<Rightarrow> Inr AddL1DepositAggregate
      | AddL1DepositAggregate \<Rightarrow> Inr AddL1DepositAggregate
      | ClaimL1Deposit \<Rightarrow> Inr ClaimL1DepositAggregate
      | ClaimL1DepositAggregate \<Rightarrow> Inr ClaimL1DepositAggregate
      | AddL1Withdrawal \<Rightarrow> Inr AddL1WithdrawalAggregate
      | AddL1WithdrawalAggregate \<Rightarrow> Inr AddL1WithdrawalAggregate
      | BatchDeployContracts \<Rightarrow> Inr BatchDeployContractsAggregate
      | BatchDeployContractsAggregate \<Rightarrow> Inr BatchDeployContractsAggregate
      | ProcessL1Withdrawal \<Rightarrow> Inr ProcessL1WithdrawalAggregate
      | ProcessL1WithdrawalAggregate \<Rightarrow> Inr ProcessL1WithdrawalAggregate
      | _ \<Rightarrow> Inl (Err ''circuit type does not have this type''))"

definition get_agg_dummy_circuit_type_or_err :: "circuit_type \<Rightarrow> circuit_type res" where
  "get_agg_dummy_circuit_type_or_err c =
     (case c of
        AppendUserRegistrationTree \<Rightarrow> Inr DummyAppendUserRegistrationTreeAggregate
      | AppendUserRegistrationTreeAggregate \<Rightarrow> Inr DummyAppendUserRegistrationTreeAggregate
      | DummyAppendUserRegistrationTreeAggregate \<Rightarrow> Inr DummyAppendUserRegistrationTreeAggregate
      | AddL1Deposit \<Rightarrow> Inr DummyAddL1DepositAggregate
      | AddL1DepositAggregate \<Rightarrow> Inr DummyAddL1DepositAggregate
      | DummyAddL1DepositAggregate \<Rightarrow> Inr DummyAddL1DepositAggregate
      | ClaimL1Deposit \<Rightarrow> Inr DummyClaimL1DepositAggregate
      | ClaimL1DepositAggregate \<Rightarrow> Inr DummyClaimL1DepositAggregate
      | DummyClaimL1DepositAggregate \<Rightarrow> Inr DummyClaimL1DepositAggregate
      | AddL1Withdrawal \<Rightarrow> Inr DummyAddL1WithdrawalAggregate
      | AddL1WithdrawalAggregate \<Rightarrow> Inr DummyAddL1WithdrawalAggregate
      | DummyAddL1WithdrawalAggregate \<Rightarrow> Inr DummyAddL1WithdrawalAggregate
      | BatchDeployContracts \<Rightarrow> Inr DummyBatchDeployContractsAggregate
      | BatchDeployContractsAggregate \<Rightarrow> Inr DummyBatchDeployContractsAggregate
      | DummyBatchDeployContractsAggregate \<Rightarrow> Inr DummyBatchDeployContractsAggregate
      | ProcessL1Withdrawal \<Rightarrow> Inr DummyProcessL1WithdrawalAggregate
      | ProcessL1WithdrawalAggregate \<Rightarrow> Inr DummyProcessL1WithdrawalAggregate
      | DummyProcessL1WithdrawalAggregate \<Rightarrow> Inr DummyProcessL1WithdrawalAggregate
      | _ \<Rightarrow> Inl (Err ''circuit type does not have this type''))"

definition parent_circuit_type :: "circuit_type \<Rightarrow> circuit_type" where
  "parent_circuit_type c =
     (case c of
        AppendUserRegistrationTree \<Rightarrow> AppendUserRegistrationTreeAggregate
      | AppendUserRegistrationTreeAggregate \<Rightarrow> AppendUserRegistrationTreeAggregate
      | BatchDeployContracts \<Rightarrow> BatchDeployContractsAggregate
      | BatchDeployContractsAggregate \<Rightarrow> BatchDeployContractsAggregate
      | AddL1Deposit \<Rightarrow> AddL1DepositAggregate
      | AddL1DepositAggregate \<Rightarrow> AddL1DepositAggregate
      | ClaimL1Deposit \<Rightarrow> ClaimL1DepositAggregate
      | ClaimL1DepositAggregate \<Rightarrow> ClaimL1DepositAggregate
      | AddL1Withdrawal \<Rightarrow> AddL1WithdrawalAggregate
      | AddL1WithdrawalAggregate \<Rightarrow> AddL1WithdrawalAggregate
      | ProcessL1Withdrawal \<Rightarrow> ProcessL1WithdrawalAggregate
      | ProcessL1WithdrawalAggregate \<Rightarrow> ProcessL1WithdrawalAggregate
      | DummyAppendUserRegistrationTreeAggregate \<Rightarrow> AppendUserRegistrationTreeAggregate
      | DummyAddL1DepositAggregate \<Rightarrow> AddL1DepositAggregate
      | DummyClaimL1DepositAggregate \<Rightarrow> ClaimL1DepositAggregate
      | DummyAddL1WithdrawalAggregate \<Rightarrow> AddL1WithdrawalAggregate
      | DummyProcessL1WithdrawalAggregate \<Rightarrow> ProcessL1WithdrawalAggregate
      | _ \<Rightarrow> c)"

section \<open>Job identifiers\<close>

record job_data_id =
  jd_topic :: job_topic
  jd_goal_id :: u64
  jd_circuit_type :: circuit_type
  jd_group_id :: u32
  jd_sub_group_id :: u32
  jd_task_index :: u32
  jd_data_type :: job_data_type
  jd_data_index :: u8

definition to_fixed_bytes :: "job_data_id \<Rightarrow> bytes" where
  "to_fixed_bytes v =
     [topic_u8 (jd_topic v)] @ to_le_bytes 8 (jd_goal_id v) @ [circuit_u8 (jd_circuit_type v)]
     @ to_le_bytes 4 (jd_group_id v) @ to_le_bytes 4 (jd_sub_group_id v) @ to_le_bytes 4 (jd_task_index v)
     @ [data_type_u8 (jd_data_type v), jd_data_index v]"

definition try_from_byte_vec :: "bytes \<Rightarrow> job_data_id res" where
  "try_from_byte_vec value =
     (if length value \<noteq> 24 then Inl (Err ''invalid byte length for proving job data id'') else
      and_then (topic_of_u8 (value ! 0)) (\<lambda>topic.
      let goal_id = from_le_bytes (take 8 (drop 1 value)) in
      and_then (circuit_of_u8 (value ! 9)) (\<lambda>circuit.
      let group_id = from_le_bytes (take 4 (drop 10 value));
          sub_group_id = from_le_bytes (take 4 (drop 14 value));
          task_index = from_le_bytes (take 4 (drop 18 value))
      in
      and_then (data_type_of_u8 (value ! 22)) (\<lambda>data_type.
      Inr \<lparr>jd_topic = topic, jd_goal_id = goal_id, jd_circuit_type = circuit, jd_group_id = group_id,
           jd_sub_group_id = sub_group_id, jd_task_index = task_index, jd_data_type = data_type,
           jd_data_index = value ! 23\<rparr>))))"

definition job_id_codec :: "job_data_id codec" where
  "job_id_codec = \<lparr>to_bytes = (\<lambda>v. Inr (to_fixed_bytes v)), from_bytes = try_from_byte_vec\<rparr>"

definition with_ps_prefix :: "job_data_id \<Rightarrow> bytes \<Rightarrow> bytes res" where
  "with_ps_prefix v prefix =
     and_then (copy_slice (replicate 28 0) 0 3 prefix) (\<lambda>r.
     and_then (set_at r 4 (topic_u8 (jd_topic v))) (\<lambda>r.
     and_then (copy_slice r 5 13 (to_le_bytes 8 (jd_goal_id v))) (\<lambda>r.
     and_then (set_at r 13 (circuit_u8 (jd_circuit_type v))) (\<lambda>r.
     and_then (copy_slice r 14 18 (to_le_bytes 4 (jd_group_id v))) (\<lambda>r.
     and_then (copy_slice r 18 22 (to_le_bytes 4 (jd_sub_group_id v))) (\<lambda>r.
     and_then (copy_slice r 22 26 (to_le_bytes 4 (jd_task_index v))) (\<lambda>r.
     and_then (set_at r 26 (data_type_u8 (jd_data_type v))) (\<lambda>r.
     set_at r 27 (jd_data_index v)))))))))"

subsection \<open>Constructors\<close>

definition job_id_new ::
  "job_topic \<Rightarrow> u64 \<Rightarrow> u32 \<Rightarrow> u32 \<Rightarrow> u32 \<Rightarrow> circuit_type \<Rightarrow> job_data_type \<Rightarrow> u8 \<Rightarrow> job_data_id" where
  "job_id_new topic goal_id group_id sub_group_id task_index circuit data_type data_index =
     \<lparr>jd_topic = topic, jd_goal_id = goal_id, jd_circuit_type = circuit, jd_group_id = group_id,
      jd_sub_group_id = sub_group_id, jd_task_index = task_index, jd_data_type = data_type,
      jd_data_index = data_index\<rparr>"

definition new_notify_realm_complete_witness :: "u64 \<Rightarrow> u32 \<Rightarrow> job_data_id" where
  "new_notify_realm_complete_witness checkpoint_id realm_id =
     job_id_new GenerateStandardProof checkpoint_id (to_circuit_group_id NotifyRealmComplete) realm_id 0
       NotifyRealmComplete InputWitness 0"

definition guta_two_end_cap_witness :: "u64 \<Rightarrow> u32 \<Rightarrow> u32 \<Rightarrow> job_data_id" where
  "guta_two_end_cap_witness checkpoint_id sub_group_id task_index =
     job_id_new GenerateStandardProof checkpoint_id (to_circuit_group_id GUTATwoEndCap) sub_group_id task_index
       GUTATwoEndCap InputWitness 0"

definition guta_two_agg_witness :: "u64 \<Rightarrow> u32 \<Rightarrow> u32 \<Rightarrow> job_data_id" where
  "guta_two_agg_witness checkpoint_id sub_group_id task_index =
     job_id_new GenerateStandardProof checkpoint_id (to_circuit_group_id GUTATwoGUTA) sub_group_id task_index
       GUTATwoGUTA InputWitness 0"

definition guta_left_end_cap_right_guta_witness :: "u64 \<Rightarrow> u32 \<Rightarrow> u32 \<Rightarrow> job_data_id" where
  "guta_left_end_cap_right_guta_witness checkpoint_id sub_group_id task_index =
     job_id_new GenerateStandardProof checkpoint_id (to_circuit_group_id GUTALeftEndCapRightGUTA) sub_group_id
       task_index GUTALeftEndCapRightGUTA InputWitness 0"

definition guta_left_guta_right_end_cap_witness :: "u64 \<Rightarrow> u32 \<Rightarrow> u32 \<Rightarrow> job_data_id" where
  "guta_left_guta_right_end_cap_witness checkpoint_id sub_group_id task_index =
     job_id_new GenerateStandardProof checkpoint_id (to_circuit_group_id GUTALeftGUTARightEndCap) sub_group_id
       task_index GUTALeftGUTARightEndCap InputWitness 0"

definition guta_single_end_cap_witness :: "u64 \<Rightarrow> u32 \<Rightarrow> u32 \<Rightarrow> job_data_id" where
  "guta_single_end_cap_witness checkpoint_id sub_group_id task_index =
     job_id_new GenerateStandardProof checkpoint_id (to_circuit_group_id GUTASingleEndCap) sub_group_id
       task_index GUTASingleEndCap InputWitness 0"

definition core_op_witness :: "circuit_type \<Rightarrow> u64 \<Rightarrow> u32 \<Rightarrow> job_data_id" where
  "core_op_witness circuit checkpoint_id task_index =
     job_id_new GenerateStandardProof checkpoint_id (to_circuit_group_id circuit) 0 task_index circuit InputWitness 0"

definition transfer_signature_proof :: "u32 \<Rightarrow> u64 \<Rightarrow> u32 \<Rightarrow> job_data_id" where
  "transfer_signature_proof rpc_node_id block_id transfer_id =
     job_id_new BlockUserSignatureProof block_id 1 rpc_node_id transfer_id WrappedSignatureProof BaseInputProof 0"

definition end_cap_proof :: "u32 \<Rightarrow> u64 \<Rightarrow> u32 \<Rightarrow> job_data_id" where
  "end_cap_proof rpc_node_id checkpoint_id user_id =
     job_id_new BlockUserSignatureProof checkpoint_id 1 rpc_node_id user_id UserEndCap BaseInputProof 0"

definition withdrawal_signature_proof :: "u32 \<Rightarrow> u64 \<Rightarrow> u32 \<Rightarrow> job_data_id" where
  "withdrawal_signature_proof rpc_node_id block_id withdrawal_id =
     job_id_new BlockUserSignatureProof block_id 2 rpc_node_id withdrawal_id WrappedSignatureProof BaseInputProof 0"

definition claim_deposit_l1_signature_proof :: "u32 \<Rightarrow> u64 \<Rightarrow> u32 \<Rightarrow> job_data_id" where
  "claim_deposit_l1_signature_proof rpc_node_id block_id deposit_id =
     job_id_new BlockUserSignatureProof block_id 3 rpc_node_id deposit_id Secp256K1SignatureProof BaseInputProof 0"

definition new_proof_job_id :: "u64 \<Rightarrow> circuit_type \<Rightarrow> u32 \<Rightarrow> u32 \<Rightarrow> u32 \<Rightarrow> job_data_id" where
  "new_proof_job_id goal_id circuit group_id sub_group_id task_index =
     job_id_new GenerateStandardProof goal_id group_id sub_group_id task_index circuit InputWitness 0"

definition new_groth16_proof_job_id :: "u64 \<Rightarrow> circuit_type \<Rightarrow> u32 \<Rightarrow> u32 \<Rightarrow> u32 \<Rightarrow> job_data_id" where
  "new_groth16_proof_job_id goal_id circuit group_id sub_group_id task_index =
     job_id_new GenerateGroth16Proof goal_id group_id sub_group_id task_index circuit InputWitness 0"

definition get_block_aggregate_jobs_group :: "u64 \<Rightarrow> u32 \<Rightarrow> u32 \<Rightarrow> job_data_id" where
  "get_block_aggregate_jobs_group block_id group_id task_index =
     job_id_new AggregateJobs block_id group_id 0 task_index Unknown InputWitness 0"

definition notify_block_complete :: "u64 \<Rightarrow> job_data_id" where
  "notify_block_complete block_id = job_id_new NotifyOrchestratorComplete block_id 0 0 0 Unknown InputWitness 0"

definition block_agg_state_part_1_input_witness :: "u64 \<Rightarrow> job_data_id" where
  "block_agg_state_part_1_input_witness block_id =
     job_id_new GenerateStandardProof block_id (to_circuit_group_id AggUserRegisterDeployContractsGUTA) 0 0
       AggUserRegisterDeployContractsGUTA InputWitness 0"

definition block_agg_state_part_2_input_witness :: "u64 \<Rightarrow> job_data_id" where
  "block_agg_state_part_2_input_witness block_id =
     job_id_new GenerateStandardProof block_id (to_circuit_group_id AggAddProcessL1WithdrawalAddL1Deposit) 0 0
       AggAddProcessL1WithdrawalAddL1Deposit InputWitness 0"

definition block_state_transition_input_witness :: "u64 \<Rightarrow> job_data_id" where
  "block_state_transition_input_witness block_id =
     job_id_new GenerateStandardProof block_id (to_circuit_group_id GenerateRollupStateTransitionProof) 0 0
       GenerateRollupStateTransitionProof InputWitness 0"

text \<open>\<open>input_id as u32\<close> keeps the low 32 bits.\<close>

definition sighash_introspection_input_witness :: "u64 \<Rightarrow> nat \<Rightarrow> job_data_id" where
  "sighash_introspection_input_witness block_id input_id =
     job_id_new GenerateStandardProof block_id (to_circuit_group_id GenerateSigHashIntrospectionProof) 0
       (word_of_nat input_id) GenerateSigHashIntrospectionProof InputWitness 0"

definition sighash_final_input_witness :: "u64 \<Rightarrow> nat \<Rightarrow> job_data_id" where
  "sighash_final_input_witness block_id input_id =
     job_id_new GenerateStandardProof block_id (to_circuit_group_id GenerateFinalSigHashProof)
       (word_of_nat input_id) (word_of_nat input_id) GenerateFinalSigHashProof InputWitness 0"

definition wrap_sighash_final_bls3812_input_witness :: "u64 \<Rightarrow> nat \<Rightarrow> job_data_id" where
  "wrap_sighash_final_bls3812_input_witness block_id input_id =
     job_id_new GenerateStandardProof block_id (to_circuit_group_id WrapFinalSigHashProofBLS12381)
       (word_of_nat input_id) (word_of_nat input_id) WrapFinalSigHashProofBLS12381 InputWitness 0"

subsection \<open>Derived identifiers\<close>

definition get_input_proof_id :: "job_data_id \<Rightarrow> u8 \<Rightarrow> job_data_id" where
  "get_input_proof_id v data_index = v\<lparr>jd_data_type := BaseInputProof, jd_data_index := data_index\<rparr>"

definition is_notify_orchestrator_complete :: "job_data_id \<Rightarrow> bool" where
  "is_notify_orchestrator_complete v = (jd_topic v = NotifyOrchestratorComplete)"

definition get_tree_parent_proof_input_id :: "job_data_id \<Rightarrow> job_data_id" where
  "get_tree_parent_proof_input_id v =
     v\<lparr>jd_data_type := InputWitness, jd_data_index := 0, jd_circuit_type := parent_circuit_type (jd_circuit_type v),
       jd_sub_group_id := jd_sub_group_id v + 1, jd_task_index := drop_bit 1 (jd_task_index v)\<rparr>"

definition get_output_id :: "job_data_id \<Rightarrow> job_data_id" where
  "get_output_id v = v\<lparr>jd_data_type := OutputProof, jd_data_index := 0\<rparr>"

definition get_input_witness_id :: "job_data_id \<Rightarrow> job_data_id" where
  "get_input_witness_id v = v\<lparr>jd_data_type := InputWitness, jd_data_index := 0\<rparr>"

definition get_sub_group_counter_id :: "job_data_id \<Rightarrow> job_data_id" where
  "get_sub_group_counter_id v = v\<lparr>jd_data_type := Counter, jd_task_index := 0, jd_data_index := 0\<rparr>"

definition get_sub_group_counter_goal_id :: "job_data_id \<Rightarrow> job_data_id" where
  "get_sub_group_counter_goal_id v = v\<lparr>jd_data_type := Counter, jd_task_index := 0, jd_data_index := 1\<rparr>"

definition get_sub_group_counter_goal_next_jobs_id :: "job_data_id \<Rightarrow> job_data_id" where
  "get_sub_group_counter_goal_next_jobs_id v = v\<lparr>jd_data_type := Counter, jd_task_index := 0, jd_data_index := 2\<rparr>"

definition with_task_index :: "job_data_id \<Rightarrow> u32 \<Rightarrow> job_data_id" where
  "with_task_index v task_index = v\<lparr>jd_task_index := task_index\<rparr>"

definition to_hex_string :: "crates \<Rightarrow> job_data_id \<Rightarrow> string" where
  "to_hex_string X v = hex_encode X (to_fixed_bytes v)"

definition from_hex_string :: "crates \<Rightarrow> string \<Rightarrow> bytes res" where
  "from_hex_string X s =
     and_then (ok_or (hex_decode X s) (Err ''invalid hex'')) (\<lambda>bs.
     if length bs \<noteq> 24 then Inl (Panic ''assertion failed: bytes.len() == 24'') else Inr bs)"

section \<open>Worker modes\<close>

datatype worker_mode = AllJobs | NoGroth16 | OnlyGroth16

primrec mode_u32 :: "worker_mode \<Rightarrow> u32" where
  "mode_u32 AllJobs = 0"
| "mode_u32 NoGroth16 = 1"
| "mode_u32 OnlyGroth16 = 2"

definition mode_of_u32 :: "u32 \<Rightarrow> worker_mode res" where
  "mode_of_u32 value =
     ok_or (map_of [(0, AllJobs), (1, NoGroth16), (2, OnlyGroth16)] value) (Err ''Invalid QWorkerMode value'')"

primrec mode_string :: "worker_mode \<Rightarrow> string" where
  "mode_string AllJobs = ''all''"
| "mode_string NoGroth16 = ''no-groth16''"
| "mode_string OnlyGroth16 = ''only-groth16''"

primrec is_groth16_enabled :: "worker_mode \<Rightarrow> bool" where
  "is_groth16_enabled AllJobs = True"
| "is_groth16_enabled NoGroth16 = False"
| "is_groth16_enabled OnlyGroth16 = True"

primrec can_process_job :: "worker_mode \<Rightarrow> job_data_id \<Rightarrow> bool" where
  "can_process_job AllJobs v = True"
| "can_process_job NoGroth16 v = (jd_circuit_type v \<noteq> WrapFinalSigHashProofBLS12381)"
| "can_process_job OnlyGroth16 v = (jd_circuit_type v = WrapFinalSigHashProofBLS12381)"

section \<open>Queue metadata\<close>

text \<open>\<open>HistoryQueueMetadata\<close> and its wrapper repeat these definitions word for word.\<close>

record queue_metadata =
  qm_channel_id :: u64
  qm_checkpoint_id :: u64
  qm_item_id :: u64

definition metadata_to_bytes :: "queue_metadata \<Rightarrow> bytes" where
  "metadata_to_bytes m =
     to_be_bytes 8 (qm_channel_id m) @ to_be_bytes 8 (qm_checkpoint_id m) @ to_be_bytes 8 (qm_item_id m)"

definition metadata_from_bytes :: "bytes \<Rightarrow> queue_metadata res" where
  "metadata_from_bytes bs =
     (if length bs \<noteq> 24 then Inl (Err ''expected 24 bytes when deserializing metadata'')
      else Inr \<lparr>qm_channel_id = from_be_bytes (take 8 bs), qm_checkpoint_id = from_be_bytes (take 8 (drop 8 bs)),
                qm_item_id = from_be_bytes (take 8 (drop 16 bs))\<rparr>)"

definition metadata_codec :: "queue_metadata codec" where
  "metadata_codec = \<lparr>to_bytes = (\<lambda>m. Inr (metadata_to_bytes m)), from_bytes = metadata_from_bytes\<rparr>"

definition with_metadata_codec :: "'a codec \<Rightarrow> ('a \<times> queue_metadata) codec" where
  "with_metadata_codec C =
     \<lparr>to_bytes = (\<lambda>(payload, metadata).
        and_then (to_bytes C payload) (\<lambda>bs. Inr (metadata_to_bytes metadata @ bs))),
      from_bytes = (\<lambda>bs.
        if length bs < 24 then Inl (Err ''not enough bytes for deserializing a queue item'')
        else and_then (metadata_from_bytes (take 24 bs)) (\<lambda>metadata.
             and_then (from_bytes C (drop 24 bs)) (\<lambda>payload. Inr (payload, metadata))))\<rparr>"

definition new_params :: "u64 \<Rightarrow> u64 \<Rightarrow> u64 \<Rightarrow> 'a \<Rightarrow> 'a \<times> queue_metadata" where
  "new_params channel_id checkpoint_id item_id payload =
     (payload, \<lparr>qm_channel_id = channel_id, qm_checkpoint_id = checkpoint_id, qm_item_id = item_id\<rparr>)"

definition get_queue_metadata :: "'a \<times> queue_metadata \<Rightarrow> queue_metadata" where
  "get_queue_metadata item = snd item"

section \<open>Round trips\<close>

lemma topic_roundtrip: "topic_of_u8 (topic_u8 t) = Inr t"
  by (cases t) (simp_all add: topic_of_u8_def ok_or_def)

lemma data_type_roundtrip: "data_type_of_u8 (data_type_u8 t) = Inr t"
  by (cases t) (simp_all add: data_type_of_u8_def ok_or_def)

lemma circuit_roundtrip: "circuit_of_u8 (circuit_u8 c) = Inr c"
  by (cases c) (simp_all add: circuit_of_u8_def ok_or_def)

lemma topic_of_u8_ok: "topic_of_u8 v = Inr t \<Longrightarrow> topic_u8 t = v"
  by (auto simp: topic_of_u8_def ok_or_eq_Inr split: if_splits)

lemma data_type_of_u8_ok: "data_type_of_u8 v = Inr t \<Longrightarrow> data_type_u8 t = v"
  by (auto simp: data_type_of_u8_def ok_or_eq_Inr split: if_splits)

lemma circuit_of_u8_ok: "circuit_of_u8 v = Inr c \<Longrightarrow> circuit_u8 c = v"
  unfolding circuit_of_u8_def ok_or_eq_Inr
  by (drule map_of_SomeD) (simp only: set_simps insert_iff empty_iff prod.inject; elim disjE conjE; simp)

lemma length_to_fixed_bytes [simp]: "length (to_fixed_bytes v) = 24"
  by (simp add: to_fixed_bytes_def)

lemma fixed_bytes_fields:
  "to_fixed_bytes v ! 0 = topic_u8 (jd_topic v)" "take 8 (drop 1 (to_fixed_bytes v)) = to_le_bytes 8 (jd_goal_id v)"
  "to_fixed_bytes v ! 9 = circuit_u8 (jd_circuit_type v)" "take 4 (drop 10 (to_fixed_bytes v)) = to_le_bytes 4 (jd_group_id v)"
  "take 4 (drop 14 (to_fixed_bytes v)) = to_le_bytes 4 (jd_sub_group_id v)"
  "take 4 (drop 18 (to_fixed_bytes v)) = to_le_bytes 4 (jd_task_index v)"
  "to_fixed_bytes v ! 22 = data_type_u8 (jd_data_type v)" "to_fixed_bytes v ! 23 = jd_data_index v"
  by (simp_all add: to_fixed_bytes_def nth_append)

lemma job_id_decode: "try_from_byte_vec (to_fixed_bytes v) = Inr v"
  by (simp add: try_from_byte_vec_def fixed_bytes_fields[unfolded One_nat_def] fixed_bytes_fields topic_roundtrip circuit_roundtrip data_type_roundtrip
      codec_simps)

interpretation job_id: kvq_serializable job_id_codec "\<lambda>_. True"
  by unfold_locales (simp_all add: job_id_codec_def job_id_decode)

lemma piece: "take n (drop k xs) @ drop (n + k) xs = drop k xs"
  by (metis append_take_drop_id drop_drop)

lemma piece_nth: "k < length xs \<Longrightarrow> xs ! k # drop (Suc k) xs = drop k xs"
  by (simp add: Cons_nth_drop_Suc)

lemma fixed_bytes_pieces:
  assumes "length bs = 24"
  shows "[bs ! 0] @ take 8 (drop 1 bs) @ [bs ! 9] @ take 4 (drop 10 bs) @ take 4 (drop 14 bs) @ take 4 (drop 18 bs)
    @ [bs ! 22, bs ! 23] = bs"
proof -
  have "[bs ! 22, bs ! 23] = drop 22 bs"
    using piece_nth[of 22 bs] piece_nth[of 23 bs] assms by simp
  then have "take 4 (drop 10 bs) @ take 4 (drop 14 bs) @ take 4 (drop 18 bs) @ [bs ! 22, bs ! 23] = drop 10 bs"
    using piece[of 4 18 bs] piece[of 4 14 bs] piece[of 4 10 bs] by simp
  then have "take 8 (drop 1 bs) @ [bs ! 9] @ take 4 (drop 10 bs) @ take 4 (drop 14 bs) @ take 4 (drop 18 bs)
      @ [bs ! 22, bs ! 23] = drop 1 bs"
    using piece_nth[of 9 bs] piece[of 8 1 bs] assms by simp
  then show ?thesis using piece_nth[of 0 bs] assms by simp
qed

lemma job_id_encode:
  assumes "try_from_byte_vec bs = Inr v"
  shows "to_fixed_bytes v = bs"
proof -
  obtain t c d where l: "length bs = 24" and t: "topic_of_u8 (bs ! 0) = Inr t" and c: "circuit_of_u8 (bs ! 9) = Inr c"
    and d: "data_type_of_u8 (bs ! 22) = Inr d"
    and v: "v = \<lparr>jd_topic = t, jd_goal_id = from_le_bytes (take 8 (drop 1 bs)), jd_circuit_type = c,
      jd_group_id = from_le_bytes (take 4 (drop 10 bs)), jd_sub_group_id = from_le_bytes (take 4 (drop 14 bs)),
      jd_task_index = from_le_bytes (take 4 (drop 18 bs)), jd_data_type = d, jd_data_index = bs ! 23\<rparr>"
    using assms by (auto simp: try_from_byte_vec_def Let_def elim!: and_then_elim split: if_splits)
  have "to_le_bytes 4 (from_le_bytes (take 4 (drop k bs)) :: u32) = take 4 (drop k bs)" if "k \<le> 20" for k
    using that l to_from_le_bytes[of "take 4 (drop k bs)", where 'a = 32] by simp
  moreover have "to_le_bytes 8 (from_le_bytes (take 8 (drop 1 bs)) :: u64) = take 8 (drop 1 bs)"
    using l to_from_le_bytes[of "take 8 (drop 1 bs)", where 'a = 64] by simp
  ultimately show ?thesis
    using fixed_bytes_pieces[OF l]
    by (simp add: v to_fixed_bytes_def topic_of_u8_ok[OF t] circuit_of_u8_ok[OF c] data_type_of_u8_ok[OF d])
qed

lemma metadata_decode: "metadata_from_bytes (metadata_to_bytes m) = Inr m"
  by (simp add: metadata_from_bytes_def metadata_to_bytes_def codec_simps)

interpretation metadata: kvq_serializable metadata_codec "\<lambda>_. True"
  by unfold_locales (simp_all add: metadata_codec_def metadata_decode)

lemma with_metadata_serializable:
  assumes "kvq_serializable C ok"
  shows "kvq_serializable (with_metadata_codec C) (\<lambda>x. ok (fst x))"
proof
  fix x :: "'a \<times> queue_metadata" and bs
  obtain payload m where x: "x = (payload, m)" by (cases x)
  assume "ok (fst x)"
  then obtain ps where ps: "to_bytes C payload = Inr ps" "from_bytes C ps = Inr payload"
    using kvq_serializable.encoded[OF assms] x by auto
  then show "is_ok (to_bytes (with_metadata_codec C) x)" by (simp add: with_metadata_codec_def x)
  assume "to_bytes (with_metadata_codec C) x = Inr bs"
  then have "bs = metadata_to_bytes m @ ps" using ps by (simp add: with_metadata_codec_def x)
  then show "from_bytes (with_metadata_codec C) bs = Inr x"
    using ps metadata_decode[of m] by (simp add: with_metadata_codec_def x) (simp add: metadata_to_bytes_def)
qed

section \<open>The aggregation tree\<close>

lemma parent_type_idem: "parent_circuit_type (parent_circuit_type c) = parent_circuit_type c"
  by (cases c) (simp_all add: parent_circuit_type_def)

lemma parents:
  "(get_tree_parent_proof_input_id ^^ Suc k) v
   = v\<lparr>jd_data_type := InputWitness, jd_data_index := 0, jd_circuit_type := parent_circuit_type (jd_circuit_type v),
       jd_sub_group_id := jd_sub_group_id v + of_nat (Suc k), jd_task_index := drop_bit (Suc k) (jd_task_index v)\<rparr>"
proof (induction k)
  case 0
  then show ?case by (simp add: get_tree_parent_proof_input_id_def)
next
  case (Suc k)
  then show ?case
    by (simp add: get_tree_parent_proof_input_id_def parent_type_idem drop_bit_drop_bit algebra_simps)
qed

lemma agg_type_parent: "get_agg_circuit_type_or_err c = Inr a \<Longrightarrow> parent_circuit_type c = a"
  by (cases c) (simp_all add: get_agg_circuit_type_or_err_def parent_circuit_type_def)

lemma drop_bit_eq_iff: "drop_bit k a = drop_bit k (b :: u32) \<longleftrightarrow> unat a div 2 ^ k = unat b div 2 ^ k"
proof -
  have "unat (drop_bit k w) = unat w div 2 ^ k" for w :: u32
    unfolding unsigned_drop_bit_eq using unsigned_less[of w, where 'a = nat] by (simp add: drop_bit_eq_div take_bit_nat_eq_self)
  then show ?thesis by (simp only: word_unat_eq_iff)
qed

section \<open>Properties\<close>

text \<open>
  Claim C32. A job identifier is encoded in 24 bytes; bytes decode to it exactly when they are
  these, so the encoding is a bijection between the identifiers and the byte strings that decode.
\<close>

theorem job_id_bytes_canonical:
  "length (to_fixed_bytes v) = 24 \<and> (try_from_byte_vec bs = Inr v \<longleftrightarrow> bs = to_fixed_bytes v)"
  using job_id_decode job_id_encode length_to_fixed_bytes by blast

text \<open>
  In the aggregation tree, two jobs of one level have the same ancestor \<open>k\<close>
  levels up exactly when their task indices agree above the low \<open>k\<close> bits. The ancestors of a job that can be aggregated have its aggregate
  circuit type, and keep its topic, goal and group.
\<close>

theorem jobs_share_ancestor_iff:
  assumes "0 < k" and "v' = v\<lparr>jd_task_index := i\<rparr>"
  shows "((get_tree_parent_proof_input_id ^^ k) v = (get_tree_parent_proof_input_id ^^ k) v'
      \<longleftrightarrow> unat (jd_task_index v) div 2 ^ k = unat i div 2 ^ k)
    \<and> (\<forall>a. get_agg_circuit_type_or_err (jd_circuit_type v) = Inr a \<longrightarrow>
        jd_circuit_type ((get_tree_parent_proof_input_id ^^ k) v) = a)
    \<and> jd_sub_group_id ((get_tree_parent_proof_input_id ^^ k) v) = jd_sub_group_id v + of_nat k
    \<and> jd_goal_id ((get_tree_parent_proof_input_id ^^ k) v) = jd_goal_id v
    \<and> jd_group_id ((get_tree_parent_proof_input_id ^^ k) v) = jd_group_id v"
proof -
  obtain n where k: "k = Suc n" using assms(1) by (cases k) auto
  show ?thesis
    unfolding k parents using agg_type_parent
    by (cases v) (auto simp: assms(2) drop_bit_eq_iff simp del: of_nat_Suc power_Suc)
qed

theorem jobs_share_ancestor_iff_witness:
  "(get_tree_parent_proof_input_id ^^ 2) (core_op_witness AddL1Deposit 9 5)
     = (get_tree_parent_proof_input_id ^^ 2) (core_op_witness AddL1Deposit 9 6)
   \<and> jd_circuit_type ((get_tree_parent_proof_input_id ^^ 2) (core_op_witness AddL1Deposit 9 5)) = AddL1DepositAggregate"
proof -
  have "core_op_witness AddL1Deposit 9 6 = (core_op_witness AddL1Deposit 9 5)\<lparr>jd_task_index := 6\<rparr>"
    and "get_agg_circuit_type_or_err (jd_circuit_type (core_op_witness AddL1Deposit 9 5)) = Inr AddL1DepositAggregate"
    and "jd_task_index (core_op_witness AddL1Deposit 9 5) = 5"
    by (simp_all add: core_op_witness_def job_id_new_def get_agg_circuit_type_or_err_def)
  moreover from this(1) have "unat (5 :: u32) div 2 ^ 2 = unat (6 :: u32) div 2 ^ 2" by simp
  ultimately show ?thesis using jobs_share_ancestor_iff[of 2 "core_op_witness AddL1Deposit 9 6" 6 "core_op_witness AddL1Deposit 9 5"]
    by (metis zero_less_numeral)
qed

text \<open>The prefix of three bytes never fits the four bytes it is given.\<close>

lemma with_ps_prefix_panics:
  "length prefix = 4 \<Longrightarrow> with_ps_prefix v prefix = Inl (Panic ''copy_from_slice: length mismatch'')"
  by (simp add: with_ps_prefix_def copy_slice_def)

text \<open>The parent of a dummy aggregate is the aggregate, for all circuits but the deployment of contracts.\<close>

lemma parent_of_dummy:
  assumes "get_agg_dummy_circuit_type_or_err c = Inr d" and "get_agg_circuit_type_or_err c = Inr a"
  shows "parent_circuit_type d = (if a = BatchDeployContractsAggregate then DummyBatchDeployContractsAggregate else a)"
  using assms
  by (cases c) (auto simp: get_agg_dummy_circuit_type_or_err_def get_agg_circuit_type_or_err_def parent_circuit_type_def)

end
