(* ===== verification/Proof_Store.thy ===== *)
theory Proof_Store
  imports Job_Id
begin

text \<open>
  The proof stores of \<open>job/traits.rs\<close> and \<open>job/proof_store.rs\<close>: the default methods that keep, next to
  the proofs, the dependency graph of the jobs. Each group of jobs has a counter, the number of jobs
  to wait for, and the jobs to start when they are done. A store is a record of its two operations on
  bytes; \<open>bincode\<close> is a pair of functions on lists of job identifiers.
\<close>

record 's proof_store =
  get_bytes_by_id :: "'s \<Rightarrow> job_data_id \<Rightarrow> bytes res"
  set_bytes_by_id :: "'s \<Rightarrow> job_data_id \<Rightarrow> bytes \<Rightarrow> 's res"

record bincode =
  jobs_serialize :: "job_data_id list \<Rightarrow> bytes res"
  jobs_deserialize :: "bytes \<Rightarrow> job_data_id list option"

section \<open>Readers\<close>

definition get_goal_by_job_id :: "'s proof_store \<Rightarrow> 's \<Rightarrow> job_data_id \<Rightarrow> u32 res" where
  "get_goal_by_job_id S s v =
     (let counter_id = get_sub_group_counter_id v;
          goal_id = get_sub_group_counter_goal_id counter_id
      in
      and_then (get_bytes_by_id S s goal_id) (\<lambda>goal.
      if length goal \<noteq> 4 then Inl (Panic ''called Result::unwrap() on an Err value'')
      else Inr (from_le_bytes goal)))"

definition get_next_jobs_by_job_id :: "'s proof_store \<Rightarrow> bincode \<Rightarrow> 's \<Rightarrow> job_data_id \<Rightarrow> job_data_id list res" where
  "get_next_jobs_by_job_id S Z s v =
     (let counter_id = get_sub_group_counter_id v;
          next_jobs_id = get_sub_group_counter_goal_next_jobs_id counter_id
      in
      and_then (get_bytes_by_id S s next_jobs_id) (\<lambda>next_jobs.
      ok_or (jobs_deserialize Z next_jobs) (Err ''malformed next jobs'')))"

section \<open>Writers\<close>

definition write_group ::
  "'s proof_store \<Rightarrow> bincode \<Rightarrow> 's \<Rightarrow> job_data_id list \<Rightarrow> job_data_id list \<Rightarrow> 's res" where
  "write_group S Z s jobs next_jobs =
     and_then (index jobs 0) (\<lambda>first.
     let counter_id = get_sub_group_counter_id first;
         goal_id = get_sub_group_counter_goal_id counter_id;
         next_jobs_id = get_sub_group_counter_goal_next_jobs_id counter_id
     in
     and_then (set_bytes_by_id S s counter_id (to_le_bytes 4 (0 :: u32))) (\<lambda>s.
     and_then (set_bytes_by_id S s goal_id (to_le_bytes 4 (word_of_nat (length jobs) :: u32))) (\<lambda>s.
     and_then (jobs_serialize Z next_jobs) (\<lambda>next_bytes.
     set_bytes_by_id S s next_jobs_id next_bytes))))"

definition write_next_jobs_core ::
  "'s proof_store \<Rightarrow> bincode \<Rightarrow> 's \<Rightarrow> job_data_id list \<Rightarrow> job_data_id list \<Rightarrow> 's res" where
  "write_next_jobs_core S Z s jobs next_jobs = write_group S Z s jobs next_jobs"

text \<open>The loop over the levels: each is followed by the next one, the last by \<open>next_jobs\<close>.\<close>

fun write_multidimensional_jobs_core ::
  "'s proof_store \<Rightarrow> bincode \<Rightarrow> 's \<Rightarrow> job_data_id list list \<Rightarrow> job_data_id list \<Rightarrow> 's res" where
  "write_multidimensional_jobs_core S Z s [] next_jobs = Inr s"
| "write_multidimensional_jobs_core S Z s (level # levels) next_jobs =
     and_then (write_group S Z s level (case levels of [] \<Rightarrow> next_jobs | l # _ \<Rightarrow> l)) (\<lambda>s.
     write_multidimensional_jobs_core S Z s levels next_jobs)"

text \<open>The stub store of the crate: it reads empty bytes and cannot be written.\<close>

definition dummy_store :: "unit proof_store" where
  "dummy_store =
     \<lparr>get_bytes_by_id = (\<lambda>_ _. Inr []), set_bytes_by_id = (\<lambda>_ _ _. Inl (Err ''Not implemented''))\<rparr>"

section \<open>Groups\<close>

text \<open>The jobs of a group have the same counter.\<close>

definition group_of :: "job_data_id list \<Rightarrow> job_data_id" where
  "group_of jobs = get_sub_group_counter_id (hd jobs)"

definition is_group :: "job_data_id list \<Rightarrow> bool" where
  "is_group jobs \<longleftrightarrow> jobs \<noteq> [] \<and> (\<forall>v \<in> set jobs. get_sub_group_counter_id v = group_of jobs)"

definition store_laws :: "'s proof_store \<Rightarrow> bool" where
  "store_laws S \<longleftrightarrow> (\<forall>s v bs. \<exists>s'. set_bytes_by_id S s v bs = Inr s'
     \<and> (\<forall>v'. get_bytes_by_id S s' v' = (if v' = v then Inr bs else get_bytes_by_id S s v')))"

definition bincode_laws :: "bincode \<Rightarrow> bool" where
  "bincode_laws Z \<longleftrightarrow> (\<forall>vs. \<exists>bs. jobs_serialize Z vs = Inr bs \<and> jobs_deserialize Z bs = Some vs)"

abbreviation goal_of :: "job_data_id \<Rightarrow> job_data_id" where
  "goal_of c \<equiv> get_sub_group_counter_goal_id c"

abbreviation next_of :: "job_data_id \<Rightarrow> job_data_id" where
  "next_of c \<equiv> get_sub_group_counter_goal_next_jobs_id c"

lemmas id_defs = get_sub_group_counter_id_def get_sub_group_counter_goal_id_def get_sub_group_counter_goal_next_jobs_id_def

lemma counter_id_idem [simp]: "get_sub_group_counter_id (get_sub_group_counter_id v) = get_sub_group_counter_id v"
  by (simp add: id_defs)

lemma entries_differ [simp]:
  "goal_of c \<noteq> next_of d" "next_of d \<noteq> goal_of c" "get_sub_group_counter_id v \<noteq> goal_of c"
  "get_sub_group_counter_id v \<noteq> next_of c" "goal_of c \<noteq> get_sub_group_counter_id v" "next_of c \<noteq> get_sub_group_counter_id v"
  by (auto simp: id_defs dest: arg_cong[where f = jd_data_index])

lemma goal_of_inj [simp]:
  "goal_of (get_sub_group_counter_id v) = goal_of (get_sub_group_counter_id w)
   \<longleftrightarrow> get_sub_group_counter_id v = get_sub_group_counter_id w"
  by (cases v; cases w) (simp add: id_defs)

lemma next_of_inj [simp]:
  "next_of (get_sub_group_counter_id v) = next_of (get_sub_group_counter_id w)
   \<longleftrightarrow> get_sub_group_counter_id v = get_sub_group_counter_id w"
  by (cases v; cases w) (simp add: id_defs)

lemma write_group_ok:
  assumes laws: "store_laws S" "bincode_laws Z" and "jobs \<noteq> []"
  obtains s' bs where "write_group S Z s jobs next_jobs = Inr s'" "jobs_deserialize Z bs = Some next_jobs"
    "\<And>v. get_bytes_by_id S s' v =
      (if v = next_of (group_of jobs) then Inr bs
       else if v = goal_of (group_of jobs) then Inr (to_le_bytes 4 (word_of_nat (length jobs) :: u32))
       else if v = group_of jobs then Inr (to_le_bytes 4 (0 :: u32))
       else get_bytes_by_id S s v)"
proof -
  let ?c = "group_of jobs"
  obtain bs where bs: "jobs_serialize Z next_jobs = Inr bs" "jobs_deserialize Z bs = Some next_jobs"
    using laws(2) unfolding bincode_laws_def by blast
  obtain s1 where s1: "set_bytes_by_id S s ?c (to_le_bytes 4 (0 :: u32)) = Inr s1"
    "\<And>v. get_bytes_by_id S s1 v = (if v = ?c then Inr (to_le_bytes 4 (0 :: u32)) else get_bytes_by_id S s v)"
    using laws(1) unfolding store_laws_def by metis
  obtain s2 where s2: "set_bytes_by_id S s1 (goal_of ?c) (to_le_bytes 4 (word_of_nat (length jobs) :: u32)) = Inr s2"
    "\<And>v. get_bytes_by_id S s2 v = (if v = goal_of ?c then Inr (to_le_bytes 4 (word_of_nat (length jobs) :: u32))
      else get_bytes_by_id S s1 v)"
    using laws(1) unfolding store_laws_def by metis
  obtain s3 where s3: "set_bytes_by_id S s2 (next_of ?c) bs = Inr s3"
    "\<And>v. get_bytes_by_id S s3 v = (if v = next_of ?c then Inr bs else get_bytes_by_id S s2 v)"
    using laws(1) unfolding store_laws_def by metis
  have "jobs ! 0 = hd jobs" using assms(3) by (simp add: hd_conv_nth)
  then have "write_group S Z s jobs next_jobs = Inr s3"
    using assms(3) s1(1) s2(1) s3(1) bs(1) by (simp add: write_group_def index_def group_of_def Let_def)
  from that[OF this bs(2)] s1(2) s2(2) s3(2) show thesis by simp
qed

definition group_written :: "'s proof_store \<Rightarrow> bincode \<Rightarrow> 's \<Rightarrow> job_data_id list \<Rightarrow> job_data_id list \<Rightarrow> bool" where
  "group_written S Z s jobs next_jobs \<longleftrightarrow>
     get_bytes_by_id S s (group_of jobs) = Inr (to_le_bytes 4 (0 :: u32))
     \<and> (\<forall>v \<in> set jobs. get_goal_by_job_id S s v = Inr (word_of_nat (length jobs))
         \<and> get_next_jobs_by_job_id S Z s v = Inr next_jobs)"

lemma group_writtenI:
  assumes "is_group jobs" and "jobs_deserialize Z bs = Some next_jobs"
    and "get_bytes_by_id S s (group_of jobs) = Inr (to_le_bytes 4 (0 :: u32))"
    and "get_bytes_by_id S s (goal_of (group_of jobs)) = Inr (to_le_bytes 4 (word_of_nat (length jobs) :: u32))"
    and "get_bytes_by_id S s (next_of (group_of jobs)) = Inr bs"
  shows "group_written S Z s jobs next_jobs"
  using assms
  by (simp add: group_written_def is_group_def get_goal_by_job_id_def get_next_jobs_by_job_id_def Let_def u32_le_roundtrip ok_or_def)

section \<open>Levels\<close>

text \<open>A level does not touch the entries of another one.\<close>

lemma levels_written:
  assumes laws: "store_laws S" "bincode_laws Z"
  shows "\<forall>level \<in> set levels. is_group level \<Longrightarrow> distinct (map group_of levels) \<Longrightarrow>
    \<exists>s'. write_multidimensional_jobs_core S Z s levels next_jobs = Inr s'
      \<and> (\<forall>i < length levels. group_written S Z s' (levels ! i) ((levels @ [next_jobs]) ! Suc i))
      \<and> (\<forall>v. get_sub_group_counter_id v \<notin> group_of ` set levels \<longrightarrow> get_bytes_by_id S s' v = get_bytes_by_id S s v)"
proof (induction levels arbitrary: s)
  case Nil
  then show ?case by simp
next
  case (Cons level levels)
  let ?next = "case levels of [] \<Rightarrow> next_jobs | l # _ \<Rightarrow> l"
  have level: "is_group level" "level \<noteq> []" using Cons.prems(1) by (auto simp: is_group_def)
  obtain s1 bs where s1: "write_group S Z s level ?next = Inr s1" and bs: "jobs_deserialize Z bs = Some ?next"
    and get: "\<And>v. get_bytes_by_id S s1 v =
      (if v = next_of (group_of level) then Inr bs
       else if v = goal_of (group_of level) then Inr (to_le_bytes 4 (word_of_nat (length level) :: u32))
       else if v = group_of level then Inr (to_le_bytes 4 (0 :: u32))
       else get_bytes_by_id S s v)"
    by (rule write_group_ok[OF laws level(2), where s = s and next_jobs = ?next]) blast
  obtain s' where s': "write_multidimensional_jobs_core S Z s1 levels next_jobs = Inr s'"
    and rest: "\<forall>i < length levels. group_written S Z s' (levels ! i) ((levels @ [next_jobs]) ! Suc i)"
    and frame: "\<forall>v. get_sub_group_counter_id v \<notin> group_of ` set levels \<longrightarrow> get_bytes_by_id S s' v = get_bytes_by_id S s1 v"
    using Cons.IH[of s1] Cons.prems by auto
  have own: "get_sub_group_counter_id v = group_of level"
    if "v \<in> {group_of level, goal_of (group_of level), next_of (group_of level)}" for v
    using that by (auto simp: group_of_def id_defs)
  have "group_of level \<notin> group_of ` set levels" using Cons.prems(2) by auto
  then have same: "get_bytes_by_id S s' v = get_bytes_by_id S s1 v"
    if "v \<in> {group_of level, goal_of (group_of level), next_of (group_of level)}" for v
    using frame own[OF that] by metis
  have "group_written S Z s' level ?next"
    by (rule group_writtenI[OF level(1) bs]) (simp_all add: same get, simp_all add: group_of_def)
  moreover have "((level # levels) @ [next_jobs]) ! Suc 0 = ?next" by (cases levels) simp_all
  ultimately have "\<forall>i < length (level # levels). group_written S Z s' ((level # levels) ! i)
      (((level # levels) @ [next_jobs]) ! Suc i)"
    using rest by (auto simp: less_Suc_eq_0_disj)
  moreover have "get_bytes_by_id S s' v = get_bytes_by_id S s v"
    if "get_sub_group_counter_id v \<notin> group_of ` set (level # levels)" for v
    using frame that own[of v] by (auto simp: get)
  ultimately show ?case using s1 s' by auto
qed

section \<open>A concrete store\<close>

definition map_store :: "(job_data_id \<Rightarrow> bytes option) proof_store" where
  "map_store =
     \<lparr>get_bytes_by_id = (\<lambda>s v. ok_or (s v) (Err ''missing'')), set_bytes_by_id = (\<lambda>s v bs. Inr (s(v \<mapsto> bs)))\<rparr>"

lemma map_store_laws: "store_laws map_store"
  by (simp add: store_laws_def map_store_def ok_or_def)

text \<open>\<open>bincode\<close>'s form of a vector: its length and the items.\<close>

definition demo_bincode :: bincode where
  "demo_bincode =
     \<lparr>jobs_serialize = (\<lambda>vs. Inr (to_le_bytes 8 (word_of_nat (length vs) :: u64) @ concat (map to_fixed_bytes vs))),
      jobs_deserialize = (\<lambda>bs. case try_map try_from_byte_vec (chunks_exact 24 (drop 8 bs)) of
          Inl _ \<Rightarrow> None | Inr vs \<Rightarrow> Some vs)\<rparr>"

lemma demo_bincode_laws: "bincode_laws demo_bincode"
proof -
  have "chunks_exact 24 (concat (map to_fixed_bytes vs)) = map to_fixed_bytes vs" for vs
    by (rule chunks_exact_concat) auto
  moreover have "try_map try_from_byte_vec (map to_fixed_bytes vs) = Inr vs" for vs
    by (induction vs) (simp_all add: job_id_decode)
  ultimately show ?thesis by (simp add: bincode_laws_def demo_bincode_def)
qed

section \<open>Properties\<close>

text \<open>
  Writing the levels of a job graph to a lawful store, each level being one group
  and no two the same, makes every job of a level report the size of its level as the goal and the
  jobs of the next level as those to start then, and those of the last level the jobs given for it.
  The counter of each level is zero, and entries of other groups are left alone. An empty level
  panics.
\<close>

theorem job_levels_readable:
  assumes "store_laws S" and "bincode_laws Z"
    and "\<forall>level \<in> set levels. level \<noteq> [] \<and> (\<forall>v \<in> set level. get_sub_group_counter_id v = get_sub_group_counter_id (hd level))"
    and "distinct (map (\<lambda>level. get_sub_group_counter_id (hd level)) levels)"
  shows "(\<exists>s'. write_multidimensional_jobs_core S Z s levels next_jobs = Inr s'
      \<and> (\<forall>i < length levels. \<forall>v \<in> set (levels ! i).
          get_bytes_by_id S s' (get_sub_group_counter_id v) = Inr [0, 0, 0, 0]
          \<and> get_goal_by_job_id S s' v = Inr (word_of_nat (length (levels ! i)))
          \<and> get_next_jobs_by_job_id S Z s' v = Inr (if Suc i < length levels then levels ! Suc i else next_jobs))
      \<and> (\<forall>v. (\<forall>level \<in> set levels. get_sub_group_counter_id v \<noteq> get_sub_group_counter_id (hd level)) \<longrightarrow>
          get_bytes_by_id S s' v = get_bytes_by_id S s v))
    \<and> write_multidimensional_jobs_core S Z s ([] # levels) next_jobs = Inl (Panic ''index out of bounds'')"
proof -
  have groups: "\<forall>level \<in> set levels. is_group level" using assms(3) unfolding is_group_def group_of_def .
  have "distinct (map group_of levels)" using assms(4) by (simp add: group_of_def[abs_def])
  from levels_written[OF assms(1,2) groups this, of s next_jobs] obtain s' where
    s': "write_multidimensional_jobs_core S Z s levels next_jobs = Inr s'"
    and written: "\<forall>i < length levels. group_written S Z s' (levels ! i) ((levels @ [next_jobs]) ! Suc i)"
    and frame: "\<forall>v. get_sub_group_counter_id v \<notin> group_of ` set levels \<longrightarrow> get_bytes_by_id S s' v = get_bytes_by_id S s v"
    by blast
  have zero: "to_le_bytes 4 (0 :: u32) = [0, 0, 0, 0]" by code_simp
  have next_: "(levels @ [next_jobs]) ! Suc i = (if Suc i < length levels then levels ! Suc i else next_jobs)" if "i < length levels" for i
    using that by (auto simp: nth_append)
  have "get_bytes_by_id S s' (get_sub_group_counter_id v) = Inr [0, 0, 0, 0]
      \<and> get_goal_by_job_id S s' v = Inr (word_of_nat (length (levels ! i)))
      \<and> get_next_jobs_by_job_id S Z s' v = Inr (if Suc i < length levels then levels ! Suc i else next_jobs)"
    if "i < length levels" "v \<in> set (levels ! i)" for i v
  proof -
    have "get_sub_group_counter_id v = group_of (levels ! i)"
      using groups that nth_mem[OF that(1)] unfolding is_group_def by blast
    then show ?thesis using written that next_[OF that(1)] zero by (auto simp: group_written_def)
  qed
  moreover have "write_multidimensional_jobs_core S Z s ([] # levels) next_jobs = Inl (Panic ''index out of bounds'')"
    by (simp add: write_group_def index_def)
  ultimately show ?thesis using s' frame by (auto simp: group_of_def image_iff)
qed

theorem job_levels_readable_witness:
  "\<exists>s'. write_multidimensional_jobs_core map_store demo_bincode (\<lambda>_. None)
       [[core_op_witness AddL1Deposit 7 0, core_op_witness AddL1Deposit 7 1],
        [get_tree_parent_proof_input_id (core_op_witness AddL1Deposit 7 0)]] [notify_block_complete 7] = Inr s'
     \<and> get_goal_by_job_id map_store s' (core_op_witness AddL1Deposit 7 1) = Inr 2
     \<and> get_next_jobs_by_job_id map_store demo_bincode s' (core_op_witness AddL1Deposit 7 1)
         = Inr [get_tree_parent_proof_input_id (core_op_witness AddL1Deposit 7 0)]
     \<and> get_next_jobs_by_job_id map_store demo_bincode s' (get_tree_parent_proof_input_id (core_op_witness AddL1Deposit 7 0))
         = Inr [notify_block_complete 7]"
proof -
  let ?a = "core_op_witness AddL1Deposit 7 0" and ?b = "core_op_witness AddL1Deposit 7 1"
  let ?p = "get_tree_parent_proof_input_id ?a"
  let ?levels = "[[?a, ?b], [?p]]"
  have 1: "\<forall>level \<in> set ?levels. level \<noteq> [] \<and> (\<forall>v \<in> set level. get_sub_group_counter_id v = get_sub_group_counter_id (hd level))"
    by (simp add: core_op_witness_def job_id_new_def get_sub_group_counter_id_def)
  have 2: "distinct (map (\<lambda>level. get_sub_group_counter_id (hd level)) ?levels)"
    by (simp add: core_op_witness_def job_id_new_def get_sub_group_counter_id_def get_tree_parent_proof_input_id_def)
  from job_levels_readable[OF map_store_laws demo_bincode_laws 1 2, of "\<lambda>_. None" "[notify_block_complete 7]"]
  obtain s' where s': "write_multidimensional_jobs_core map_store demo_bincode (\<lambda>_. None) ?levels [notify_block_complete 7] = Inr s'"
    and read: "\<And>i v. i < length ?levels \<Longrightarrow> v \<in> set (?levels ! i) \<Longrightarrow>
      get_goal_by_job_id map_store s' v = Inr (word_of_nat (length (?levels ! i)))
      \<and> get_next_jobs_by_job_id map_store demo_bincode s' v
        = Inr (if Suc i < length ?levels then ?levels ! Suc i else [notify_block_complete 7])"
    by blast
  show ?thesis using s' read[of 0 ?b] read[of 1 ?p] by (intro exI[of _ s']) simp
qed

lemma dummy_store_panics: "\<exists>e. get_goal_by_job_id dummy_store () v = Inl (Panic e)"
  by (simp add: get_goal_by_job_id_def dummy_store_def Let_def)

end
