(* ===== verification/Tree_Planner.thy ===== *)
theory Tree_Planner
  imports Crates "HOL-Library.Multiset"
begin

text \<open>
  \<open>utils/tree_planner.rs\<close> and \<open>utils/math.rs\<close>: positions in a binary tree and the planner that pairs a
  number of leaf jobs level by level until one job is left, an odd one waiting for the next level.
\<close>

section \<open>Positions\<close>

record tree_position =
  tp_level :: u64
  tp_index :: u64

definition tree_position :: "u64 \<Rightarrow> u64 \<Rightarrow> tree_position" where
  "tree_position level ix = \<lparr>tp_level = level, tp_index = ix\<rparr>"

definition is_leaf :: "tree_position \<Rightarrow> bool" where
  "is_leaf p = (tp_level p = 0)"

definition get_left_child :: "tree_position \<Rightarrow> tree_position" where
  "get_left_child p = tree_position (tp_level p - 1) (tp_index p * 2)"

definition get_right_child :: "tree_position \<Rightarrow> tree_position" where
  "get_right_child p = tree_position (tp_level p - 1) (tp_index p * 2 + 1)"

definition get_parent :: "tree_position \<Rightarrow> tree_position" where
  "get_parent p = tree_position (tp_level p + 1) (drop_bit 1 (tp_index p))"

text \<open>A release build shifts by the level modulo 64.\<close>

definition get_span :: "tree_position \<Rightarrow> u64" where
  "get_span p = push_bit (unat (tp_level p) mod 64) 1"

definition is_null :: "tree_position \<Rightarrow> bool" where
  "is_null p = (tp_level p = 0xffff)"

definition new_null :: tree_position where
  "new_null = \<lparr>tp_level = 0xffff, tp_index = 0\<rparr>"

definition ceil_div_usize :: "nat \<Rightarrow> nat \<Rightarrow> nat res" where
  "ceil_div_usize a b = (if b = 0 then Inl (Panic ''attempt to divide by zero'') else Inr ((a + b - 1) div b))"

section \<open>The planner\<close>

record tree_job =
  tj_position :: tree_position
  tj_left :: tree_position
  tj_right :: tree_position

definition gen_leaves_binary_tree_planner :: "nat \<Rightarrow> tree_job list" where
  "gen_leaves_binary_tree_planner n =
     map (\<lambda>i. \<lparr>tj_position = tree_position 0 (word_of_nat i), tj_left = new_null, tj_right = new_null\<rparr>) [0..<n]"

definition next_level :: "u64 \<Rightarrow> tree_job list \<Rightarrow> tree_job list" where
  "next_level level_index current =
     map (\<lambda>i. \<lparr>tj_position = tree_position level_index (word_of_nat i),
               tj_left = tj_position (current ! (i * 2)), tj_right = tj_position (current ! (i * 2 + 1))\<rparr>)
       [0..<length current div 2]"

definition odd_one :: "tree_job list \<Rightarrow> tree_job list" where
  "odd_one current = (if length current mod 2 = 1 then [current ! (length current - 1)] else [])"

lemma length_next_level [simp]: "length (next_level l current) = length current div 2"
  by (simp add: next_level_def)

lemma length_odd_one [simp]: "length (odd_one current) = length current mod 2"
  by (simp add: odd_one_def)

function plan_levels :: "u64 \<Rightarrow> tree_job list \<Rightarrow> tree_job list list" where
  "plan_levels level_index current =
     (if 1 < length current
      then next_level level_index current
           # plan_levels (level_index + 1) (next_level level_index current @ odd_one current)
      else [])"
  by pat_completeness auto
termination
  by (relation "measure (\<lambda>(l, current). length current)") (auto, presburger)

declare plan_levels.simps [simp del]

definition planner :: "nat \<Rightarrow> tree_job list list" where
  "planner num_leaves = plan_levels 1 (gen_leaves_binary_tree_planner num_leaves)"

section \<open>Every job is used once\<close>

abbreviation children :: "tree_job list \<Rightarrow> tree_position list" where
  "children js \<equiv> concat (map (\<lambda>j. [tj_left j, tj_right j]) js)"

abbreviation positions :: "tree_job list \<Rightarrow> tree_position list" where
  "positions js \<equiv> map tj_position js"

lemma pairs: "concat (map (\<lambda>i. [xs ! (i * 2), xs ! (i * 2 + 1)]) [0..<n]) = take (2 * n) xs" if "2 * n \<le> length xs"
  using that
proof (induction n)
  case (Suc n)
  then show ?case by (simp add: take_Suc_conv_app_nth mult.commute)
qed simp

lemma next_level_children: "children (next_level l current) @ positions (odd_one current) = positions current"
proof -
  let ?n = "length current div 2"
  have "children (next_level l current)
      = concat (map (\<lambda>i. [positions current ! (i * 2), positions current ! (i * 2 + 1)]) [0..<?n])"
    by (auto simp: next_level_def comp_def intro!: arg_cong[where f = concat] map_cong)
  also have "\<dots> = take (2 * ?n) (positions current)" by (rule pairs) simp
  finally have "children (next_level l current) = take (2 * ?n) (positions current)" .
  moreover have "positions (odd_one current) = drop (2 * ?n) (positions current)"
  proof (cases "odd (length current)")
    case True
    then have k: "length current = Suc (2 * ?n)" by (metis Suc_eq_plus1 odd_two_times_div_two_succ)
    then have "drop (2 * ?n) current = [current ! (2 * ?n)]"
      using Cons_nth_drop_Suc[of "2 * ?n" current] by simp
    moreover have "odd_one current = [current ! (2 * ?n)]" using True k by (simp add: odd_one_def odd_iff_mod_2_eq_one)
    ultimately show ?thesis by (simp add: drop_map)
  next
    case False
    then have "length current \<le> 2 * ?n" by presburger
    with False show ?thesis by (simp add: odd_one_def odd_iff_mod_2_eq_one)
  qed
  ultimately show ?thesis by simp
qed

lemma next_level_ne: "1 < length current \<Longrightarrow> next_level l current \<noteq> []"
proof -
  assume "1 < length current"
  then have "0 < length (next_level l current)" by simp
  then show ?thesis by (metis length_greater_0_conv)
qed

lemma plan_levels_step:
  "1 < length current \<Longrightarrow>
   plan_levels l current = next_level l current # plan_levels (l + 1) (next_level l current @ odd_one current)"
  by (subst plan_levels.simps) simp

lemma plan_levels_done: "\<not> 1 < length current \<Longrightarrow> plan_levels l current = []"
  by (subst plan_levels.simps) simp

lemma plan_levels_uses:
  "current \<noteq> [] \<Longrightarrow>
   \<exists>root. mset (children (concat (plan_levels l current))) + {#root#}
     = mset (positions current) + mset (positions (concat (plan_levels l current)))
     \<and> root = last (positions (current @ concat (plan_levels l current)))"
proof (induction l current rule: plan_levels.induct)
  case (1 l current)
  show ?case
  proof (cases "1 < length current")
    case False
    then obtain j where "current = [j]" using 1(2) by (cases current) auto
    then show ?thesis by (simp add: plan_levels.simps)
  next
    case True
    let ?next = "next_level l current" and ?odd = "odd_one current"
    note step = plan_levels_step[OF True, of l] and ne = next_level_ne[OF True, of l]
    from 1(1)[OF True] ne obtain root where root:
      "mset (children (concat (plan_levels (l + 1) (?next @ ?odd)))) + {#root#}
        = mset (positions (?next @ ?odd)) + mset (positions (concat (plan_levels (l + 1) (?next @ ?odd))))"
      "root = last (positions ((?next @ ?odd) @ concat (plan_levels (l + 1) (?next @ ?odd))))"
      by auto
    have "mset (positions current) = mset (children ?next) + mset (positions ?odd)"
      by (simp flip: next_level_children[of l current])
    with root(1) have "mset (children (concat (plan_levels l current))) + {#root#}
        = mset (positions current) + mset (positions (concat (plan_levels l current)))"
      by (simp add: step)
    moreover have "root = last (positions (current @ concat (plan_levels l current)))"
    proof (cases "1 < length (?next @ ?odd)")
      case True
      then have "concat (plan_levels (l + 1) (?next @ ?odd)) \<noteq> []"
        using next_level_ne[OF True, of "l + 1"] by (simp add: plan_levels_step[OF True])
      then show ?thesis using root(2) ne by (simp add: step)
    next
      case False
      then have "?odd = []" using ne by (cases ?next) (auto simp: odd_one_def even_iff_mod_2_eq_zero)
      then show ?thesis using root(2) ne plan_levels_done[OF False] by (simp add: step)
    qed
    ultimately show ?thesis by blast
  qed
qed

section \<open>Positions are distinct and children come first\<close>

text \<open>The positions of the jobs that wait: leaves and jobs of levels below \<open>l\<close>.\<close>

definition below :: "u64 \<Rightarrow> tree_job list \<Rightarrow> bool" where
  "below l js \<longleftrightarrow> (\<forall>j \<in> set js. unat (tp_level (tj_position j)) < unat l)"

lemma level_of_next: "j \<in> set (next_level l current) \<Longrightarrow> tp_level (tj_position j) = l"
  by (auto simp: next_level_def tree_position_def)

lemma distinct_next_level:
  assumes "length current \<le> 2 ^ 64"
  shows "distinct (positions (next_level l current))"
proof -
  have "inj_on (\<lambda>i. tree_position l (word_of_nat i)) (set [0..<length current div 2])"
  proof (rule inj_onI)
    fix i j
    assume "i \<in> set [0..<length current div 2]" "j \<in> set [0..<length current div 2]"
      and "tree_position l (word_of_nat i) = tree_position l (word_of_nat j)"
    then have "(word_of_nat i :: u64) = word_of_nat j" "i < 2 ^ 64" "j < 2 ^ 64"
      using assms by (auto simp: tree_position_def)
    then show "i = j" by (simp add: word_of_nat_eq_iff take_bit_nat_eq_self)
  qed
  then show ?thesis by (simp add: next_level_def comp_def distinct_map)
qed

lemma children_of_current: "set (children (next_level l current)) \<subseteq> set (positions current)"
  using arg_cong[OF next_level_children[of l current], of set] by auto

lemma plan_levels_order:
  "below l current \<Longrightarrow> unat l + length current \<le> 2 ^ 64 \<Longrightarrow> current \<noteq> [] \<Longrightarrow>
   distinct (positions (concat (plan_levels l current)))
   \<and> (\<forall>j \<in> set (concat (plan_levels l current)). unat l \<le> unat (tp_level (tj_position j))
       \<and> unat (tp_level (tj_left j)) < unat (tp_level (tj_position j))
       \<and> unat (tp_level (tj_right j)) < unat (tp_level (tj_position j)))"
proof (induction l current rule: plan_levels.induct)
  case (1 l current)
  show ?case
  proof (cases "1 < length current")
    case False
    then show ?thesis by (simp add: plan_levels_done)
  next
    case True
    let ?next = "next_level l current" and ?odd = "odd_one current"
    have l: "unat (l + 1) = unat l + 1" using 1(3) True by (simp add: unat_word_ariths)
    have odd: "set ?odd \<subseteq> set current" using True by (auto simp: odd_one_def)
    have bel: "below (l + 1) (?next @ ?odd)"
      unfolding below_def l using 1(2) odd by (auto simp: below_def less_Suc_eq level_of_next)
    have "length (?next @ ?odd) + 1 \<le> length current" using True by simp presburger
    then have "unat (l + 1) + length (?next @ ?odd) \<le> 2 ^ 64" using 1(3) l by simp
    from 1(1)[OF True bel this] next_level_ne[OF True]
    have IH: "distinct (positions (concat (plan_levels (l + 1) (?next @ ?odd))))"
      "\<forall>j \<in> set (concat (plan_levels (l + 1) (?next @ ?odd))). unat l + 1 \<le> unat (tp_level (tj_position j))
        \<and> unat (tp_level (tj_left j)) < unat (tp_level (tj_position j))
        \<and> unat (tp_level (tj_right j)) < unat (tp_level (tj_position j))"
      unfolding l by auto
    have "distinct (positions ?next)" using 1(3) True by (intro distinct_next_level) simp
    moreover have "set (positions ?next) \<inter> set (positions (concat (plan_levels (l + 1) (?next @ ?odd)))) = {}"
    proof -
      have "tj_position i \<noteq> tj_position j" if "i \<in> set ?next" "j \<in> set (concat (plan_levels (l + 1) (?next @ ?odd)))" for i j
        using level_of_next[OF that(1)] IH(2) that(2) by force
      then show ?thesis by auto
    qed
    moreover have "unat (tp_level q) < unat l" if "q \<in> set (children ?next)" for q
      using children_of_current[of l current] 1(2) that by (auto simp: below_def)
    then have "\<forall>j \<in> set ?next. unat (tp_level (tj_left j)) < unat l \<and> unat (tp_level (tj_right j)) < unat l" by auto
    ultimately show ?thesis
      using IH level_of_next[of _ l current] by (simp add: plan_levels_step[OF True] distinct_append) (fastforce)
  qed
qed

section \<open>Counts\<close>

lemma plan_levels_count: "current \<noteq> [] \<Longrightarrow> length (concat (plan_levels l current)) + 1 = length current"
proof (induction l current rule: plan_levels.induct)
  case (1 l current)
  show ?case
  proof (cases "1 < length current")
    case False
    then show ?thesis using 1(2) by (cases current) (simp_all add: plan_levels_done)
  next
    case True
    have "length (concat (plan_levels (l + 1) (next_level l current @ odd_one current))) + 1
        = length current div 2 + length current mod 2"
      using 1(1)[OF True] next_level_ne[OF True] by simp
    moreover have "length current div 2 + length current mod 2 + length current div 2 = length current" by presburger
    ultimately show ?thesis by (simp add: plan_levels_step[OF True])
  qed
qed

lemma plan_levels_height:
  "current \<noteq> [] \<Longrightarrow> length current \<le> 2 ^ length (plan_levels l current)
    \<and> (1 < length current \<longrightarrow> 2 ^ (length (plan_levels l current) - 1) < length current)"
proof (induction l current rule: plan_levels.induct)
  case (1 l current)
  show ?case
  proof (cases "1 < length current")
    case False
    then show ?thesis using 1(2) by (cases current) (simp_all add: plan_levels_done)
  next
    case True
    let ?k = "length (plan_levels (l + 1) (next_level l current @ odd_one current))"
    let ?m = "length current div 2 + length current mod 2"
    have IH: "?m \<le> 2 ^ ?k" "1 < ?m \<longrightarrow> 2 ^ (?k - 1) < ?m"
      using 1(1)[OF True] next_level_ne[OF True] by simp_all
    have n: "length current \<le> 2 * ?m" by presburger
    have low: "2 ^ ?k < length current"
    proof (cases "1 < ?m")
      case True
      have "?k \<noteq> 0" using True IH(1) by (intro notI) simp
      then have "(2::nat) ^ ?k + 2 = 2 * 2 ^ (?k - 1) + 2" by (cases ?k) simp_all
      also have "\<dots> \<le> 2 * ?m" using IH(2) True by simp
      also have "\<dots> \<le> length current + 1" by presburger
      finally show ?thesis by simp
    next
      case False
      then have "\<not> 1 < length (next_level l current @ odd_one current)" by simp
      then show ?thesis using \<open>1 < length current\<close> by (simp add: plan_levels_done)
    qed
    have "length current \<le> 2 ^ Suc ?k" using n IH(1) by simp
    with low show ?thesis by (simp add: plan_levels_step[OF True])
  qed
qed

section \<open>Properties\<close>

text \<open>
  Claim C27. The plan for \<open>n\<close> leaves, at least one, has \<open>n - 1\<close> jobs on as many levels as the
  binary logarithm of \<open>n\<close>, rounded up. No two leaves or jobs have the same position; each of them but
  the last job is the left or the right child of exactly one job; and the children of a job are
  leaves or jobs of lower levels, so the levels can be run one after the other.
\<close>

theorem planner_uses_every_job_once:
  assumes "0 < n" and "n < 2 ^ 64"
  shows "length (concat (planner n)) = n - 1
    \<and> n \<le> 2 ^ length (planner n) \<and> (1 < n \<longrightarrow> 2 ^ (length (planner n) - 1) < n)
    \<and> distinct (positions (gen_leaves_binary_tree_planner n @ concat (planner n)))
    \<and> mset (children (concat (planner n)))
        + {#last (positions (gen_leaves_binary_tree_planner n @ concat (planner n)))#}
      = mset (positions (gen_leaves_binary_tree_planner n @ concat (planner n)))
    \<and> (\<forall>j \<in> set (concat (planner n)).
        unat (tp_level (tj_left j)) < unat (tp_level (tj_position j))
        \<and> unat (tp_level (tj_right j)) < unat (tp_level (tj_position j)))"
proof -
  let ?leaves = "gen_leaves_binary_tree_planner n" and ?jobs = "concat (planner n)"
  have len: "length ?leaves = n" and ne: "?leaves \<noteq> []" using assms(1) by (simp_all add: gen_leaves_binary_tree_planner_def)
  have zero: "tp_level (tj_position j) = 0" if "j \<in> set ?leaves" for j
    using that by (auto simp: gen_leaves_binary_tree_planner_def tree_position_def)
  have order: "distinct (positions ?jobs)"
    "\<forall>j \<in> set ?jobs. unat (1 :: u64) \<le> unat (tp_level (tj_position j))
       \<and> unat (tp_level (tj_left j)) < unat (tp_level (tj_position j))
       \<and> unat (tp_level (tj_right j)) < unat (tp_level (tj_position j))"
    using plan_levels_order[of 1 ?leaves] assms(2) ne zero len by (auto simp: planner_def below_def)
  have "inj_on (\<lambda>i. tree_position 0 (word_of_nat i)) (set [0..<n])"
    using assms(2) by (intro inj_onI) (auto simp: tree_position_def word_of_nat_eq_iff take_bit_nat_eq_self)
  then have "distinct (positions ?leaves)"
    by (simp add: gen_leaves_binary_tree_planner_def comp_def distinct_map)
  moreover have "tj_position i \<noteq> tj_position j" if "i \<in> set ?leaves" "j \<in> set ?jobs" for i j
    using zero[OF that(1)] order(2) that(2) by force
  then have "set (positions ?leaves) \<inter> set (positions ?jobs) = {}" by auto
  ultimately have "distinct (positions (?leaves @ ?jobs))" using order(1) by simp
  moreover have "mset (children ?jobs) + {#last (positions (?leaves @ ?jobs))#} = mset (positions (?leaves @ ?jobs))"
    using plan_levels_uses[OF ne, of 1] by (simp add: planner_def)
  ultimately show ?thesis
    using plan_levels_count[OF ne, of 1] plan_levels_height[OF ne, of 1] order(2) len by (simp add: planner_def)
qed

theorem planner_uses_every_job_once_witness:
  "length (concat (planner 6)) = 5 \<and> 6 \<le> (2 :: nat) ^ length (planner 6) \<and> 2 ^ (length (planner 6) - 1) < (6 :: nat)
   \<and> distinct (positions (concat (planner 6)))"
  using planner_uses_every_job_once[of 6] by (simp add: distinct_append)

end
