(* ===== verification/Binary_Formats.thy ===== *)
theory Binary_Formats
  imports Bytes
begin

text \<open>
  \<open>data/varuint.rs\<close>, the variable-length integers, and the readers of \<open>utils/binary_helpers.rs\<close> (the
  file \<open>data/secp256k1.rs\<close> is a copy of it). Reading past the end panics.
\<close>

unbundle bit_operations_syntax

section \<open>Variable-length integers\<close>

definition varuint_size :: "u64 \<Rightarrow> nat" where
  "varuint_size value =
     (if value < 0xfd then 1 else if value \<le> 0xffff then 3 else if value \<le> 0xffffffff then 5 else 9)"

definition encode_varuint :: "u64 \<Rightarrow> bytes" where
  "encode_varuint value =
     (if value < 0xfd then [ucast value]
      else if value \<le> 0xffff then 0xfd # to_le_bytes 2 (ucast value :: u16)
      else if value \<le> 0xffffffff then 0xfe # to_le_bytes 4 (ucast value :: u32)
      else 0xff # to_le_bytes 8 value)"

definition decode_varuint :: "bytes \<Rightarrow> u64 res" where
  "decode_varuint data =
     (case data of
        [] \<Rightarrow> Inl (Err ''tried to decode malformed bytes into varuint'')
      | first # rest \<Rightarrow>
          if first < 0xfd then Inr (ucast first)
          else
            let n = (if first = 0xfd then 2 else if first = 0xfe then 4 else 8) in
            if length data < n + 1 then Inl (Err ''tried to decode malformed bytes into varuint'')
            else Inr (from_le_bytes (take n rest @ replicate (8 - n) 0)))"

lemma le_nat_zeros: "le_nat (bs @ replicate n 0) = le_nat bs"
  by (simp add: le_nat_append) (induction n, simp_all)

lemma narrow_bytes:
  assumes "unat value < 2 ^ LENGTH('a)" and "LENGTH('a) = 8 * n"
  shows "from_le_bytes (to_le_bytes n (ucast (value :: u64) :: 'a::len word) @ replicate k 0) = value"
proof -
  have "unat (ucast value :: 'a word) = unat value"
    using assms(1) by (simp add: unsigned_ucast_eq take_bit_nat_eq_self)
  moreover have "unat value < 256 ^ n" using assms by (simp add: power_mult)
  ultimately show ?thesis
    by (simp add: from_le_bytes_def le_nat_zeros to_le_bytes_def le_nat_nat_le_bytes)
qed

lemma length_encode_varuint: "length (encode_varuint value) = varuint_size value"
  by (simp add: encode_varuint_def varuint_size_def)

lemma decode_encode_varuint: "decode_varuint (encode_varuint value @ rest) = Inr value"
proof -
  consider "value < 0xfd" | "\<not> value < 0xfd" "value \<le> 0xffff" | "\<not> value < 0xfd" "\<not> value \<le> 0xffff" "value \<le> 0xffffffff"
    | "\<not> value < 0xfd" "\<not> value \<le> 0xffff" "\<not> value \<le> 0xffffffff" by blast
  then show ?thesis
  proof cases
    case 1
    then have u: "unat value < 253" by (simp add: word_less_nat_alt)
    then have "unat (ucast value :: u8) = unat value" by (simp add: unsigned_ucast_eq unsigned_take_bit_eq take_bit_nat_eq_self)
    then have "(ucast value :: u8) < 0xfd" "ucast (ucast value :: u8) = value"
      using u by (simp_all add: word_less_nat_alt word_unat_eq_iff unsigned_ucast_eq unsigned_take_bit_eq take_bit_nat_eq_self)
    then show ?thesis using 1 by (simp add: encode_varuint_def decode_varuint_def)
  next
    case 2
    then have "unat value < 2 ^ LENGTH(16)" by (simp add: word_le_nat_alt)
    from narrow_bytes[OF this, of 2 6] 2 show ?thesis
      by (simp add: encode_varuint_def decode_varuint_def)
  next
    case 3
    then have "unat value < 2 ^ LENGTH(32)" by (simp add: word_le_nat_alt)
    from narrow_bytes[OF this, of 4 4] 3 show ?thesis
      by (simp add: encode_varuint_def decode_varuint_def)
  next
    case 4
    then show ?thesis by (simp add: encode_varuint_def decode_varuint_def u64_le_roundtrip)
  qed
qed

section \<open>Readers\<close>

definition bytes_to_u32_vec_le :: "bytes \<Rightarrow> u32 list" where
  "bytes_to_u32_vec_le bs = map from_le_bytes (chunks_exact 4 bs)"

definition bytes_to_u32_vec_be :: "bytes \<Rightarrow> u32 list" where
  "bytes_to_u32_vec_be bs = map from_be_bytes (chunks_exact 4 bs)"

definition u32_vec_to_bytes_be :: "u32 list \<Rightarrow> bytes" where
  "u32_vec_to_bytes_be u32s = concat (map (to_be_bytes 4) u32s)"

definition read_u32_be_at :: "bytes \<Rightarrow> nat \<Rightarrow> u32 res" where
  "read_u32_be_at array i =
     and_then (index array i) (\<lambda>b0. and_then (index array (i + 1)) (\<lambda>b1.
     and_then (index array (i + 2)) (\<lambda>b2. and_then (index array (i + 3)) (\<lambda>b3.
     Inr (push_bit 24 (ucast b0) + push_bit 16 (ucast b1) + push_bit 8 (ucast b2) + ucast b3)))))"

definition read_u32_le_at :: "bytes \<Rightarrow> nat \<Rightarrow> u32 res" where
  "read_u32_le_at array i =
     and_then (index array (i + 3)) (\<lambda>b3. and_then (index array (i + 2)) (\<lambda>b2.
     and_then (index array (i + 1)) (\<lambda>b1. and_then (index array i) (\<lambda>b0.
     Inr (push_bit 24 (ucast b3) + push_bit 16 (ucast b2) + push_bit 8 (ucast b1) + ucast b0)))))"

text \<open>The loops of \<open>read_u48_from_bytes_le\<close> and \<open>read_u56_from_bytes_le\<close>, from \<open>i\<close> with \<open>n\<close> turns left.\<close>

fun read_le_loop :: "bytes \<Rightarrow> nat \<Rightarrow> nat \<Rightarrow> nat \<Rightarrow> u64 \<Rightarrow> u64 res" where
  "read_le_loop bs offset i 0 result = Inr result"
| "read_le_loop bs offset i (Suc n) result =
     and_then (index bs (offset + i)) (\<lambda>b. read_le_loop bs offset (Suc i) n (result OR push_bit (i * 8) (ucast b)))"

definition read_u48_from_bytes_le :: "bytes \<Rightarrow> nat \<Rightarrow> u64 res" where
  "read_u48_from_bytes_le bs offset = read_le_loop bs offset 0 6 0"

definition read_u56_from_bytes_le :: "bytes \<Rightarrow> nat \<Rightarrow> u64 res" where
  "read_u56_from_bytes_le bs offset = read_le_loop bs offset 0 7 0"

lemma u32_vec_roundtrip: "bytes_to_u32_vec_be (u32_vec_to_bytes_be u32s) = u32s"
proof -
  have "chunks_exact 4 (concat (map (to_be_bytes 4) u32s)) = map (to_be_bytes 4) u32s"
    by (rule chunks_exact_concat) auto
  then show ?thesis by (simp add: bytes_to_u32_vec_be_def u32_vec_to_bytes_be_def comp_def u32_be_roundtrip)
qed

lemma four_at:
  assumes "i + 4 \<le> length bs"
  shows "take 4 (drop i bs) = [bs ! i, bs ! (i + 1), bs ! (i + 2), bs ! (i + 3)]"
  using assms by (intro nth_equalityI) (auto simp: less_Suc_eq numeral_eq_Suc)

lemma from_le_bytes_four:
  "from_le_bytes [a, b, c, d]
   = push_bit 24 (ucast d) + push_bit 16 (ucast c) + push_bit 8 (ucast b) + (ucast (a :: u8) :: u32)"
proof -
  have "(word_of_nat (unat x) :: u32) = ucast (x :: u8)" for x by simp
  then show ?thesis by (simp add: from_le_bytes_def push_bit_eq_mult algebra_simps)
qed

lemma read_u32_le_at: "i + 4 \<le> length bs \<Longrightarrow> read_u32_le_at bs i = Inr (from_le_bytes (take 4 (drop i bs)))"
  by (simp add: read_u32_le_at_def index_def four_at from_le_bytes_four)

lemma read_u32_be_at: "i + 4 \<le> length bs \<Longrightarrow> read_u32_be_at bs i = Inr (from_be_bytes (take 4 (drop i bs)))"
  by (simp add: read_u32_be_at_def index_def four_at from_be_bytes_def from_le_bytes_four)

lemma read_u32_be_at_panics: "length bs < i + 4 \<Longrightarrow> \<exists>e. read_u32_be_at bs i = Inl (Panic e)"
  by (auto simp: read_u32_be_at_def index_def)

lemma from_le_bytes_Cons: "from_le_bytes (b # bs) = (ucast b + push_bit 8 (from_le_bytes bs) :: u64)"
proof -
  have "(word_of_nat (unat b) :: u64) = ucast b" by simp
  then show ?thesis by (simp add: from_le_bytes_def push_bit_eq_mult)
qed

lemma or_above:
  fixes r x :: u64
  assumes "take_bit k r = r"
  shows "r OR push_bit k x = r + push_bit k x"
proof (rule disjunctive_add[symmetric])
  fix n
  have "bit r n \<Longrightarrow> n < k" using assms by (metis bit_take_bit_iff)
  then show "\<not> bit r n \<or> \<not> bit (push_bit k x) n" by (auto simp: bit_push_bit_iff)
qed

lemma read_le_loop_eq:
  "i + n \<le> 8 \<Longrightarrow> take_bit (i * 8) r = r \<Longrightarrow> offset + i + n \<le> length bs \<Longrightarrow>
   read_le_loop bs offset i n r = Inr (r + push_bit (i * 8) (from_le_bytes (take n (drop (offset + i) bs))))"
proof (induction n arbitrary: i r)
  case 0
  then show ?case by (simp add: from_le_bytes_def)
next
  case (Suc n)
  let ?b = "bs ! (offset + i)"
  let ?r = "r OR push_bit (i * 8) (ucast ?b)"
  have "take_bit (Suc i * 8) ?r = ?r"
  proof (rule bit_eqI)
    fix k
    have "bit r k \<Longrightarrow> k < i * 8" using Suc.prems(2) by (metis bit_take_bit_iff)
    moreover have "bit (ucast ?b :: u64) (k - i * 8) \<Longrightarrow> k < 8 + i * 8"
      by (auto simp: bit_ucast_iff dest!: bit_imp_le_length)
    ultimately show "bit (take_bit (Suc i * 8) ?r) k = bit ?r k"
      by (auto simp: bit_take_bit_iff bit_or_iff bit_push_bit_iff)
  qed
  moreover have "drop (offset + i) bs = ?b # drop (Suc (offset + i)) bs"
    using Suc.prems(3) by (simp add: Cons_nth_drop_Suc)
  ultimately show ?case
    using Suc.IH[of "Suc i" ?r] Suc.prems
    by (simp add: index_def or_above from_le_bytes_Cons push_bit_add add.commute add.left_commute)
qed

lemma read_u48: "offset + 6 \<le> length bs \<Longrightarrow> read_u48_from_bytes_le bs offset = Inr (from_le_bytes (take 6 (drop offset bs)))"
  unfolding read_u48_from_bytes_le_def by (subst read_le_loop_eq) simp_all

lemma read_u56: "offset + 7 \<le> length bs \<Longrightarrow> read_u56_from_bytes_le bs offset = Inr (from_le_bytes (take 7 (drop offset bs)))"
  unfolding read_u56_from_bytes_le_def by (subst read_le_loop_eq) simp_all

section \<open>Properties\<close>

text \<open>
  Every 64-bit value is encoded in the announced number of bytes, and decoding reads it
  back whatever bytes follow. Decoding fails exactly on data shorter than its first byte announces.
\<close>

theorem varuint_roundtrip:
  "decode_varuint (encode_varuint value @ rest) = Inr value \<and> length (encode_varuint value) = varuint_size value
   \<and> (is_ok (decode_varuint data) \<longleftrightarrow> data \<noteq> [] \<and>
       (if data ! 0 < 0xfd then 1 else if data ! 0 = 0xfd then 3 else if data ! 0 = 0xfe then 5 else 9) \<le> length data)"
proof (intro conjI)
  show "is_ok (decode_varuint data) \<longleftrightarrow> data \<noteq> [] \<and>
       (if data ! 0 < 0xfd then 1 else if data ! 0 = 0xfd then 3 else if data ! 0 = 0xfe then 5 else 9) \<le> length data"
    by (cases data) (auto simp: decode_varuint_def Let_def)
qed (rule decode_encode_varuint length_encode_varuint)+

end
