(* ===== verification/Kvq_Shared.thy ===== *)
theory Kvq_Shared
  imports Kvq_Cache Kvq_Adapter
begin

text \<open>
  The lock wrappers of \<open>kvq/src/memory/immutable.rs\<close> and \<open>memory/arc_imm.rs\<close> (the second shares its
  lock between clones; the methods are the same), and the immutable half of the standard adapter.

  The lock is \<open>std::sync::RwLock\<close>: a number of read guards or one write guard may be held outside
  of a call, and a panic under a write guard poisons it. The wrappers use \<open>try_read\<close> and
  \<open>try_write\<close>, so a call that meets a guard does not wait but returns an error.
\<close>

record 's rw_lock =
  rw_inner :: 's
  rw_readers :: nat
  rw_writer :: bool
  rw_poisoned :: bool

definition shared_new :: "'s \<Rightarrow> 's rw_lock" where
  "shared_new inner = \<lparr>rw_inner = inner, rw_readers = 0, rw_writer = False, rw_poisoned = False\<rparr>"

definition shared_write :: "'s rw_lock \<Rightarrow> unit res" where
  "shared_write w =
     (if rw_writer w \<or> 0 < rw_readers w \<or> rw_poisoned w
      then Inl (Err ''Error writing to immutable store'') else Inr ())"

definition shared_read :: "'s rw_lock \<Rightarrow> unit res" where
  "shared_read w =
     (if rw_writer w \<or> rw_poisoned w then Inl (Err ''Error reading from immutable store'') else Inr ())"

text \<open>\<open>self.read()?.f(..)\<close> and \<open>self.write()?.f(..)\<close>; the guard lives until the end of the call.\<close>

definition is_panic :: "'b res \<Rightarrow> bool" where
  "is_panic r = (case r of Inl (Panic _) \<Rightarrow> True | _ \<Rightarrow> False)"

definition reading :: "('s \<Rightarrow> 'b res) \<Rightarrow> 's rw_lock \<Rightarrow> 'b res" where
  "reading f w = and_then (shared_read w) (\<lambda>_. f (rw_inner w))"

definition writing :: "('s \<Rightarrow> 's \<times> 'b res) \<Rightarrow> 's rw_lock \<Rightarrow> 's rw_lock \<times> 'b res" where
  "writing f w =
     (case shared_write w of
        Inl e \<Rightarrow> (w, Inl e)
      | Inr _ \<Rightarrow> (case f (rw_inner w) of (s, r) \<Rightarrow> (w\<lparr>rw_inner := s, rw_poisoned := is_panic r\<rparr>, r)))"

section \<open>The wrapper as a store\<close>

definition shared_binary_store :: "'s kvq_binary_store \<Rightarrow> 's rw_lock kvq_binary_store" where
  "shared_binary_store S =
     \<lparr>st_get_exact_if_exists = (\<lambda>w key. reading (\<lambda>s. st_get_exact_if_exists S s key) w),
      st_get_exact = (\<lambda>w key. reading (\<lambda>s. st_get_exact S s key) w),
      st_get_many_exact = (\<lambda>w keys. reading (\<lambda>s. st_get_many_exact S s keys) w),
      st_get_leq = (\<lambda>w key fuzzy. reading (\<lambda>s. st_get_leq S s key fuzzy) w),
      st_get_fuzzy_range_leq_kv = (\<lambda>w key fuzzy. reading (\<lambda>s. st_get_fuzzy_range_leq_kv S s key fuzzy) w),
      st_get_leq_kv = (\<lambda>w key fuzzy. reading (\<lambda>s. st_get_leq_kv S s key fuzzy) w),
      st_get_many_leq = (\<lambda>w keys fuzzy. reading (\<lambda>s. st_get_many_leq S s keys fuzzy) w),
      st_get_many_leq_kv = (\<lambda>w keys fuzzy. reading (\<lambda>s. st_get_many_leq_kv S s keys fuzzy) w),
      st_set = (\<lambda>w key v. writing (\<lambda>s. st_set S s key v) w),
      st_set_ref = (\<lambda>w key v. writing (\<lambda>s. st_set_ref S s key v) w),
      st_set_many_ref = (\<lambda>w items. writing (\<lambda>s. st_set_many_ref S s items) w),
      st_set_many_vec = (\<lambda>w items. writing (\<lambda>s. st_set_many_vec S s items) w),
      st_set_many_split_ref = (\<lambda>w keys vals. writing (\<lambda>s. st_set_many_split_ref S s keys vals) w),
      st_delete = (\<lambda>w key. writing (\<lambda>s. st_delete S s key) w),
      st_delete_many = (\<lambda>w keys. writing (\<lambda>s. st_delete_many S s keys) w)\<rparr>"

text \<open>\<open>KVQBinaryStoreWriterImmutable\<close>: the same updates through a shared reference.\<close>

record 'w imm_writer =
  im_set :: "'w \<Rightarrow> bytes \<Rightarrow> bytes \<Rightarrow> 'w \<times> unit res"
  im_set_ref :: "'w \<Rightarrow> bytes \<Rightarrow> bytes \<Rightarrow> 'w \<times> unit res"
  im_set_many_ref :: "'w \<Rightarrow> kv list \<Rightarrow> 'w \<times> unit res"
  im_set_many_vec :: "'w \<Rightarrow> kv list \<Rightarrow> 'w \<times> unit res"
  im_set_many_split_ref :: "'w \<Rightarrow> bytes list \<Rightarrow> bytes list \<Rightarrow> 'w \<times> unit res"
  im_delete :: "'w \<Rightarrow> bytes \<Rightarrow> 'w \<times> bool res"
  im_delete_many :: "'w \<Rightarrow> bytes list \<Rightarrow> 'w \<times> bool list res"

definition shared_imm_writer :: "'s kvq_binary_store \<Rightarrow> 's rw_lock imm_writer" where
  "shared_imm_writer S =
     \<lparr>im_set = (\<lambda>w key v. writing (\<lambda>s. st_set S s key v) w),
      im_set_ref = (\<lambda>w key v. writing (\<lambda>s. st_set_ref S s key v) w),
      im_set_many_ref = (\<lambda>w items. writing (\<lambda>s. st_set_many_ref S s items) w),
      im_set_many_vec = (\<lambda>w items. writing (\<lambda>s. st_set_many_vec S s items) w),
      im_set_many_split_ref = (\<lambda>w keys vals. writing (\<lambda>s. st_set_many_split_ref S s keys vals) w),
      im_delete = (\<lambda>w key. writing (\<lambda>s. st_delete S s key) w),
      im_delete_many = (\<lambda>w keys. writing (\<lambda>s. st_delete_many S s keys) w)\<rparr>"

section \<open>The immutable half of the adapter\<close>

definition ad_imm_set :: "'w imm_writer \<Rightarrow> 'k codec \<Rightarrow> 'v codec \<Rightarrow> 'w \<Rightarrow> 'k \<Rightarrow> 'v \<Rightarrow> ('w, unit) upd" where
  "ad_imm_set M K V w key v =
     with_encoded (to_bytes K key) w (\<lambda>kb. with_encoded (to_bytes V v) w (\<lambda>vb. im_set M w kb vb))"

definition ad_imm_set_ref :: "'w imm_writer \<Rightarrow> 'k codec \<Rightarrow> 'v codec \<Rightarrow> 'w \<Rightarrow> 'k \<Rightarrow> 'v \<Rightarrow> ('w, unit) upd" where
  "ad_imm_set_ref M K V w key v =
     with_encoded (to_bytes K key) w (\<lambda>kb. with_encoded (to_bytes V v) w (\<lambda>vb. im_set M w kb vb))"

definition ad_imm_set_many ::
  "'w imm_writer \<Rightarrow> 'k codec \<Rightarrow> 'v codec \<Rightarrow> 'w \<Rightarrow> ('k, 'v) kvq_pair list \<Rightarrow> ('w, unit) upd" where
  "ad_imm_set_many M K V w items =
     with_encoded (try_map (encode_pair K V) items) w (\<lambda>pairs. im_set_many_vec M w pairs)"

definition ad_imm_set_many_ref ::
  "'w imm_writer \<Rightarrow> 'k codec \<Rightarrow> 'v codec \<Rightarrow> 'w \<Rightarrow> ('k, 'v) kvq_pair list \<Rightarrow> ('w, unit) upd" where
  "ad_imm_set_many_ref M K V w items =
     with_encoded (try_map (encode_pair K V) items) w (\<lambda>pairs. im_set_many_vec M w pairs)"

definition ad_imm_delete :: "'w imm_writer \<Rightarrow> 'k codec \<Rightarrow> 'v codec \<Rightarrow> 'w \<Rightarrow> 'k \<Rightarrow> ('w, bool) upd" where
  "ad_imm_delete M K V w key = with_encoded (to_bytes K key) w (im_delete M w)"

definition ad_imm_delete_many ::
  "'w imm_writer \<Rightarrow> 'k codec \<Rightarrow> 'v codec \<Rightarrow> 'w \<Rightarrow> 'k list \<Rightarrow> ('w, bool list) upd" where
  "ad_imm_delete_many M K V w keys = delete_loop (ad_imm_delete M K V) w keys"

definition ad_imm_set_many_split_ref ::
  "'w imm_writer \<Rightarrow> 'k codec \<Rightarrow> 'v codec \<Rightarrow> 'w \<Rightarrow> 'k list \<Rightarrow> 'v list \<Rightarrow> ('w, unit) upd" where
  "ad_imm_set_many_split_ref M K V w keys values =
     (if length keys \<noteq> length values
      then (w, Inl (Err ''Keys and values must have the same length''))
      else with_encoded
             (try_map (\<lambda>(k, v). and_then (to_bytes K k) (\<lambda>kb. and_then (to_bytes V v) (\<lambda>vb. Inr (kb, vb))))
                (zip keys values)) w
             (\<lambda>kvs. im_set_many_split_ref M w (map fst kvs) (map snd kvs)))"

text \<open>Over the wrapper the immutable adapter is the mutable one.\<close>

lemma ad_imm_eq:
  "ad_imm_set (shared_imm_writer S) = ad_set (shared_binary_store S)"
  "ad_imm_set_ref (shared_imm_writer S) = ad_set (shared_binary_store S)"
  "ad_imm_set_many (shared_imm_writer S) = ad_set_many (shared_binary_store S)"
  "ad_imm_set_many_ref (shared_imm_writer S) = ad_set_many (shared_binary_store S)"
  "ad_imm_delete (shared_imm_writer S) = ad_delete (shared_binary_store S)"
  "ad_imm_delete_many (shared_imm_writer S) = ad_delete_many (shared_binary_store S)"
  "ad_imm_set_many_split_ref (shared_imm_writer S) = ad_set_many_split_ref (shared_binary_store S)"
proof -
  have d: "ad_imm_delete (shared_imm_writer S) = ad_delete (shared_binary_store S)"
    by (intro ext) (simp add: ad_imm_delete_def ad_delete_def shared_imm_writer_def shared_binary_store_def)
  then show "ad_imm_delete (shared_imm_writer S) = ad_delete (shared_binary_store S)" .
  show "ad_imm_delete_many (shared_imm_writer S) = ad_delete_many (shared_binary_store S)"
    by (intro ext) (simp add: ad_imm_delete_many_def ad_delete_many_def d)
qed (intro ext, simp add: ad_imm_set_def ad_imm_set_ref_def ad_imm_set_many_def ad_imm_set_many_ref_def
    ad_imm_set_many_split_ref_def ad_set_def ad_set_many_def ad_set_many_split_ref_def
    shared_imm_writer_def shared_binary_store_def)+

section \<open>The wrapper keeps the contract of the store\<close>

definition unlocked :: "'s rw_lock \<Rightarrow> bool" where
  "unlocked w \<longleftrightarrow> \<not> rw_writer w \<and> rw_readers w = 0 \<and> \<not> rw_poisoned w"

definition shared_inv :: "('s \<Rightarrow> bool) \<Rightarrow> 's rw_lock \<Rightarrow> bool" where
  "shared_inv I w \<longleftrightarrow> unlocked w \<and> I (rw_inner w)"

definition shared_view :: "('s \<Rightarrow> bytes \<Rightarrow> bytes option) \<Rightarrow> 's rw_lock \<Rightarrow> bytes \<Rightarrow> bytes option" where
  "shared_view V w = V (rw_inner w)"

lemma reading_unlocked: "unlocked w \<Longrightarrow> reading f w = f (rw_inner w)"
  by (simp add: reading_def shared_read_def unlocked_def)

lemma writing_unlocked:
  "unlocked w \<Longrightarrow> writing f w = (w\<lparr>rw_inner := fst (f (rw_inner w)), rw_poisoned := is_panic (snd (f (rw_inner w)))\<rparr>, snd (f (rw_inner w)))"
  by (simp add: writing_def shared_write_def unlocked_def split: prod.splits)

lemma not_panic: "is_ok r \<Longrightarrow> \<not> is_panic r"
  by (cases r) (simp_all add: is_panic_def)

lemma shared_new_unlocked: "unlocked (shared_new s)"
  by (simp add: unlocked_def shared_new_def)

lemma unlocked_update: "unlocked w \<Longrightarrow> unlocked (w\<lparr>rw_inner := s, rw_poisoned := False\<rparr>)"
  by (simp add: unlocked_def)

locale locked_store = kvq_range_store
begin

lemma writing_ok:
  assumes "shared_inv inv w" and "is_ok (snd (f (rw_inner w)))" and "inv (fst (f (rw_inner w)))"
  shows "writing f w = (w\<lparr>rw_inner := fst (f (rw_inner w))\<rparr>, snd (f (rw_inner w)))"
    and "shared_inv inv (fst (writing f w))"
  using assms not_panic[OF assms(2)]
  by (auto simp: writing_unlocked shared_inv_def unlocked_def intro: rw_lock.equality)

lemma delete_loop_writing:
  assumes "shared_inv inv w"
  shows "delete_loop (\<lambda>w k. writing (\<lambda>s. st_delete S s k) w) w ks
    = (w\<lparr>rw_inner := fst (delete_loop (st_delete S) (rw_inner w) ks)\<rparr>, snd (delete_loop (st_delete S) (rw_inner w) ks))"
  using assms
proof (induction ks arbitrary: w)
  case Nil
  then show ?case by simp
next
  case (Cons k ks)
  then have i: "inv (rw_inner w)" by (simp add: shared_inv_def)
  obtain s b where d: "st_delete S (rw_inner w) k = (s, Inr b)"
    using del_result[OF i, of k] by (cases "st_delete S (rw_inner w) k") (auto simp: is_ok_iff)
  have ok: "writing (\<lambda>s. st_delete S s k) w = (w\<lparr>rw_inner := s\<rparr>, Inr b)"
    "shared_inv inv (w\<lparr>rw_inner := s\<rparr>)"
    using writing_ok[OF Cons.prems, of "\<lambda>s. st_delete S s k"] del_inv[OF i, of k] by (simp_all add: d)
  from Cons.IH[OF ok(2)] show ?case by (simp add: d ok split: prod.splits sum.splits)
qed

lemma shared_contract:
  "kvq_range_store (shared_binary_store S) (shared_inv inv) (shared_view view)"
proof unfold_locales
  fix w k v ks items
  assume i: "shared_inv inv w"
  then have u: "unlocked w" and s: "inv (rw_inner w)" by (simp_all add: shared_inv_def)
  note ops = shared_binary_store_def reading_unlocked[OF u] shared_view_def
  show "st_get_exact_if_exists (shared_binary_store S) w k = Inr (shared_view view w k)"
    by (simp add: ops get_if[OF s])
  show "shared_view view w k = Some v \<Longrightarrow> st_get_exact (shared_binary_store S) w k = Inr v"
    by (simp add: ops get_Some[OF s])
  show "shared_view view w k = None \<Longrightarrow> \<exists>m. st_get_exact (shared_binary_store S) w k = Inl (Err m)"
    by (simp add: ops get_None[OF s])
  show "st_get_many_exact (shared_binary_store S) w ks = try_map (st_get_exact (shared_binary_store S) w) ks"
    by (simp add: ops get_many[OF s])
  have set: "writing (\<lambda>s. st_set S s k v) w = (w\<lparr>rw_inner := fst (st_set S (rw_inner w) k v)\<rparr>, Inr ())"
    "shared_inv inv (fst (writing (\<lambda>s. st_set S s k v) w))"
    using writing_ok[OF i, of "\<lambda>s. st_set S s k v"] set_result[OF s, of k v] set_inv[OF s, of k v] by simp_all
  show "snd (st_set (shared_binary_store S) w k v) = Inr ()"
    "shared_view view (fst (st_set (shared_binary_store S) w k v)) = (shared_view view w)(k \<mapsto> v)"
    "shared_inv inv (fst (st_set (shared_binary_store S) w k v))"
    using set by (simp_all add: ops set_view[OF s] fun_upd_def)
  have many: "writing (\<lambda>s. st_set_many_vec S s items) w = (w\<lparr>rw_inner := fst (st_set_many_vec S (rw_inner w) items)\<rparr>, Inr ())"
    "shared_inv inv (fst (writing (\<lambda>s. st_set_many_vec S s items) w))"
    using writing_ok[OF i, of "\<lambda>s. st_set_many_vec S s items"] set_many_result[OF s, of items] set_many_inv[OF s, of items]
    by simp_all
  show "snd (st_set_many_vec (shared_binary_store S) w items) = Inr ()"
    "shared_view view (fst (st_set_many_vec (shared_binary_store S) w items)) = shared_view view w ++ kv_map items"
    "shared_inv inv (fst (st_set_many_vec (shared_binary_store S) w items))"
    using many by (simp_all add: ops set_many_view[OF s])
  have del: "writing (\<lambda>s. st_delete S s k) w = (w\<lparr>rw_inner := fst (st_delete S (rw_inner w) k)\<rparr>, snd (st_delete S (rw_inner w) k))"
    "shared_inv inv (fst (writing (\<lambda>s. st_delete S s k) w))"
    using writing_ok[OF i, of "\<lambda>s. st_delete S s k"] del_result[OF s, of k] del_inv[OF s, of k] by simp_all
  show "is_ok (snd (st_delete (shared_binary_store S) w k))"
    "shared_view view (fst (st_delete (shared_binary_store S) w k)) = (shared_view view w)(k := None)"
    "shared_inv inv (fst (st_delete (shared_binary_store S) w k))"
    using del del_result[OF s, of k] by (simp_all add: ops del_view[OF s] fun_upd_def)
  show "st_set_ref (shared_binary_store S) w k v = st_set (shared_binary_store S) w k v"
    "st_set_many_ref (shared_binary_store S) w items = st_set_many_vec (shared_binary_store S) w items"
    by (simp_all add: shared_binary_store_def writing_unlocked[OF u] set_ref_eq[OF s] set_many_ref_eq[OF s])
  have "is_ok (snd (st_delete_many S (rw_inner w) ks))" "inv (fst (st_delete_many S (rw_inner w) ks))"
    unfolding del_many_eq[OF s] using delete_loop_view[OF s] by blast+
  then show "st_delete_many (shared_binary_store S) w ks = delete_loop (st_delete (shared_binary_store S)) w ks"
    using writing_ok(1)[OF i, of "\<lambda>s. st_delete_many S s ks"] delete_loop_writing[OF i, of ks]
    by (simp add: shared_binary_store_def del_many_eq[OF s])
next
  fix w fuzzy and key :: bytes
  assume i: "shared_inv inv w"
  then have u: "unlocked w" and s: "inv (rw_inner w)" by (simp_all add: shared_inv_def)
  show "fuzzy \<le> length key \<Longrightarrow> \<exists>ps. st_get_fuzzy_range_leq_kv (shared_binary_store S) w key fuzzy = Inr ps
      \<and> is_range_answer (shared_view view w) key fuzzy ps"
    using range_kv[OF s] by (simp add: shared_binary_store_def reading_unlocked[OF u] shared_view_def)
  show "length key < fuzzy \<Longrightarrow>
    st_get_fuzzy_range_leq_kv (shared_binary_store S) w key fuzzy = Inl fuzzy_error"
    using range_error[OF s] by (simp add: shared_binary_store_def reading_unlocked[OF u])
qed

end

sublocale locked_store \<subseteq> shared: kvq_range_store "shared_binary_store S" "shared_inv inv" "shared_view view"
  by (rule shared_contract)

text \<open>A memory store behind a lock, a cache over it, and a typed table over that.\<close>

interpretation locked_simple: locked_store simple_binary_store bt_inv bt_get
  by unfold_locales

interpretation locked_cache: locked_store "cached_binary_store simple_binary_store"
  "cached_inv bt_inv" "cached_view bt_get"
  by unfold_locales

interpretation shared_table: kvq_adapter "shared_binary_store (cached_binary_store simple_binary_store)"
  "shared_inv (cached_inv bt_inv)" "shared_view (cached_view bt_get)"
  "int_codec 8 :: u64 codec" "\<lambda>_. True" byte_vec_codec "\<lambda>_. True"
  by unfold_locales


section \<open>Guards held elsewhere\<close>

text \<open>
  \<open>read()\<close> and \<open>write()\<close> hand their guards out, and with the shared lock other threads call too. A
  write guard is released with whatever content its holder left, poisoning the lock after a panic.
\<close>

datatype 's lock_event =
    TakeRead
  | DropRead
  | TakeWrite
  | DropWrite 's bool
  | WriteCall "'s \<Rightarrow> 's \<times> unit res"

inductive lock_step :: "'s rw_lock \<Rightarrow> 's lock_event \<Rightarrow> 's rw_lock \<Rightarrow> bool" where
  take_read: "shared_read w = Inr () \<Longrightarrow> lock_step w TakeRead (w\<lparr>rw_readers := rw_readers w + 1\<rparr>)"
| drop_read: "0 < rw_readers w \<Longrightarrow> lock_step w DropRead (w\<lparr>rw_readers := rw_readers w - 1\<rparr>)"
| take_write: "shared_write w = Inr () \<Longrightarrow> lock_step w TakeWrite (w\<lparr>rw_writer := True\<rparr>)"
| drop_write: "rw_writer w \<Longrightarrow> lock_step w (DropWrite s p) (w\<lparr>rw_inner := s, rw_writer := False, rw_poisoned := p\<rparr>)"
| write_call: "lock_step w (WriteCall f) (fst (writing f w))"

inductive lock_path :: "'s rw_lock \<Rightarrow> 's lock_event list \<Rightarrow> 's rw_lock \<Rightarrow> bool" where
  path_nil: "lock_path w [] w"
| path_step: "lock_step w e w1 \<Longrightarrow> lock_path w1 es w' \<Longrightarrow> lock_path w (e # es) w'"

inductive_simps lock_step_simps [simp]:
  "lock_step w TakeRead w'" "lock_step w DropRead w'" "lock_step w TakeWrite w'"
  "lock_step w (DropWrite s p) w'" "lock_step w (WriteCall f) w'"

inductive_cases path_consE: "lock_path w (e # es) w'"

definition lock_wf :: "'s rw_lock \<Rightarrow> bool" where
  "lock_wf w \<longleftrightarrow> (rw_writer w \<longrightarrow> rw_readers w = 0 \<and> \<not> rw_poisoned w)"

definition busy :: "'s rw_lock \<Rightarrow> bool" where
  "busy w \<longleftrightarrow> rw_writer w \<or> 0 < rw_readers w \<or> rw_poisoned w"

lemma busy_writing: "busy w \<Longrightarrow> writing f w = (w, Inl (Err ''Error writing to immutable store''))"
  by (simp add: busy_def writing_def shared_write_def)

lemma writer_reading: "rw_writer w \<or> rw_poisoned w \<Longrightarrow> reading f w = Inl (Err ''Error reading from immutable store'')"
  by (auto simp: reading_def shared_read_def)

lemma unwritten_reading: "\<not> (rw_writer w \<or> rw_poisoned w) \<Longrightarrow> reading f w = f (rw_inner w)"
  by (auto simp: reading_def shared_read_def)

abbreviation write_error :: "'b res" where
  "write_error \<equiv> Inl (Err ''Error writing to immutable store'')"

abbreviation read_error :: "'b res" where
  "read_error \<equiv> Inl (Err ''Error reading from immutable store'')"

text \<open>Every update that meets a guard fails, through either interface, and the lock stays as it is.\<close>

lemma updates_meet_guard:
  assumes "busy w"
  shows "st_set (shared_binary_store S) w k v = (w, write_error)"
    and "st_set_ref (shared_binary_store S) w k v = (w, write_error)"
    and "st_set_many_ref (shared_binary_store S) w items = (w, write_error)"
    and "st_set_many_vec (shared_binary_store S) w items = (w, write_error)"
    and "st_set_many_split_ref (shared_binary_store S) w ks vs = (w, write_error)"
    and "st_delete (shared_binary_store S) w k = (w, write_error)"
    and "st_delete_many (shared_binary_store S) w ks = (w, write_error)"
    and "im_set (shared_imm_writer S) w k v = (w, write_error)"
    and "im_set_ref (shared_imm_writer S) w k v = (w, write_error)"
    and "im_set_many_ref (shared_imm_writer S) w items = (w, write_error)"
    and "im_set_many_vec (shared_imm_writer S) w items = (w, write_error)"
    and "im_set_many_split_ref (shared_imm_writer S) w ks vs = (w, write_error)"
    and "im_delete (shared_imm_writer S) w k = (w, write_error)"
    and "im_delete_many (shared_imm_writer S) w ks = (w, write_error)"
  by (simp_all add: shared_binary_store_def shared_imm_writer_def busy_writing[OF assms])

text \<open>Every read fails under a write guard or after a panic, and otherwise is the read of the store inside.\<close>

lemma reads_meet_guard:
  "st_get_exact_if_exists (shared_binary_store S) w k =
     (if rw_writer w \<or> rw_poisoned w then read_error else st_get_exact_if_exists S (rw_inner w) k)"
  "st_get_exact (shared_binary_store S) w k =
     (if rw_writer w \<or> rw_poisoned w then read_error else st_get_exact S (rw_inner w) k)"
  "st_get_many_exact (shared_binary_store S) w ks =
     (if rw_writer w \<or> rw_poisoned w then read_error else st_get_many_exact S (rw_inner w) ks)"
  "st_get_leq (shared_binary_store S) w k n =
     (if rw_writer w \<or> rw_poisoned w then read_error else st_get_leq S (rw_inner w) k n)"
  "st_get_leq_kv (shared_binary_store S) w k n =
     (if rw_writer w \<or> rw_poisoned w then read_error else st_get_leq_kv S (rw_inner w) k n)"
  "st_get_fuzzy_range_leq_kv (shared_binary_store S) w k n =
     (if rw_writer w \<or> rw_poisoned w then read_error else st_get_fuzzy_range_leq_kv S (rw_inner w) k n)"
  "st_get_many_leq (shared_binary_store S) w ks n =
     (if rw_writer w \<or> rw_poisoned w then read_error else st_get_many_leq S (rw_inner w) ks n)"
  "st_get_many_leq_kv (shared_binary_store S) w ks n =
     (if rw_writer w \<or> rw_poisoned w then read_error else st_get_many_leq_kv S (rw_inner w) ks n)"
  by (simp_all add: shared_binary_store_def writer_reading unwritten_reading del: de_Morgan_disj)

lemma not_busy_iff: "\<not> busy w \<longleftrightarrow> unlocked w"
  by (auto simp: busy_def unlocked_def)

lemma lock_step_wf: "lock_step w e w' \<Longrightarrow> lock_wf w \<Longrightarrow> lock_wf w'"
  by (cases e) (auto simp: lock_wf_def shared_read_def shared_write_def writing_def split: if_splits prod.splits)

lemma lock_path_wf: "lock_path w es w' \<Longrightarrow> lock_wf w \<Longrightarrow> lock_wf w'"
  by (induction rule: lock_path.induct) (auto dest: lock_step_wf)

lemma shared_new_wf: "lock_wf (shared_new s)"
  by (simp add: lock_wf_def shared_new_def)

abbreviation drops_write :: "'s lock_event list \<Rightarrow> bool" where
  "drops_write es \<equiv> \<exists>s p. DropWrite s p \<in> set es"

lemma write_guard_step:
  "lock_step w e w' \<Longrightarrow> rw_writer w \<Longrightarrow> \<forall>s p. e \<noteq> DropWrite s p \<Longrightarrow> lock_wf w \<Longrightarrow>
   rw_writer w' \<and> rw_inner w' = rw_inner w"
  by (cases e) (auto simp: lock_wf_def shared_read_def busy_writing busy_def)

lemma write_guard_isolates:
  "lock_path w es w' \<Longrightarrow> lock_wf w \<Longrightarrow> rw_writer w \<Longrightarrow> \<not> drops_write es \<Longrightarrow> rw_writer w' \<and> rw_inner w' = rw_inner w"
proof (induction rule: lock_path.induct)
  case (path_step w e w1 es w')
  from write_guard_step[OF path_step.hyps(1) path_step.prems(2) _ path_step.prems(1)] path_step.prems(3)
  have "rw_writer w1 \<and> rw_inner w1 = rw_inner w" by auto
  with path_step.IH lock_step_wf[OF path_step.hyps(1) path_step.prems(1)] path_step.prems(3) show ?case by auto
qed simp

lemma read_guard_step:
  "lock_step w e w' \<Longrightarrow> 0 < rw_readers w \<Longrightarrow> lock_wf w \<Longrightarrow>
   rw_inner w' = rw_inner w \<and> rw_readers w \<le> rw_readers w' + (if e = DropRead then 1 else 0)"
  by (cases e) (auto simp: lock_wf_def busy_writing busy_def)

lemma read_guard_isolates:
  "lock_path w es w' \<Longrightarrow> lock_wf w \<Longrightarrow> count_list es DropRead < rw_readers w \<Longrightarrow> rw_inner w' = rw_inner w"
proof (induction rule: lock_path.induct)
  case (path_step w e w1 es w')
  have "0 < rw_readers w" using path_step.prems(2) by (rule le_less_trans[rotated]) simp
  from read_guard_step[OF path_step.hyps(1) this path_step.prems(1)]
  have "rw_inner w1 = rw_inner w" "count_list es DropRead < rw_readers w1"
    using path_step.prems(2) by (auto split: if_splits)
  with path_step.IH lock_step_wf[OF path_step.hyps(1) path_step.prems(1)] show ?case by simp
qed simp

section \<open>Properties\<close>

text \<open>
  Claim C39. A lawful store behind the lock is a lawful store again while nothing else holds the
  lock. However guards are taken and released by others: each of the seven updates, through the
  mutable and through the immutable interface, that meets a read or write guard or a poisoned lock
  returns the write error and changes nothing; each of the eight reads that meets a write guard or a
  poisoned lock returns the read error, and otherwise, under read guards too, answers what the store
  inside answers; and the content stays as it is while a guard is held.
\<close>

theorem shared_store_isolated:
  assumes "kvq_range_store S I V" and "lock_path (shared_new s) es w"
  shows "kvq_range_store (shared_binary_store S) (shared_inv I) (shared_view V)
    \<and> (unlocked w \<or> (\<forall>k v items ks vs.
         st_set (shared_binary_store S) w k v = (w, write_error)
       \<and> st_set_ref (shared_binary_store S) w k v = (w, write_error)
       \<and> st_set_many_ref (shared_binary_store S) w items = (w, write_error)
       \<and> st_set_many_vec (shared_binary_store S) w items = (w, write_error)
       \<and> st_set_many_split_ref (shared_binary_store S) w ks vs = (w, write_error)
       \<and> st_delete (shared_binary_store S) w k = (w, write_error)
       \<and> st_delete_many (shared_binary_store S) w ks = (w, write_error)
       \<and> im_set (shared_imm_writer S) w k v = (w, write_error)
       \<and> im_set_ref (shared_imm_writer S) w k v = (w, write_error)
       \<and> im_set_many_ref (shared_imm_writer S) w items = (w, write_error)
       \<and> im_set_many_vec (shared_imm_writer S) w items = (w, write_error)
       \<and> im_set_many_split_ref (shared_imm_writer S) w ks vs = (w, write_error)
       \<and> im_delete (shared_imm_writer S) w k = (w, write_error)
       \<and> im_delete_many (shared_imm_writer S) w ks = (w, write_error)))
    \<and> (let shut = rw_writer w \<or> rw_poisoned w; T = shared_binary_store S; c = rw_inner w in \<forall>k ks n.
         st_get_exact_if_exists T w k = (if shut then read_error else st_get_exact_if_exists S c k)
       \<and> st_get_exact T w k = (if shut then read_error else st_get_exact S c k)
       \<and> st_get_many_exact T w ks = (if shut then read_error else st_get_many_exact S c ks)
       \<and> st_get_leq T w k n = (if shut then read_error else st_get_leq S c k n)
       \<and> st_get_leq_kv T w k n = (if shut then read_error else st_get_leq_kv S c k n)
       \<and> st_get_fuzzy_range_leq_kv T w k n = (if shut then read_error else st_get_fuzzy_range_leq_kv S c k n)
       \<and> st_get_many_leq T w ks n = (if shut then read_error else st_get_many_leq S c ks n)
       \<and> st_get_many_leq_kv T w ks n = (if shut then read_error else st_get_many_leq_kv S c ks n))
    \<and> (\<forall>es' w'. lock_path w es' w' \<and> (rw_writer w \<and> \<not> drops_write es' \<or> count_list es' DropRead < rw_readers w)
         \<longrightarrow> rw_inner w' = rw_inner w)"
proof (intro conjI)
  have wf: "lock_wf w" by (rule lock_path_wf[OF assms(2) shared_new_wf])
  show "kvq_range_store (shared_binary_store S) (shared_inv I) (shared_view V)"
    using assms(1) by (intro locked_store.shared_contract locked_store.intro)
  show "\<forall>es' w'. lock_path w es' w' \<and> (rw_writer w \<and> \<not> drops_write es' \<or> count_list es' DropRead < rw_readers w)
      \<longrightarrow> rw_inner w' = rw_inner w"
    using wf write_guard_isolates read_guard_isolates by blast
qed (use updates_meet_guard[of w S] not_busy_iff[of w] in blast, simp only: Let_def reads_meet_guard simp_thms)

theorem shared_store_isolated_witness:
  "\<exists>w w2. lock_path (shared_new []) [TakeRead, TakeRead, WriteCall (\<lambda>s. simple_set s [1] [2]), DropRead] w
     \<and> st_set_many_vec (shared_binary_store simple_binary_store) w [mk_pair ([1], [2])] = (w, write_error)
     \<and> im_delete (shared_imm_writer simple_binary_store) w [1] = (w, write_error)
     \<and> st_get_exact_if_exists (shared_binary_store simple_binary_store) w [1] = Inr None
     \<and> (\<forall>w'. lock_path w [WriteCall (\<lambda>s. simple_set s [3] [4]), TakeRead] w' \<longrightarrow> rw_inner w' = [])
     \<and> lock_path (shared_new []) [TakeWrite] w2
     \<and> st_get_leq_kv (shared_binary_store simple_binary_store) w2 [1] 0 = read_error"
proof -
  let ?w = "(shared_new [] :: simple_store rw_lock)\<lparr>rw_readers := 1\<rparr>"
  let ?w2 = "(shared_new [] :: simple_store rw_lock)\<lparr>rw_writer := True\<rparr>"
  have path: "lock_path (shared_new []) [TakeRead, TakeRead, WriteCall (\<lambda>s. simple_set s [1] [2]), DropRead] ?w"
    by (intro path_step[OF take_read] path_step[OF write_call] path_step[OF drop_read])
      (simp_all add: shared_new_def shared_read_def writing_def shared_write_def path_nil)
  have path2: "lock_path (shared_new []) [TakeWrite] ?w2"
    by (intro path_step[OF take_write]) (simp_all add: shared_new_def shared_write_def path_nil)
  have u: "\<not> unlocked ?w" "\<not> (rw_writer ?w \<or> rw_poisoned ?w)" "rw_inner ?w = []"
    by (simp_all add: unlocked_def shared_new_def)
  note iso = shared_store_isolated[OF simple.kvq_range_store_axioms path, unfolded Let_def]
  note iso2 = shared_store_isolated[OF simple.kvq_range_store_axioms path2, unfolded Let_def]
  have "st_set_many_vec (shared_binary_store simple_binary_store) ?w [mk_pair ([1], [2])] = (?w, write_error)"
    "im_delete (shared_imm_writer simple_binary_store) ?w [1] = (?w, write_error)"
    using iso u(1) by blast+
  moreover have "st_get_exact_if_exists (shared_binary_store simple_binary_store) ?w [1]
      = st_get_exact_if_exists simple_binary_store (rw_inner ?w) [1]"
    using iso u(2) by simp
  moreover have "rw_inner w' = []" if "lock_path ?w [WriteCall (\<lambda>s. simple_set s [3] [4]), TakeRead] w'" for w'
  proof -
    have "count_list [WriteCall (\<lambda>s. simple_set s [3] [4]), TakeRead] DropRead < rw_readers ?w" by simp
    with iso that have "rw_inner w' = rw_inner ?w" by blast
    then show ?thesis by (simp only: u(3))
  qed
  moreover have "st_get_leq_kv (shared_binary_store simple_binary_store) ?w2 [1] 0 = read_error"
    using iso2 by simp
  ultimately show ?thesis using path path2 u(3)
    by (intro exI[of _ ?w] exI[of _ ?w2]) (simp add: simple_binary_store_def simple_get_exact_if_exists_def)
qed

end
