(* ===== verification/Evidence.thy ===== *)
theory Evidence
  imports Recovery "HOL-Library.Char_ord"
begin

text \<open>
  The audit files of a committed block (\<open>persist_evidence\<close>, \<open>write_evidence_manifest\<close>, \<open>write_atomic\<close>,
  \<open>artifact_bundle_sha256\<close> in \<open>block_pipeline.rs\<close>): the inputs and outputs of the proof are written to
  a directory named after the height and the hash of the contents, a manifest is written there, and
  \<open>latest.json\<close> is replaced by it.

  The world is a file system, a map from path texts to contents. A write that is cut short leaves a
  prefix of the new contents, a rename is atomic. \<open>serde_json\<close>, and the text form of a public
  key, are parameters.
\<close>

section \<open>Paths and files\<close>

text \<open>\<open>Path::join\<close> with a relative name, on the text of the path.\<close>

definition join :: "string \<Rightarrow> string \<Rightarrow> string" where
  "join a b = a @ ''/'' @ b"

definition absolute_path :: "string res \<Rightarrow> string \<Rightarrow> string res" where
  "absolute_path current_dir path =
     (if path \<noteq> [] \<and> hd path = CHR ''/'' then Inr path
      else and_then current_dir (\<lambda>cwd. Inr (join cwd path)))"

definition file_name :: "string \<Rightarrow> string" where
  "file_name path = rev (takeWhile (\<lambda>c. c \<noteq> CHR ''/'') (rev path))"

definition file_stem :: "string \<Rightarrow> string" where
  "file_stem name =
     (if CHR ''.'' \<in> set (tl name) then rev (tl (dropWhile (\<lambda>c. c \<noteq> CHR ''.'') (rev name))) else name)"

definition with_extension :: "string \<Rightarrow> string \<Rightarrow> string" where
  "with_extension path ext =
     take (length path - length (file_name path)) path @ file_stem (file_name path) @ ''.'' @ ext"

definition parent_dir :: "string \<Rightarrow> string" where
  "parent_dir path = take (length path - length (file_name path) - 1) path"

record fs =
  fs_files :: "string \<Rightarrow> bytes option"
  fs_dirs :: "string list"

definition create_dir_all :: "string \<Rightarrow> (fs, unit) io" where
  "create_dir_all dir = effect (\<lambda>w. w\<lparr>fs_dirs := dir # fs_dirs w\<rparr>) (\<lambda>_. ())"

definition put_file :: "string \<Rightarrow> bytes \<Rightarrow> fs \<Rightarrow> fs" where
  "put_file path bs w = w\<lparr>fs_files := (fs_files w)(path \<mapsto> bs)\<rparr>"

definition write_file :: "string \<Rightarrow> bytes \<Rightarrow> (fs, unit) io" where
  "write_file path bs = (\<lambda>(fates, w).
     case fates of
       [] \<Rightarrow> (([], w), Inl (Panic ''killed''))
     | Applied # rest \<Rightarrow> ((rest, put_file path bs w), Inr ())
     | Late # rest \<Rightarrow> ((rest, put_file path bs w), Inl (Err ''answer lost''))
     | Lost # rest \<Rightarrow> ((rest, w), Inl (Err ''operation failed''))
     | Partial n # rest \<Rightarrow> ((rest, put_file path (take n bs) w), Inl (Err ''write cut short'')))"

definition rename_file :: "string \<Rightarrow> string \<Rightarrow> (fs, unit) io" where
  "rename_file a b =
     effect (\<lambda>w. w\<lparr>fs_files := (fs_files w)(b := fs_files w a, a := None)\<rparr>) (\<lambda>_. ())"

definition write_atomic :: "nat \<Rightarrow> string \<Rightarrow> bytes \<Rightarrow> (fs, unit) io" where
  "write_atomic pid path bs =
     io_then (create_dir_all (parent_dir path)) (\<lambda>_.
     let temporary = with_extension path (''tmp-'' @ nat_str pid) in
     io_then (write_file temporary bs) (\<lambda>_.
     rename_file temporary path))"

section \<open>The manifest\<close>

record evidence_artifact =
  ea_path :: string
  ea_sha256 :: string
  ea_size :: u64

record prover_inputs_evidence =
  pi_schema_version :: u32
  pi_height :: u32
  pi_block_hash :: string
  pi_custody_script_config :: string
  pi_recipient_atas :: "string list"
  pi_required_confirmations :: u32
  pi_flat_fee :: u64
  pi_fee_num :: u64
  pi_fee_den :: u64
  pi_config_params :: string
  pi_custodian_hash :: string
  pi_expected_vk_hash :: string
  pi_gen_proof_path :: string
  pi_block_elf_source_path :: string
  pi_old_state_sha256 :: string
  pi_witness_sha256 :: string
  pi_old_header_sha256 :: string
  pi_new_header_sha256 :: string

record block_proof_evidence =
  be_schema_version :: u32
  be_status :: string
  be_height :: u32
  be_block_hash :: string
  be_finalized_source_height :: u32
  be_source_witness_height :: u32
  be_witness_deposit_count :: u32
  be_witness_minted_amount_sats :: u64
  be_deposit_count :: u32
  be_minted_amount_sats :: u64
  be_auto_claim_start_index :: u32
  be_auto_claim_end_index :: u32
  be_fees_collected :: u64
  be_content_sha256 :: string
  be_manifest_sha256 :: string
  be_evidence_dir :: string
  be_manifest_path :: string
  be_latest_path :: string
  be_idempotency_key :: string
  be_mint_buffer :: "string option"
  be_mint_buffer_bump :: "u8 option"
  be_txo_buffer :: "string option"
  be_txo_buffer_bump :: "u8 option"
  be_buffer_upload_completed :: bool
  be_submission_signature :: "string option"
  be_mint_group_signatures :: "string list"
  be_mint_groups_processed :: nat
  be_total_mints_processed :: nat
  be_vk_hash :: string
  be_elf_sha256 :: string
  be_artifacts :: "(string, evidence_artifact) btree"

record evidence_serde =
  inputs_to_vec_pretty :: "prover_inputs_evidence \<Rightarrow> bytes res"
  mints_to_vec_pretty :: "pending_mint list \<Rightarrow> bytes res"
  indices_to_vec_pretty :: "u32 list \<Rightarrow> bytes res"
  manifest_to_vec :: "block_proof_evidence \<Rightarrow> bytes res"
  manifest_to_vec_pretty :: "block_proof_evidence \<Rightarrow> bytes res"
  manifest_from_slice :: "bytes \<Rightarrow> block_proof_evidence option"
  pubkey_to_string :: "bytes \<Rightarrow> string"

text \<open>What the configuration and the process add: the paths, the process id, the ELF.\<close>

record evidence_env =
  ev_dir :: string
  ev_gen_proof_path :: string
  ev_block_elf_path :: string
  ev_current_dir :: "string res"
  ev_pid :: nat
  ev_elf :: "bytes res"

definition evidence_schema_version :: u32 where
  "evidence_schema_version = 2"

definition artifact_commitment :: "crates \<Rightarrow> string \<times> bytes \<Rightarrow> bytes" where
  "artifact_commitment X a =
     to_le_bytes 4 (word_of_nat (length (fst a)) :: u32) @ str_bytes (fst a)
     @ to_le_bytes 8 (word_of_nat (length (snd a)) :: u64) @ sha256 X (snd a)"

definition artifact_bundle_sha256 :: "crates \<Rightarrow> (string \<times> bytes) list \<Rightarrow> string" where
  "artifact_bundle_sha256 X artifacts = sha256_hex X (concat (map (artifact_commitment X) artifacts))"

definition write_evidence_manifest :: "crates \<Rightarrow> evidence_serde \<Rightarrow> nat \<Rightarrow> block_proof_evidence \<Rightarrow> (fs, block_proof_evidence) io" where
  "write_evidence_manifest X Z pid manifest =
     (let manifest = manifest\<lparr>be_manifest_sha256 := ''''\<rparr> in
     io_then (io_lift (manifest_to_vec Z manifest)) (\<lambda>payload.
     let manifest = manifest\<lparr>be_manifest_sha256 := sha256_hex X payload\<rparr> in
     io_then (io_lift (manifest_to_vec_pretty Z manifest)) (\<lambda>bs.
     io_then (write_file (be_manifest_path manifest) bs) (\<lambda>_.
     io_then (write_atomic pid (be_latest_path manifest) bs) (\<lambda>_.
     io_lift (Inr manifest))))))"

section \<open>The artifacts\<close>

text \<open>\<open>str::trim_end_matches\<close> with a non-empty pattern.\<close>

definition strip_suffix :: "string \<Rightarrow> string \<Rightarrow> string option" where
  "strip_suffix pat s =
     (if length pat \<le> length s \<and> drop (length s - length pat) s = pat then Some (take (length s - length pat) s) else None)"

function trim_end_matches :: "string \<Rightarrow> string \<Rightarrow> string" where
  "trim_end_matches pat s =
     (if pat = [] then s else case strip_suffix pat s of None \<Rightarrow> s | Some rest \<Rightarrow> trim_end_matches pat rest)"
  by pat_completeness auto
termination
  by (relation "measure (\<lambda>(pat, s). length s)")
    (auto simp: strip_suffix_def neq_Nil_conv intro!: diff_less split: if_splits)

declare trim_end_matches.simps [simp del]

definition artifact_key :: "string \<Rightarrow> string" where
  "artifact_key filename =
     (if filename = ''pending_mints.bin'' then ''pending_mints''
      else if filename = ''pending_mints.json'' then ''pending_mints_json''
      else if filename = ''txo_indices.bin'' then ''txo_indices''
      else if filename = ''txo_indices.json'' then ''txo_indices_json''
      else trim_end_matches ''.json'' (trim_end_matches ''.txt'' (trim_end_matches ''.bin'' filename)))"

definition artifact_entry :: "crates \<Rightarrow> string \<Rightarrow> bytes \<Rightarrow> evidence_artifact" where
  "artifact_entry X path bs = \<lparr>ea_path = path, ea_sha256 = sha256_hex X bs, ea_size = word_of_nat (length bs)\<rparr>"

fun write_artifacts ::
  "crates \<Rightarrow> string \<Rightarrow> (string \<times> bytes) list \<Rightarrow> (string, evidence_artifact) btree
     \<Rightarrow> (fs, (string, evidence_artifact) btree) io" where
  "write_artifacts X dir [] artifacts = io_lift (Inr artifacts)"
| "write_artifacts X dir ((filename, bs) # rest) artifacts =
     io_then (write_file (join dir filename) bs) (\<lambda>_.
     write_artifacts X dir rest
       (bt_insert (artifact_key filename) (artifact_entry X (join dir filename) bs) artifacts))"

text \<open>The arguments of \<open>persist_evidence\<close>.\<close>

record evidence_args =
  ag_height :: u32
  ag_finalized_source_height :: u32
  ag_idempotency_key :: string
  ag_old_state :: bytes
  ag_witness :: bytes
  ag_old_header :: bytes
  ag_new_header :: bytes
  ag_proof :: bytes
  ag_public_values :: bytes
  ag_prover_output :: prover_output
  ag_evaluation :: claim_evaluation
  ag_finalized_buffers :: buffer_commitment
  ag_uploaded_buffers :: "uploaded_buffers option"
  ag_submission_signature :: "string option"
  ag_mint_processing :: "mint_processing_evidence option"

definition prover_inputs ::
  "('st, 'b, 'j) deps \<Rightarrow> pipeline_config \<Rightarrow> evidence_env \<Rightarrow> evidence_args \<Rightarrow> bytes \<Rightarrow> prover_inputs_evidence res" where
  "prover_inputs D config env a tip_hash =
     (let X = d_crates D in
     and_then (config_fees config) (\<lambda>fs.
     and_then (absolute_path (ev_current_dir env) (ev_gen_proof_path env)) (\<lambda>gen_proof_path.
     and_then (absolute_path (ev_current_dir env) (ev_block_elf_path env)) (\<lambda>block_elf_path.
     Inr \<lparr>pi_schema_version = evidence_schema_version, pi_height = ag_height a,
          pi_block_hash = hex_encode X tip_hash,
          pi_custody_script_config = hex_encode X (cfg_custody_script_config config),
          pi_recipient_atas = map (hex_encode X) (cfg_recipient_atas config),
          pi_required_confirmations = cfg_required_confirmations config, pi_flat_fee = fee_flat fs,
          pi_fee_num = fee_num fs, pi_fee_den = fee_den fs,
          pi_config_params = hex_encode X (cfg_config_params config),
          pi_custodian_hash = hex_encode X
            (custodian_hash (d_chain D) (cfg_network config) (cfg_custody_script_config config)),
          pi_expected_vk_hash = hex_encode X (cfg_expected_vk_hash config),
          pi_gen_proof_path = gen_proof_path, pi_block_elf_source_path = block_elf_path,
          pi_old_state_sha256 = sha256_hex X (ag_old_state a), pi_witness_sha256 = sha256_hex X (ag_witness a),
          pi_old_header_sha256 = sha256_hex X (ag_old_header a),
          pi_new_header_sha256 = sha256_hex X (ag_new_header a)\<rparr>))))"

definition artifact_list ::
  "evidence_args \<Rightarrow> bytes \<Rightarrow> bytes \<Rightarrow> bytes \<Rightarrow> bytes \<Rightarrow> (string \<times> bytes) list" where
  "artifact_list a elf inputs_json pending_mints_json txo_indices_json =
     [(''old_state.bin'', ag_old_state a),
      (''witness.bin'', ag_witness a),
      (''old_header.bin'', ag_old_header a),
      (''new_header.bin'', ag_new_header a),
      (''proof.bin'', ag_proof a),
      (''public_values.bin'', ag_public_values a),
      (''prover_stdout.txt'', po_stdout (ag_prover_output a)),
      (''prover_stderr.txt'', po_stderr (ag_prover_output a)),
      (''vk.bin'', po_vk_hash (ag_prover_output a)),
      (''elf.bin'', elf),
      (''inputs.json'', inputs_json),
      (''pending_mints.bin'', serialize_pending_mint_payloads (bc_pending_mints (ag_finalized_buffers a))),
      (''pending_mints.json'', pending_mints_json),
      (''txo_indices.bin'', serialize_txo_indices (bc_txo_indices (ag_finalized_buffers a))),
      (''txo_indices.json'', txo_indices_json)]"

definition evidence_status :: "evidence_args \<Rightarrow> string" where
  "evidence_status a =
     (if ag_mint_processing a \<noteq> None then ''minted''
      else if ag_submission_signature a \<noteq> None then ''submitted''
      else if ag_uploaded_buffers a \<noteq> None then ''buffers_uploaded''
      else ''proof_generated'')"

definition evidence_manifest ::
  "crates \<Rightarrow> evidence_serde \<Rightarrow> evidence_args \<Rightarrow> bytes \<Rightarrow> bytes \<Rightarrow> string \<Rightarrow> string \<Rightarrow> string
     \<Rightarrow> (string, evidence_artifact) btree \<Rightarrow> block_proof_evidence" where
  "evidence_manifest X Z a elf tip_hash content_sha256 dir root artifacts =
     (let finalized = ag_finalized_buffers a; uploaded = ag_uploaded_buffers a; minted = ag_mint_processing a in
     \<lparr>be_schema_version = evidence_schema_version, be_status = evidence_status a, be_height = ag_height a,
      be_block_hash = hex_encode X tip_hash, be_finalized_source_height = ag_finalized_source_height a,
      be_source_witness_height = ag_height a, be_witness_deposit_count = ce_deposit_count (ag_evaluation a),
      be_witness_minted_amount_sats = ce_minted_sats (ag_evaluation a), be_deposit_count = bc_deposit_count finalized,
      be_minted_amount_sats = bc_minted_sats finalized, be_auto_claim_start_index = bc_claim_start finalized,
      be_auto_claim_end_index = bc_claim_end finalized, be_fees_collected = bc_fees finalized,
      be_content_sha256 = content_sha256, be_manifest_sha256 = '''', be_evidence_dir = dir,
      be_manifest_path = join dir ''manifest.json'', be_latest_path = join root ''latest.json'',
      be_idempotency_key = ag_idempotency_key a,
      be_mint_buffer = map_option (pubkey_to_string Z \<circ> ub_mint_buffer) uploaded,
      be_mint_buffer_bump = map_option ub_mint_buffer_bump uploaded,
      be_txo_buffer = map_option (pubkey_to_string Z \<circ> ub_txo_buffer) uploaded,
      be_txo_buffer_bump = map_option ub_txo_buffer_bump uploaded,
      be_buffer_upload_completed = (uploaded \<noteq> None), be_submission_signature = ag_submission_signature a,
      be_mint_group_signatures = (case minted of Some e \<Rightarrow> me_signatures e | None \<Rightarrow> []),
      be_mint_groups_processed = (case minted of Some e \<Rightarrow> me_groups_processed e | None \<Rightarrow> 0),
      be_total_mints_processed = (case minted of Some e \<Rightarrow> me_total_mints_processed e | None \<Rightarrow> 0),
      be_vk_hash = hex_encode X (po_vk_hash (ag_prover_output a)), be_elf_sha256 = sha256_hex X elf,
      be_artifacts = artifacts\<rparr>)"

definition evidence_path :: "string \<Rightarrow> u32 \<Rightarrow> string \<Rightarrow> string" where
  "evidence_path root height content_sha256 = join (join root (''height-'' @ nat_str (unat height))) content_sha256"

definition persist_evidence ::
  "('st, 'b, 'j) deps \<Rightarrow> evidence_serde \<Rightarrow> evidence_env \<Rightarrow> pipeline_config \<Rightarrow> evidence_args
     \<Rightarrow> (fs, block_proof_evidence) io" where
  "persist_evidence D Z env config a =
     (let X = d_crates D in
     io_then (io_lift (ev_elf env)) (\<lambda>elf.
     if elf = [] then io_lift (Inl (Err ''block-transition ELF is empty''))
     else
     io_then (io_lift (slice (ag_new_header a) (fst sol_tip_block_hash) (snd sol_tip_block_hash))) (\<lambda>tip_hash.
     io_then (io_lift (prover_inputs D config env a tip_hash)) (\<lambda>inputs.
     io_then (io_lift (inputs_to_vec_pretty Z inputs)) (\<lambda>inputs_json.
     io_then (io_lift (mints_to_vec_pretty Z (bc_pending_mints (ag_finalized_buffers a)))) (\<lambda>pending_mints_json.
     io_then (io_lift (indices_to_vec_pretty Z (bc_txo_indices (ag_finalized_buffers a)))) (\<lambda>txo_indices_json.
     let artifact_bytes = artifact_list a elf inputs_json pending_mints_json txo_indices_json;
         content_sha256 = artifact_bundle_sha256 X artifact_bytes
     in
     io_then (io_lift (absolute_path (ev_current_dir env) (ev_dir env))) (\<lambda>root.
     let dir = evidence_path root (ag_height a) content_sha256 in
     io_then (create_dir_all dir) (\<lambda>_.
     io_then (write_artifacts X dir artifact_bytes []) (\<lambda>artifacts.
     write_evidence_manifest X Z (ev_pid env)
       (evidence_manifest X Z a elf tip_hash content_sha256 dir root artifacts)))))))))))"

text \<open>What \<open>commit_prepared\<close> adds to the manifest when the mints are paid.\<close>

definition minted_manifest :: "block_proof_evidence \<Rightarrow> string \<Rightarrow> mint_processing_evidence \<Rightarrow> block_proof_evidence" where
  "minted_manifest evidence signature mp =
     evidence\<lparr>be_status := ''minted'', be_submission_signature := Some signature,
       be_mint_group_signatures := me_signatures mp, be_mint_groups_processed := me_groups_processed mp,
       be_total_mints_processed := me_total_mints_processed mp\<rparr>"

definition evidence_minted ::
  "crates \<Rightarrow> evidence_serde \<Rightarrow> nat \<Rightarrow> block_proof_evidence \<Rightarrow> string \<Rightarrow> mint_processing_evidence
     \<Rightarrow> (fs, block_proof_evidence) io" where
  "evidence_minted X Z pid evidence signature mp = write_evidence_manifest X Z pid (minted_manifest evidence signature mp)"


section \<open>The content hash\<close>

lemma le32_inj: "to_le_bytes 4 v = to_le_bytes 4 w \<longleftrightarrow> v = (w :: u32)"
  by (metis u32_le_roundtrip)

lemma le64_inj: "to_le_bytes 8 v = to_le_bytes 8 w \<longleftrightarrow> v = (w :: u64)"
  by (metis u64_le_roundtrip)

definition measurable :: "string \<times> bytes \<Rightarrow> bool" where
  "measurable a \<longleftrightarrow> length (fst a) < 2 ^ 32 \<and> length (snd a) < 2 ^ 64"

lemma artifact_commitment_inj:
  assumes "hash_laws X" and "\<nexists>u v. u \<noteq> v \<and> sha256 X u = sha256 X v"
    and "measurable a" and "measurable b" and "artifact_commitment X a @ x = artifact_commitment X b @ y"
  shows "a = b \<and> x = y"
proof -
  have split: "to_le_bytes 4 (word_of_nat (length (fst a)) :: u32) = to_le_bytes 4 (word_of_nat (length (fst b)) :: u32)"
    "str_bytes (fst a) @ to_le_bytes 8 (word_of_nat (length (snd a)) :: u64) @ sha256 X (snd a) @ x
     = str_bytes (fst b) @ to_le_bytes 8 (word_of_nat (length (snd b)) :: u64) @ sha256 X (snd b) @ y"
    using assms(5) by (simp_all add: artifact_commitment_def append_eq_append_conv)
  have "length (fst a) = length (fst b)"
    using arg_cong[OF split(1)[unfolded le32_inj], of unat] assms(3,4)
    by (simp add: measurable_def unat_of_nat)
  then have "length (str_bytes (fst a)) = length (str_bytes (fst b))" by (simp add: str_bytes_def)
  then have n: "fst a = fst b"
    and rest: "to_le_bytes 8 (word_of_nat (length (snd a)) :: u64) @ sha256 X (snd a) @ x
      = to_le_bytes 8 (word_of_nat (length (snd b)) :: u64) @ sha256 X (snd b) @ y"
    using split(2) by (simp_all add: append_eq_append_conv str_bytes_inj)
  then have "sha256 X (snd a) = sha256 X (snd b)" "x = y"
    using assms(1) by (simp_all add: append_eq_append_conv hash_laws_def)
  with assms(2) n show ?thesis by (metis prod.expand)
qed

lemma artifact_commitments_inj:
  assumes "hash_laws X" and "\<nexists>u v. u \<noteq> v \<and> sha256 X u = sha256 X v"
  shows "list_all measurable as \<Longrightarrow> list_all measurable bs \<Longrightarrow>
    concat (map (artifact_commitment X) as) = concat (map (artifact_commitment X) bs) \<Longrightarrow> as = bs"
proof (induction as arbitrary: bs)
  case Nil
  have "artifact_commitment X a \<noteq> []" for a
    by (metis append_is_Nil_conv artifact_commitment_def length_to_le_bytes list.size(3) zero_neq_numeral)
  with Nil show ?case by (cases bs) simp_all
next
  case (Cons a as)
  have "artifact_commitment X a @ rest \<noteq> []" for rest
    by (metis append_is_Nil_conv artifact_commitment_def length_to_le_bytes list.size(3) zero_neq_numeral)
  with Cons.prems obtain b bs' where bs: "bs = b # bs'" by (cases bs) auto
  from artifact_commitment_inj[OF assms, of a b "concat (map (artifact_commitment X) as)" "concat (map (artifact_commitment X) bs')"]
    Cons.prems have "a = b" "concat (map (artifact_commitment X) as) = concat (map (artifact_commitment X) bs')"
    by (simp_all add: bs)
  with Cons.IH Cons.prems bs show ?case by simp
qed

lemma bundle_binds_artifacts:
  assumes "hex_laws X" and "hash_laws X" and "list_all measurable as" and "list_all measurable bs"
    and "artifact_bundle_sha256 X as = artifact_bundle_sha256 X bs"
  shows "as = bs \<or> (\<exists>u v. u \<noteq> v \<and> sha256 X u = sha256 X v)"
proof (rule disjCI)
  assume nc: "\<nexists>u v. u \<noteq> v \<and> sha256 X u = sha256 X v"
  from assms(1,5) nc have "concat (map (artifact_commitment X) as) = concat (map (artifact_commitment X) bs)"
    unfolding artifact_bundle_sha256_def sha256_hex_def by (metis hex_encode_inj)
  with artifact_commitments_inj[OF assms(2) nc assms(3,4)] show "as = bs" .
qed

section \<open>What is on disk\<close>

lemma keeps_write_file [keeps_rules]:
  assumes "\<And>w. P w \<Longrightarrow> I w" and "\<And>w n. P w \<Longrightarrow> I (put_file path (take n bs) w)"
    and "\<And>w. P w \<Longrightarrow> Q () (put_file path bs w)"
  shows "keeps I P (write_file path bs) Q"
  using assms(1,3) assms(2)[of _ "length bs"] assms(2)
  unfolding keeps_def write_file_def by (auto split: list.splits fate.splits)

lemma fs_files_put [simp]: "fs_files (put_file path bs w) = (fs_files w)(path \<mapsto> bs)"
  by (simp add: put_file_def)

lemma with_extension_latest: "with_extension (join root ''latest.json'') ext = join root (''latest.'' @ ext)"
  by (simp add: with_extension_def file_name_def file_stem_def join_def)

definition signed :: "crates \<Rightarrow> evidence_serde \<Rightarrow> block_proof_evidence \<Rightarrow> bool" where
  "signed X Z m \<longleftrightarrow> (\<exists>payload. manifest_to_vec Z (m\<lparr>be_manifest_sha256 := ''''\<rparr>) = Inr payload
     \<and> be_manifest_sha256 m = sha256_hex X payload)"

definition artifacts_of :: "crates \<Rightarrow> string \<Rightarrow> (string \<times> bytes) list \<Rightarrow> (string, evidence_artifact) btree" where
  "artifacts_of X dir arts =
     fold (\<lambda>(n, b). bt_insert (artifact_key n) (artifact_entry X (join dir n) b)) arts []"

text \<open>Every artifact a manifest lists is stored as the manifest says.\<close>

definition listed_stored :: "crates \<Rightarrow> block_proof_evidence \<Rightarrow> fs \<Rightarrow> bool" where
  "listed_stored X m w \<longleftrightarrow>
     (\<forall>k e. bt_get (be_artifacts m) k = Some e \<longrightarrow>
        (\<exists>b. fs_files w (ea_path e) = Some b \<and> ea_sha256 e = sha256_hex X b \<and> ea_size e = word_of_nat (length b)))"

definition stored :: "string \<Rightarrow> (string \<times> bytes) set \<Rightarrow> fs \<Rightarrow> bool" where
  "stored dir S w \<longleftrightarrow> (\<forall>(n, b) \<in> S. fs_files w (join dir n) = Some b)"

lemma write_artifacts_keeps:
  assumes "distinct (map fst arts)" and "fst ` S \<inter> set (map fst arts) = {}"
    and K: "\<And>w n b. n \<in> set (map fst arts) \<Longrightarrow> K w \<Longrightarrow> K (put_file (join dir n) b w)"
  shows "keeps K (\<lambda>w. K w \<and> stored dir S w) (write_artifacts X dir arts acc)
    (\<lambda>r w. (K w \<and> stored dir (S \<union> set arts) w)
       \<and> r = fold (\<lambda>(n, b). bt_insert (artifact_key n) (artifact_entry X (join dir n) b)) arts acc)"
  using assms
proof (induction arts arbitrary: S acc)
  case Nil
  then show ?case by (auto intro!: keeps_lift)
next
  case (Cons a arts)
  obtain n b where a: "a = (n, b)" by (cases a)
  have "keeps K (\<lambda>w. K w \<and> stored dir (insert (n, b) S) w)
      (write_artifacts X dir arts (bt_insert (artifact_key n) (artifact_entry X (join dir n) b) acc))
      (\<lambda>r w. (K w \<and> stored dir (S \<union> set (a # arts)) w) \<and> r = fold (\<lambda>(n, b). bt_insert (artifact_key n) (artifact_entry X (join dir n) b))
         (a # arts) acc)"
    using Cons.IH[of "insert (n, b) S" "bt_insert (artifact_key n) (artifact_entry X (join dir n) b) acc"] Cons.prems
    by (simp add: a)
  moreover have "keeps K (\<lambda>w. K w \<and> stored dir S w) (write_file (join dir n) b) (\<lambda>_ w. K w \<and> stored dir (insert (n, b) S) w)"
  proof (rule keeps_write_file)
    fix w m assume w: "K w \<and> stored dir S w"
    then show "K w" "K (put_file (join dir n) (take m b) w)" using Cons.prems(3)[of n] by (simp_all add: a)
    have "n \<notin> fst ` S" using Cons.prems(2) by (auto simp: a)
    with w show "K (put_file (join dir n) b w) \<and> stored dir (insert (n, b) S) (put_file (join dir n) b w)"
      using Cons.prems(3)[of n] by (auto simp: a stored_def join_def rev_image_eqI)
  qed
  ultimately show ?case unfolding a write_artifacts.simps by (intro keeps_then)
qed


section \<open>Interruptions\<close>

text \<open>The files a run may touch: those of its directory, \<open>latest.json\<close> and the temporary file.\<close>

definition latest_path :: "string \<Rightarrow> string" where
  "latest_path root = join root ''latest.json''"

definition temporary_path :: "string \<Rightarrow> nat \<Rightarrow> string" where
  "temporary_path root pid = join root (''latest.'' @ ''tmp-'' @ nat_str pid)"

definition untouched :: "string \<Rightarrow> string \<Rightarrow> nat \<Rightarrow> fs \<Rightarrow> fs \<Rightarrow> bool" where
  "untouched dir root pid w0 w \<longleftrightarrow>
     (\<forall>p. p \<noteq> latest_path root \<and> p \<noteq> temporary_path root pid \<and> (\<nexists>rest. p = join dir rest) \<longrightarrow> fs_files w p = fs_files w0 p)"

text \<open>\<open>latest.json\<close> is a complete manifest, and everything it lists is stored.\<close>

definition latest_is :: "crates \<Rightarrow> evidence_serde \<Rightarrow> string \<Rightarrow> block_proof_evidence \<Rightarrow> fs \<Rightarrow> bool" where
  "latest_is X Z root m w \<longleftrightarrow>
     (\<exists>bs. manifest_to_vec_pretty Z m = Inr bs \<and> fs_files w (latest_path root) = Some bs
       \<and> fs_files w (be_manifest_path m) = Some bs)
     \<and> signed X Z m \<and> listed_stored X m w"

lemma paths_apart:
  assumes "dir = evidence_path root h content"
  shows "join dir n \<noteq> latest_path root" "join dir n \<noteq> temporary_path root pid" "latest_path root \<noteq> temporary_path root pid"
  by (simp_all add: assms evidence_path_def join_def latest_path_def temporary_path_def)

lemma artifacts_of_stored:
  assumes "stored dir (set arts) w" and "be_artifacts m = artifacts_of X dir arts"
  shows "listed_stored X m w"
proof -
  have "bt_get (fold (\<lambda>(n, b). bt_insert (artifact_key n) (artifact_entry X (join dir n) b)) arts acc) k = Some e
      \<Longrightarrow> bt_get acc k = Some e \<or> (\<exists>(n, b) \<in> set arts. e = artifact_entry X (join dir n) b)" for acc k e
  proof (induction arts arbitrary: acc)
    case (Cons a arts)
    obtain n b where a: "a = (n, b)" by (cases a)
    from Cons.IH[of "bt_insert (artifact_key n) (artifact_entry X (join dir n) b) acc"] Cons.prems show ?case
      by (fastforce simp: a bt_get_insert split: if_splits)
  qed simp
  from this[of "[]"] assms show ?thesis
    by (fastforce simp: listed_stored_def artifacts_of_def stored_def artifact_entry_def)
qed

lemma io_then_lift: "io_then (io_lift (Inr x)) f = f x"
  by (simp add: io_then_def io_lift_def)

lemma join_inj: "join d a = join d b \<longleftrightarrow> a = b"
  by (simp add: join_def)

lemma stored_put_other:
  "\<forall>a \<in> S. join dir (fst a) \<noteq> p \<Longrightarrow> stored dir S (put_file p b w) \<longleftrightarrow> stored dir S w"
  unfolding stored_def by (intro ball_cong) (auto split: prod.splits)

lemma write_manifest_keeps:
  assumes dir: "dir = evidence_path root h content" and n: "''manifest.json'' \<notin> fst ` set arts"
    and m: "be_artifacts m = artifacts_of X dir arts" "be_manifest_path m = join dir ''manifest.json''"
      "be_latest_path m = latest_path root"
    and old: "\<And>w. L w \<longleftrightarrow> fs_files w (latest_path root) = old"
  shows "keeps (\<lambda>w. untouched dir root pid w0 w \<and> (L w \<or> (\<exists>sha. latest_is X Z root (m\<lparr>be_manifest_sha256 := sha\<rparr>) w)))
    (\<lambda>w. untouched dir root pid w0 w \<and> L w \<and> stored dir (set arts) w)
    (write_evidence_manifest X Z pid m)
    (\<lambda>r w. untouched dir root pid w0 w \<and> (\<exists>sha. r = m\<lparr>be_manifest_sha256 := sha\<rparr>) \<and> latest_is X Z root r w
       \<and> stored dir (set arts) w)"
proof -
  note apart = paths_apart[OF dir]
  let ?I = "\<lambda>w. untouched dir root pid w0 w \<and> (L w \<or> (\<exists>sha. latest_is X Z root (m\<lparr>be_manifest_sha256 := sha\<rparr>) w))"
  let ?A = "\<lambda>w. untouched dir root pid w0 w \<and> L w \<and> stored dir (set arts) w"
  have keep_dir: "untouched dir root pid w0 (put_file (join dir f) b w) \<longleftrightarrow> untouched dir root pid w0 w" for f b w
    by (auto simp: untouched_def)
  have keep_tmp: "untouched dir root pid w0 (put_file (temporary_path root pid) b w) \<longleftrightarrow> untouched dir root pid w0 w" for b w
    by (auto simp: untouched_def)
  have L_put: "p \<noteq> latest_path root \<Longrightarrow> L (put_file p b w) \<longleftrightarrow> L w" for p b w by (simp add: old)
  have stored_manifest: "stored dir (set arts) (put_file (join dir ''manifest.json'') b w) \<longleftrightarrow> stored dir (set arts) w" for b w
    by (rule stored_put_other) (use n in \<open>auto simp: join_inj rev_image_eqI\<close>)
  have stored_tmp: "stored dir (set arts) (put_file (temporary_path root pid) b w) \<longleftrightarrow> stored dir (set arts) w" for b w
    by (rule stored_put_other) (use apart(2)[of _ pid] in auto)
  show ?thesis
  proof (cases "manifest_to_vec Z (m\<lparr>be_manifest_sha256 := ''''\<rparr>)")
    case (Inl e)
    then show ?thesis
      by (auto simp: write_evidence_manifest_def Let_def keeps_def io_then_def io_lift_def)
  next
    case (Inr payload)
    define m' where "m' = m\<lparr>be_manifest_sha256 := sha256_hex X payload\<rparr>"
    have m': "be_manifest_path m' = join dir ''manifest.json''" "be_latest_path m' = latest_path root" "be_artifacts m' = artifacts_of X dir arts"
      by (simp_all add: m'_def m)
    have sg: "signed X Z m'" using Inr by (simp add: signed_def m'_def)
    show ?thesis
    proof (cases "manifest_to_vec_pretty Z m'")
      case (Inl e)
      then show ?thesis using Inr
        by (auto simp: write_evidence_manifest_def Let_def keeps_def io_then_def io_lift_def m'_def)
    next
      case (Inr bs)
      let ?B = "\<lambda>w. ?A w \<and> fs_files w (join dir ''manifest.json'') = Some bs"
      let ?C = "\<lambda>w. ?B w \<and> fs_files w (temporary_path root pid) = Some bs"
      let ?rename = "\<lambda>w. w\<lparr>fs_files := (fs_files w)(latest_path root := fs_files w (temporary_path root pid), temporary_path root pid := None)\<rparr>"
      let ?D = "\<lambda>w. untouched dir root pid w0 w \<and> latest_is X Z root m' w \<and> stored dir (set arts) w"
      have done_: "?D (?rename w)" if C: "?C w" for w
      proof -
        have s: "stored dir (set arts) (?rename w)" using C apart(1,2) by (simp add: stored_def)
        moreover have "listed_stored X m' (?rename w)" by (rule artifacts_of_stored[OF s m'(3)])
        moreover have "untouched dir root pid w0 (?rename w)" using C by (simp add: untouched_def)
        moreover have "fs_files (?rename w) (latest_path root) = Some bs" using C apart(3) by simp
        moreover have "fs_files (?rename w) (be_manifest_path m') = Some bs"
          using C apart(1)[of "''manifest.json''"] apart(2)[of "''manifest.json''" pid] by (simp add: m')
        ultimately show ?thesis using sg Inr unfolding latest_is_def by blast
      qed
      have run: "write_evidence_manifest X Z pid m =
          io_then (write_file (join dir ''manifest.json'') bs) (\<lambda>_.
          io_then (io_then (create_dir_all (parent_dir (latest_path root))) (\<lambda>_.
                   io_then (write_file (temporary_path root pid) bs) (\<lambda>_.
                   rename_file (temporary_path root pid) (latest_path root)))) (\<lambda>_.
          io_lift (Inr m')))"
      proof -
        have "write_evidence_manifest X Z pid m = io_then (write_file (be_manifest_path m') bs) (\<lambda>_.
            io_then (write_atomic pid (be_latest_path m') bs) (\<lambda>_. io_lift (Inr m')))"
          using \<open>manifest_to_vec Z _ = Inr payload\<close> Inr
          by (simp add: write_evidence_manifest_def Let_def io_then_lift m'_def)
        then show ?thesis
          unfolding write_atomic_def m' Let_def latest_path_def temporary_path_def with_extension_latest .
      qed
      have i: "?A w \<Longrightarrow> ?I w" for w by blast
      have 1: "keeps ?I ?A (write_file (join dir ''manifest.json'') bs) (\<lambda>_. ?B)"
        using L_put[OF apart(1)] by (intro keeps_write_file) (auto simp: keep_dir stored_manifest)
      have 2: "keeps ?I ?B (create_dir_all d) (\<lambda>_. ?B)" for d
        unfolding create_dir_all_def by (intro keeps_effect) (auto simp: untouched_def stored_def old)
      have 3: "keeps ?I ?B (write_file (temporary_path root pid) bs) (\<lambda>_. ?C)"
        using L_put[OF apart(3)[symmetric]] apart(2)[of "''manifest.json''" pid]
        by (intro keeps_write_file) (auto simp: keep_tmp stored_tmp)
      have 4: "keeps ?I ?C (rename_file (temporary_path root pid) (latest_path root)) (\<lambda>_. ?D)"
      proof (unfold rename_file_def, rule keeps_effect)
        fix w assume C: "?C w"
        then show "?I w" by blast
        from done_[OF C] show "?I (?rename w)" "?D (?rename w)" unfolding m'_def by blast+
      qed
      have 5: "keeps ?I ?D (io_lift (Inr m')) (\<lambda>r w. r = m' \<and> ?D w)" by (intro keeps_lift) auto
      have "keeps ?I ?A (write_evidence_manifest X Z pid m) (\<lambda>r w. r = m' \<and> ?D w)"
        unfolding run by (rule keeps_then[OF 1 keeps_then[OF keeps_then[OF 2 keeps_then[OF 3 4]] 5]])
      then show ?thesis by (rule keeps_post) (auto simp: m'_def)
    qed
  qed
qed


lemma keeps_lift_then:
  assumes "\<And>w e. P w \<Longrightarrow> I w" and "\<And>x. r = Inr x \<Longrightarrow> keeps I P (f x) Q"
  shows "keeps I P (io_then (io_lift r) f) Q"
proof (cases r)
  case (Inl e)
  then show ?thesis using assms(1) by (auto simp: keeps_def io_then_def io_lift_def)
next
  case (Inr x)
  then show ?thesis using assms(2) by (simp add: io_then_lift)
qed

lemma keeps_if:
  "(b \<Longrightarrow> keeps I P m Q) \<Longrightarrow> (\<not> b \<Longrightarrow> keeps I P m' Q) \<Longrightarrow> keeps I P (if b then m else m') Q"
  by simp

lemma artifact_names:
  "map fst (artifact_list a elf i p t) =
     [''old_state.bin'', ''witness.bin'', ''old_header.bin'', ''new_header.bin'', ''proof.bin'', ''public_values.bin'',
      ''prover_stdout.txt'', ''prover_stderr.txt'', ''vk.bin'', ''elf.bin'', ''inputs.json'', ''pending_mints.bin'',
      ''pending_mints.json'', ''txo_indices.bin'', ''txo_indices.json'']"
  by (simp add: artifact_list_def)

lemma artifact_names_distinct: "distinct (map fst (artifact_list a elf i p t))" "''manifest.json'' \<notin> fst ` set (artifact_list a elf i p t)"
proof -
  show "distinct (map fst (artifact_list a elf i p t))" unfolding artifact_names by code_simp
  have "''manifest.json'' \<notin> set (map fst (artifact_list a elf i p t))" unfolding artifact_names by code_simp
  then show "''manifest.json'' \<notin> fst ` set (artifact_list a elf i p t)" by simp
qed

text \<open>Wherever a run stops, and what it has done when it ends.\<close>

definition evidence_inv ::
  "crates \<Rightarrow> evidence_serde \<Rightarrow> evidence_env \<Rightarrow> string \<Rightarrow> evidence_args \<Rightarrow> fs \<Rightarrow> fs \<Rightarrow> bool" where
  "evidence_inv X Z env root a w0 w \<longleftrightarrow>
     (\<exists>content. untouched (evidence_path root (ag_height a) content) root (ev_pid env) w0 w
        \<and> (fs_files w (latest_path root) = fs_files w0 (latest_path root)
           \<or> (\<exists>m. be_height m = ag_height a \<and> be_evidence_dir m = evidence_path root (ag_height a) content
                \<and> latest_is X Z root m w)))"

definition evidence_artifacts ::
  "('st, 'b, 'j) deps \<Rightarrow> evidence_serde \<Rightarrow> evidence_env \<Rightarrow> pipeline_config \<Rightarrow> evidence_args \<Rightarrow> (string \<times> bytes) list res" where
  "evidence_artifacts D Z env config a =
     and_then (ev_elf env) (\<lambda>elf.
     and_then (slice (ag_new_header a) (fst sol_tip_block_hash) (snd sol_tip_block_hash)) (\<lambda>tip_hash.
     and_then (prover_inputs D config env a tip_hash) (\<lambda>inputs.
     and_then (inputs_to_vec_pretty Z inputs) (\<lambda>inputs_json.
     and_then (mints_to_vec_pretty Z (bc_pending_mints (ag_finalized_buffers a))) (\<lambda>pending_mints_json.
     and_then (indices_to_vec_pretty Z (bc_txo_indices (ag_finalized_buffers a))) (\<lambda>txo_indices_json.
     Inr (artifact_list a elf inputs_json pending_mints_json txo_indices_json)))))))"

definition evidence_done ::
  "('st, 'b, 'j) deps \<Rightarrow> evidence_serde \<Rightarrow> evidence_env \<Rightarrow> pipeline_config \<Rightarrow> string \<Rightarrow> evidence_args
     \<Rightarrow> block_proof_evidence \<Rightarrow> fs \<Rightarrow> bool" where
  "evidence_done D Z env config root a m w \<longleftrightarrow>
     latest_is (d_crates D) Z root m w \<and> be_height m = ag_height a \<and> be_status m = evidence_status a
     \<and> (\<exists>arts. evidence_artifacts D Z env config a = Inr arts \<and> be_content_sha256 m = artifact_bundle_sha256 (d_crates D) arts
          \<and> be_evidence_dir m = evidence_path root (ag_height a) (be_content_sha256 m)
          \<and> be_manifest_path m = join (be_evidence_dir m) ''manifest.json'' \<and> be_latest_path m = latest_path root
          \<and> be_artifacts m = artifacts_of (d_crates D) (be_evidence_dir m) arts
          \<and> stored (be_evidence_dir m) (set arts) w)"

lemma persist_evidence_keeps:
  assumes root: "absolute_path (ev_current_dir env) (ev_dir env) = Inr root"
  shows "keeps (evidence_inv (d_crates D) Z env root a w0) (\<lambda>w. w = w0) (persist_evidence D Z env config a)
    (\<lambda>m w. evidence_inv (d_crates D) Z env root a w0 w \<and> evidence_done D Z env config root a m w)"
    (is "keeps ?I _ _ ?Q")
proof -
  let ?X = "d_crates D"
  have start: "?I w0" by (auto simp: evidence_inv_def untouched_def)
  have core: "keeps ?I (\<lambda>w. w = w0)
      (io_then (create_dir_all dir) (\<lambda>_.
       io_then (write_artifacts ?X dir arts []) (\<lambda>artifacts.
       write_evidence_manifest ?X Z (ev_pid env) (evidence_manifest ?X Z a elf tip content dir root artifacts)))) ?Q"
    if pure: "evidence_artifacts D Z env config a = Inr arts" and arts: "arts = artifact_list a elf i p t" and content: "content = artifact_bundle_sha256 ?X arts"
      and dir: "dir = evidence_path root (ag_height a) content" for arts elf i p t content dir tip
  proof -
    define m where "m = evidence_manifest ?X Z a elf tip content dir root (artifacts_of ?X dir arts)"
    have m: "be_artifacts m = artifacts_of ?X dir arts" "be_manifest_path m = join dir ''manifest.json''"
      "be_latest_path m = latest_path root" "be_height m = ag_height a" "be_status m = evidence_status a"
      "be_content_sha256 m = content" "be_evidence_dir m = dir"
      by (simp_all add: m_def evidence_manifest_def Let_def latest_path_def)
    let ?L = "\<lambda>w. fs_files w (latest_path root) = fs_files w0 (latest_path root)"
    let ?K = "\<lambda>w. untouched dir root (ev_pid env) w0 w \<and> ?L w"
    have K: "?K w \<Longrightarrow> ?I w" for w by (auto simp: evidence_inv_def dir)
    have new: "untouched dir root (ev_pid env) w0 w \<Longrightarrow> latest_is ?X Z root (m\<lparr>be_manifest_sha256 := sha\<rparr>) w \<Longrightarrow> ?I w" for w sha
      unfolding evidence_inv_def dir[symmetric]
      by (intro exI[of _ content] conjI disjI2 exI[of _ "m\<lparr>be_manifest_sha256 := sha\<rparr>"]) (simp_all add: m dir)
    have 1: "keeps ?I (\<lambda>w. w = w0) (create_dir_all dir) (\<lambda>_ w. ?K w \<and> stored dir {} w)"
      unfolding create_dir_all_def
      by (intro keeps_effect) (auto simp: start stored_def untouched_def intro!: K)
    have "?K (put_file (join dir n) b w)" if "?K w" for w n b
      using that paths_apart(1)[OF dir, of n] by (auto simp: untouched_def)
    from write_artifacts_keeps[OF artifact_names_distinct(1)[of a elf i p t, folded arts], of "{}" ?K dir ?X "[]"] this
    have 2: "keeps ?I (\<lambda>w. ?K w \<and> stored dir {} w) (write_artifacts ?X dir arts [])
        (\<lambda>r w. (?K w \<and> stored dir (set arts) w) \<and> r = artifacts_of ?X dir arts)"
      unfolding artifacts_of_def by (intro keeps_weaken[of ?K, OF _ K]) simp_all
    have "keeps ?I (\<lambda>w. untouched dir root (ev_pid env) w0 w \<and> ?L w \<and> stored dir (set arts) w)
        (write_evidence_manifest ?X Z (ev_pid env) m) ?Q"
    proof (rule keeps_post[OF keeps_weaken[OF write_manifest_keeps[OF dir artifact_names_distinct(2)[of a elf i p t, folded arts]
              m(1-3), of ?L]]])
      fix w assume "untouched dir root (ev_pid env) w0 w \<and> (?L w \<or> (\<exists>sha. latest_is ?X Z root (m\<lparr>be_manifest_sha256 := sha\<rparr>) w))"
      with K new show "?I w" by blast
    next
      fix r w
      assume r: "untouched dir root (ev_pid env) w0 w \<and> (\<exists>sha. r = m\<lparr>be_manifest_sha256 := sha\<rparr>)
        \<and> latest_is ?X Z root r w \<and> stored dir (set arts) w"
      then obtain sha where sha: "r = m\<lparr>be_manifest_sha256 := sha\<rparr>" by blast
      have fields: "be_height r = ag_height a" "be_status r = evidence_status a"
        "be_content_sha256 r = artifact_bundle_sha256 ?X arts"
        "be_evidence_dir r = evidence_path root (ag_height a) (be_content_sha256 r)" "be_evidence_dir r = dir"
        "be_manifest_path r = join (be_evidence_dir r) ''manifest.json''" "be_latest_path r = latest_path root"
        "be_artifacts r = artifacts_of ?X (be_evidence_dir r) arts"
        by (simp_all add: sha m content dir)
      from r new sha have "?I w" by blast
      moreover have "evidence_done D Z env config root a r w"
        unfolding evidence_done_def using r fields pure by metis
      ultimately show "?Q r w" by blast
    qed simp
    then have 3: "keeps ?I (\<lambda>w. (?K w \<and> stored dir (set arts) w) \<and> r = artifacts_of ?X dir arts)
        (write_evidence_manifest ?X Z (ev_pid env) (evidence_manifest ?X Z a elf tip content dir root r)) ?Q" for r
      unfolding m_def by (auto intro!: keeps_pure intro: keeps_pre)
    show ?thesis by (rule keeps_then[OF 1 keeps_then[OF 2 3]])
  qed
  show ?thesis
    unfolding persist_evidence_def Let_def
    by (intro keeps_lift_then keeps_if; (use start in \<open>auto intro!: keeps_lift\<close>)?)
      (auto simp: root evidence_artifacts_def intro!: core)
qed

lemma doneE:
  assumes "evidence_done D Z env config root a m w"
  obtains elf i p t where
    "be_evidence_dir m = evidence_path root (ag_height a) (be_content_sha256 m)"
    "be_manifest_path m = join (be_evidence_dir m) ''manifest.json''" "be_latest_path m = latest_path root"
    "be_artifacts m = artifacts_of (d_crates D) (be_evidence_dir m) (artifact_list a elf i p t)"
    "stored (be_evidence_dir m) (set (artifact_list a elf i p t)) w"
  using assms unfolding evidence_done_def evidence_artifacts_def by (auto split: sum.splits)

lemma evidence_minted_keeps:
  assumes "evidence_done D Z env config root a m w0"
  shows "keeps (\<lambda>w. untouched (be_evidence_dir m) root pid w0 w
      \<and> (fs_files w (latest_path root) = fs_files w0 (latest_path root)
         \<or> (\<exists>sha. latest_is (d_crates D) Z root ((minted_manifest m signature mp)\<lparr>be_manifest_sha256 := sha\<rparr>) w)))
    (\<lambda>w. w = w0) (evidence_minted (d_crates D) Z pid m signature mp)
    (\<lambda>r w. untouched (be_evidence_dir m) root pid w0 w \<and> (\<exists>sha. r = (minted_manifest m signature mp)\<lparr>be_manifest_sha256 := sha\<rparr>)
       \<and> latest_is (d_crates D) Z root r w)"
proof -
  from assms obtain elf i p t where d: "be_evidence_dir m = evidence_path root (ag_height a) (be_content_sha256 m)"
      "be_manifest_path m = join (be_evidence_dir m) ''manifest.json''" "be_latest_path m = latest_path root"
      "be_artifacts m = artifacts_of (d_crates D) (be_evidence_dir m) (artifact_list a elf i p t)"
    and st: "stored (be_evidence_dir m) (set (artifact_list a elf i p t)) w0"
    by (rule doneE)
  have "untouched (be_evidence_dir m) root pid w0 w0" by (simp add: untouched_def)
  with st show ?thesis
    unfolding evidence_minted_def
    by (intro keeps_post[OF keeps_pre[OF write_manifest_keeps[OF d(1) artifact_names_distinct(2)[of a elf i p t],
          where m = "minted_manifest m signature mp" and X = "d_crates D"
            and L = "\<lambda>w. fs_files w (latest_path root) = fs_files w0 (latest_path root)"]]])
      (auto simp: minted_manifest_def d(2-4))
qed

text \<open>The artifacts stay, and so does every file the manifest does not name.\<close>

lemma minted_manifest_keeps_artifacts:
  assumes "write_evidence_manifest X Z pid m (fates, w) = ((fates', w'), r)"
    and "be_manifest_path m = join dir ''manifest.json''" "be_latest_path m = latest_path root"
    and "p \<noteq> join dir ''manifest.json''" "p \<noteq> latest_path root" "p \<noteq> temporary_path root pid"
  shows "fs_files w' p = fs_files w p"
proof -
  have "with_extension (latest_path root) (''tmp-'' @ nat_str pid) = temporary_path root pid"
    by (simp add: latest_path_def temporary_path_def with_extension_latest)
  note tmp = this[simplified]
  have "keeps (\<lambda>v. fs_files v p = fs_files w p) (\<lambda>v. v = w) (write_evidence_manifest X Z pid m) (\<lambda>_ v. fs_files v p = fs_files w p)"
    unfolding write_evidence_manifest_def Let_def write_atomic_def create_dir_all_def rename_file_def
    by (intro keeps_lift_then) 
      (auto intro!: keeps_then[where Q = "\<lambda>_ v. fs_files v p = fs_files w p"] keeps_write_file keeps_effect keeps_lift
        simp: assms(2-) tmp)
  from keeps_error[OF this refl] keeps_value[OF this refl] assms(1) show ?thesis by (cases r) blast+
qed


section \<open>Runs for other heights\<close>

lemma nat_str_digits: "c \<in> set (nat_str n) \<Longrightarrow> c \<noteq> CHR ''/''"
  using nat_str_digit[of c n] by auto

lemma evidence_dirs_apart:
  assumes "h \<noteq> h'"
  shows "join (evidence_path root h c) n \<noteq> join (evidence_path root h' c') n'"
proof
  assume "join (evidence_path root h c) n = join (evidence_path root h' c') n'"
  then have e: "nat_str (unat h) @ CHR ''/'' # c @ ''/'' @ n = nat_str (unat h') @ CHR ''/'' # c' @ ''/'' @ n'"
    by (simp add: join_def evidence_path_def)
  have head: "takeWhile (\<lambda>c. c \<noteq> CHR ''/'') (nat_str k @ CHR ''/'' # x) = nat_str k" for k x
    by (simp add: takeWhile_append2 nat_str_digits)
  have "nat_str (unat h) = nat_str (unat h')" using arg_cong[OF e, of "takeWhile (\<lambda>c. c \<noteq> CHR ''/'')"] unfolding head .
  with assms show False by (simp add: nat_str_inj unsigned_word_eqI)
qed

text \<open>A run for another height, wherever it stops.\<close>

inductive other_run :: "('st, 'b, 'j) deps \<Rightarrow> string \<Rightarrow> u32 \<Rightarrow> fs \<Rightarrow> fs \<Rightarrow> bool" for D root h where
  "absolute_path (ev_current_dir env) (ev_dir env) = Inr root \<Longrightarrow> ag_height a \<noteq> h \<Longrightarrow>
   persist_evidence D Z env config a (fates, w) = ((fates', w'), r) \<Longrightarrow> other_run D root h w w'"

lemma other_run_keeps:
  assumes "other_run D root h w w'"
  shows "fs_files w' (join (evidence_path root h c) n) = fs_files w (join (evidence_path root h c) n)"
  using assms
proof cases
  case (1 env a Z config fates fates' r)
  have "evidence_inv (d_crates D) Z env root a w w'"
    by (cases r) (use keeps_error[OF persist_evidence_keeps[OF 1(1)] refl] keeps_value[OF persist_evidence_keeps[OF 1(1)] refl] 1(3) in blast)+
  then obtain content where u: "untouched (evidence_path root (ag_height a) content) root (ev_pid env) w w'"
    by (auto simp: evidence_inv_def)
  have "\<nexists>rest. join (evidence_path root h c) n = join (evidence_path root (ag_height a) content) rest"
    using evidence_dirs_apart[OF 1(2)[symmetric]] by blast
  with u paths_apart[OF refl] show ?thesis unfolding untouched_def by blast
qed

lemma other_runs_keep:
  "(other_run D root h)\<^sup>*\<^sup>* w w' \<Longrightarrow> fs_files w' (join (evidence_path root h c) n) = fs_files w (join (evidence_path root h c) n)"
  by (induction rule: rtranclp_induct) (simp_all add: other_run_keeps)

section \<open>Completion\<close>

lemma completes_write_file [completes_rules]:
  "(\<And>w. P w \<Longrightarrow> Q () (put_file path bs w)) \<Longrightarrow> completes 1 P (write_file path bs) Q"
  unfolding completes_def write_file_def by (auto simp: smooth_Suc)

lemma completes_lift_then:
  "r = Inr x \<Longrightarrow> completes n P (f x) Q \<Longrightarrow> completes n P (io_then (io_lift r) f) Q"
  by (simp add: io_then_lift)

lemma write_artifacts_completes: "completes (length arts) (\<lambda>_. True) (write_artifacts X dir arts acc) (\<lambda>_ _. True)"
proof (induction arts arbitrary: acc)
  case (Cons a arts)
  then show ?case
    by (cases a) (auto intro!: completes_seq[of 1 "length arts"] completes_write_file)
qed (auto intro: completes_lift)

lemma persist_evidence_completes:
  assumes "ev_elf env = Inr elf" "elf \<noteq> []" "slice (ag_new_header a) 0 32 = Inr tip" "prover_inputs D config env a tip = Inr inputs"
    and "inputs_to_vec_pretty Z inputs = Inr i" "mints_to_vec_pretty Z (bc_pending_mints (ag_finalized_buffers a)) = Inr p"
    "indices_to_vec_pretty Z (bc_txo_indices (ag_finalized_buffers a)) = Inr t"
    and "absolute_path (ev_current_dir env) (ev_dir env) = Inr root"
    and "\<And>m. is_ok (manifest_to_vec Z m)" "\<And>m. is_ok (manifest_to_vec_pretty Z m)"
  shows "completes 20 (\<lambda>_. True) (persist_evidence D Z env config a) (\<lambda>_ _. True)"
proof -
  have manifest: "completes 4 (\<lambda>_. True) (write_evidence_manifest (d_crates D) Z pid m) (\<lambda>_ _. True)" for pid m
  proof -
    obtain payload where 1: "manifest_to_vec Z (m\<lparr>be_manifest_sha256 := ''''\<rparr>) = Inr payload"
      using assms(9) by (auto simp: is_ok_iff)
    obtain bs where 2: "manifest_to_vec_pretty Z (m\<lparr>be_manifest_sha256 := sha256_hex (d_crates D) payload\<rparr>) = Inr bs"
      using assms(10) by (auto simp: is_ok_iff)
    show ?thesis
      unfolding write_evidence_manifest_def Let_def 1 io_then_lift write_atomic_def create_dir_all_def rename_file_def
      by (simp add: 2 io_then_lift)
        (intro completes_seq[of 1 3] completes_seq[of 1 1] completes_seq[of 3 0] completes_seq[of 1 2] completes_rules; simp)
  qed
  show ?thesis
    unfolding persist_evidence_def Let_def
    by (simp add: assms io_then_lift sol_tip_block_hash_def create_dir_all_def,
        rule completes_seq[of 1 19], simp, rule completes_one, simp,
        rule completes_seq[of 15 4, OF _ completes_more[OF write_artifacts_completes] manifest])
      (simp_all add: artifact_list_def)
qed


section \<open>Writing the same evidence again\<close>

text \<open>
  A block committed again after a restart has the same evidence when its proof is still stored. Its
  files are rewritten in place: cut short, this leaves \<open>latest.json\<close> naming an artifact that is gone.
\<close>

lemma evidence_rewrite_tears:
  assumes root: "absolute_path (ev_current_dir env) (ev_dir env) = Inr root"
    and run: "persist_evidence D Z env config a (fates, w) = ((fates', w1), Inr m)"
  shows "\<exists>w2. persist_evidence D Z env config a ([Applied, Partial 0], w1) = (([], w2), Inl (Err ''write cut short''))
    \<and> fs_files w2 (latest_path root) = fs_files w1 (latest_path root)
    \<and> fs_files w2 (join (be_evidence_dir m) ''old_state.bin'') = Some []"
proof -
  have "evidence_done D Z env config root a m w1" using keeps_value[OF persist_evidence_keeps[OF root] refl run] by blast
  then obtain arts where arts: "evidence_artifacts D Z env config a = Inr arts"
    and dir: "be_evidence_dir m = evidence_path root (ag_height a) (artifact_bundle_sha256 (d_crates D) arts)"
    by (auto simp: evidence_done_def)
  have "elf \<noteq> []" if "ev_elf env = Inr elf" for elf
  proof
    assume "elf = []"
    with run that show False by (simp add: persist_evidence_def Let_def io_then_lift) (simp add: io_lift_def)
  qed
  with arts have "\<exists>g. persist_evidence D Z env config a = io_then (create_dir_all (be_evidence_dir m)) (\<lambda>_.
      io_then (write_artifacts (d_crates D) (be_evidence_dir m) arts []) g)"
    by (auto simp: evidence_artifacts_def persist_evidence_def Let_def io_then_lift root dir)
  then obtain g where prog: "persist_evidence D Z env config a = io_then (create_dir_all (be_evidence_dir m)) (\<lambda>_.
      io_then (write_artifacts (d_crates D) (be_evidence_dir m) arts []) g)" by blast
  obtain rest where "arts = (''old_state.bin'', ag_old_state a) # rest"
    using arts by (auto simp: evidence_artifacts_def artifact_list_def)
  then show ?thesis
    using paths_apart(1)[OF dir, of "''old_state.bin''"]
    by (simp add: prog create_dir_all_def effect_def write_file_def io_then_def put_file_def)
qed

section \<open>The archive as a source of recovery\<close>

text \<open>The evidence that \<open>commit_prepared\<close> writes once the buffers are uploaded.\<close>

definition commit_evidence_args :: "prepared \<Rightarrow> prover_output \<Rightarrow> uploaded_buffers \<Rightarrow> evidence_args" where
  "commit_evidence_args p output uploaded =
     \<lparr>ag_height = pt_height p, ag_finalized_source_height = pt_finalized_height p,
      ag_idempotency_key = pt_idempotency_key p, ag_old_state = pt_old_state_bytes p, ag_witness = pt_witness_bytes p,
      ag_old_header = pt_old_header p, ag_new_header = pt_new_header p, ag_proof = po_proof output,
      ag_public_values = po_public_values output, ag_prover_output = output, ag_evaluation = pt_evaluation p,
      ag_finalized_buffers = pt_finalized_buffers p, ag_uploaded_buffers = Some uploaded,
      ag_submission_signature = None, ag_mint_processing = None\<rparr>"

definition read_file :: "fs \<Rightarrow> string \<Rightarrow> bytes res" where
  "read_file w path = ok_or (fs_files w path) (Err ''No such file or directory'')"

definition archive_of :: "fs \<Rightarrow> string \<Rightarrow> proof_archive" where
  "archive_of w dir =
     \<lparr>ar_old_state = read_file w (join dir ''old_state.bin''), ar_old_header = read_file w (join dir ''old_header.bin''),
      ar_witness = read_file w (join dir ''witness.bin''), ar_new_header = read_file w (join dir ''new_header.bin'')\<rparr>"

lemma done_archive:
  assumes "evidence_done D Z env config root (commit_evidence_args p output uploaded) m w"
    and "evidence_minted (d_crates D) Z pid m signature mp (fates, w) = ((fates', w1), r)"
    and "(other_run D root (pt_height p))\<^sup>*\<^sup>* w1 w'"
  shows "archive_of w' (be_evidence_dir m) =
    \<lparr>ar_old_state = Inr (pt_old_state_bytes p), ar_old_header = Inr (pt_old_header p),
     ar_witness = Inr (pt_witness_bytes p), ar_new_header = Inr (pt_new_header p)\<rparr>"
proof -
  let ?a = "commit_evidence_args p output uploaded"
  from assms(1) obtain elf i q t where d: "be_evidence_dir m = evidence_path root (ag_height ?a) (be_content_sha256 m)"
      "be_manifest_path m = join (be_evidence_dir m) ''manifest.json''" "be_latest_path m = latest_path root"
    and st: "stored (be_evidence_dir m) (set (artifact_list ?a elf i q t)) w"
    by (rule doneE)
  have h: "ag_height ?a = pt_height p" by (simp add: commit_evidence_args_def)
  have "fs_files w' (join (be_evidence_dir m) n) = Some b" if n: "(n, b) \<in> set (artifact_list ?a elf i q t)" for n b
  proof -
    have "n \<noteq> ''manifest.json''" using n artifact_names_distinct(2)[of ?a elf i q t] by (metis fst_conv image_eqI)
    then have "fs_files w1 (join (be_evidence_dir m) n) = fs_files w (join (be_evidence_dir m) n)"
      using assms(2) paths_apart[OF d(1)] unfolding evidence_minted_def
      by (intro minted_manifest_keeps_artifacts[where dir = "be_evidence_dir m" and root = root])
        (auto simp: minted_manifest_def d(2,3) join_inj)
    moreover have "fs_files w' (join (be_evidence_dir m) n) = fs_files w1 (join (be_evidence_dir m) n)"
      using other_runs_keep[OF assms(3)] unfolding d(1) h .
    ultimately show ?thesis using st n by (auto simp: stored_def)
  qed
  then show ?thesis
    by (simp add: archive_of_def read_file_def artifact_list_def commit_evidence_args_def)
qed

section \<open>Properties\<close>

text \<open>
  Claim C37. Wherever the writing of the evidence stops, \<open>latest.json\<close> is what it was or the
  complete manifest of this block, whose hash is right and whose artifacts are all stored with the
  size and the hash it lists. Only the directory of this run, \<open>latest.json\<close> and its temporary file
  are touched. If it ends, \<open>latest.json\<close> is the new manifest, and the update of the manifest
  once the mints are paid, wherever that stops, leaves this manifest or the updated one.
\<close>

theorem evidence_crash_safe:
  assumes "absolute_path (ev_current_dir env) (ev_dir env) = Inr root"
    and "persist_evidence D Z env config a (fates, w) = ((fates', w'), r)"
  shows "(\<exists>content. untouched (evidence_path root (ag_height a) content) root (ev_pid env) w w'
        \<and> (fs_files w' (latest_path root) = fs_files w (latest_path root)
           \<or> (\<exists>m. be_height m = ag_height a \<and> be_evidence_dir m = evidence_path root (ag_height a) content
                \<and> latest_is (d_crates D) Z root m w')))
    \<and> (\<forall>m. r = Inr m \<longrightarrow> evidence_done D Z env config root a m w'
        \<and> (\<forall>signature mp pid f f' w'' r'. evidence_minted (d_crates D) Z pid m signature mp (f, w') = ((f', w''), r') \<longrightarrow>
              fs_files w'' (latest_path root) = fs_files w' (latest_path root)
              \<or> (\<exists>sha. latest_is (d_crates D) Z root ((minted_manifest m signature mp)\<lparr>be_manifest_sha256 := sha\<rparr>) w'')))"
proof -
  have minted: "fs_files w'' (latest_path root) = fs_files w' (latest_path root)
      \<or> (\<exists>sha. latest_is (d_crates D) Z root ((minted_manifest m signature mp)\<lparr>be_manifest_sha256 := sha\<rparr>) w'')"
    if "evidence_done D Z env config root a m w'" "evidence_minted (d_crates D) Z pid m signature mp (f, w') = ((f', w''), r')"
    for m signature mp pid f f' w'' r'
    using keeps_error[OF evidence_minted_keeps[OF that(1)] refl] keeps_value[OF evidence_minted_keeps[OF that(1)] refl]
      that(2) by (cases r') blast+
  have inv: "evidence_inv (d_crates D) Z env root a w w'"
    and done_: "\<And>m. r = Inr m \<Longrightarrow> evidence_done D Z env config root a m w'"
    using keeps_error[OF persist_evidence_keeps[OF assms(1)] refl] keeps_value[OF persist_evidence_keeps[OF assms(1)] refl]
      assms(2) by (cases r; blast)+
  from inv show ?thesis unfolding evidence_inv_def by (intro conjI allI impI minted[OF done_] done_)
qed

text \<open>
  Claim C38. The evidence of a committed block is an archive from which the checkpoint can be
  recovered: after the evidence is written and updated when the mints are paid, wherever the update
  stops and whatever runs for other heights do to the files later, recovery from its directory stores the checkpoint the pipeline had prepared, when the chain
  has the proven header.
\<close>

theorem evidence_recovers_checkpoint:
  assumes "hex_laws (d_crates D)" and "validate_config E debug config = Inr ()"
    and "strings db (redis_checkpoint_key config) = Some json" and "d_checkpoint_from_str D json = Some cp"
    and "validate_checkpoint (d_crates D) (d_bridge D) cp = Inr ()" and "checked_add_u32 (cp_height cp) 1 = Some height"
    and "prepare_height D N config cp height = Inr p" and "old_state_artifact N = None"
    and "read_keypair E (cfg_operator_keypair config) = Some operator" and "read_keypair E (cfg_payer_keypair config) = Some payer"
    and "d_checkpoint_to_string D (pt_next_checkpoint p) = Inr json'"
    and "absolute_path (ev_current_dir env) (ev_dir env) = Inr root"
    and "persist_evidence D Z env config (commit_evidence_args p output uploaded) (fates, w) = ((fates', w0), Inr m)"
    and "evidence_minted (d_crates D) Z pid m signature mp (fates1, w0) = ((fates1', w1), r)"
    and "(other_run D root (pt_height p))\<^sup>*\<^sup>* w1 w2"
  shows "recover_checkpoint_from_proof_archive D E debug N config (archive_of w2 (be_evidence_dir m)) (Inr (pt_new_header p)) (Inr ()) db
    = (db\<lparr>strings := (strings db)(redis_checkpoint_key config \<mapsto> json')\<rparr>, Inr height)"
proof -
  have "evidence_done D Z env config root (commit_evidence_args p output uploaded) m w0"
    using keeps_value[OF persist_evidence_keeps[OF assms(12)] refl assms(13)] by blast
  from done_archive[OF this assms(14,15)] show ?thesis
    by (rule archive_recovery_restores_prepared_checkpoint[OF assms(1-8) _ assms(9-11)])
qed

section \<open>Witnesses\<close>

definition demo_evidence_serde :: evidence_serde where
  "demo_evidence_serde =
     \<lparr>inputs_to_vec_pretty = (\<lambda>_. Inr [1]), mints_to_vec_pretty = (\<lambda>_. Inr [2]), indices_to_vec_pretty = (\<lambda>_. Inr [3]),
      manifest_to_vec = (\<lambda>_. Inr [4]), manifest_to_vec_pretty = (\<lambda>_. Inr [5]), manifest_from_slice = (\<lambda>_. None),
      pubkey_to_string = (\<lambda>_. ''key'')\<rparr>"

definition demo_evidence_env :: evidence_env where
  "demo_evidence_env =
     \<lparr>ev_dir = ''/archive'', ev_gen_proof_path = ''gen-proof'', ev_block_elf_path = ''elf'', ev_current_dir = Inr ''/home'',
      ev_pid = 7, ev_elf = Inr [1, 2, 3]\<rparr>"

abbreviation empty_fs :: fs where
  "empty_fs \<equiv> \<lparr>fs_files = (\<lambda>_. None), fs_dirs = []\<rparr>"

lemma demo_root: "absolute_path (ev_current_dir demo_evidence_env) (ev_dir demo_evidence_env) = Inr ''/archive''"
  by (simp add: absolute_path_def demo_evidence_env_def)

lemma demo_evidence_run:
  obtains p fates' w m where
    "prepare_height (demo_deps demo_witness_decode) demo_node (demo_config 1) demo_start 1 = Inr p"
    "persist_evidence (demo_deps demo_witness_decode) demo_evidence_serde demo_evidence_env (demo_config 1)
       (commit_evidence_args p output uploaded) (replicate 20 Applied, empty_fs) = ((fates', w), Inr m)"
proof -
  let ?D = "demo_deps demo_witness_decode"
  obtain p h' where p: "prepare_height ?D demo_node (demo_config 1) demo_start 1 = Inr p"
    and hdr: "pt_new_header p = h'" "length h' = 320"
    using demo_prepare_at[of 0 demo_header 1 "[]"] by (auto simp: demo_header_def)
  let ?a = "commit_evidence_args p output uploaded"
  obtain fs where fees: "config_fees (demo_config 1) = Inr fs" by (rule prepare_heightE[OF p])
  have "slice (ag_new_header ?a) 0 32 = Inr (take 32 h')" using hdr by (simp add: slice_def commit_evidence_args_def)
  moreover obtain inputs where "prover_inputs ?D (demo_config 1) demo_evidence_env ?a (take 32 h') = Inr inputs"
    using fees by (simp add: prover_inputs_def Let_def absolute_path_def demo_evidence_env_def)
  ultimately have "completes 20 (\<lambda>_. True) (persist_evidence ?D demo_evidence_serde demo_evidence_env (demo_config 1) ?a) (\<lambda>_ _. True)"
    by (intro persist_evidence_completes[OF _ _ _ _ _ _ _ demo_root])
      (auto simp: demo_evidence_env_def demo_evidence_serde_def)
  from completesD[OF this, where w = empty_fs and k = 0 and fates = "replicate 20 Applied"] that[OF p] show thesis
    by (simp add: smooth_replicate) blast
qed

theorem evidence_crash_safe_witness:
  "\<exists>p u w w' m. evidence_done (demo_deps demo_witness_decode) demo_evidence_serde demo_evidence_env (demo_config 1) ''/archive''
        (commit_evidence_args p \<lparr>po_stdout = [], po_stderr = [], po_vk_hash = [],
       po_proof = [1], po_public_values = []\<rparr> u) m w
     \<and> (fs_files w' ''/archive/latest.json'' = fs_files w ''/archive/latest.json''
        \<or> (\<exists>m. latest_is demo_crates demo_evidence_serde ''/archive'' m w'))"
proof -
  let ?out = "\<lparr>po_stdout = [], po_stderr = [], po_vk_hash = [], po_proof = [1], po_public_values = []\<rparr>"
  let ?D = "demo_deps demo_witness_decode"
  obtain p f w m where run: "persist_evidence ?D demo_evidence_serde demo_evidence_env (demo_config 1)
      (commit_evidence_args p ?out u) (replicate 20 Applied, empty_fs) = ((f, w), Inr m)"
    by (rule demo_evidence_run[of ?out u])
  from evidence_crash_safe[OF demo_root run]
  have d: "evidence_done ?D demo_evidence_serde demo_evidence_env (demo_config 1) ''/archive'' (commit_evidence_args p ?out u) m w" by simp
  obtain f' w' r where "persist_evidence ?D demo_evidence_serde demo_evidence_env (demo_config 1)
      (commit_evidence_args p ?out u) ([Applied, Applied, Partial 0], w) = ((f', w'), r)"
    by (metis prod.exhaust)
  from evidence_crash_safe[OF demo_root this]
  have "fs_files w' ''/archive/latest.json'' = fs_files w ''/archive/latest.json'' \<or> (\<exists>m. latest_is demo_crates demo_evidence_serde ''/archive'' m w')"
    by (auto simp: latest_path_def join_def)
  with d show ?thesis by blast
qed

theorem evidence_recovers_checkpoint_witness:
  "\<exists>p (w :: fs) (m :: block_proof_evidence). prepare_height (demo_deps demo_witness_decode) demo_node (demo_config 1) demo_start 1 = Inr p
     \<and> recover_checkpoint_from_proof_archive (demo_deps demo_witness_decode) demo_host False demo_node (demo_config 1)
         (archive_of w (be_evidence_dir m)) (Inr (pt_new_header p)) (Inr ())
         \<lparr>strings = [redis_checkpoint_key (demo_config 1) \<mapsto> ''x''], lists = (\<lambda>_. [])\<rparr>
       = (\<lparr>strings = [redis_checkpoint_key (demo_config 1) \<mapsto> ''c''], lists = (\<lambda>_. [])\<rparr>, Inr 1)"
proof -
  let ?D = "demo_deps demo_witness_decode"
  let ?db = "\<lparr>strings = [redis_checkpoint_key (demo_config 1) \<mapsto> ''x''], lists = (\<lambda>_. [])\<rparr>"
  obtain p f w m where p: "prepare_height ?D demo_node (demo_config 1) demo_start 1 = Inr p"
    and run: "persist_evidence ?D demo_evidence_serde demo_evidence_env (demo_config 1)
      (commit_evidence_args p output uploaded) (replicate 20 Applied, empty_fs) = ((f, w), Inr m)"
    by (rule demo_evidence_run)
  have v: "validate_checkpoint (d_crates ?D) (d_bridge ?D) demo_start = Inr ()"
    by (simp add: demo_valid_at demo_header_def)
  have k: "read_keypair demo_host q = Some [7]" for q by (simp add: demo_host_def)
  have n: "checked_add_u32 (cp_height demo_start) 1 = Some 1" by (simp add: demo_height_at checked_add_u32_def)
  have rds: "strings ?db (redis_checkpoint_key (demo_config 1)) = Some ''x''" by simp
  obtain f1 w1 r where "evidence_minted (d_crates ?D) demo_evidence_serde 7 m ''sig'' \<lparr>me_signatures = [], me_groups_processed = 0, me_total_mints_processed = 0\<rparr>
      ([Applied, Applied, Partial 0], w) = ((f1, w1), r)"
    by (metis prod.exhaust)
  note rec = evidence_recovers_checkpoint[OF _ demo_config_valid rds _ v n p _ k k _ demo_root run this rtranclp.rtrancl_refl]
  have "recover_checkpoint_from_proof_archive ?D demo_host False demo_node (demo_config 1)
      (archive_of w1 (be_evidence_dir m)) (Inr (pt_new_header p)) (Inr ()) ?db
    = (\<lparr>strings = [redis_checkpoint_key (demo_config 1) \<mapsto> ''c''], lists = (\<lambda>_. [])\<rparr>, Inr 1)"
    using rec[of "''c''"] by (simp add: demo_hex_laws demo_node_def)
  with p show ?thesis by blast
qed

end
