(* ===== verification/Proof_Backend.thy ===== *)
theory Proof_Backend
  imports Pipeline Prover_Daemon
begin

text \<open>
  The proof backend the pipeline talks to (\<open>ProofBackend\<close>, \<open>ProofTicket\<close>, \<open>LocalProofBackend\<close> in
  \<open>proof_queue.rs\<close>): a worker task in the process that owns a prover daemon, or the queue in Redis.
  A submitted job gives a ticket, a ticket is redeemed for the output of the prover. It ties the
  worker of \<open>Prover_Daemon\<close> and the queue of \<open>Proof_Queue\<close> to the driver of \<open>Pipeline\<close>.
\<close>

section \<open>Backends and tickets\<close>

text \<open>
  The channel to the worker keeps the order in which jobs are sent; the one-shot channel in a local
  ticket is the position of its job. The worker may end at any time, with the process's shutdown or
  by a panic: it has then answered a prefix of the jobs.
\<close>

record local_backend =
  lb_daemon :: daemon
  lb_sent :: "proof_job list"
  lb_stopped :: bool

datatype proof_backend = LocalProver local_backend | RedisProver queue_keys

datatype proof_ticket = LocalTicket proof_job nat | RedisTicket proof_job

fun ticket_job :: "proof_ticket \<Rightarrow> proof_job" where
  "ticket_job (LocalTicket job _) = job"
| "ticket_job (RedisTicket job) = job"

definition local_start ::
  "crates \<Rightarrow> prover_json \<Rightarrow> pipeline_config \<Rightarrow> bytes res \<Rightarrow> (daemon_event list \<times> unit res list) res \<Rightarrow> local_backend res" where
  "local_start X JP config elf spawned =
     and_then (prover_start X JP config elf spawned) (\<lambda>daemon.
     Inr \<lparr>lb_daemon = daemon, lb_sent = [], lb_stopped = False\<rparr>)"

definition proof_backend_local ::
  "crates \<Rightarrow> prover_json \<Rightarrow> pipeline_config \<Rightarrow> bytes res \<Rightarrow> (daemon_event list \<times> unit res list) res \<Rightarrow> proof_backend res" where
  "proof_backend_local X JP config elf spawned =
     and_then (local_start X JP config elf spawned) (\<lambda>b. Inr (LocalProver b))"

definition proof_backend_redis :: "string \<Rightarrow> proof_backend" where
  "proof_backend_redis namespace = RedisProver (queue_keys_new namespace)"

definition local_submit :: "local_backend \<Rightarrow> proof_job \<Rightarrow> local_backend \<times> proof_ticket res" where
  "local_submit b job =
     (if lb_stopped b then (b, Inl (Err ''local proof backend is stopped''))
      else (b\<lparr>lb_sent := lb_sent b @ [job]\<rparr>, Inr (LocalTicket job (length (lb_sent b)))))"

definition proof_backend_submit ::
  "crates \<Rightarrow> 'j serde \<Rightarrow> proof_job \<Rightarrow> proof_backend \<times> redis \<Rightarrow> (proof_backend \<times> redis) \<times> proof_ticket res" where
  "proof_backend_submit X J job s =
     (case job_validate X J job of
        Inl e \<Rightarrow> (s, Inl e)
      | Inr _ \<Rightarrow>
          (case s of
             (LocalProver b, db) \<Rightarrow> (case local_submit b job of (b', r) \<Rightarrow> ((LocalProver b', db), r))
           | (RedisProver keys, db) \<Rightarrow>
               (case redis_submit J keys job db of
                  (db', r) \<Rightarrow> ((RedisProver keys, db'), and_then r (\<lambda>job. Inr (RedisTicket job))))))"

text \<open>
  What the worker has answered when it ends: \<open>envs\<close> has one entry per job it took. For Redis, \<open>seen\<close>
  is what the reads of the wait loop find, and \<open>None\<close> a wait that never ends.
\<close>

definition local_results ::
  "crates \<Rightarrow> 'j serde \<Rightarrow> prover_json \<Rightarrow> pipeline_config \<Rightarrow> local_backend \<Rightarrow> job_env list \<Rightarrow> 'j proof_result res list" where
  "local_results X J JP config b envs = serve X J JP config (Some (lb_daemon b)) (zip (lb_sent b) envs)"

definition proof_backend_wait ::
  "crates \<Rightarrow> 'j serde \<Rightarrow> prover_json \<Rightarrow> pipeline_config \<Rightarrow> proof_backend \<Rightarrow> job_env list \<Rightarrow> (nat \<Rightarrow> redis res)
     \<Rightarrow> proof_ticket \<Rightarrow> prover_output res option" where
  "proof_backend_wait X J JP config backend envs seen ticket =
     map_option (\<lambda>r. and_then r (\<lambda>(job, result). into_prover_output X J result job))
       (case (backend, ticket) of
          (LocalProver b, LocalTicket job n) \<Rightarrow>
            (let results = local_results X J JP config b envs in
             Some (if n < length results then and_then (results ! n) (\<lambda>result. Inr (job, result))
                   else Inl (Err ''local proof task stopped before returning a result'')))
        | (RedisProver keys, RedisTicket job) \<Rightarrow>
            map_option (\<lambda>r. and_then r (\<lambda>result. Inr (job, result))) (wait_result X J keys job seen)
        | _ \<Rightarrow> Some (Inl (Err ''proof ticket belongs to a different backend'')))"

definition local_shutdown :: "local_backend \<Rightarrow> local_backend" where
  "local_shutdown b = b\<lparr>lb_stopped := True\<rparr>"

definition proof_backend_shutdown :: "proof_backend \<Rightarrow> proof_backend" where
  "proof_backend_shutdown backend =
     (case backend of LocalProver b \<Rightarrow> LocalProver (local_shutdown b) | RedisProver keys \<Rightarrow> RedisProver keys)"

section \<open>Tickets\<close>

lemma submit_ticket:
  "proof_backend_submit X J job s = (s', Inr t) \<Longrightarrow> job_validate X J job = Inr () \<and> ticket_job t = job"
  by (auto simp: proof_backend_submit_def local_submit_def redis_submit_def
      split: sum.splits prod.splits proof_backend.splits if_splits)

lemma wait_output:
  "proof_backend_wait X J JP config backend envs seen t = Some (Inr out) \<Longrightarrow>
   \<exists>result. into_prover_output X J result (ticket_job t) = Inr out"
  by (auto simp: proof_backend_wait_def Let_def elim!: and_then_elim split: proof_backend.splits proof_ticket.splits if_splits)

lemma into_output_validates: "into_prover_output X J result job = Inr out \<Longrightarrow> validate_for X J result job = Inr ()"
  by (auto simp: into_prover_output_def elim!: and_then_elim)

fun submit_jobs ::
  "crates \<Rightarrow> 'j serde \<Rightarrow> proof_job list \<Rightarrow> proof_backend \<times> redis \<Rightarrow> (proof_backend \<times> redis) \<times> proof_ticket res list" where
  "submit_jobs X J [] s = (s, [])"
| "submit_jobs X J (job # jobs) s =
     (case proof_backend_submit X J job s of (s1, r) \<Rightarrow>
        (case submit_jobs X J jobs s1 of (s2, rs) \<Rightarrow> (s2, r # rs)))"

abbreviation valid_job :: "crates \<Rightarrow> 'j serde \<Rightarrow> proof_job \<Rightarrow> bool" where
  "valid_job X J job \<equiv> job_validate X J job = Inr ()"

lemma submit_jobs_local:
  assumes "\<not> lb_stopped b"
  shows "submit_jobs X J jobs (LocalProver b, db) =
    ((LocalProver (b\<lparr>lb_sent := lb_sent b @ filter (valid_job X J) jobs\<rparr>), db),
     map (\<lambda>i. and_then (job_validate X J (jobs ! i)) (\<lambda>_.
            Inr (LocalTicket (jobs ! i) (length (lb_sent b) + length (filter (valid_job X J) (take i jobs))))))
       [0..<length jobs])"
  using assms
proof (induction jobs arbitrary: b)
  case (Cons job jobs)
  have upt: "[0..<length (job # jobs)] = 0 # map Suc [0..<length jobs]" by (simp only: map_Suc_upt list.size upt_conv_Cons) simp
  show ?case
  proof (cases "job_validate X J job")
    case (Inl e)
    with Cons.IH[OF Cons.prems] show ?thesis
      unfolding upt by (simp add: proof_backend_submit_def)
  next
    case (Inr u)
    with Cons.IH[of "b\<lparr>lb_sent := lb_sent b @ [job]\<rparr>"] Cons.prems show ?thesis
      unfolding upt by (simp add: proof_backend_submit_def local_submit_def)
  qed
qed simp

lemma filter_valid_nth:
  assumes "i < length jobs" and "valid_job X J (jobs ! i)"
  defines "n \<equiv> length (filter (valid_job X J) (take i jobs))"
  shows "n < length (filter (valid_job X J) jobs)" and "filter (valid_job X J) jobs ! n = jobs ! i"
proof -
  have "filter (valid_job X J) jobs
      = filter (valid_job X J) (take i jobs) @ jobs ! i # filter (valid_job X J) (drop (Suc i) jobs)"
    using assms(1,2) by (subst id_take_nth_drop[OF assms(1)]) simp
  then show "n < length (filter (valid_job X J) jobs)" "filter (valid_job X J) jobs ! n = jobs ! i"
    by (simp_all add: n_def)
qed

section \<open>What reaches the chain\<close>

text \<open>
  Every answer of a poll's backend comes from some state of a proof backend: other blocks, other
  nodes and restarts may have changed it in between.
\<close>

definition answers_from_backend :: "crates \<Rightarrow> 'j serde \<Rightarrow> prover_json \<Rightarrow> pipeline_config \<Rightarrow> proof_ticket backend \<Rightarrow> bool" where
  "answers_from_backend X J JP config B \<longleftrightarrow>
     (\<forall>job t. be_submit B job = Inr t \<longrightarrow> (\<exists>s s'. proof_backend_submit X J job s = (s', Inr t)))
     \<and> (\<forall>t out. be_wait B t = Inr out \<longrightarrow>
          (\<exists>backend envs seen. proof_backend_wait X J JP config backend envs seen t = Some (Inr out)))"

text \<open>An update carries a proof of its own transition, and the proof was accepted for its own job.\<close>

definition proven :: "('st, 'b, 'j) deps \<Rightarrow> pipeline_config \<Rightarrow> submission \<Rightarrow> bool" where
  "proven D config s \<longleftrightarrow>
     (\<exists>N cp height p (result :: 'j proof_result) out. prepare_height D N config cp height = Inr p
        \<and> su_idempotency_key s = pt_idempotency_key p \<and> su_header s = pt_new_header p \<and> su_proof s = po_proof out
        \<and> into_prover_output (d_crates D) (d_serde D) result (pt_proof_job p) = Inr out
        \<and> validate_for (d_crates D) (d_serde D) result (pt_proof_job p) = Inr ()
        \<and> po_public_values out = expected_public_values D config (pt_old_header p) (pt_new_header p)
        \<and> length (su_proof s) = proof_size \<and> \<not> list_all (\<lambda>b. b = 0) (su_proof s))"

text \<open>A program with a log of the updates it accepts.\<close>

definition logged :: "'c program \<Rightarrow> ('c \<times> submission list) program" where
  "logged P =
     \<lparr>on_chain_header = on_chain_header P \<circ> fst, paid_mints = paid_mints P \<circ> fst, claimed_mints = claimed_mints P \<circ> fst,
      setup_mint_buffer = (\<lambda>h ms (c, log). (setup_mint_buffer P h ms c, log)),
      mint_buffer_address = mint_buffer_address P,
      setup_txo_buffer = (\<lambda>h is (c, log). (setup_txo_buffer P h is c, log)),
      txo_buffer_address = txo_buffer_address P,
      accept_update = (\<lambda>s (c, log). (accept_update P s c, log @ [s])),
      update_reply = update_reply P,
      pay_mints = (\<lambda>ms b n (c, log). (pay_mints P ms b n c, log)),
      group_signatures = group_signatures P\<rparr>"

definition log_ok :: "('st, 'b, 'j) deps \<Rightarrow> pipeline_config \<Rightarrow> submission set \<Rightarrow> ('c \<times> submission list) world \<Rightarrow> bool" where
  "log_ok D config old w \<longleftrightarrow> (\<forall>s \<in> set (snd (w_chain w)). s \<in> old \<or> proven D config s)"

lemma log_ok_simps [simp]:
  "log_ok D config old (w\<lparr>w_journal := j\<rparr>) = log_ok D config old w"
  "log_ok D config old (w\<lparr>w_checkpoint := cp\<rparr>) = log_ok D config old w"
  "log_ok D config old (w\<lparr>w_memory := m\<rparr>) = log_ok D config old w"
  "log_ok D config old (w\<lparr>w_evidence := e\<rparr>) = log_ok D config old w"
  "log_ok D config old (w\<lparr>w_chain := setup_mint_buffer (logged P) h ms (w_chain w)\<rparr>) = log_ok D config old w"
  "log_ok D config old (w\<lparr>w_chain := setup_txo_buffer (logged P) h is (w_chain w)\<rparr>) = log_ok D config old w"
  "log_ok D config old (w\<lparr>w_chain := pay_mints (logged P) ms b n (w_chain w)\<rparr>) = log_ok D config old w"
  "log_ok D config old (w\<lparr>w_chain := accept_update (logged P) s (w_chain w)\<rparr>)
    \<longleftrightarrow> log_ok D config old w \<and> (s \<in> old \<or> proven D config s)"
  by (auto simp: log_ok_def logged_def split: prod.splits)

lemma pay_logs:
  "keeps (log_ok D config old) (log_ok D config old) (pay_attempts (logged P) ms b k) (\<lambda>_. log_ok D config old)"
  unfolding keeps_def
proof (intro allI impI)
  fix fates w fates' w' r
  assume "log_ok D config old w" "pay_attempts (logged P) ms b k (fates, w) = ((fates', w'), r)"
  then have "log_ok D config old w'"
    by (induction "logged P" ms b k "(fates, w)" arbitrary: fates w rule: pay_attempts.induct)
      (auto simp: Let_def split: nat.splits)
  then show "(\<forall>e. r = Inl e \<longrightarrow> log_ok D config old w') \<and> (\<forall>x. r = Inr x \<longrightarrow> log_ok D config old w')" by blast
qed

lemmas logs_rules = keeps_then[where Q = "\<lambda>_. log_ok D config old" for D config old] keeps_lift keeps_get keeps_update
  keeps_effect pay_logs

lemma ensure_logs:
  "keeps (log_ok D config old) (log_ok D config old) (ensure_recipient_token_accounts config' ms) (\<lambda>_. log_ok D config old)"
  by (induction ms) (auto intro!: logs_rules)

lemma upload_logs:
  "keeps (log_ok D config old) (log_ok D config old) (upload_finalized_buffers D' (logged P) config' h fin) (\<lambda>_. log_ok D config old)"
  unfolding upload_finalized_buffers_def Let_def by (auto intro!: logs_rules ensure_logs split: prod.split)

lemma process_logs:
  "keeps (log_ok D config old) (log_ok D config old) (process_finalized_mints (logged P) fin b) (\<lambda>_. log_ok D config old)"
  unfolding process_finalized_mints_def process_remaining_pending_mints_def Let_def by (auto intro!: logs_rules)

lemma commit_logs:
  assumes "\<And>s cp. su_idempotency_key s = pt_idempotency_key p \<Longrightarrow> su_header s = pt_new_header p \<Longrightarrow> su_proof s = po_proof output
      \<Longrightarrow> check_prepared D config cp p output = Inr () \<Longrightarrow> proven D config s"
  shows "keeps (log_ok D config old) (log_ok D config old) (commit_prepared D (logged P) config p output) (\<lambda>_. log_ok D config old)"
proof (cases "\<exists>cp. check_prepared D config cp p output = Inr ()")
  case True
  then obtain cp where cp: "check_prepared D config cp p output = Inr ()" by blast
  show ?thesis
    unfolding commit_prepared_def Let_def get_memory_def set_journal_def write_evidence_def set_memory_def
      set_checkpoint_def del_journal_def
    by (auto intro!: logs_rules upload_logs process_logs assms[OF _ _ _ cp])
next
  case False
  show ?thesis
    unfolding commit_prepared_def get_memory_def
  proof (rule keeps_then[OF keeps_get[where Q = "\<lambda>_. log_ok D config old"]])
    fix cp
    show "keeps (log_ok D config old) (log_ok D config old)
        (io_then (io_lift (check_prepared D config cp p output)) f) (\<lambda>_. log_ok D config old)" for f
      by (rule keeps_then[where Q = "\<lambda>_ _. False"], rule keeps_lift) (use False in \<open>auto intro: keeps_contradiction\<close>)
  qed assumption
qed

lemma reconcile_logs:
  "keeps (log_ok D config old) (log_ok D config old) (reconcile_checkpoint_journal D' (logged P) cp h) (\<lambda>_. log_ok D config old)"
  unfolding reconcile_checkpoint_journal_def Let_def set_checkpoint_def del_journal_def process_remaining_pending_mints_def
  by (auto intro!: logs_rules split: journal_recovery_plan.split)

lemma restore_logs:
  "keeps (log_ok D config old) (log_ok D config old) (restore_checkpoint D' (logged P) N config') (\<lambda>_. log_ok D config old)"
  unfolding restore_checkpoint_def set_memory_def by (auto intro!: logs_rules reconcile_logs)

text \<open>Every block in flight is prepared, and its ticket is for its own job.\<close>

definition own_jobs :: "('st, 'b, 'j) deps \<Rightarrow> pipeline_config \<Rightarrow> proof_ticket poll_state \<Rightarrow> bool" where
  "own_jobs D config s \<longleftrightarrow>
     (\<forall>h p t. bt_get (ps_inflight s) h = Some (p, t) \<longrightarrow>
        (\<exists>N cp height. prepare_height D N config cp height = Inr p) \<and> ticket_job t = pt_proof_job p)"

lemma plan_ahead_own_jobs:
  assumes "answers_from_backend (d_crates D) (d_serde D) JP config B"
  shows "plan_ahead D N B config tip (s, did_work) = Inr (s', did_work') \<Longrightarrow> own_jobs D config s \<Longrightarrow> own_jobs D config s'"
  using assms
proof (induction D N B config tip "(s, did_work)" arbitrary: s did_work rule: plan_ahead.induct)
  case (1 D N B config tip s did_work)
  show ?case
  proof (cases "length (ps_inflight s) < cfg_proof_prepare_window config \<and> cp_height (ps_planned s) < tip")
    case False
    with 1(2,3) show ?thesis by (simp add: plan_ahead_stop)
  next
    case True
    from 1(2) True obtain height p ticket where
      h: "checked_add_u32 (cp_height (ps_planned s)) 1 = Some height"
      and p: "prepare_height D N config (ps_planned s) height = Inr p" and t: "be_submit B (pt_proof_job p) = Inr ticket"
      and new: "bt_get (ps_inflight s) height = None"
      and rec: "plan_ahead D N B config tip (\<lparr>ps_planned = pt_next_checkpoint p,
          ps_inflight = bt_insert height (p, ticket) (ps_inflight s)\<rparr>, True) = Inr (s', did_work')"
      unfolding plan_ahead_go[OF True]
      by (elim and_then_elim) (simp del: not_None_eq add: ok_or_eq_Inr split: if_split_asm)
    from t 1(4) have "ticket_job ticket = pt_proof_job p" unfolding answers_from_backend_def by (metis submit_ticket)
    with p 1(3) have "own_jobs D config \<lparr>ps_planned = pt_next_checkpoint p, ps_inflight = bt_insert height (p, ticket) (ps_inflight s)\<rparr>"
      by (auto simp: own_jobs_def bt_get_insert)
    from 1(1)[OF True _ p t _ rec this 1(4)] h new show ?thesis by (auto simp: ok_or_def)
  qed
qed

lemma waited_proven:
  assumes "own_jobs D config s" and "bt_get (ps_inflight s) h = Some (p, t)"
    and "answers_from_backend (d_crates D) (d_serde D) JP config B" and "be_wait B t = Inr out"
    and "su_idempotency_key u = pt_idempotency_key p" "su_header u = pt_new_header p" "su_proof u = po_proof out"
    and "check_prepared D config cp p out = Inr ()"
  shows "proven D config u"
proof -
  from assms(1,2) obtain N cp height where prep: "prepare_height D N config cp height = Inr p" and t: "ticket_job t = pt_proof_job p"
    unfolding own_jobs_def by blast
  from assms(3,4) obtain result where r: "into_prover_output (d_crates D) (d_serde D) result (pt_proof_job p) = Inr out"
    unfolding answers_from_backend_def by (metis wait_output t)
  have "length (po_proof out) = proof_size" "\<not> list_all (\<lambda>b. b = 0) (po_proof out)"
    "po_public_values out = expected_public_values D config (pt_old_header p) (pt_new_header p)"
    using assms(8) by (auto simp: check_prepared_def ensure_length_def Let_def elim!: and_then_elim split: if_splits)
  with prep r into_output_validates[OF r] assms(5-7) show ?thesis unfolding proven_def by metis
qed

lemma poll_logs:
  assumes B: "answers_from_backend (d_crates D) (d_serde D) JP config B" and s: "own_jobs D config s"
  shows "keeps (log_ok D config old) (log_ok D config old) (poll_once D (logged P) N B config s)
    (\<lambda>r w. log_ok D config old w \<and> own_jobs D config (fst r))"
proof -
  let ?L = "log_ok D config old"
  have commit: "keeps ?L ?L (io_then (io_lift (be_wait B t)) (\<lambda>out. io_then (commit_prepared D (logged P) config p out) (\<lambda>_.
      io_lift (Inr (s'\<lparr>ps_inflight := bt_remove h (ps_inflight s')\<rparr>, True))))) (\<lambda>r w. ?L w \<and> own_jobs D config (fst r))"
    if s': "own_jobs D config s'" and got: "bt_get (ps_inflight s') h = Some (p, t)" for s' h p t
  proof (rule keeps_then[where Q = "\<lambda>out w. ?L w \<and> be_wait B t = Inr out"], goal_cases)
    case (2 out)
    show ?case
    proof (rule keeps_pure, rule keeps_then)
      assume "be_wait B t = Inr out"
      then show "keeps ?L ?L (commit_prepared D (logged P) config p out) (\<lambda>_. ?L)"
        by (intro commit_logs waited_proven[OF s' got B])
    qed (use s' in \<open>auto intro!: keeps_lift simp: own_jobs_def bt_get_remove split: if_splits\<close>)
  qed (auto intro!: keeps_lift)
  show ?thesis
    unfolding poll_once_def Let_def get_memory_def
  proof (rule keeps_then[OF keeps_lift[where Q = "\<lambda>_. ?L"]], goal_cases)
    case (3 tip)
    show ?case
    proof (rule keeps_then[where Q = "\<lambda>r w. ?L w \<and> own_jobs D config (fst r)"], goal_cases)
      case 1
      show ?case using plan_ahead_own_jobs[OF B _ s] by (intro keeps_lift) auto
    next
      case (2 r)
      show ?case
        by (cases r, simp only: prod.case fst_conv, rule keeps_pure)
          (auto intro!: keeps_then[where Q = "\<lambda>_. ?L"] keeps_get keeps_lift commit split: option.split)
    qed
  qed simp_all
qed

lemma polls_log:
  assumes "\<forall>(N, B) \<in> set polls. answers_from_backend (d_crates D) (d_serde D) JP config B"
  shows "own_jobs D config s \<Longrightarrow> keeps (log_ok D config old) (log_ok D config old) (run_polls D (logged P) config polls s) (\<lambda>_. log_ok D config old)"
  using assms
proof (induction polls arbitrary: s)
  case (Cons a polls)
  obtain N B where a: "a = (N, B)" by (cases a)
  show ?case
    unfolding a run_polls.simps
  proof (rule keeps_then[OF poll_logs[where JP = JP]], goal_cases)
    case 1
    then show ?case using Cons.prems(2) by (simp add: a)
  next
    case (3 r)
    show ?case
      by (cases r, simp only: prod.case fst_conv, rule keeps_pure) (use Cons in simp)
  qed (rule Cons.prems(1))
qed (auto intro!: keeps_lift)

lemma lives_log:
  assumes "\<forall>(N, polls, fates) \<in> set lives. \<forall>(N, B) \<in> set polls. answers_from_backend (d_crates D) (d_serde D) JP config B"
  shows "log_ok D config old w \<Longrightarrow> log_ok D config old (node_lives D (logged P) config lives w)"
  using assms
proof (induction lives arbitrary: w)
  case (Cons life lives)
  obtain N polls fates where life: "life = (N, polls, fates)" by (cases life)
  obtain fates' w' r where run: "node_life D (logged P) config N polls (fates, w) = ((fates', w'), r)" by (metis prod.exhaust)
  have "own_jobs D config \<lparr>ps_planned = cp, ps_inflight = []\<rparr>" for cp by (simp add: own_jobs_def bt_get_def)
  then have "keeps (log_ok D config old) (log_ok D config old) (node_life D (logged P) config N polls) (\<lambda>_. log_ok D config old)"
    unfolding node_life_def get_memory_def using Cons.prems(2)
    by (intro keeps_then[OF restore_logs] keeps_then[OF keeps_get[where Q = "\<lambda>_. log_ok D config old"]] polls_log)
      (auto simp: life)
  then have "log_ok D config old w'" using Cons.prems(1) run by (cases r) (auto dest: keeps_error keeps_value)
  with Cons.IH Cons.prems(2) show ?case by (simp add: life run)
qed simp

section \<open>A concrete backend\<close>

text \<open>The backend in one state: what \<open>submit\<close> and \<open>wait\<close> answer there; a wait without end is cut by the watchdog.\<close>

definition poll_backend ::
  "crates \<Rightarrow> 'j serde \<Rightarrow> prover_json \<Rightarrow> pipeline_config \<Rightarrow> proof_backend \<times> redis \<Rightarrow> job_env list \<Rightarrow> (nat \<Rightarrow> redis res)
     \<Rightarrow> proof_ticket backend" where
  "poll_backend X J JP config s envs seen =
     \<lparr>be_submit = (\<lambda>job. snd (proof_backend_submit X J job s)),
      be_wait = (\<lambda>t. case proof_backend_wait X J JP config (fst s) envs seen t of
         Some r \<Rightarrow> r
       | None \<Rightarrow> Inl (Err ''block pipeline poll_once watchdog exceeded''))\<rparr>"

lemma poll_backend_answers: "answers_from_backend X J JP config (poll_backend X J JP config s envs seen)"
  unfolding answers_from_backend_def poll_backend_def
  by (auto split: option.splits) (metis prod.collapse)+

lemma logged_simps:
  "on_chain_header (logged P) c = on_chain_header P (fst c)" "paid_mints (logged P) c = paid_mints P (fst c)"
  "update_reply (logged P) = update_reply P"
  by (simp_all add: logged_def)

lemma logged_program: "bridge_program P \<Longrightarrow> bridge_program (logged P)"
  unfolding bridge_program_def logged_def by (auto split: prod.splits)

lemma plan_with_backend:
  assumes "prepare_height D demo_node (demo_config 1) demo_start 1 = Inr p" and "be_submit B (pt_proof_job p) = Inr t"
  shows "plan_ahead D (node_at 2) B (demo_config 1) (saturating_sub 2 (cfg_required_confirmations (demo_config 1)))
      (\<lparr>ps_planned = demo_start, ps_inflight = []\<rparr>, False)
    = Inr (\<lparr>ps_planned = pt_next_checkpoint p, ps_inflight = [(1, p, t)]\<rparr>, True)"
proof -
  have h: "cp_height demo_start = 0" "cp_height (pt_next_checkpoint p) = 1" "checked_add_u32 0 1 = Some 1"
    using prepared_heights(2)[OF assms(1)] by (simp_all add: demo_height_at checked_add_u32_def)
  have "plan_ahead D (node_at 2) B (demo_config 1) (saturating_sub 2 1) (\<lparr>ps_planned = demo_start, ps_inflight = []\<rparr>, False)
      = plan_ahead D (node_at 2) B (demo_config 1) (saturating_sub 2 1)
          (\<lparr>ps_planned = pt_next_checkpoint p, ps_inflight = [(1, p, t)]\<rparr>, True)"
    by (subst plan_ahead_go) (simp_all add: h saturating_sub_def demo_config_def[of 1] ok_or_def prepare_node_at
        assms(1)[unfolded demo_config_def] assms(2) bt_get_def)
  also have "\<dots> = Inr (\<lparr>ps_planned = pt_next_checkpoint p, ps_inflight = [(1, p, t)]\<rparr>, True)"
    by (rule plan_ahead_stop) (simp add: h saturating_sub_def)
  finally show ?thesis by (simp add: demo_config_def)
qed

definition good_reply :: "prepared \<Rightarrow> prover_response" where
  "good_reply p = (reply_to (job_request (pt_proof_job p)))
     \<lparr>pr_proof_size := Some 356, pr_proof_bytes := Some (demo_encode (replicate 356 1)), pr_public_values_size := Some 32,
      pr_public_values := Some (demo_encode (expected_public_values demo_D (demo_config 1) (pt_old_header p) (pt_new_header p)))\<rparr>"

definition good_result :: "prepared \<Rightarrow> prover_response proof_result" where
  "good_result p = result_success demo_crates (pt_proof_job p) (good_reply p) []"

abbreviation proving_D :: "prepared \<Rightarrow> (bytes, u64, prover_response) deps" where
  "proving_D p \<equiv> demo_D\<lparr>d_serde := demo_result_serde (good_result p)\<rparr>"

lemma proving_prepare:
  "prepare_height (proving_D p) N config cp h = prepare_height demo_D N config cp h"
  by (rule prepare_height_serde) (simp add: demo_result_serde_def)

lemma good_output:
  assumes "prepare_height demo_D demo_node (demo_config 1) demo_start 1 = Inr p"
  shows "into_prover_output demo_crates (demo_result_serde (good_result p)) (good_result p) (pt_proof_job p)
    = Inr \<lparr>po_stdout = [], po_stderr = [], po_vk_hash = regtest_block_vk_hash, po_proof = replicate 356 1,
        po_public_values = expected_public_values demo_D (demo_config 1) (pt_old_header p) (pt_new_header p)\<rparr>"
proof -
  obtain elf request json where elf: "elf_file demo_node = Inr elf"
    and job: "job_new demo_crates demo_serde (network_str Regtest) 1 (sha256_hex demo_crates (str_bytes json)) (guest_id Regtest)
       (sha256_hex demo_crates elf) (demo_encode regtest_block_vk_hash) request = Inr (pt_proof_job p)"
    by (rule prepare_heightE[OF assms]) (simp add: demo_config_def demo_hex)
  note j = job_new_fields[OF job]
  have elf': "elf = [1, 2, 3]" using elf by (simp add: demo_node_def)
  have vk: "decode_hex_32 demo_crates (demo_encode regtest_block_vk_hash) = Inr regtest_block_vk_hash"
    by (simp add: decode_hex_32_def demo_hex regtest_block_vk_hash_def)
  have len: "length (expected_public_values demo_D (demo_config 1) (pt_old_header p) (pt_new_header p)) = 32"
    using demo_hash_laws by (simp add: expected_public_values_def Let_def hash_laws_def)
  have "validate_for demo_crates (demo_result_serde (good_result p)) (good_result p) (pt_proof_job p) = Inr ()"
    using j(1) by (simp add: validate_for_def job_validate_demo_result identity_matches_def good_result_def
        result_success_def result_from_job_def)
  moreover have "res_outcome (good_result p) = OutSuccess (good_reply p) (demo_encode [])"
    by (simp add: good_result_def result_success_def result_from_job_def demo_hex)
  moreover have "json_to_vec (demo_result_serde r) v = Inr []" "response_from_json (demo_result_serde r) v = Some v" for r v
    by (simp_all add: demo_result_serde_def demo_serde_def)
  ultimately show ?thesis
    by (simp add: into_prover_output_def demo_hex ok_or_def)
      (simp add: validate_daemon_response_def good_reply_def reply_to_def bail_if_def decode_required_response_bytes_def
        demo_hex j(2,5,6,7) elf' len vk network_str_def sha256_hex_def,
       rule exI[of _ "expected_public_values demo_D (demo_config 1) (pt_old_header p) (pt_new_header p)"], simp add: len)
qed

lemma and_then_tag: "and_then (and_then r (\<lambda>x. Inr (j, x))) (\<lambda>(j, x). g j x) = and_then r (g j)"
  by (cases r) simp_all

section \<open>Properties\<close>

text \<open>
  Claim C24. Jobs sent to a freshly started local prover get their tickets in order, an invalid one
  an error instead. Whenever the worker ends, redeeming a ticket gives what the worker answered to
  this very job, checked against the job, or an error when the worker had not reached it. An answer
  of the worker never fails that check because it belongs to another job.
\<close>

theorem local_tickets_redeemed_in_order:
  assumes "proof_backend_local X JP config elf spawned = Inr backend"
    and "submit_jobs X J jobs (backend, db) = ((backend', db'), tickets)" and "i < length jobs"
    and "sent = filter (\<lambda>job. job_validate X J job = Inr ()) jobs"
    and "n = length (filter (\<lambda>job. job_validate X J job = Inr ()) (take i jobs))"
  shows "\<exists>d. prover_start X JP config elf spawned = Inr d \<and>
    (case job_validate X J (jobs ! i) of
       Inl e \<Rightarrow> tickets ! i = Inl e
     | Inr _ \<Rightarrow> tickets ! i = Inr (LocalTicket (jobs ! i) n)
         \<and> (\<forall>envs seen. proof_backend_wait X J JP config backend' envs seen (LocalTicket (jobs ! i) n)
              = Some (if n < length envs
                      then and_then (serve X J JP config (Some d) (zip sent envs) ! n)
                             (\<lambda>result. into_prover_output X J result (jobs ! i))
                      else Inl (Err ''local proof task stopped before returning a result''))
            \<and> (\<forall>result. n < length envs \<and> serve X J JP config (Some d) (zip sent envs) ! n = Inr result
                 \<longrightarrow> validate_for X J result (jobs ! i) = Inr ())))"
proof -
  from assms(1) obtain d where d: "prover_start X JP config elf spawned = Inr d"
    and b: "backend = LocalProver \<lparr>lb_daemon = d, lb_sent = [], lb_stopped = False\<rparr>"
    by (auto simp: proof_backend_local_def local_start_def elim!: and_then_elim)
  from assms(2) have b': "backend' = LocalProver \<lparr>lb_daemon = d, lb_sent = sent, lb_stopped = False\<rparr>"
    and t: "tickets ! i = and_then (job_validate X J (jobs ! i)) (\<lambda>_. Inr (LocalTicket (jobs ! i) n))"
    using assms(3) unfolding b assms(4,5) by (auto simp: submit_jobs_local)
  show ?thesis
  proof (cases "job_validate X J (jobs ! i)")
    case (Inl e)
    with t d show ?thesis by simp
  next
    case (Inr u)
    then have valid: "valid_job X J (jobs ! i)" by simp
    note nth = filter_valid_nth[OF assms(3) valid, folded assms(4,5)]
    have "validate_for X J result (jobs ! i) = Inr ()"
      if "n < length envs" "serve X J JP config (Some d) (zip sent envs) ! n = Inr result" for envs result
      using serve_answers[of X J JP config "Some d" "zip sent envs"] that nth valid
      by (auto simp: validate_for_def answers_def)
    moreover have "length (serve X J JP config (Some d) (zip sent envs)) = min (length sent) (length envs)" for envs
      using serve_answers[of X J JP config "Some d" "zip sent envs"] by simp
    ultimately show ?thesis
      using Inr t d nth(1) by (auto simp: proof_backend_wait_def b' local_results_def Let_def and_then_tag)
  qed
qed

text \<open>
  Claim C9. Over any number of lives of the node, however they are interrupted, every update the
  sender accepts carries a proof of its own: its header is that of a prepared transition, and its
  proof came from a result that names the job of this transition, with public values that bind its
  old and new header.
\<close>

theorem updates_carry_own_proofs:
  assumes "\<forall>(N, polls, fates) \<in> set lives. \<forall>(N', B) \<in> set polls. answers_from_backend (d_crates D) (d_serde D) JP config B"
    and "w' = node_lives D (logged P) config lives w"
  shows "\<forall>s \<in> set (snd (w_chain w')). s \<in> set (snd (w_chain w)) \<or>
    (\<exists>N cp height p result out. prepare_height D N config cp height = Inr p
        \<and> su_idempotency_key s = pt_idempotency_key p \<and> su_header s = pt_new_header p \<and> su_proof s = po_proof out
        \<and> into_prover_output (d_crates D) (d_serde D) result (pt_proof_job p) = Inr out
        \<and> validate_for (d_crates D) (d_serde D) result (pt_proof_job p) = Inr ()
        \<and> po_public_values out = expected_public_values D config (pt_old_header p) (pt_new_header p)
        \<and> length (su_proof s) = proof_size \<and> \<not> list_all (\<lambda>b. b = 0) (su_proof s))"
  using lives_log[of lives D JP config "set (snd (w_chain w))" w P] assms
  unfolding log_ok_def proven_def by blast

definition demo_identity_json :: prover_json where
  "demo_identity_json =
     \<lparr>identity_from_slice = (\<lambda>_. Some \<lparr>id_kind = ''identity'', id_network = ''regtest'', id_guest_id = guest_id Regtest,
        id_block_elf = sha256_hex demo_crates [1, 2, 3], id_vkey_hash = demo_encode regtest_block_vk_hash\<rparr>),
      response_from_slice = (\<lambda>_. None)\<rparr>"

definition demo_spawn :: "daemon_event list \<times> unit res list" where
  "demo_spawn = ([StderrChunk [9], StdoutLine [123, 10], StdoutClosed], [])"

lemma demo_start_daemon:
  "prover_start demo_crates demo_identity_json (demo_config 1) (Inr [1, 2, 3]) (Inr demo_spawn)
   = Inr \<lparr>dm_events = [StdoutClosed], dm_writes = [], dm_stderr = [9], dm_vk_hash = regtest_block_vk_hash\<rparr>"
proof -
  have "read_response_line [StderrChunk [9], StdoutLine [123, 10], StdoutClosed] [] = (([StdoutClosed], [9]), Inr [123])"
    by (simp add: push_diagnostics_def max_prover_diagnostics_bytes_def strip_line_def open_brace_def Let_def)
  then show ?thesis
    by (simp add: prover_start_def demo_spawn_def demo_identity_json_def ok_or_def validate_prover_identity_def
        validate_prover_elf_sha256_def demo_config_def network_str_def decode_prover_demo)
qed

theorem local_tickets_redeemed_in_order_witness:
  "\<exists>job bad backend backend' db' tickets. demo_new 1 = Inr job
     \<and> proof_backend_local demo_crates demo_identity_json (demo_config 1) (Inr [1, 2, 3]) (Inr demo_spawn) = Inr backend
     \<and> submit_jobs demo_crates demo_serde [job, bad, job] (backend, redis_empty) = ((backend', db'), tickets)
     \<and> tickets ! 2 = Inr (LocalTicket job 1) \<and> (\<exists>e. tickets ! 1 = Inl e)
     \<and> proof_backend_wait demo_crates demo_serde demo_identity_json (demo_config 1) backend'
           [\<lparr>je_prepare = Inr (), je_spawn = Inl (Err ''gone''), je_elf = Inr [1, 2, 3]\<rparr>] (\<lambda>_. Inr redis_empty) (LocalTicket job 1)
         = Some (Inl (Err ''local proof task stopped before returning a result''))"
proof -
  let ?env = "\<lparr>je_prepare = Inr (), je_spawn = Inl (Err ''gone''), je_elf = Inr [1, 2, 3]\<rparr> :: job_env"
  obtain job where job: "demo_new 1 = Inr job" "job_validate demo_crates demo_serde job = Inr ()" by (rule demo_job[of 1])
  let ?bad = "job\<lparr>job_schema_version := 0\<rparr>"
  have bad: "job_validate demo_crates demo_serde ?bad = Inl (Err ''proof job schema version is unsupported'')"
    by (simp add: job_validate_def proof_schema_version_def)
  obtain backend where b: "proof_backend_local demo_crates demo_identity_json (demo_config 1) (Inr [1, 2, 3]) (Inr demo_spawn) = Inr backend"
    by (simp add: proof_backend_local_def local_start_def demo_start_daemon)
  obtain backend' db' tickets where run: "submit_jobs demo_crates demo_serde [job, ?bad, job] (backend, redis_empty) = ((backend', db'), tickets)"
    by (metis prod.exhaust)
  note redeemed = local_tickets_redeemed_in_order[OF b run _ refl refl]
  have "tickets ! 1 = Inl (Err ''proof job schema version is unsupported'')" using redeemed[of 1] by (simp add: bad)
  moreover have "tickets ! 2 = Inr (LocalTicket job 1)"
    "proof_backend_wait demo_crates demo_serde demo_identity_json (demo_config 1) backend' [?env] (\<lambda>_. Inr redis_empty) (LocalTicket job 1)
      = Some (Inl (Err ''local proof task stopped before returning a result''))"
    using redeemed[of 2] by (auto simp: bad job(2) numeral_2_eq_2)
  ultimately show ?thesis using job(1) b run by blast
qed

definition logged_world :: "(ledger \<times> submission list) world" where
  "logged_world =
     \<lparr>w_chain = (w_chain (ledger_world demo_start), []), w_checkpoint = Some demo_start, w_journal = None, w_evidence = [],
      w_memory = demo_start\<rparr>"

definition good_backend :: "prepared \<Rightarrow> proof_ticket backend" where
  "good_backend p = poll_backend demo_crates (demo_result_serde (good_result p)) demo_identity_json (demo_config 1)
     (proof_backend_redis ''q'', redis_empty) []
     (\<lambda>_. Inr (redis_empty\<lparr>strings := [result_key (queue_keys_new ''q'') (job_id (pt_proof_job p)) \<mapsto> ''r'']\<rparr>))"

lemma good_backend_answers:
  assumes "prepare_height demo_D demo_node (demo_config 1) demo_start 1 = Inr p"
  shows "be_submit (good_backend p) (pt_proof_job p) = Inr (RedisTicket (pt_proof_job p))"
    and "be_wait (good_backend p) (RedisTicket (pt_proof_job p)) = Inr \<lparr>po_stdout = [], po_stderr = [],
        po_vk_hash = regtest_block_vk_hash, po_proof = replicate 356 1,
        po_public_values = expected_public_values demo_D (demo_config 1) (pt_old_header p) (pt_new_header p)\<rparr>"
proof -
  let ?J = "demo_result_serde (good_result p)"
  note out = good_output[OF assms]
  note v = into_output_validates[OF out]
  then have job: "job_validate demo_crates ?J (pt_proof_job p) = Inr ()" by (auto simp: validate_for_def elim!: and_then_elim)
  have J: "job_to_string ?J (pt_proof_job p) = Inr (demo_job_str (pt_proof_job p))" "result_from_str ?J ''r'' = Some (good_result p)"
    by (simp_all add: demo_result_serde_def demo_serde_def)
  show "be_submit (good_backend p) (pt_proof_job p) = Inr (RedisTicket (pt_proof_job p))"
    by (simp add: good_backend_def poll_backend_def proof_backend_submit_def job proof_backend_redis_def redis_submit_def J
        submit_job_script_def redis_empty_def)
  have "wait_result demo_crates ?J (queue_keys_new ''q'') (pt_proof_job p)
      (\<lambda>_. Inr (redis_empty\<lparr>strings := [result_key (queue_keys_new ''q'') (job_id (pt_proof_job p)) \<mapsto> ''r'']\<rparr>))
    = Some (Inr (good_result p))"
    by (simp add: wait_result_def wait_loop.simps J ok_or_def v)
  then show "be_wait (good_backend p) (RedisTicket (pt_proof_job p)) = Inr \<lparr>po_stdout = [], po_stderr = [],
        po_vk_hash = regtest_block_vk_hash, po_proof = replicate 356 1,
        po_public_values = expected_public_values demo_D (demo_config 1) (pt_old_header p) (pt_new_header p)\<rparr>"
    by (simp add: good_backend_def poll_backend_def proof_backend_wait_def proof_backend_redis_def out)
qed

lemma logged_run:
  assumes p: "prepare_height demo_D demo_node (demo_config 1) demo_start 1 = Inr p"
    and payload: "validate_buffer_payload demo_crates demo_bridge (pt_finalized_buffers p) (mints_of p) = Inr ()"
    and "mints_of p = []" and new: "pt_new_header p \<noteq> demo_header"
  shows "lg_header (fst (w_chain (node_lives (proving_D p) (logged ledger_program) (demo_config 1)
          [(demo_node, [(node_at 2, good_backend p)], replicate 18 Applied)] logged_world))) = pt_new_header p"
proof -
  let ?D = "proving_D p" and ?P = "logged ledger_program" and ?c = "demo_config 1"
  have bp: "bridge_program ?P" by (rule logged_program[OF ledger.bridge_program_axioms])
  have p': "prepare_height ?D demo_node ?c demo_start 1 = Inr p" using p by (simp add: proving_prepare)
  have D: "d_crates ?D = demo_crates" "d_bridge ?D = demo_bridge" by simp_all
  have laws: "third_party_laws ?D" using demo_third_party by (simp add: third_party_laws_def)
  have next_: "checked_add_u32 (cp_height demo_start) 1 = Some 1" by (simp add: demo_height_at checked_add_u32_def)
  have "pt_old_header p = demo_header"
    by (rule prepare_heightE[OF p]) (simp add: demo_checkpoint_at_def decode_fixed_iff demo_hex)
  then have ext: "extends ?D demo_start p" using prepared_extends[of ?D, OF _ p' next_] new demo_hex_laws by simp
  have "assert_checkpoint_matches_chain demo_crates demo_start (on_chain_header ?P (w_chain logged_world)) = Inr ()"
    using demo_start_matches by (simp add: logged_simps logged_world_def)
  then have start: "uncommitted (d_crates ?D) ?P demo_start [] logged_world"
    by (simp add: uncommitted_def logged_simps logged_world_def ledger_world_def)
  have "safe (d_crates ?D) ?P demo_start p [] logged_world" using start by (simp add: safe_def)
  then obtain f1 w1 where restored: "restore_checkpoint ?D ?P demo_node ?c (replicate 18 Applied, logged_world) = ((f1, w1), Inr ())"
    "smooth 12 f1"
    by (rule completesD[OF bridge_program.restore_completes[OF bp ext, of "[]" demo_node ?c], where k = 12
          and fates = "replicate 18 Applied"]) (auto simp: smooth_replicate)
  from keeps_value[OF bridge_program.restore_uncommitted_keeps[OF bp] start restored(1)]
  have w1: "uncommitted (d_crates ?D) ?P demo_start [] w1" "w_memory w1 = demo_start" by auto
  have settled: "settled ?D ?P ?c demo_start [] [] demo_start w1"
    using w1(1) demo_start_names by (simp add: settled_def planned.planned_start)
  note good = good_backend_answers[OF p]
  note plan = plan_with_backend[OF p' good(1)]
  have fl: "flight ?D ?c demo_start \<lparr>ps_planned = demo_start, ps_inflight = []\<rparr> []" by (rule flight_start)
  have tip: "electrs_height (node_at 2) = Inr 2" by (simp add: node_at_def)
  have got: "bt_get (ps_inflight \<lparr>ps_planned = pt_next_checkpoint p, ps_inflight = [(1, p, RedisTicket (pt_proof_job p))]\<rparr>) 1
      = Some (p, RedisTicket (pt_proof_job p))"
    by (simp add: bt_get_def)
  from bridge_program.poll_completes[OF bp laws settled w1(2) fl tip plan next_ got good(2), of f1] restored(2) payload assms(3)
  obtain f2 w2 s2 where poll: "poll_once ?D ?P (node_at 2) (good_backend p) ?c \<lparr>ps_planned = demo_start, ps_inflight = []\<rparr> (f1, w1)
      = ((f2, w2), Inr (s2, True))" "on_chain_header ?P (w_chain w2) = pt_new_header p"
    by (auto simp: proof_size_def list_all_iff logged_simps expected_public_values_def)
  show ?thesis
    using poll by (simp add: node_life_def io_then_run restored(1) get_memory_def io_get_def w1(2) io_lift_def logged_simps)
qed

theorem updates_carry_own_proofs_witness:
  "\<exists>p w'. prepare_height demo_D demo_node (demo_config 1) demo_start 1 = Inr p
     \<and> w' = node_lives (proving_D p) (logged ledger_program) (demo_config 1)
          [(demo_node, [(node_at 2, good_backend p)], replicate 18 Applied)] logged_world
     \<and> lg_header (fst (w_chain w')) = pt_new_header p \<and> pt_new_header p \<noteq> demo_header
     \<and> list_all (\<lambda>s. \<exists>(q :: prepared) (out :: prover_output) (result :: prover_response proof_result). su_header s = pt_new_header q \<and> su_proof s = po_proof out
          \<and> into_prover_output demo_crates (demo_result_serde (good_result p)) result (pt_proof_job q) = Inr out) (snd (w_chain w'))"
proof -
  obtain p where p: "prepare_height demo_D demo_node (demo_config 1) demo_start 1 = Inr p"
    and payload: "validate_buffer_payload (d_crates demo_D) (d_bridge demo_D) (pt_finalized_buffers p) (mints_of p) = Inr ()"
    and ms: "mints_of p = []" and new: "pt_new_header p \<noteq> demo_header"
    by (rule demo_plan)
  let ?lives = "[(demo_node, [(node_at 2, good_backend p)], replicate 18 Applied)]"
  define w' where "w' = node_lives (proving_D p) (logged ledger_program) (demo_config 1) ?lives logged_world"
  have "\<forall>(N, polls, fates) \<in> set ?lives. \<forall>(N', B) \<in> set polls.
      answers_from_backend (d_crates (proving_D p)) (d_serde (proving_D p)) demo_identity_json (demo_config 1) B"
    using poll_backend_answers by (simp add: good_backend_def)
  from updates_carry_own_proofs[OF this w'_def]
  have "list_all (\<lambda>s. \<exists>(q :: prepared) (out :: prover_output) (result :: prover_response proof_result). su_header s = pt_new_header q \<and> su_proof s = po_proof out
      \<and> into_prover_output demo_crates (demo_result_serde (good_result p)) result (pt_proof_job q) = Inr out) (snd (w_chain w'))"
    unfolding list_all_iff by (simp add: logged_world_def) blast
  moreover have "lg_header (fst (w_chain w')) = pt_new_header p"
    unfolding w'_def by (rule logged_run[OF p _ ms new]) (use payload in simp)
  ultimately show ?thesis using p new w'_def by blast
qed

end
