(* ===== verification/Startup.thy ===== *)
theory Startup
  imports Proof_Backend Evidence
begin

text \<open>
  From the command line to a running node: the arguments of \<open>doge_block_pipeline\<close> and \<open>read_fixed\<close>
  (\<open>bin/doge_block_pipeline.rs\<close>), \<open>BlockPipeline::initialize\<close> and what \<open>run\<close> starts from
  (\<open>block_pipeline.rs\<close>), and the names under which a node keeps its data in Redis.

  The argument parser fills a record of texts and numbers; the files a value may name, the accounts
  on the chain, and the constructors of the clients are parameters.
\<close>

section \<open>The command line\<close>

record text_files =
  tf_is_file :: "string \<Rightarrow> bool"
  tf_read_to_string :: "string \<Rightarrow> string res"

definition read_text :: "text_files \<Rightarrow> string \<Rightarrow> string res" where
  "read_text F path = (case tf_read_to_string F path of Inl _ \<Rightarrow> Inl (Err ''failed to read value'') | Inr text \<Rightarrow> Inr text)"

definition read_fixed :: "crates \<Rightarrow> text_files \<Rightarrow> nat \<Rightarrow> string \<Rightarrow> bytes res" where
  "read_fixed X F n value =
     and_then
       (case strip_prefix ''@'' value of
          Some path \<Rightarrow> read_text F path
        | None \<Rightarrow> if tf_is_file F value then read_text F value else Inr value) (\<lambda>text.
     and_then (ok_or (hex_decode X (normalized_hex text)) (Err ''invalid hex'')) (\<lambda>bytes.
     if length bytes \<noteq> n then Inl (Err ''value must decode to a fixed number of bytes'') else Inr bytes))"

datatype node_command = RunNode | RecoverFrom string

record args =
  arg_command :: "node_command option"
  arg_network :: network_profile
  arg_electrs_url :: string
  arg_redis_url :: string
  arg_sender_url :: string
  arg_sender_token :: string
  arg_gen_proof_path :: path
  arg_block_elf_path :: "path option"
  arg_expected_vk_hash :: "string option"
  arg_proof_archive_dir :: path
  arg_poll_interval_ms :: u64
  arg_redis_seed :: u64
  arg_prover_backend :: prover_backend_kind
  arg_proof_prepare_window :: nat
  arg_proof_queue_prefix :: string
  arg_proof_wait_interval_ms :: u64
  arg_start_height :: "u32 option"
  arg_old_state_dir :: "path option"
  arg_witness_dir :: "path option"
  arg_custody_script_config :: string
  arg_recipient_atas :: "string list"
  arg_required_confirmations :: u32
  arg_config_params :: string
  arg_deposit_evidence_path :: "path option"
  arg_initial_header :: string
  arg_solana_rpc_url :: string
  arg_operator_keypair :: path
  arg_payer_keypair :: path
  arg_doge_mint :: bytes
  arg_bridge_program :: bytes
  arg_pending_mint_program :: bytes
  arg_txo_buffer_program :: bytes

definition build_config :: "crates \<Rightarrow> text_files \<Rightarrow> args \<Rightarrow> pipeline_config res" where
  "build_config X F args =
     (let block_elf_path = (case arg_block_elf_path args of Some p \<Rightarrow> p | None \<Rightarrow> default_block_elf_path (arg_network args)) in
     and_then (case arg_expected_vk_hash args of
                 Some value \<Rightarrow> read_fixed X F 32 value
               | None \<Rightarrow> Inr (default_vk_hash (arg_network args))) (\<lambda>expected_vk_hash.
     and_then (read_fixed X F 32 (arg_custody_script_config args)) (\<lambda>custody_script_config.
     and_then (try_map (read_fixed X F 32) (arg_recipient_atas args)) (\<lambda>recipient_atas.
     and_then (read_fixed X F config_size (arg_config_params args)) (\<lambda>config_params.
     and_then (read_fixed X F header_size (arg_initial_header args)) (\<lambda>initial_header.
     Inr \<lparr>cfg_network = arg_network args, cfg_electrs_url = arg_electrs_url args, cfg_redis_url = arg_redis_url args,
          cfg_sender_url = arg_sender_url args, cfg_sender_bearer_token = arg_sender_token args,
          cfg_gen_proof_path = arg_gen_proof_path args, cfg_block_elf_path = block_elf_path,
          cfg_expected_vk_hash = expected_vk_hash, cfg_evidence_dir = arg_proof_archive_dir args,
          cfg_poll_interval = from_millis (unat (arg_poll_interval_ms args)), cfg_redis_seed = arg_redis_seed args,
          cfg_prover_backend = arg_prover_backend args, cfg_proof_prepare_window = arg_proof_prepare_window args,
          cfg_proof_queue_prefix = arg_proof_queue_prefix args,
          cfg_proof_wait_interval = from_millis (unat (arg_proof_wait_interval_ms args)),
          cfg_start_height = arg_start_height args, cfg_old_state_dir = arg_old_state_dir args,
          cfg_witness_dir = arg_witness_dir args, cfg_custody_script_config = custody_script_config,
          cfg_recipient_atas = recipient_atas, cfg_required_confirmations = arg_required_confirmations args,
          cfg_config_params = config_params, cfg_initial_header = initial_header,
          cfg_deposit_evidence_path = arg_deposit_evidence_path args,
          cfg_solana_rpc_url = arg_solana_rpc_url args, cfg_operator_keypair = arg_operator_keypair args,
          cfg_payer_keypair = arg_payer_keypair args, cfg_doge_mint = arg_doge_mint args,
          cfg_bridge_program = arg_bridge_program args, cfg_pending_mint_program = arg_pending_mint_program args,
          cfg_txo_buffer_program = arg_txo_buffer_program args\<rparr>))))))"

section \<open>Starting the node\<close>

text \<open>What the client reads of the bridge's accounts, and how the constructors of the clients end.\<close>

record 'c accounts =
  acc_operator :: "'c \<Rightarrow> bytes"
  acc_custodian_hash :: "'c \<Rightarrow> bytes"
  acc_doge_mint :: "'c \<Rightarrow> bytes"

record startup_env =
  se_debug :: bool
  se_redis_pool :: "unit res"
  se_bridge_client :: "unit res"
  se_sender_client :: "unit res"
  se_elf :: "bytes res"
  se_spawned :: "(daemon_event list \<times> unit res list) res"

record block_pipeline =
  bp_config :: pipeline_config
  bp_checkpoint_key :: string
  bp_backend :: proof_backend
  bp_state :: "proof_ticket poll_state"

definition start_backend ::
  "crates \<Rightarrow> prover_json \<Rightarrow> startup_env \<Rightarrow> pipeline_config \<Rightarrow> proof_backend res" where
  "start_backend X JP env config =
     (case cfg_prover_backend config of
        LocalBackend \<Rightarrow> proof_backend_local X JP config (se_elf env) (se_spawned env)
      | RedisBackend \<Rightarrow>
          Inr (proof_backend_redis (proof_namespace (cfg_proof_queue_prefix config) (network_str (cfg_network config))
                 (nat_str (unat (cfg_redis_seed config))))))"

text \<open>
  The checkpoint is loaded or made anew, reconciled with the journal, and compared with the header. It
  is in memory from then on; a failure after that ends the process.
\<close>

definition load_checkpoint :: "('st, 'b, 'j) deps \<Rightarrow> 'c program \<Rightarrow> node \<Rightarrow> pipeline_config \<Rightarrow> bytes \<Rightarrow> ('c, pipeline_checkpoint) step" where
  "load_checkpoint D P N config chain_header =
     io_then (effect (\<lambda>w. w) w_checkpoint) (\<lambda>stored.
     io_then (io_lift (case stored of Some cp \<Rightarrow> Inr cp | None \<Rightarrow> initialize_checkpoint D N config)) (\<lambda>cp.
     io_then (reconcile_checkpoint_journal D P cp chain_header) (\<lambda>checkpoint.
     io_then (io_lift (assert_checkpoint_matches_chain (d_crates D) checkpoint chain_header)) (\<lambda>_.
     io_then (set_memory checkpoint) (\<lambda>_. io_lift (Inr checkpoint))))))"

text \<open>The read of the bridge state is one effect: it is retried, and changes nothing.\<close>

definition initialize ::
  "('st, 'b, 'j) deps \<Rightarrow> host \<Rightarrow> 'c program \<Rightarrow> 'c accounts \<Rightarrow> node \<Rightarrow> prover_json \<Rightarrow> startup_env \<Rightarrow> pipeline_config
     \<Rightarrow> ('c, block_pipeline) step" where
  "initialize D E P A N JP env config =
     io_then (io_lift (validate_config E (se_debug env) config)) (\<lambda>_.
     io_then (io_lift (se_redis_pool env)) (\<lambda>_.
     io_then (effect (\<lambda>w. w) (\<lambda>_. ())) (\<lambda>_.
     io_then (io_lift (read_pipeline_keypair E (cfg_operator_keypair config))) (\<lambda>operator_pubkey.
     io_then (io_lift (read_pipeline_keypair E (cfg_payer_keypair config))) (\<lambda>_.
     io_then (io_lift (se_bridge_client env)) (\<lambda>_.
     io_then (effect (\<lambda>w. w) (\<lambda>w. (acc_operator A (w_chain w), acc_custodian_hash A (w_chain w),
                on_chain_header P (w_chain w)))) (\<lambda>(chain_operator, chain_custodian, chain_header).
     if chain_operator \<noteq> operator_pubkey
     then io_lift (Inl (Err ''configured operator does not match on-chain operator''))
     else if chain_custodian \<noteq> custodian_hash (d_chain D) (cfg_network config) (cfg_custody_script_config config)
     then io_lift (Inl (Err ''on-chain custodian wallet config hash does not match''))
     else
     io_then (effect (\<lambda>w. w) (\<lambda>w. acc_doge_mint A (w_chain w))) (\<lambda>chain_doge_mint.
     if chain_doge_mint \<noteq> cfg_doge_mint config
     then io_lift (Inl (Err ''configured DOGE mint does not match on-chain mint''))
     else
     io_then (load_checkpoint D P N config chain_header) (\<lambda>checkpoint.
     io_then (io_lift (start_backend (d_crates D) JP env config)) (\<lambda>proof_backend.
     io_then (io_lift (se_sender_client env)) (\<lambda>_.
     io_lift (Inr \<lparr>bp_config = config, bp_checkpoint_key = redis_checkpoint_key config, bp_backend = proof_backend,
                   bp_state = \<lparr>ps_planned = checkpoint, ps_inflight = []\<rparr>\<rparr>))))))))))))"

text \<open>\<open>BlockPipeline::initialize(config).await?.run().await\<close>\<close>

definition run_node ::
  "('st, 'b, 'j) deps \<Rightarrow> host \<Rightarrow> 'c program \<Rightarrow> 'c accounts \<Rightarrow> node \<Rightarrow> prover_json \<Rightarrow> startup_env \<Rightarrow> pipeline_config
     \<Rightarrow> (node \<times> proof_ticket backend) list \<Rightarrow> ('c, unit) step" where
  "run_node D E P A N JP env config polls =
     io_then (initialize D E P A N JP env config) (\<lambda>pipeline.
     run_polls D P (bp_config pipeline) polls (bp_state pipeline))"

text \<open>\<open>main\<close> with the command \<open>run\<close>, which is also the default.\<close>

definition main_run ::
  "('st, 'b, 'j) deps \<Rightarrow> host \<Rightarrow> 'c program \<Rightarrow> 'c accounts \<Rightarrow> node \<Rightarrow> prover_json \<Rightarrow> startup_env \<Rightarrow> text_files \<Rightarrow> args
     \<Rightarrow> (node \<times> proof_ticket backend) list \<Rightarrow> ('c, unit) step" where
  "main_run D E P A N JP env F args polls =
     io_then (io_lift (build_config (d_crates D) F args)) (\<lambda>config.
     run_node D E P A N JP env config polls)"


text \<open>\<open>main\<close> with the command \<open>recover\<close>: the archive directory is read, the other answers are the environment's.\<close>

definition main_recover ::
  "('st, 'b, 'j) deps \<Rightarrow> host \<Rightarrow> node \<Rightarrow> startup_env \<Rightarrow> text_files \<Rightarrow> args \<Rightarrow> proof_archive \<Rightarrow> bytes res \<Rightarrow> unit res
     \<Rightarrow> redis \<Rightarrow> redis \<times> u32 res" where
  "main_recover D E N env F args archive chain_header set_reply db =
     (case build_config (d_crates D) F args of
        Inl e \<Rightarrow> (db, Inl e)
      | Inr config \<Rightarrow>
          recover_checkpoint_from_proof_archive D E (se_debug env) N config archive chain_header set_reply db)"

definition selected_command :: "args \<Rightarrow> node_command" where
  "selected_command args = (case arg_command args of Some c \<Rightarrow> c | None \<Rightarrow> RunNode)"

section \<open>A start is a restored life\<close>

lemma lift_run: "io_then (io_lift r) k s = (case r of Inl e \<Rightarrow> (s, Inl e) | Inr x \<Rightarrow> k x s)"
  by (simp add: io_then_def io_lift_def split: sum.split)

text \<open>A read ends the run and leaves the world, or it is answered.\<close>

lemma observe_run:
  obtains f e where "io_then (effect (\<lambda>w. w) g) k (fates, w) = ((f, w), Inl e)"
    | f where "fates = Applied # f" "io_then (effect (\<lambda>w. w) g) k (fates, w) = k (g w) (f, w)"
  by (cases fates; cases "hd fates") (auto simp: io_then_def effect_def)

lemma lift_elim:
  assumes "io_then (io_lift r) k (fates, w) = ((f, w'), res)"
    and "\<And>e. r = Inl e \<Longrightarrow> res = Inl e \<Longrightarrow> w' = w \<Longrightarrow> thesis"
    and "\<And>x. r = Inr x \<Longrightarrow> k x (fates, w) = ((f, w'), res) \<Longrightarrow> thesis"
  shows thesis
  using assms by (cases r) (auto simp: lift_run)

lemma fail_elim:
  assumes "io_lift (Inl e) (fates, w) = ((f, w'), res)" and "res = Inl e \<Longrightarrow> w' = w \<Longrightarrow> thesis"
  shows thesis
  using assms by (simp add: io_lift_def)

lemma observe_elim:
  assumes "io_then (effect (\<lambda>w. w) g) k (fates, w) = ((f, w'), res)"
    and "\<And>e. res = Inl e \<Longrightarrow> w' = w \<Longrightarrow> thesis"
    and "\<And>f1. k (g w) (f1, w) = ((f, w'), res) \<Longrightarrow> thesis"
  shows thesis
  by (rule observe_run[of g k fates w]) (use assms in auto)

lemma io_then_assoc: "io_then (io_then m f) g = io_then m (\<lambda>x. io_then (f x) g)"
  by (rule ext) (simp add: io_then_def split: prod.split sum.split)

lemma io_then_value: "io_then (io_lift (Inr x)) f = f x"
  by (rule ext) (simp add: io_then_def io_lift_def)

lemma io_then_unit: "io_then m (\<lambda>_. io_lift (Inr ())) = m"
  by (rule ext) (simp add: io_then_def io_lift_def split: prod.split sum.split)

lemma restore_tail:
  "restore_checkpoint D P N config =
     io_then (effect (\<lambda>w. w) (\<lambda>w. on_chain_header P (w_chain w))) (\<lambda>h. io_then (load_checkpoint D P N config h) (\<lambda>_. io_lift (Inr ())))"
  by (simp add: restore_checkpoint_def load_checkpoint_def io_then_assoc io_then_value io_then_unit)

lemma tail_memory: "load_checkpoint D P N config h (fates, w) = ((f, w'), Inr cp) \<Longrightarrow> w_memory w' = cp"
  unfolding load_checkpoint_def io_then_def set_memory_def io_update_def io_lift_def
  by (auto split: prod.splits sum.splits)

lemma initialize_run:
  assumes "initialize D E P A N JP env config (fates, w) = ((f, w'), r)"
  obtains e where "r = Inl e" "w' = w"
    | operator fates1 r1 where "validate_config E (se_debug env) config = Inr ()"
        "read_keypair E (cfg_operator_keypair config) = Some operator" "acc_operator A (w_chain w) = operator"
        "acc_custodian_hash A (w_chain w) = custodian_hash (d_chain D) (cfg_network config) (cfg_custody_script_config config)"
        "acc_doge_mint A (w_chain w) = cfg_doge_mint config"
        "load_checkpoint D P N config (on_chain_header P (w_chain w)) (fates1, w) = ((f, w'), r1)"
        "\<And>pipeline. r = Inr pipeline \<Longrightarrow> \<exists>cp backend. r1 = Inr cp \<and> start_backend (d_crates D) JP env config = Inr backend
           \<and> pipeline = \<lparr>bp_config = config, bp_checkpoint_key = redis_checkpoint_key config, bp_backend = backend,
               bp_state = \<lparr>ps_planned = cp, ps_inflight = []\<rparr>\<rparr>"
proof -
  note unchanged = that(1) and started = that(2)
  have checked: thesis
    if valid: "validate_config E (se_debug env) config = Inr ()"
      and op: "read_pipeline_keypair E (cfg_operator_keypair config) = Inr operator" "acc_operator A (w_chain w) = operator"
        "acc_custodian_hash A (w_chain w) = custodian_hash (d_chain D) (cfg_network config) (cfg_custody_script_config config)"
        "acc_doge_mint A (w_chain w) = cfg_doge_mint config"
      and run: "io_then (load_checkpoint D P N config (on_chain_header P (w_chain w))) (\<lambda>checkpoint.
          io_then (io_lift (start_backend (d_crates D) JP env config)) (\<lambda>proof_backend.
          io_then (io_lift (se_sender_client env)) (\<lambda>_.
          io_lift (Inr \<lparr>bp_config = config, bp_checkpoint_key = redis_checkpoint_key config, bp_backend = proof_backend,
                   bp_state = \<lparr>ps_planned = checkpoint, ps_inflight = []\<rparr>\<rparr>)))) (fates1, w) = ((f, w'), r)"
    for operator fates1
  proof -
    obtain f2 w2 r2 where load: "load_checkpoint D P N config (on_chain_header P (w_chain w)) (fates1, w) = ((f2, w2), r2)"
      by (metis prod.exhaust)
    have "f2 = f \<and> w2 = w' \<and> (\<forall>pipeline. r = Inr pipeline \<longrightarrow> (\<exists>cp backend. r2 = Inr cp
        \<and> start_backend (d_crates D) JP env config = Inr backend
        \<and> pipeline = \<lparr>bp_config = config, bp_checkpoint_key = redis_checkpoint_key config, bp_backend = backend,
               bp_state = \<lparr>ps_planned = cp, ps_inflight = []\<rparr>\<rparr>))"
    proof (cases r2)
      case (Inl e)
      then show ?thesis using run load by (simp add: io_then_def) blast
    next
      case (Inr cp)
      then show ?thesis using run load by (auto simp: io_then_run lift_run io_lift_def Let_def split: sum.splits)
    qed
    with load that(1-5) show thesis
      by (intro started[of operator fates1 r2]) (auto simp: read_pipeline_keypair_def ok_or_eq_Inr)
  qed
  show thesis
    using assms unfolding initialize_def
    apply (elim lift_elim observe_elim)
           apply (rule unchanged, assumption, assumption)+
    apply (simp only: prod.case)
    apply (split if_split_asm)
     apply (erule fail_elim, rule unchanged, assumption, assumption)
    apply (split if_split_asm)
     apply (erule fail_elim, rule unchanged, assumption, assumption)
    apply (erule observe_elim)
     apply (rule unchanged, assumption, assumption)
    apply (split if_split_asm)
     apply (erule fail_elim, rule unchanged, assumption, assumption)
    apply (rule checked; simp)
    done
qed

lemma node_life_of_load:
  assumes "load_checkpoint D P N config (on_chain_header P (w_chain w)) (fates, w) = ((f, w'), r)"
  shows "node_life D P config N polls (Applied # fates, w) =
    (case r of Inl e \<Rightarrow> ((f, w'), Inl e)
     | Inr cp \<Rightarrow> run_polls D P config polls \<lparr>ps_planned = cp, ps_inflight = []\<rparr> (f, w'))"
proof -
  have "restore_checkpoint D P N config (Applied # fates, w) =
      (case r of Inl e \<Rightarrow> ((f, w'), Inl e) | Inr cp \<Rightarrow> ((f, w'), Inr ()))"
    by (simp add: restore_tail io_then_def effect_def assms io_lift_def split: sum.split)
  with tail_memory[of D P N config _ fates w f w'] assms show ?thesis
    by (cases r) (simp_all add: node_life_def io_then_run get_memory_def io_get_def)
qed

section \<open>Names in Redis\<close>

definition queue_namespace :: "pipeline_config \<Rightarrow> string" where
  "queue_namespace config =
     proof_namespace (cfg_proof_queue_prefix config) (network_str (cfg_network config)) (nat_str (unat (cfg_redis_seed config)))"

text \<open>The keys of a queue; a job id is lower-case hex.\<close>

definition queue_key :: "string \<Rightarrow> string \<Rightarrow> bool" where
  "queue_key namespace k \<longleftrightarrow>
     (let Q = queue_keys_new namespace in
      k \<in> {qk_queue Q, qk_notify Q, qk_leases Q}
      \<or> (\<exists>jid. is_lower_hex jid \<and> k \<in> {job_key Q jid, state_key Q jid, result_key Q jid, attempt_key Q jid}))"

lemma last_separator:
  assumes "s @ c # t = s' @ c # t'" and "c \<notin> set t" and "c \<notin> set t'"
  shows "s = s' \<and> t = t'"
proof -
  have split: "takeWhile (\<lambda>x. x \<noteq> c) (rev (s @ c # t)) = rev t" if "c \<notin> set t" for s t
    using that takeWhile_append2[of "rev t" "\<lambda>x. x \<noteq> c" "c # rev s"] by auto
  have "rev t = rev t'"
    using split[OF assms(2), of s] split[OF assms(3), of s'] assms(1) by simp
  with assms(1) show ?thesis by simp
qed

lemma hex_no_separator: "is_lower_hex jid \<Longrightarrow> CHR '':'' \<notin> set jid"
proof
  assume "is_lower_hex jid" and "CHR '':'' \<in> set jid"
  then have "CHR '':'' \<in> set ''0123456789abcdef''" unfolding is_lower_hex_def list_all_iff by blast
  then show False by simp
qed

lemma digits_no_separator: "CHR ''-'' \<notin> set (nat_str n)" "CHR '':'' \<notin> set (nat_str n)" "CHR ''p'' \<notin> set (nat_str n)"
  using nat_str_digit[of "CHR ''-''" n] nat_str_digit[of "CHR '':''" n] nat_str_digit[of "CHR ''p''" n] by auto

lemma network_no_separator: "CHR ''-'' \<notin> set (network_str n)" "CHR '':'' \<notin> set (network_str n)"
  by (cases n; simp add: network_str_def)+

lemma network_str_inj: "network_str m = network_str n \<longleftrightarrow> m = n"
  by (cases m; cases n) (simp_all add: network_str_def)

lemma queue_key_shape:
  assumes "queue_key namespace k"
  obtains t where "k = namespace @ CHR '':'' # t" "CHR '':'' \<notin> set t" "t \<in> {''queue'', ''notify'', ''leases''}"
    | kind jid where "k = (namespace @ CHR '':'' # kind) @ CHR '':'' # jid" "CHR '':'' \<notin> set jid" "CHR '':'' \<notin> set kind"
        "kind \<in> {''job'', ''state'', ''result'', ''attempt''}" "is_lower_hex jid"
  using assms that(1)[of "''queue''"] that(1)[of "''notify''"] that(1)[of "''leases''"]
    that(2)[of "''job''"] that(2)[of "''state''"] that(2)[of "''result''"] that(2)[of "''attempt''"] hex_no_separator
  unfolding queue_key_def by (auto simp: queue_keys_new_def job_key_def state_key_def result_key_def attempt_key_def Let_def)

lemma not_lower_hex: "\<not> is_lower_hex ''queue''" "\<not> is_lower_hex ''notify''" "\<not> is_lower_hex ''leases''"
  by (simp_all add: is_lower_hex_def)

lemma queue_key_namespace:
  assumes "queue_key n k" and "queue_key n' k"
  shows "n = n'"
  using assms(1)
proof (cases rule: queue_key_shape)
  case (1 t)
  note k = 1
  from assms(2) show ?thesis
  proof (cases rule: queue_key_shape)
    case (1 t')
    with k show ?thesis using last_separator[of n _ t n' t'] by metis
  next
    case (2 kind jid)
    with k have "t = jid" using last_separator[of n _ t "n' @ CHR '':'' # kind" jid] by metis
    with k(3) 2(5) not_lower_hex show ?thesis by auto
  qed
next
  case (2 kind jid)
  note k = 2
  from assms(2) show ?thesis
  proof (cases rule: queue_key_shape)
    case (1 t)
    with k have "t = jid" using last_separator[of n' _ t "n @ CHR '':'' # kind" jid] by metis
    with k(5) 1(3) not_lower_hex show ?thesis by auto
  next
    case (2 kind' jid')
    with k have "n @ CHR '':'' # kind = n' @ CHR '':'' # kind'"
      using last_separator[of "n @ CHR '':'' # kind" _ jid "n' @ CHR '':'' # kind'" jid'] by metis
    with k(3) 2(3) show ?thesis using last_separator by metis
  qed
qed

lemma namespace_inj:
  "proof_namespace p (network_str n) (nat_str s) = proof_namespace p' (network_str n') (nat_str s') \<longleftrightarrow> p = p' \<and> n = n' \<and> s = s'"
proof
  assume "proof_namespace p (network_str n) (nat_str s) = proof_namespace p' (network_str n') (nat_str s')"
  then have "(p @ CHR ''-'' # network_str n) @ CHR ''-'' # nat_str s = (p' @ CHR ''-'' # network_str n') @ CHR ''-'' # nat_str s'"
    by (simp add: proof_namespace_def)
  from last_separator[OF this digits_no_separator(1) digits_no_separator(1)]
  have "p @ CHR ''-'' # network_str n = p' @ CHR ''-'' # network_str n'" and s: "s = s'" by (auto simp: nat_str_inj)
  from last_separator[OF this(1) network_no_separator(1) network_no_separator(1)] s
  show "p = p' \<and> n = n' \<and> s = s'" by (simp add: network_str_inj)
qed simp

lemma checkpoint_key_inj:
  "redis_checkpoint_key c = redis_checkpoint_key c' \<longleftrightarrow> cfg_network c = cfg_network c' \<and> cfg_redis_seed c = cfg_redis_seed c'"
  using namespace_inj[of checkpoint_prefix "cfg_network c" "unat (cfg_redis_seed c)" checkpoint_prefix "cfg_network c'" "unat (cfg_redis_seed c')"]
  using unsigned_word_eqI[where 'a = nat, of "cfg_redis_seed c" "cfg_redis_seed c'"]
  by (auto simp add: redis_checkpoint_key_def proof_namespace_def)

lemma checkpoint_not_journal: "redis_checkpoint_key c \<noteq> checkpoint_journal_key (redis_checkpoint_key c')"
proof
  assume "redis_checkpoint_key c = checkpoint_journal_key (redis_checkpoint_key c')"
  then have "(checkpoint_prefix @ CHR ''-'' # network_str (cfg_network c)) @ CHR ''-'' # nat_str (unat (cfg_redis_seed c))
      = redis_checkpoint_key c' @ CHR ''-'' # ''pending''"
    by (simp add: redis_checkpoint_key_def checkpoint_journal_key_def checkpoint_journal_suffix_def)
  from last_separator[OF this digits_no_separator(1)] have "nat_str (unat (cfg_redis_seed c)) = ''pending''" by simp
  then show False using digits_no_separator(3)[of "unat (cfg_redis_seed c)"] by simp
qed

lemma pipeline_key_no_colon:
  "CHR '':'' \<notin> set (redis_checkpoint_key c)" "CHR '':'' \<notin> set (checkpoint_journal_key (redis_checkpoint_key c))"
  using digits_no_separator(2) network_no_separator(2)
  by (simp_all add: redis_checkpoint_key_def checkpoint_journal_key_def checkpoint_journal_suffix_def checkpoint_prefix_def)

lemma queue_key_colon: "queue_key n k \<Longrightarrow> CHR '':'' \<in> set k"
  by (erule queue_key_shape) auto

section \<open>Values in hex\<close>

lemma ascii_whitespace: "is_ascii_whitespace c \<Longrightarrow> is_whitespace c"
  by (auto simp: is_ascii_whitespace_def is_whitespace_def)

lemma filter_dropWhile: "(\<And>c. c \<in> set t \<Longrightarrow> Q c \<Longrightarrow> \<not> P c) \<Longrightarrow> filter P (dropWhile Q t) = filter P t"
  by (induction t) auto

lemma filter_trim:
  assumes "\<And>c. c \<in> set t \<Longrightarrow> is_whitespace c \<Longrightarrow> is_ascii_whitespace c"
  shows "filter (\<lambda>c. \<not> is_ascii_whitespace c) (trim t) = filter (\<lambda>c. \<not> is_ascii_whitespace c) t"
proof -
  have "filter (\<lambda>c. \<not> is_ascii_whitespace c) (dropWhile is_whitespace (rev (dropWhile is_whitespace t)))
      = filter (\<lambda>c. \<not> is_ascii_whitespace c) (rev (dropWhile is_whitespace t))"
    by (rule filter_dropWhile) (use assms in \<open>auto dest: set_dropWhileD\<close>)
  moreover have "filter (\<lambda>c. \<not> is_ascii_whitespace c) (dropWhile is_whitespace t) = filter (\<lambda>c. \<not> is_ascii_whitespace c) t"
    by (rule filter_dropWhile) (use assms in auto)
  ultimately show ?thesis unfolding trim_def rev_filter[symmetric] by simp
qed

lemma trim_0x:
  assumes "list_all is_whitespace ws"
  obtains rest where "trim (ws @ ''0x'' @ u) = ''0x'' @ rest"
proof -
  have "dropWhile is_whitespace (ws @ ''0x'' @ u) = ''0x'' @ u"
    using assms by (induction ws) (simp_all add: is_whitespace_def)
  then have "trim (ws @ ''0x'' @ u) = ''0x'' @ rev (dropWhile is_whitespace (rev u))"
    by (auto simp: trim_def dropWhile_append is_whitespace_def)
  then show thesis by (rule that)
qed

lemma hex_characters:
  assumes "is_lower_hex h" and "c \<in> set h"
  shows "\<not> is_whitespace c" "c \<noteq> CHR ''x''" "c \<noteq> CHR ''@''"
proof -
  have "c \<in> set ''0123456789abcdef''" using assms unfolding is_lower_hex_def list_all_iff by blast
  then show "\<not> is_whitespace c" "c \<noteq> CHR ''x''" "c \<noteq> CHR ''@''" by (auto simp: is_whitespace_def)
qed

text \<open>A value may be written with blanks around and in it, and with \<open>0x\<close> before it.\<close>

definition written_hex :: "string \<Rightarrow> string \<Rightarrow> bool" where
  "written_hex h text \<longleftrightarrow>
     (\<exists>ws pre s ws'. text = ws @ pre @ s @ ws' \<and> list_all is_ascii_whitespace ws \<and> list_all is_ascii_whitespace ws'
        \<and> pre \<in> {[], ''0x''} \<and> filter (\<lambda>c. \<not> is_ascii_whitespace c) s = h)"

lemma written_hex_characters:
  assumes "written_hex h text" and "is_lower_hex h" and "c \<in> set text"
  shows "is_whitespace c \<Longrightarrow> is_ascii_whitespace c" and "c \<noteq> CHR ''@''"
proof -
  obtain ws pre s ws' where t: "text = ws @ pre @ s @ ws'" "list_all is_ascii_whitespace ws" "list_all is_ascii_whitespace ws'"
    "pre \<in> {[], ''0x''}" "filter (\<lambda>c. \<not> is_ascii_whitespace c) s = h"
    using assms(1) unfolding written_hex_def by blast
  have at: "\<not> is_ascii_whitespace CHR ''@''" by (simp add: is_ascii_whitespace_def)
  have "is_ascii_whitespace c \<or> c \<in> set ''0x'' \<or> c \<in> set h"
    using assms(3) t unfolding list_all_iff by auto
  then show "is_whitespace c \<Longrightarrow> is_ascii_whitespace c" and "c \<noteq> CHR ''@''"
    using hex_characters[OF assms(2), of c] at by (auto simp: is_whitespace_def)
qed

lemma normalized_written:
  assumes "written_hex h text" and "is_lower_hex h"
  shows "normalized_hex text = h"
proof -
  let ?P = "\<lambda>c. \<not> is_ascii_whitespace c"
  obtain ws pre s ws' where t: "text = ws @ pre @ s @ ws'" "list_all is_ascii_whitespace ws" "list_all is_ascii_whitespace ws'"
    "pre \<in> {[], ''0x''}" "filter ?P s = h"
    using assms(1) unfolding written_hex_def by blast
  have no: "filter ?P v = []" if "list_all is_ascii_whitespace v" for v using that by (induction v) simp_all
  have "filter ?P text = filter ?P pre @ h" using t no by simp
  moreover have "filter ?P pre = pre" using t(4) by (auto simp: is_ascii_whitespace_def)
  moreover have "filter ?P (trim text) = filter ?P text"
    by (rule filter_trim) (rule written_hex_characters(1)[OF assms])
  ultimately have f: "filter ?P (trim text) = pre @ h" by simp
  show ?thesis
  proof (cases "pre = []")
    case True
    have "CHR ''x'' \<notin> set (filter ?P (trim text))" unfolding f using True hex_characters(2)[OF assms(2)] by auto
    then have "strip_prefix ''0x'' (trim text) = None"
      by (cases "trim text"; cases "tl (trim text)") (auto simp: strip_prefix_def is_ascii_whitespace_def)
    then show ?thesis using f True by (simp add: normalized_hex_def)
  next
    case False
    have "list_all is_whitespace ws" using t(2) ascii_whitespace by (auto simp: list_all_iff)
    then obtain rest where r: "trim (ws @ ''0x'' @ s @ ws') = ''0x'' @ rest" by (rule trim_0x)
    with False t have "filter ?P rest = h" using f by (auto simp: is_ascii_whitespace_def)
    with r False t show ?thesis by (auto simp: normalized_hex_def strip_prefix_def)
  qed
qed

lemma read_fixed_length: "read_fixed X F n value = Inr b \<Longrightarrow> length b = n"
  by (auto simp: read_fixed_def elim!: and_then_elim split: if_splits)

lemma decode_written: "hex_laws X \<Longrightarrow> written_hex (hex_encode X b) text \<Longrightarrow> hex_decode X (normalized_hex text) = Some b"
  using normalized_written lower_hex_encode by (metis hex_laws_def)

lemma read_plain_hex: "hex_laws X \<Longrightarrow> \<not> tf_is_file F (hex_encode X b) \<Longrightarrow> length b = n \<Longrightarrow> read_fixed X F n (hex_encode X b) = Inr b"
proof -
  assume X: "hex_laws X" and n: "length b = n" and F: "\<not> tf_is_file F (hex_encode X b)"
  have "written_hex (hex_encode X b) (hex_encode X b)"
    unfolding written_hex_def
    using hex_characters(1)[OF lower_hex_encode[OF X]] ascii_whitespace
    by (intro exI[of _ "[]"] exI[of _ "hex_encode X b"]) (auto simp: filter_id_conv)
  moreover have "strip_prefix ''@'' (hex_encode X b) = None"
    using hex_characters(3)[OF lower_hex_encode[OF X], of "CHR ''@''" b] by (cases "hex_encode X b") (auto simp: strip_prefix_def)
  ultimately show ?thesis using decode_written[OF X] F n by (simp add: read_fixed_def ok_or_def)
qed

text \<open>
  A byte value written as lower-case hex, with or without \<open>0x\<close>, with blanks and
  line breaks around it and between its digits, given on the command line or in a file named by \<open>@\<close>
  or by its path, is read as that value when it has the wanted length, and refused when it has not.
\<close>

theorem written_values_are_read:
  assumes "hex_laws X" and "written_hex (hex_encode X b) text"
  shows "\<not> tf_is_file F text \<Longrightarrow>
      read_fixed X F n text = (if length b = n then Inr b else Inl (Err ''value must decode to a fixed number of bytes''))"
    and "tf_read_to_string F path = Inr text \<Longrightarrow>
      read_fixed X F n (''@'' @ path) = (if length b = n then Inr b else Inl (Err ''value must decode to a fixed number of bytes''))"
proof -
  have low: "is_lower_hex (hex_encode X b)" by (rule lower_hex_encode[OF assms(1)])
  note d = decode_written[OF assms]
  have "strip_prefix ''@'' text = None"
    using written_hex_characters(2)[OF assms(2) low] by (cases "text") (auto simp: strip_prefix_def)
  then show "\<not> tf_is_file F text \<Longrightarrow>
      read_fixed X F n text = (if length b = n then Inr b else Inl (Err ''value must decode to a fixed number of bytes''))"
    by (simp add: read_fixed_def d ok_or_def)
  show "tf_read_to_string F path = Inr text \<Longrightarrow>
      read_fixed X F n (''@'' @ path) = (if length b = n then Inr b else Inl (Err ''value must decode to a fixed number of bytes''))"
    by (simp add: read_fixed_def read_text_def strip_prefix_def d ok_or_def)
qed

text \<open>
  Claim C36. Nodes may share one Redis: a node's checkpoint is kept under a key no other kind of
  datum has, and two nodes have the same checkpoint key, or the same journal key, only when they have
  the same network and the same seed; a key of one node's job queue is a key of another's only when
  prefix, network and seed agree.
\<close>

theorem redis_keys_separate:
  "(redis_checkpoint_key c = redis_checkpoint_key c' \<longleftrightarrow> cfg_network c = cfg_network c' \<and> cfg_redis_seed c = cfg_redis_seed c')
   \<and> (checkpoint_journal_key (redis_checkpoint_key c) = checkpoint_journal_key (redis_checkpoint_key c') \<longleftrightarrow>
        cfg_network c = cfg_network c' \<and> cfg_redis_seed c = cfg_redis_seed c')
   \<and> redis_checkpoint_key c \<noteq> checkpoint_journal_key (redis_checkpoint_key c')
   \<and> (queue_key (queue_namespace c) k \<longrightarrow> k \<noteq> redis_checkpoint_key c' \<and> k \<noteq> checkpoint_journal_key (redis_checkpoint_key c'))
   \<and> (queue_key (queue_namespace c) k \<longrightarrow> queue_key (queue_namespace c') k \<longrightarrow>
        cfg_proof_queue_prefix c = cfg_proof_queue_prefix c' \<and> cfg_network c = cfg_network c' \<and> cfg_redis_seed c = cfg_redis_seed c')"
proof (intro conjI)
  show cp: "redis_checkpoint_key c = redis_checkpoint_key c' \<longleftrightarrow> cfg_network c = cfg_network c' \<and> cfg_redis_seed c = cfg_redis_seed c'"
    by (rule checkpoint_key_inj)
  then show "checkpoint_journal_key (redis_checkpoint_key c) = checkpoint_journal_key (redis_checkpoint_key c') \<longleftrightarrow>
      cfg_network c = cfg_network c' \<and> cfg_redis_seed c = cfg_redis_seed c'"
    by (simp add: checkpoint_journal_key_def)
  show "redis_checkpoint_key c \<noteq> checkpoint_journal_key (redis_checkpoint_key c')" by (rule checkpoint_not_journal)
  show "queue_key (queue_namespace c) k \<longrightarrow> k \<noteq> redis_checkpoint_key c' \<and> k \<noteq> checkpoint_journal_key (redis_checkpoint_key c')"
    using queue_key_colon[of "queue_namespace c" k] pipeline_key_no_colon[of c'] by auto
  show "queue_key (queue_namespace c) k \<longrightarrow> queue_key (queue_namespace c') k \<longrightarrow>
      cfg_proof_queue_prefix c = cfg_proof_queue_prefix c' \<and> cfg_network c = cfg_network c' \<and> cfg_redis_seed c = cfg_redis_seed c'"
  proof (intro impI)
    assume "queue_key (queue_namespace c) k" and "queue_key (queue_namespace c') k"
    from queue_key_namespace[OF this] show
      "cfg_proof_queue_prefix c = cfg_proof_queue_prefix c' \<and> cfg_network c = cfg_network c' \<and> cfg_redis_seed c = cfg_redis_seed c'"
      unfolding queue_namespace_def namespace_inj
      using unsigned_word_eqI[where 'a = nat, of "cfg_redis_seed c" "cfg_redis_seed c'"] by auto
  qed
qed

section \<open>The process\<close>

lemma io_then_elim:
  assumes "io_then m k (fates, w) = ((f, w'), r)"
  obtains f1 w1 r1 where "m (fates, w) = ((f1, w1), r1)"
    "case r1 of Inl e \<Rightarrow> f1 = f \<and> w1 = w' \<and> r = Inl e | Inr x \<Rightarrow> k x (f1, w1) = ((f, w'), r)"
proof -
  obtain f1 w1 r1 where m: "m (fates, w) = ((f1, w1), r1)" by (metis prod.exhaust)
  with assms have "case r1 of Inl e \<Rightarrow> f1 = f \<and> w1 = w' \<and> r = Inl e | Inr x \<Rightarrow> k x (f1, w1) = ((f, w'), r)"
    by (cases r1) (simp_all add: io_then_def)
  with m show thesis by (rule that)
qed

lemma empty_life:
  assumes "load_checkpoint D P N config (on_chain_header P (w_chain w)) (fates, w) = ((f, w'), r)"
  shows "snd (fst (node_life D P config N [] (Applied # fates, w))) = w'"
  by (simp add: node_life_of_load[OF assms] io_lift_def split: sum.split)

lemma main_run_life:
  assumes "main_run D E P A N JP env F args polls (fates, w) = ((f, w'), r)"
  obtains e where "r = Inl e" "w' = w"
    | config operator lived fates' where "build_config (d_crates D) F args = Inr config"
        "validate_config E (se_debug env) config = Inr ()"
        "read_keypair E (cfg_operator_keypair config) = Some operator" "acc_operator A (w_chain w) = operator"
        "acc_custodian_hash A (w_chain w) = custodian_hash (d_chain D) (cfg_network config) (cfg_custody_script_config config)"
        "acc_doge_mint A (w_chain w) = cfg_doge_mint config"
        "lived = polls \<or> lived = [] \<and> (\<exists>e. r = Inl e)"
        "w' = snd (fst (node_life D P config N lived (fates', w)))"
        "r = Inr () \<Longrightarrow> node_life D P config N polls (fates', w) = ((f, w'), r)"
proof -
  note unchanged = that(1) and lived = that(2)
  from assms show thesis unfolding main_run_def
  proof (elim lift_elim)
    fix e assume "r = Inl e" "w' = w"
    then show thesis by (rule unchanged)
  next
    fix config assume built: "build_config (d_crates D) F args = Inr config"
      and "run_node D E P A N JP env config polls (fates, w) = ((f, w'), r)"
    from this(2) obtain f1 w1 r1 where init: "initialize D E P A N JP env config (fates, w) = ((f1, w1), r1)"
      and rest: "case r1 of Inl e \<Rightarrow> f1 = f \<and> w1 = w' \<and> r = Inl e
        | Inr p \<Rightarrow> run_polls D P (bp_config p) polls (bp_state p) (f1, w1) = ((f, w'), r)"
      unfolding run_node_def by (elim io_then_elim)
    from init show thesis
    proof (cases rule: initialize_run)
      case (1 e)
      with rest show thesis by (intro unchanged) auto
    next
      case (2 operator fates1 r2)
      note started = lived[OF built 2(1-5)]
      show thesis
      proof (cases r1)
        case (Inl e)
        then show thesis
          using rest empty_life[OF 2(6), symmetric] by (intro started[of "[]" "Applied # fates1"]) auto
      next
        case (Inr pipeline)
        then obtain cp where r2: "r2 = Inr cp" "bp_config pipeline = config"
          "bp_state pipeline = \<lparr>ps_planned = cp, ps_inflight = []\<rparr>" using 2(7) by auto
        have "node_life D P config N polls (Applied # fates1, w) = ((f, w'), r)"
          using rest Inr r2 node_life_of_load[OF 2(6), of polls] by simp
        then show thesis by (intro started[of polls "Applied # fates1"]) auto
      qed
    qed
  qed
qed

text \<open>
  Claim C8. A process that gets past its start has built a configuration that validation accepts,
  whose operator key, custody hash and mint are those of the bridge's accounts, and what it does to
  the world is what a node life does with that configuration: it restores the checkpoint and polls,
  or, when a later part of the start fails, restores it and ends. A process that ends without an
  error has done all of its polls; one that fails earlier leaves the world as it was.
\<close>

theorem started_process_is_node_life:
  assumes "main_run D E P A N JP env F args polls (fates, w) = ((f, w'), r)"
  shows "(\<exists>e. r = Inl e) \<and> w' = w
    \<or> (\<exists>config operator lived fates'. build_config (d_crates D) F args = Inr config
        \<and> validate_config E (se_debug env) config = Inr ()
        \<and> read_keypair E (cfg_operator_keypair config) = Some operator \<and> acc_operator A (w_chain w) = operator
        \<and> acc_custodian_hash A (w_chain w) = custodian_hash (d_chain D) (cfg_network config) (cfg_custody_script_config config)
        \<and> acc_doge_mint A (w_chain w) = cfg_doge_mint config
        \<and> (lived = polls \<or> lived = [] \<and> (\<exists>e. r = Inl e))
        \<and> w' = snd (fst (node_life D P config N lived (fates', w)))
        \<and> (r = Inr () \<longrightarrow> node_life D P config N polls (fates', w) = ((f, w'), Inr ())))"
  using assms by (rule main_run_life) blast+

text \<open>The processes an operator starts one after another, each until it ends or is killed.\<close>

record 'c process =
  pr_accounts :: "'c accounts"
  pr_node :: node
  pr_env :: startup_env
  pr_files :: text_files
  pr_args :: args
  pr_polls :: "(node \<times> proof_ticket backend) list"
  pr_fates :: "fate list"

primrec processes ::
  "('st, 'b, 'j) deps \<Rightarrow> host \<Rightarrow> 'c program \<Rightarrow> prover_json \<Rightarrow> 'c process list \<Rightarrow> 'c world \<Rightarrow> 'c world" where
  "processes D E P JP [] w = w"
| "processes D E P JP (p # ps) w =
     processes D E P JP ps
       (snd (fst (main_run D E P (pr_accounts p) (pr_node p) JP (pr_env p) (pr_files p) (pr_args p) (pr_polls p) (pr_fates p, w))))"

lemma lives_append: "node_lives D P config (xs @ ys) w = node_lives D P config ys (node_lives D P config xs w)"
  by (induction xs arbitrary: w) simp_all

text \<open>
  What any number of processes started with the same configuration do to the world is
  what some sequence of node lives with that configuration does, each on the node and with the polls
  of one of the processes, or with no polls: what holds of all sequences of node lives holds of the
  running program.
\<close>

theorem processes_are_node_lives:
  assumes "\<forall>p \<in> set ps. \<forall>c. build_config (d_crates D) (pr_files p) (pr_args p) = Inr c \<longrightarrow> c = config"
  shows "\<exists>lives. processes D E P JP ps w = node_lives D P config lives w
    \<and> (\<forall>(N, polls, fates) \<in> set lives. \<exists>p \<in> set ps. N = pr_node p \<and> (polls = pr_polls p \<or> polls = []))"
  using assms
proof (induction ps arbitrary: w)
  case Nil
  have "processes D E P JP [] w = node_lives D P config [] w" by simp
  then show ?case by (intro exI[of _ "[]"]) simp
next
  case (Cons p ps)
  obtain f w1 r where run: "main_run D E P (pr_accounts p) (pr_node p) JP (pr_env p) (pr_files p) (pr_args p) (pr_polls p)
      (pr_fates p, w) = ((f, w1), r)" by (metis prod.exhaust)
  have "\<forall>p \<in> set ps. \<forall>c. build_config (d_crates D) (pr_files p) (pr_args p) = Inr c \<longrightarrow> c = config"
    using Cons.prems by simp
  from Cons.IH[OF this, of w1] obtain lives where l: "processes D E P JP ps w1 = node_lives D P config lives w1"
    "\<forall>(N, polls, fates) \<in> set lives. \<exists>q \<in> set ps. N = pr_node q \<and> (polls = pr_polls q \<or> polls = [])"
    by (elim exE conjE)
  from run obtain first where first: "w1 = node_lives D P config first w"
    "\<forall>(N, polls, fates) \<in> set first. N = pr_node p \<and> (polls = pr_polls p \<or> polls = [])"
  proof (cases rule: main_run_life)
    case (1 e)
    then show thesis by (intro that[of "[]"]) simp_all
  next
    case (2 c operator lived fates')
    with Cons.prems have "c = config" by auto
    with 2(7-8) show thesis by (intro that[of "[(pr_node p, lived, fates')]"]) auto
  qed
  have "processes D E P JP (p # ps) w = node_lives D P config (first @ lives) w"
    by (simp add: run l(1) lives_append first(1)[symmetric])
  moreover have "\<forall>(N, polls, fates) \<in> set (first @ lives). \<exists>q \<in> set (p # ps). N = pr_node q \<and> (polls = pr_polls q \<or> polls = [])"
    using l(2) first(2) unfolding set_append list.set(2) by blast
  ultimately show ?case by blast
qed

text \<open>
  When the program accepts its command line and validates the configuration, a verifying
  key hash given in an argument decodes to the one of the chosen network, the custody config is the
  bridge-state address, there is a recipient for each recipient argument, all different, and every
  byte value has its fixed length: 32, 48 and 320 bytes.
\<close>

theorem accepted_command_line:
  assumes "build_config X F args = Inr config" and "validate_config E debug config = Inr ()"
  shows "cfg_network config = arg_network args \<and> cfg_expected_vk_hash config = default_vk_hash (arg_network args)"
    and "arg_expected_vk_hash args = Some given \<Longrightarrow> read_fixed X F 32 given = Inr (default_vk_hash (arg_network args))"
    and "cfg_custody_script_config config = find_program_address E [str_bytes ''bridge_state''] (arg_bridge_program args)
      \<and> length (cfg_custody_script_config config) = 32"
    and "length (cfg_recipient_atas config) = length (arg_recipient_atas args) \<and> cfg_recipient_atas config \<noteq> []
      \<and> distinct (cfg_recipient_atas config) \<and> list_all (\<lambda>k. length k = 32) (cfg_recipient_atas config)"
    and "length (cfg_config_params config) = 48 \<and> length (cfg_initial_header config) = 320"
proof -
  note valid = assms(2)[unfolded validate_config_def Let_def]
  note built = assms(1)[unfolded build_config_def Let_def]
  have vk: "cfg_expected_vk_hash config = default_vk_hash (cfg_network config)"
    and pda: "cfg_custody_script_config config = find_program_address E [str_bytes ''bridge_state''] (cfg_bridge_program config)"
    and some: "cfg_recipient_atas config \<noteq> []" and distinct: "distinct (cfg_recipient_atas config)"
    using valid no_duplicates_check[of "cfg_recipient_atas config" "''duplicate recipient ATA''"] by (auto elim!: and_then_elim)
  from built obtain vk' custody atas params header where b:
    "(case arg_expected_vk_hash args of Some v \<Rightarrow> read_fixed X F 32 v | None \<Rightarrow> Inr (default_vk_hash (arg_network args))) = Inr vk'"
    "read_fixed X F 32 (arg_custody_script_config args) = Inr custody"
    "try_map (read_fixed X F 32) (arg_recipient_atas args) = Inr atas"
    "read_fixed X F config_size (arg_config_params args) = Inr params"
    "read_fixed X F header_size (arg_initial_header args) = Inr header"
    "cfg_network config = arg_network args" "cfg_expected_vk_hash config = vk'" "cfg_custody_script_config config = custody"
    "cfg_recipient_atas config = atas" "cfg_config_params config = params" "cfg_initial_header config = header"
    "cfg_bridge_program config = arg_bridge_program args"
    by (elim and_then_elim) auto
  note lengths = b(2)[THEN read_fixed_length] b(4)[THEN read_fixed_length] b(5)[THEN read_fixed_length]
  have "list_all2 (\<lambda>t k. read_fixed X F 32 t = Inr k) (arg_recipient_atas args) atas" using b(3) by (simp add: try_map_eq_Inr)
  then have atas: "length atas = length (arg_recipient_atas args) \<and> list_all (\<lambda>k. length k = 32) atas"
    by (induction rule: list_all2_induct) (auto dest: read_fixed_length)
  show "cfg_network config = arg_network args \<and> cfg_expected_vk_hash config = default_vk_hash (arg_network args)" using vk b by simp
  show "arg_expected_vk_hash args = Some given \<Longrightarrow> read_fixed X F 32 given = Inr (default_vk_hash (arg_network args))" using vk b by simp
  show "cfg_custody_script_config config = find_program_address E [str_bytes ''bridge_state''] (arg_bridge_program args)
      \<and> length (cfg_custody_script_config config) = 32" using pda b lengths by simp
  show "length (cfg_recipient_atas config) = length (arg_recipient_atas args) \<and> cfg_recipient_atas config \<noteq> []
      \<and> distinct (cfg_recipient_atas config) \<and> list_all (\<lambda>k. length k = 32) (cfg_recipient_atas config)"
    using some distinct atas b by simp
  show "length (cfg_config_params config) = 48 \<and> length (cfg_initial_header config) = 320"
    using lengths b by (simp add: config_size_def header_size_def)
qed

section \<open>A process that starts\<close>

definition no_files :: text_files where
  "no_files = \<lparr>tf_is_file = (\<lambda>_. False), tf_read_to_string = (\<lambda>_. Inl (Err ''no such file''))\<rparr>"

definition demo_args :: args where
  "demo_args =
     \<lparr>arg_command = None, arg_network = Regtest, arg_electrs_url = ''electrs'', arg_redis_url = ''redis'', arg_sender_url = ''sender'',
      arg_sender_token = ''token'', arg_gen_proof_path = [],
      arg_block_elf_path = Some [''release'', ''block-transition''],
      arg_expected_vk_hash = Some (hex_encode demo_crates regtest_block_vk_hash), arg_proof_archive_dir = [''evidence''], arg_poll_interval_ms = 2, arg_redis_seed = 4,
      arg_prover_backend = RedisBackend, arg_proof_prepare_window = 2, arg_proof_queue_prefix = ''q'',
      arg_proof_wait_interval_ms = 5, arg_start_height = None,
      arg_old_state_dir = None, arg_witness_dir = None, arg_custody_script_config = hex_encode demo_crates (replicate 32 9),
      arg_recipient_atas = [hex_encode demo_crates (replicate 32 3), hex_encode demo_crates (replicate 32 4)],
      arg_required_confirmations = 1, arg_config_params = hex_encode demo_crates (replicate 48 1),
      arg_deposit_evidence_path = None, arg_initial_header = hex_encode demo_crates demo_header, arg_solana_rpc_url = ''rpc'', arg_operator_keypair = [''op''],
      arg_payer_keypair = [''pay''], arg_doge_mint = [6], arg_bridge_program = [1], arg_pending_mint_program = [2],
      arg_txo_buffer_program = [3]\<rparr>"

definition start_host :: host where
  "start_host = demo_host\<lparr>find_program_address := (\<lambda>_ _. replicate 32 9)\<rparr>"

definition start_accounts :: "'c accounts" where
  "start_accounts =
     \<lparr>acc_operator = (\<lambda>_. [7]), acc_custodian_hash = (\<lambda>_. custodian_hash demo_chain Regtest (replicate 32 9)),
      acc_doge_mint = (\<lambda>_. [6])\<rparr>"

definition start_env :: startup_env where
  "start_env =
     \<lparr>se_debug = False, se_redis_pool = Inr (), se_bridge_client = Inr (), se_sender_client = Inr (),
      se_elf = Inr [1, 2, 3], se_spawned = Inl (Err ''gone'')\<rparr>"

lemma demo_args_config:
  obtains config where "build_config demo_crates no_files demo_args = Inr config"
    "validate_config start_host False config = Inr ()" "cfg_operator_keypair config = [''op'']"
    "cfg_network config = Regtest" "cfg_custody_script_config config = replicate 32 9" "cfg_doge_mint config = [6]"
    "cfg_payer_keypair config = [''pay'']" "cfg_prover_backend config = RedisBackend" "cfg_required_confirmations config = 1"
proof -
  have read: "read_fixed demo_crates no_files n (hex_encode demo_crates b) = Inr b" if "length b = n" for n b
    by (rule read_plain_hex[OF demo_hex_laws _ that]) (simp add: no_files_def)
  have "replicate 8 1 = [1, 1, 1, 1, 1, 1, 1, 1 :: u8]" by (simp add: numeral_eq_Suc)
  then have fee: "(from_le_bytes (replicate 8 1) :: u64) \<noteq> 0" by (simp add: from_le_bytes_def)
  have zero: "replicate 32 9 \<noteq> replicate 32 (0 :: u8)" "replicate 32 3 \<noteq> replicate 32 (4 :: u8)" by simp_all
  have vk: "length regtest_block_vk_hash = 32" by (simp add: regtest_block_vk_hash_def)
  obtain config where built: "build_config demo_crates no_files demo_args = Inr config"
    and c: "config = \<lparr>cfg_network = Regtest, cfg_electrs_url = ''electrs'', cfg_redis_url = ''redis'', cfg_sender_url = ''sender'',
      cfg_sender_bearer_token = ''token'', cfg_gen_proof_path = [],
      cfg_block_elf_path = [''release'', ''block-transition''], cfg_expected_vk_hash = regtest_block_vk_hash,
      cfg_evidence_dir = [''evidence''], cfg_poll_interval = from_millis 2, cfg_redis_seed = 4, cfg_prover_backend = RedisBackend, cfg_proof_prepare_window = 2,
      cfg_proof_queue_prefix = ''q'', cfg_proof_wait_interval = from_millis 5, cfg_start_height = None,
      cfg_old_state_dir = None, cfg_witness_dir = None, cfg_custody_script_config = replicate 32 9, cfg_recipient_atas = [replicate 32 3, replicate 32 4],
      cfg_required_confirmations = 1, cfg_config_params = replicate 48 1, cfg_initial_header = demo_header,
      cfg_deposit_evidence_path = None, cfg_solana_rpc_url = ''rpc'', cfg_operator_keypair = [''op''], cfg_payer_keypair = [''pay''], cfg_doge_mint = [6],
      cfg_bridge_program = [1], cfg_pending_mint_program = [2], cfg_txo_buffer_program = [3]\<rparr>"
    by (simp add: build_config_def demo_args_def read vk config_size_def header_size_def demo_header_def)
  have valid: "validate_config start_host False config = Inr ()"
    using fee zero unfolding c
    by (simp add: validate_config_def Let_def validate_gen_proof_path_def ensure_release_path_def start_host_def demo_host_def
        regtest_block_vk_hash_def default_vk_hash_def trim_eq_Nil is_whitespace_def deposit_fee_denominator_def
        read_u64_le_def slice_def read_pipeline_keypair_def from_millis_def)
  show thesis by (rule that[OF built valid]) (simp_all add: c)
qed

lemma demo_process_starts:
  "main_run demo_D start_host ledger_program start_accounts demo_node demo_identity_json start_env no_files demo_args []
     (replicate 5 Applied, ledger_world demo_start) = (([], ledger_world demo_start), Inr ())"
proof -
  obtain config where c: "build_config demo_crates no_files demo_args = Inr config"
    "validate_config start_host False config = Inr ()" "cfg_operator_keypair config = [''op'']"
    "cfg_network config = Regtest" "cfg_custody_script_config config = replicate 32 9" "cfg_doge_mint config = [6]"
    "cfg_payer_keypair config = [''pay'']" "cfg_prover_backend config = RedisBackend"
    by (rule demo_args_config)
  have match: "assert_checkpoint_matches_chain demo_crates demo_start demo_header = Inr ()"
    using demo_start_matches[of demo_start] by (simp add: ledger_program_def ledger_world_def)
  have load: "load_checkpoint demo_D ledger_program demo_node config demo_header (replicate 2 Applied, ledger_world demo_start)
      = (([], ledger_world demo_start), Inr demo_start)"
    by (simp add: load_checkpoint_def reconcile_checkpoint_journal_def Let_def io_then_def effect_def io_lift_def match
        set_memory_def io_update_def stale_journal_action_def ledger_world_def numeral_2_eq_2)
  have fates: "replicate 5 Applied = Applied # Applied # Applied # replicate 2 Applied" by (simp add: numeral_eq_Suc)
  have key: "read_pipeline_keypair start_host q = Inr [7]" for q
    by (simp add: read_pipeline_keypair_def start_host_def demo_host_def)
  have observed: "io_then (effect (\<lambda>w. w) g) k (Applied # f, w) = k (g w) (f, w)"
    for g and k :: "'y \<Rightarrow> (ledger world, 'x) io" and f w by (simp add: io_then_def effect_def)
  have loaded: "io_then (load_checkpoint demo_D ledger_program demo_node config demo_header) k (replicate 2 Applied, ledger_world demo_start)
      = k demo_start ([], ledger_world demo_start)" for k :: "_ \<Rightarrow> (ledger world, 'x) io"
    by (simp add: io_then_def load)
  have accounts: "acc_operator start_accounts x = [7]" "acc_doge_mint start_accounts x = [6]"
    "acc_custodian_hash start_accounts x = custodian_hash demo_chain Regtest (replicate 32 9)" for x
    by (simp_all add: start_accounts_def)
  have lifted: "io_lift (Inr x) s = (s, Inr x)" for x :: 'x and s :: "fate list \<times> ledger world" by (simp add: io_lift_def)
  have header: "on_chain_header ledger_program (w_chain (ledger_world demo_start)) = demo_header"
    by (simp add: ledger_program_def ledger_world_def)
  have env: "se_debug start_env = False" "se_redis_pool start_env = Inr ()" "se_bridge_client start_env = Inr ()"
    "se_sender_client start_env = Inr ()" by (simp_all add: start_env_def)
  obtain pipeline where "initialize demo_D start_host ledger_program start_accounts demo_node demo_identity_json start_env config
      (replicate 5 Applied, ledger_world demo_start) = (([], ledger_world demo_start), Inr pipeline)"
    unfolding initialize_def fates
    by (simp only: env c lift_run sum.case key observed accounts header prod.case simp_thms if_True if_False loaded
        start_backend_def prover_backend_kind.case lifted demo_deps_simps prod.inject sum.inject)
  then show ?thesis by (simp add: main_run_def c lift_run run_node_def io_then_def) (simp add: io_lift_def)
qed

section \<open>Witnesses\<close>

theorem written_values_are_read_witness:
  "\<exists>text. text = '' 0xab '' @ [CHR 0x0A] @ ''cd 1'' @ [CHR 0x0A, CHR ''e'']
     \<and> read_fixed demo_crates no_files 3 text = Inr [0xab, 0xcd, 0x1e]
     \<and> read_fixed demo_crates no_files 2 text = Inl (Err ''value must decode to a fixed number of bytes'')
     \<and> read_fixed demo_crates (no_files\<lparr>tf_read_to_string := (\<lambda>_. Inr text)\<rparr>) 3 ''@f'' = Inr [0xab, 0xcd, 0x1e]"
proof -
  let ?t = "'' 0xab '' @ [CHR 0x0A] @ ''cd 1'' @ [CHR 0x0A, CHR ''e'']"
  have w: "written_hex (hex_encode demo_crates [0xab, 0xcd, 0x1e]) ?t"
    unfolding written_hex_def
    by (intro exI[of _ "'' ''"] exI[of _ "''0x''"] exI[of _ "''ab '' @ [CHR 0x0A] @ ''cd 1'' @ [CHR 0x0A, CHR ''e'']"] exI[of _ "[]"])
      (simp add: is_ascii_whitespace_def demo_crates_def demo_encode_def demo_digit_def)
  note r = written_values_are_read[OF demo_hex_laws w]
  have "read_fixed demo_crates no_files 3 ?t = Inr [0xab, 0xcd, 0x1e]"
    "read_fixed demo_crates no_files 2 ?t = Inl (Err ''value must decode to a fixed number of bytes'')"
    using r(1)[of no_files] by (simp_all add: no_files_def)
  moreover have "read_fixed demo_crates (no_files\<lparr>tf_read_to_string := (\<lambda>_. Inr ?t)\<rparr>) 3 (''@'' @ ''f'') = Inr [0xab, 0xcd, 0x1e]"
    using r(2)[of "no_files\<lparr>tf_read_to_string := (\<lambda>_. Inr ?t)\<rparr>" "''f''" 3] by simp
  ultimately show ?thesis by simp
qed

theorem redis_keys_separate_witness:
  "\<exists>other. other = (demo_config 1)\<lparr>cfg_redis_seed := 5\<rparr>
     \<and> redis_checkpoint_key other \<noteq> redis_checkpoint_key (demo_config 1)
     \<and> queue_key (queue_namespace (demo_config 1)) ''q-regtest-4:job:0a''
     \<and> \<not> queue_key (queue_namespace other) ''q-regtest-4:job:0a''
     \<and> ''q-regtest-4:job:0a'' \<noteq> checkpoint_journal_key (redis_checkpoint_key other)"
proof -
  let ?other = "(demo_config 1)\<lparr>cfg_redis_seed := 5\<rparr>"
  have n: "queue_namespace (demo_config 1) = ''q-regtest-4''"
    by (simp add: queue_namespace_def proof_namespace_def demo_config_def network_str_def nat_str.simps char_of_eq_iff)
  have "is_lower_hex ''0a''" by (simp add: is_lower_hex_def)
  then have k: "queue_key (queue_namespace (demo_config 1)) ''q-regtest-4:job:0a''"
    unfolding queue_key_def n Let_def by (intro disjI2 exI[of _ "''0a''"]) (simp add: queue_keys_new_def job_key_def)
  have seeds: "cfg_redis_seed ?other \<noteq> cfg_redis_seed (demo_config 1)" by (simp add: demo_config_def)
  have "\<not> queue_key (queue_namespace ?other) ''q-regtest-4:job:0a''"
    using redis_keys_separate[of "demo_config 1" ?other "''q-regtest-4:job:0a''"] k seeds by auto
  moreover have "redis_checkpoint_key ?other \<noteq> redis_checkpoint_key (demo_config 1)"
    "''q-regtest-4:job:0a'' \<noteq> checkpoint_journal_key (redis_checkpoint_key ?other)"
    using redis_keys_separate[of "demo_config 1" ?other "''q-regtest-4:job:0a''"] k seeds by auto
  ultimately show ?thesis using k by blast
qed

theorem started_process_is_node_life_witness:
  "\<exists>config fates'. build_config demo_crates no_files demo_args = Inr config
     \<and> validate_config start_host False config = Inr ()
     \<and> node_life demo_D ledger_program config demo_node ([] :: (node \<times> proof_ticket backend) list) (fates', ledger_world demo_start)
         = (([], ledger_world demo_start), Inr ())"
  using started_process_is_node_life[OF demo_process_starts] by (auto simp: start_env_def)

theorem processes_are_node_lives_witness:
  "\<exists>config process lives. build_config demo_crates no_files demo_args = Inr config
     \<and> process = \<lparr>pr_accounts = start_accounts, pr_node = demo_node, pr_env = start_env, pr_files = no_files, pr_args = demo_args,
          pr_polls = ([] :: (node \<times> proof_ticket backend) list), pr_fates = replicate 5 Applied\<rparr>
     \<and> processes demo_D start_host ledger_program demo_identity_json [process, process\<lparr>pr_fates := []\<rparr>] (ledger_world demo_start)
       = node_lives demo_D ledger_program config lives (ledger_world demo_start)
     \<and> list_all (\<lambda>(N, polls, fates). N = demo_node \<and> polls = ([] :: (node \<times> proof_ticket backend) list)) lives"
proof -
  let ?p = "\<lparr>pr_accounts = start_accounts :: ledger accounts, pr_node = demo_node, pr_env = start_env, pr_files = no_files, pr_args = demo_args,
      pr_polls = ([] :: (node \<times> proof_ticket backend) list), pr_fates = replicate 5 Applied\<rparr>"
  obtain config where c: "build_config demo_crates no_files demo_args = Inr config" by (rule demo_args_config)
  have "\<forall>p \<in> set [?p, ?p\<lparr>pr_fates := []\<rparr>]. \<forall>c. build_config (d_crates demo_D) (pr_files p) (pr_args p) = Inr c \<longrightarrow> c = config"
    by (simp add: c)
  from processes_are_node_lives[OF this, of start_host ledger_program demo_identity_json "ledger_world demo_start"]
  obtain lives where l: "processes demo_D start_host ledger_program demo_identity_json [?p, ?p\<lparr>pr_fates := []\<rparr>] (ledger_world demo_start)
      = node_lives demo_D ledger_program config lives (ledger_world demo_start)"
    "\<forall>(N, polls, fates) \<in> set lives. \<exists>p \<in> set [?p, ?p\<lparr>pr_fates := []\<rparr>]. N = pr_node p \<and> (polls = pr_polls p \<or> polls = [])"
    by (elim exE conjE)
  have "list_all (\<lambda>(N, polls, fates). N = demo_node \<and> polls = ([] :: (node \<times> proof_ticket backend) list)) lives"
    unfolding list_all_iff using l(2) by fastforce
  with c l(1) show ?thesis by blast
qed

theorem accepted_command_line_witness:
  "\<exists>config. build_config demo_crates no_files demo_args = Inr config
     \<and> cfg_expected_vk_hash config = regtest_block_vk_hash \<and> length (cfg_recipient_atas config) = 2
     \<and> distinct (cfg_recipient_atas config) \<and> length (cfg_initial_header config) = 320"
proof -
  obtain config where c: "build_config demo_crates no_files demo_args = Inr config" "validate_config start_host False config = Inr ()"
    by (rule demo_args_config)
  from accepted_command_line(1,4,5)[OF c] c(1) show ?thesis by (auto simp: demo_args_def default_vk_hash_def)
qed

end
