(* ===== verification/Electrs.thy ===== *)
theory Electrs
  imports Pipeline Retry
begin

text \<open>
  The client that reads the Dogecoin chain (\<open>doge_link_rpc_async.rs\<close>): requests over the retry loop of
  \<open>Retry\<close>, blocks and headers by height, a range of headers fetched in parallel, and the conversion
  from the \<open>bitcoin\<close> crate's types to those of \<open>doge_light_client\<close>. It is what fills the \<open>node\<close> of
  \<open>Prepare\<close>.
\<close>

section \<open>Text\<close>

text \<open>\<open>String::from_utf8\<close>: the well-formed byte sequences. A string keeps its bytes as characters.\<close>

definition continuation :: "u8 \<Rightarrow> bool" where
  "continuation b \<longleftrightarrow> 0x80 \<le> b \<and> b \<le> 0xBF"

fun utf8_valid :: "bytes \<Rightarrow> bool" where
  "utf8_valid [] = True"
| "utf8_valid (b # bs) =
     (if b < 0x80 then utf8_valid bs
      else if 0xC2 \<le> b \<and> b \<le> 0xDF then
        (case bs of c # rest \<Rightarrow> continuation c \<and> utf8_valid rest | _ \<Rightarrow> False)
      else if 0xE0 \<le> b \<and> b \<le> 0xEF then
        (case bs of c # d # rest \<Rightarrow>
             continuation c \<and> (b = 0xE0 \<longrightarrow> 0xA0 \<le> c) \<and> (b = 0xED \<longrightarrow> c \<le> 0x9F) \<and> continuation d \<and> utf8_valid rest
         | _ \<Rightarrow> False)
      else if 0xF0 \<le> b \<and> b \<le> 0xF4 then
        (case bs of c # d # e # rest \<Rightarrow>
             continuation c \<and> (b = 0xF0 \<longrightarrow> 0x90 \<le> c) \<and> (b = 0xF4 \<longrightarrow> c \<le> 0x8F)
             \<and> continuation d \<and> continuation e \<and> utf8_valid rest
         | _ \<Rightarrow> False)
      else False)"

definition from_utf8 :: "bytes \<Rightarrow> string res" where
  "from_utf8 b = (if utf8_valid b then Inr (map (\<lambda>x. char_of (unat x)) b) else Inl (Err ''invalid utf-8''))"

section \<open>Third-party data and functions\<close>

text \<open>
  \<open>bitcoin\<close>: a block is a header with an optional merge-mining proof and its transactions; \<open>'t\<close>, \<open>'s\<close>
  and \<open>'p\<close> stand for its transactions, its plain headers and the headers of parent blocks.
  \<open>doge_light_client\<close>: \<open>'h\<close> and \<open>'q\<close> stand for its standard headers and its coinbase transactions.
\<close>

record merkle_branch =
  mb_side_mask :: u32
  mb_hashes :: "bytes list"

record ('t, 'p) btc_aux =
  ax_coinbase_tx :: 't
  ax_block_hash :: bytes
  ax_coinbase_branch :: merkle_branch
  ax_blockchain_branch :: merkle_branch
  ax_parent_block :: 'p

record ('t, 's, 'p) btc_header =
  hd_simple :: 's
  hd_aux :: "('t, 'p) btc_aux option"

record ('t, 's, 'p) btc_block =
  bb_header :: "('t, 's, 'p) btc_header"
  bb_txdata :: "'t list"

record ('h, 'q) qd_aux_pow =
  qa_coinbase_transaction :: 'q
  qa_block_hash :: bytes
  qa_coinbase_branch :: merkle_branch
  qa_blockchain_branch :: merkle_branch
  qa_parent_block :: 'h

record ('h, 'q) qd_header =
  qh_header :: 'h
  qh_aux_pow :: "('h, 'q) qd_aux_pow option"

record ('h, 'q) qd_block =
  qb_header :: 'h
  qb_transactions :: "transaction list"
  qb_aux_pow :: "('h, 'q) qd_aux_pow option"

text \<open>
  The functions of the two crates and of \<open>serde_json\<close>; \<open>view_block\<close> and \<open>view_header\<close> are the fields
  that \<open>block_pipeline.rs\<close> reads of a block and of a header.
\<close>

record ('t, 's, 'p, 'h, 'q) formats =
  block_deserialize :: "bytes \<Rightarrow> ('t, 's, 'p) btc_block option"
  header_deserialize :: "bytes \<Rightarrow> ('t, 's, 'p) btc_header option"
  tx_serialize :: "'t \<Rightarrow> bytes"
  simple_serialize :: "'s \<Rightarrow> bytes"
  parent_serialize :: "'p \<Rightarrow> bytes"
  tx_from_bytes :: "bytes \<Rightarrow> transaction res"
  coinbase_from_bytes :: "bytes \<Rightarrow> 'q res"
  header_from_bytes :: "bytes \<Rightarrow> 'h res"
  u32_from_json :: "bytes \<Rightarrow> u32 option"
  view_block :: "('h, 'q) qd_block \<Rightarrow> doge_block"
  view_header :: "('h, 'q) qd_header \<Rightarrow> block_header"

text \<open>\<open>to_qdoge_block_header\<close> keeps the header and the merge-mining proof of a block.\<close>

definition header_part :: "('h, 'q) qd_block \<Rightarrow> ('h, 'q) qd_header" where
  "header_part q = \<lparr>qh_header = qb_header q, qh_aux_pow = qb_aux_pow q\<rparr>"

definition view_law :: "('t, 's, 'p, 'h, 'q) formats \<Rightarrow> bool" where
  "view_law B \<longleftrightarrow> (\<forall>q. blk_header (view_block B q) = view_header B (header_part q))"

section \<open>Conversion\<close>

definition aux_pow_to_qdoge :: "('t, 's, 'p, 'h, 'q) formats \<Rightarrow> ('t, 'p) btc_aux \<Rightarrow> ('h, 'q) qd_aux_pow res" where
  "aux_pow_to_qdoge B ap =
     and_then (coinbase_from_bytes B (tx_serialize B (ax_coinbase_tx ap))) (\<lambda>coinbase_transaction.
     and_then (header_from_bytes B (parent_serialize B (ax_parent_block ap))) (\<lambda>parent_block.
     Inr \<lparr>qa_coinbase_transaction = coinbase_transaction, qa_block_hash = ax_block_hash ap,
          qa_coinbase_branch = ax_coinbase_branch ap, qa_blockchain_branch = ax_blockchain_branch ap,
          qa_parent_block = parent_block\<rparr>))"

definition aux_data_to_qdoge ::
  "('t, 's, 'p, 'h, 'q) formats \<Rightarrow> ('t, 'p) btc_aux option \<Rightarrow> ('h, 'q) qd_aux_pow option res" where
  "aux_data_to_qdoge B aux =
     (case aux of Some ap \<Rightarrow> and_then (aux_pow_to_qdoge B ap) (\<lambda>a. Inr (Some a)) | None \<Rightarrow> Inr None)"

definition btc_block_to_qdoge :: "('t, 's, 'p, 'h, 'q) formats \<Rightarrow> ('t, 's, 'p) btc_block \<Rightarrow> ('h, 'q) qd_block res" where
  "btc_block_to_qdoge B block =
     and_then (try_map (\<lambda>tx. tx_from_bytes B (tx_serialize B tx)) (bb_txdata block)) (\<lambda>txs.
     let header_bytes = simple_serialize B (hd_simple (bb_header block)) in
     and_then (aux_data_to_qdoge B (hd_aux (bb_header block))) (\<lambda>auxp.
     and_then (header_from_bytes B header_bytes) (\<lambda>header.
     Inr \<lparr>qb_header = header, qb_transactions = txs, qb_aux_pow = auxp\<rparr>)))"

definition btc_block_header_to_qdoge ::
  "('t, 's, 'p, 'h, 'q) formats \<Rightarrow> ('t, 's, 'p) btc_header \<Rightarrow> ('h, 'q) qd_header res" where
  "btc_block_header_to_qdoge B header =
     (let header_bytes = simple_serialize B (hd_simple header) in
     and_then (aux_data_to_qdoge B (hd_aux header)) (\<lambda>auxp.
     and_then (header_from_bytes B header_bytes) (\<lambda>h.
     Inr \<lparr>qh_header = h, qh_aux_pow = auxp\<rparr>)))"

section \<open>Requests\<close>

text \<open>
  A server answers the attempts of a request to a path below its address, in some time each. \<open>None\<close>
  is a request that is retried for ever.
\<close>

record server =
  sv_replies :: "string \<Rightarrow> nat \<Rightarrow> bytes_reply"
  sv_spent :: "string \<Rightarrow> nat \<Rightarrow> duration"
  sv_lags :: "string \<Rightarrow> nat \<Rightarrow> duration"

definition answer_then :: "'a res option \<Rightarrow> ('a \<Rightarrow> 'b res option) \<Rightarrow> 'b res option" where
  "answer_then m f = (case m of None \<Rightarrow> None | Some (Inl e) \<Rightarrow> Some (Inl e) | Some (Inr x) \<Rightarrow> f x)"

definition get_bytes :: "retry_policy \<Rightarrow> server \<Rightarrow> string \<Rightarrow> bytes res option" where
  "get_bytes p S path =
     map_option (\<lambda>(r, _). case r of Inl _ \<Rightarrow> Inl (Err ''Electrs request failed'') | Inr b \<Rightarrow> Inr b)
       (get_response_bytes p (sv_replies S path) (sv_spent S path) (sv_lags S path))"

definition get_text :: "retry_policy \<Rightarrow> server \<Rightarrow> string \<Rightarrow> string res option" where
  "get_text p S path = answer_then (get_bytes p S path) (\<lambda>b. Some (from_utf8 b))"

definition get_json_with_retry :: "(bytes \<Rightarrow> 'v option) \<Rightarrow> retry_policy \<Rightarrow> server \<Rightarrow> string \<Rightarrow> 'v res option" where
  "get_json_with_retry from_slice p S path =
     answer_then (get_bytes p S path) (\<lambda>b. Some (ok_or (from_slice b) (Err ''malformed json'')))"

definition get_json :: "(bytes \<Rightarrow> 'v option) \<Rightarrow> retry_policy \<Rightarrow> server \<Rightarrow> string \<Rightarrow> 'v res option" where
  "get_json from_slice p S path = get_json_with_retry from_slice p S path"

text \<open>\<open>now\<close> is the time since the epoch in nanoseconds, \<open>None\<close> when the clock is before it.\<close>

definition get_block_height :: "('t, 's, 'p, 'h, 'q) formats \<Rightarrow> retry_policy \<Rightarrow> server \<Rightarrow> nat option \<Rightarrow> u32 res option" where
  "get_block_height B p S now =
     answer_then (Some (ok_or now (Err ''second time provided was later than self''))) (\<lambda>cache_bust.
     get_json (u32_from_json B) p S (''blocks/tip/height?fresh='' @ nat_str cache_bust))"

definition get_block ::
  "('t, 's, 'p, 'h, 'q) formats \<Rightarrow> retry_policy \<Rightarrow> server \<Rightarrow> u32 \<Rightarrow> ('t, 's, 'p) btc_block res option" where
  "get_block B p S height =
     answer_then (get_text p S (''block-height/'' @ nat_str (unat height))) (\<lambda>hash_txt.
     answer_then (get_bytes p S (''block/'' @ hash_txt @ ''/raw'')) (\<lambda>block_data.
     Some (ok_or (block_deserialize B block_data) (Err ''malformed block''))))"

definition get_qd_block ::
  "('t, 's, 'p, 'h, 'q) formats \<Rightarrow> retry_policy \<Rightarrow> server \<Rightarrow> u32 \<Rightarrow> ('h, 'q) qd_block res option" where
  "get_qd_block B p S height = answer_then (get_block B p S height) (\<lambda>block. Some (btc_block_to_qdoge B block))"

definition get_qd_block_header ::
  "crates \<Rightarrow> ('t, 's, 'p, 'h, 'q) formats \<Rightarrow> retry_policy \<Rightarrow> server \<Rightarrow> u32 \<Rightarrow> ('h, 'q) qd_header res option" where
  "get_qd_block_header X B p S height =
     answer_then (get_text p S (''block-height/'' @ nat_str (unat height))) (\<lambda>hash.
     answer_then (get_text p S (''block/'' @ hash @ ''/header'')) (\<lambda>header_hex.
     Some (and_then (ok_or (hex_decode X header_hex) (Err ''invalid hex'')) (\<lambda>data.
           and_then (ok_or (header_deserialize B data) (Err ''malformed header'')) (\<lambda>header.
           btc_block_header_to_qdoge B header)))))"

text \<open>\<open>future::join_all\<close> waits for every future and keeps their order.\<close>

fun join_all :: "'a option list \<Rightarrow> 'a list option" where
  "join_all [] = Some []"
| "join_all (None # rs) = None"
| "join_all (Some r # rs) = map_option (Cons r) (join_all rs)"

text \<open>Each height has a client of its own, so it meets a server of its own.\<close>

definition get_qd_block_headers_range_parallel ::
  "crates \<Rightarrow> ('t, 's, 'p, 'h, 'q) formats \<Rightarrow> (u32 \<Rightarrow> server) \<Rightarrow> u32 \<Rightarrow> u32 \<Rightarrow> ('h, 'q) qd_header list res option" where
  "get_qd_block_headers_range_parallel X B servers start_height end_height =
     map_option (try_map (\<lambda>r. r))
       (join_all (map (\<lambda>h. get_qd_block_header X B default_policy (servers (of_nat h)) (of_nat h))
          [unat start_height..<unat end_height + 1]))"

section \<open>Every request ends\<close>

lemma answer_then_Some [simp]:
  "answer_then None f = None" "answer_then (Some (Inl e)) f = Some (Inl e)" "answer_then (Some (Inr x)) f = f x"
  by (simp_all add: answer_then_def)

lemma answer_then_eq_Inr:
  "answer_then m f = Some (Inr y) \<longleftrightarrow> (\<exists>x. m = Some (Inr x) \<and> f x = Some (Inr y))"
  by (auto simp: answer_then_def split: option.splits sum.splits)

lemma answer_then_ends: "m \<noteq> None \<Longrightarrow> (\<And>x. f x \<noteq> None) \<Longrightarrow> answer_then m f \<noteq> None"
  by (auto simp: answer_then_def split: option.splits sum.splits)

lemma get_bytes_ends:
  assumes "max_attempts p = Some m"
  shows "get_bytes p S path \<noteq> None"
proof -
  obtain r starts where "get_response_bytes p (sv_replies S path) (sv_spent S path) (sv_lags S path) = Some (r, starts)"
    unfolding get_response_bytes_def retry_run_def using retry_loop_stops[OF assms] by blast
  then show ?thesis by (simp add: get_bytes_def)
qed

lemma get_text_ends: "max_attempts p = Some m \<Longrightarrow> get_text p S path \<noteq> None"
  unfolding get_text_def by (rule answer_then_ends) (simp_all add: get_bytes_ends)

lemma get_header_ends: "max_attempts p = Some m \<Longrightarrow> get_qd_block_header X B p S h \<noteq> None"
  unfolding get_qd_block_header_def by (intro answer_then_ends get_text_ends) simp_all

lemma default_max_attempts: "max_attempts default_policy = Some 20"
  by (simp add: default_policy_def with_max_attempts_def)

lemma join_all_eq_Some: "join_all rs = Some xs \<longleftrightarrow> rs = map Some xs"
  by (induction rs arbitrary: xs rule: join_all.induct) auto

lemma join_all_ends: "list_all (\<lambda>r. r \<noteq> None) rs \<Longrightarrow> \<exists>xs. join_all rs = Some xs"
  by (induction rs rule: join_all.induct) auto

section \<open>A range of headers\<close>

definition heights :: "u32 \<Rightarrow> u32 \<Rightarrow> u32 list" where
  "heights a b = map of_nat [unat a..<unat b + 1]"

lemma heights_le: "h \<in> set (heights a b) \<Longrightarrow> h \<le> b"
proof -
  assume "h \<in> set (heights a b)"
  then obtain n where n: "h = of_nat n" "n \<le> unat b" by (auto simp: heights_def)
  have "unat (of_nat n :: u32) \<le> n" by (simp add: unsigned_of_nat take_bit_nat_less_eq_self)
  with n show "h \<le> b" by (simp add: word_le_nat_alt)
qed

lemma range_of_heights:
  "get_qd_block_headers_range_parallel X B servers a b =
     map_option (try_map (\<lambda>r. r)) (join_all (map (\<lambda>h. get_qd_block_header X B default_policy (servers h) h) (heights a b)))"
  by (simp add: get_qd_block_headers_range_parallel_def heights_def comp_def)

lemma range_results:
  obtains rs where "get_qd_block_headers_range_parallel X B servers a b = Some (try_map (\<lambda>r. r) rs)"
    "map (\<lambda>h. get_qd_block_header X B default_policy (servers h) h) (heights a b) = map Some rs"
proof -
  have "list_all (\<lambda>r. r \<noteq> None) (map (\<lambda>h. get_qd_block_header X B default_policy (servers h) h) (heights a b))"
    by (auto simp: list_all_iff get_header_ends[OF default_max_attempts] simp del: not_None_eq)
  with join_all_ends obtain rs where "join_all (map (\<lambda>h. get_qd_block_header X B default_policy (servers h) h) (heights a b)) = Some rs"
    by blast
  then show thesis using that by (simp add: range_of_heights join_all_eq_Some)
qed

lemma try_map_outcome:
  "(\<exists>xs. try_map (\<lambda>r. r) rs = Inr xs \<and> rs = map Inr xs)
   \<or> (\<exists>i e. try_map (\<lambda>r. r) rs = Inl e \<and> i < length rs \<and> rs ! i = Inl e \<and> (\<forall>j < i. \<exists>x. rs ! j = Inr x))"
proof (induction rs)
  case (Cons r rs)
  show ?case
  proof (cases r)
    case (Inl e)
    then show ?thesis by (intro disjI2 exI[of _ 0] exI[of _ e]) simp
  next
    case (Inr x)
    from Cons.IH show ?thesis
    proof (elim disjE exE conjE)
      fix xs assume "try_map (\<lambda>r. r) rs = Inr xs" "rs = map Inr xs"
      with Inr show ?thesis by (intro disjI1 exI[of _ "x # xs"]) simp
    next
      fix i e assume e: "try_map (\<lambda>r. r) rs = Inl e" "i < length rs" "rs ! i = Inl e" "\<forall>j < i. \<exists>x. rs ! j = Inr x"
      have "\<forall>j < Suc i. \<exists>x. (r # rs) ! j = Inr x" using e(4) Inr by (auto simp: nth_Cons split: nat.split)
      with e Inr show ?thesis by (intro disjI2 exI[of _ "Suc i"] exI[of _ e]) simp
    qed
  qed
qed simp

text \<open>
  Fetching a range of headers in parallel always returns, with one header per height in the
  order of the heights when every height is answered, and with the error of the first height that
  fails otherwise, whatever the other heights give.
\<close>

theorem headers_range_in_order:
  "length (heights a b) = unat b + 1 - unat a
   \<and> ((\<exists>hs. get_qd_block_headers_range_parallel X B servers a b = Some (Inr hs)
          \<and> list_all2 (\<lambda>h q. get_qd_block_header X B default_policy (servers h) h = Some (Inr q)) (heights a b) hs)
      \<or> (\<exists>i e. i < length (heights a b) \<and> get_qd_block_headers_range_parallel X B servers a b = Some (Inl e)
          \<and> get_qd_block_header X B default_policy (servers (heights a b ! i)) (heights a b ! i) = Some (Inl e)
          \<and> (\<forall>j < i. \<exists>q. get_qd_block_header X B default_policy (servers (heights a b ! j)) (heights a b ! j) = Some (Inr q))))"
proof -
  obtain rs where r: "get_qd_block_headers_range_parallel X B servers a b = Some (try_map (\<lambda>r. r) rs)"
    and rs: "map (\<lambda>h. get_qd_block_header X B default_policy (servers h) h) (heights a b) = map Some rs"
    by (rule range_results)
  have len: "length rs = length (heights a b)" using arg_cong[OF rs, of length] by simp
  have at: "get_qd_block_header X B default_policy (servers (heights a b ! k)) (heights a b ! k) = Some (rs ! k)" if "k < length rs" for k
    using arg_cong[OF rs, of "\<lambda>xs. xs ! k"] that len by simp
  have "length (heights a b) = unat b + 1 - unat a" unfolding heights_def length_map length_upt ..
  moreover from try_map_outcome[of rs]
  have "(\<exists>hs. get_qd_block_headers_range_parallel X B servers a b = Some (Inr hs)
          \<and> list_all2 (\<lambda>h q. get_qd_block_header X B default_policy (servers h) h = Some (Inr q)) (heights a b) hs)
      \<or> (\<exists>i e. i < length (heights a b) \<and> get_qd_block_headers_range_parallel X B servers a b = Some (Inl e)
          \<and> get_qd_block_header X B default_policy (servers (heights a b ! i)) (heights a b ! i) = Some (Inl e)
          \<and> (\<forall>j < i. \<exists>q. get_qd_block_header X B default_policy (servers (heights a b ! j)) (heights a b ! j) = Some (Inr q)))"
  proof (elim disjE exE conjE)
    fix hs assume hs: "try_map (\<lambda>r. r) rs = Inr hs" "rs = map Inr hs"
    then have "list_all2 (\<lambda>h q. get_qd_block_header X B default_policy (servers h) h = Some (Inr q)) (heights a b) hs"
      using len at by (simp add: list_all2_conv_all_nth)
    moreover have "get_qd_block_headers_range_parallel X B servers a b = Some (Inr hs)" unfolding r hs(1) ..
    ultimately show ?thesis by (intro disjI1 exI[of _ hs] conjI)
  next
    fix i e assume e: "try_map (\<lambda>r. r) rs = Inl e" "i < length rs" "rs ! i = Inl e" "\<forall>j < i. \<exists>q. rs ! j = Inr q"
    have "\<forall>j < i. \<exists>q. get_qd_block_header X B default_policy (servers (heights a b ! j)) (heights a b ! j) = Some (Inr q)"
      using e(2,4) at by (metis order.strict_trans)
    moreover have "get_qd_block_headers_range_parallel X B servers a b = Some (Inl e)" unfolding r e(1) ..
    moreover have "get_qd_block_header X B default_policy (servers (heights a b ! i)) (heights a b ! i) = Some (Inl e)"
      unfolding at[OF e(2)] e(3) ..
    moreover have "i < length (heights a b)" using e(2) len by simp
    ultimately show ?thesis by (intro disjI2 exI[of _ i] exI[of _ e] conjI)
  qed
  ultimately show ?thesis by blast
qed

section \<open>The node reads the chain\<close>

lemma header_of_block:
  "btc_block_to_qdoge B block = Inr q \<Longrightarrow> btc_block_header_to_qdoge B (bb_header block) = Inr (header_part q)"
  by (auto simp: btc_block_to_qdoge_def btc_block_header_to_qdoge_def header_part_def Let_def elim!: and_then_elim)

text \<open>
  A server serves the blocks \<open>c\<close> up to the tip: after the retries of the client, the block and the
  header of each height come from it, under whatever hash it gives them.
\<close>

definition serves ::
  "crates \<Rightarrow> ('t, 's, 'p, 'h, 'q) formats \<Rightarrow> server \<Rightarrow> (u32 \<Rightarrow> server) \<Rightarrow> nat option \<Rightarrow> (u32 \<Rightarrow> ('t, 's, 'p) btc_block) \<Rightarrow> u32 \<Rightarrow> bool" where
  "serves X B S servers now c tip \<longleftrightarrow>
     get_block_height B default_policy S now = Some (Inr tip)
     \<and> (\<forall>h \<le> tip.
          (\<exists>hash raw. get_text default_policy S (''block-height/'' @ nat_str (unat h)) = Some (Inr hash)
             \<and> get_bytes default_policy S (''block/'' @ hash @ ''/raw'') = Some (Inr raw) \<and> block_deserialize B raw = Some (c h))
        \<and> (\<exists>hash header_hex data.
             get_text default_policy (servers h) (''block-height/'' @ nat_str (unat h)) = Some (Inr hash)
             \<and> get_text default_policy (servers h) (''block/'' @ hash @ ''/header'') = Some (Inr header_hex)
             \<and> hex_decode X header_hex = Some data \<and> header_deserialize B data = Some (bb_header (c h))))"

definition answer :: "'a res option \<Rightarrow> 'a res" where
  "answer m = (case m of None \<Rightarrow> Inl (Err ''no answer'') | Some r \<Rightarrow> r)"

text \<open>The node the pipeline sees through the client, and the one that knows the blocks.\<close>

definition client_node ::
  "crates \<Rightarrow> ('t, 's, 'p, 'h, 'q) formats \<Rightarrow> server \<Rightarrow> (u32 \<Rightarrow> server) \<Rightarrow> nat option \<Rightarrow> node \<Rightarrow> node" where
  "client_node X B S servers now N =
     N\<lparr>electrs_height := answer (get_block_height B default_policy S now),
       electrs_block := (\<lambda>h. and_then (answer (get_qd_block B default_policy S h)) (\<lambda>q. Inr (view_block B q))),
       electrs_headers := (\<lambda>a b. and_then (answer (get_qd_block_headers_range_parallel X B servers a b))
          (\<lambda>qs. Inr (map (view_header B) qs)))\<rparr>"

definition chain_node :: "('t, 's, 'p, 'h, 'q) formats \<Rightarrow> (u32 \<Rightarrow> ('h, 'q) qd_block) \<Rightarrow> u32 \<Rightarrow> node \<Rightarrow> node" where
  "chain_node B q tip N =
     N\<lparr>electrs_height := Inr tip, electrs_block := (\<lambda>h. Inr (view_block B (q h))),
       electrs_headers := (\<lambda>a b. Inr (map (\<lambda>h. blk_header (view_block B (q h))) (heights a b)))\<rparr>"

lemma served_block:
  assumes "serves X B S servers now c tip" and "h \<le> tip" and "btc_block_to_qdoge B (c h) = Inr (q h)"
  shows "get_qd_block B default_policy S h = Some (Inr (q h))"
    and "get_qd_block_header X B default_policy (servers h) h = Some (Inr (header_part (q h)))"
  using assms header_of_block[OF assms(3)]
  by (auto simp: serves_def get_qd_block_def get_block_def get_qd_block_header_def ok_or_def)

lemma served_headers:
  assumes "serves X B S servers now c tip" and "b \<le> tip" and "\<And>h. h \<le> tip \<Longrightarrow> btc_block_to_qdoge B (c h) = Inr (q h)"
  shows "get_qd_block_headers_range_parallel X B servers a b = Some (Inr (map (\<lambda>h. header_part (q h)) (heights a b)))"
proof -
  have "map (\<lambda>h. get_qd_block_header X B default_policy (servers h) h) (heights a b)
      = map Some (map (\<lambda>h. Inr (header_part (q h))) (heights a b))"
    unfolding map_map
  proof (rule map_cong[OF refl])
    fix h assume "h \<in> set (heights a b)"
    with assms(2) have h: "h \<le> tip" using heights_le order.trans by blast
    show "get_qd_block_header X B default_policy (servers h) h = (Some \<circ> (\<lambda>h. Inr (header_part (q h)))) h"
      using served_block(2)[where q = q, OF assms(1) h assms(3)[OF h]] by simp
  qed
  then have "join_all (map (\<lambda>h. get_qd_block_header X B default_policy (servers h) h) (heights a b))
      = Some (map (\<lambda>h. Inr (header_part (q h))) (heights a b))" unfolding join_all_eq_Some .
  then show ?thesis by (simp add: range_of_heights try_map_eq_Inr list_all2_conv_all_nth)
qed


lemma prepare_height_depends:
  assumes "\<And>h. h \<le> height \<Longrightarrow> electrs_block N h = electrs_block N' h" and "old_state_artifact N = old_state_artifact N'"
    and "witness_artifact N = witness_artifact N'" and "evidence_file N = evidence_file N'" and "elf_file N = elf_file N'"
  shows "prepare_height D N config cp height = prepare_height D N' config cp height"
proof -
  have final: "electrs_block N f = electrs_block N' f" if "ok_or (checked_sub_u32 height conf) e = Inr f" for conf f e
  proof (rule assms(1))
    from that have "conf \<le> height" "f = height - conf" by (auto simp: ok_or_eq_Inr checked_sub_u32_def split: if_splits)
    then show "f \<le> height" by (simp add: word_sub_le)
  qed
  show ?thesis
    unfolding prepare_height_def Let_def assms(1)[OF order.refl] assms(2-5)
    by (intro and_then_cong if_cong refl) (auto simp: final split: option.split)
qed

text \<open>
  Claim C17. When the server serves a chain of convertible blocks, the node that the pipeline sees
  through the client is the one that knows the blocks: preparing any height up to the tip, and making
  the first checkpoint, give the same through the client as from the blocks themselves.
\<close>

theorem client_reads_the_chain:
  assumes "view_law B" and "serves X B S servers now c tip" and "\<forall>h \<le> tip. btc_block_to_qdoge B (c h) = Inr (q h)"
  shows "(height \<le> tip \<longrightarrow> prepare_height D (client_node X B S servers now N) config cp height
        = prepare_height D (chain_node B q tip N) config cp height)
    \<and> initialize_checkpoint D (client_node X B S servers now N) config = initialize_checkpoint D (chain_node B q tip N) config"
proof (intro conjI impI)
  have block: "electrs_block (client_node X B S servers now N) h = electrs_block (chain_node B q tip N) h" if "h \<le> tip" for h
    using served_block(1)[OF assms(2) that] assms(3) that by (simp add: client_node_def chain_node_def answer_def)
  show "prepare_height D (client_node X B S servers now N) config cp height = prepare_height D (chain_node B q tip N) config cp height"
    if "height \<le> tip"
    by (rule prepare_height_depends) (use block that in \<open>auto simp: client_node_def chain_node_def intro: order.trans\<close>)
  have headers: "electrs_headers (client_node X B S servers now N) a b = electrs_headers (chain_node B q tip N) a b" if "b \<le> tip" for a b
    using served_headers[where q = q, OF assms(2) that] assms(1,3)
    by (simp add: client_node_def chain_node_def answer_def view_law_def comp_def)
  have tip: "electrs_height (client_node X B S servers now N) = Inr tip" "electrs_height (chain_node B q tip N) = Inr tip"
    using assms(2) by (simp_all add: client_node_def chain_node_def answer_def serves_def)
  have "saturating_sub tip conf \<le> tip" for conf by (simp add: saturating_sub_def word_sub_le)
  then have "electrs_headers (client_node X B S servers now N) a b = electrs_headers (chain_node B q tip N) a b"
    if "\<not> b > saturating_sub tip conf" for a b conf using that headers by (meson not_le order.trans)
  then show "initialize_checkpoint D (client_node X B S servers now N) config = initialize_checkpoint D (chain_node B q tip N) config"
    unfolding initialize_checkpoint_def Let_def tip by (simp cong: if_cong)
qed

section \<open>A server for the witnesses\<close>

lemma char_byte: "unat (of_char c :: u8) = of_char c"
proof -
  have "unat (of_char c :: u8) = unat (of_nat (of_char c) :: u8)" unfolding of_nat_of_char ..
  also have "\<dots> = of_char c mod 256" by (simp only: unsigned_of_nat) (simp add: take_bit_eq_mod)
  finally show ?thesis by (simp add: of_char_mod_256)
qed

lemma ascii_valid: "list_all (\<lambda>b. b < 0x80) bs \<Longrightarrow> utf8_valid bs"
  by (induction bs) simp_all

lemma from_utf8_ascii:
  assumes "list_all (\<lambda>c. of_char c < (128 :: nat)) s"
  shows "from_utf8 (str_bytes s) = Inr s"
proof -
  have "list_all (\<lambda>b. b < 0x80) (str_bytes s)"
    using assms by (auto simp: str_bytes_def list_all_iff word_less_nat_alt char_byte)
  then show ?thesis using ascii_valid by (simp add: from_utf8_def) (simp add: str_bytes_def char_byte comp_def)
qed

text \<open>A server that refuses the first attempt of every request; a block's hash is its height.\<close>

definition demo_body :: "string \<Rightarrow> bytes" where
  "demo_body path =
     (if take 13 path = ''block-height/'' then str_bytes (drop 13 path)
      else if take 6 path = ''block/'' then
        (let t = takeWhile (\<lambda>c. c \<noteq> CHR ''/'') (drop 6 path) in
         if drop (length t) (drop 6 path) = ''/raw'' then str_bytes t else str_bytes (demo_encode (str_bytes t)))
      else str_bytes ''9'')"

definition demo_server :: server where
  "demo_server =
     \<lparr>sv_replies = (\<lambda>path n. if n = 0 then GetReply 503 (Inr []) else GetReply 200 (Inr (demo_body path))),
      sv_spent = (\<lambda>_ _. 1), sv_lags = (\<lambda>_ _. 0)\<rparr>"

definition demo_raw :: "nat \<Rightarrow> (transaction, block_header, unit) btc_block" where
  "demo_raw h =
     \<lparr>bb_header = \<lparr>hd_simple = blk_header (demo_block_at h), hd_aux = None\<rparr>, bb_txdata = blk_transactions (demo_block_at h)\<rparr>"

definition demo_digits :: "bytes \<Rightarrow> nat" where
  "demo_digits b = digits_value (map (\<lambda>x. char_of (unat x)) b)"

definition demo_formats :: "(transaction, block_header, unit, block_header, unit) formats" where
  "demo_formats =
     \<lparr>block_deserialize = (\<lambda>b. Some (demo_raw (demo_digits b))), header_deserialize = (\<lambda>b. Some (bb_header (demo_raw (demo_digits b)))),
      tx_serialize = tx_raw, simple_serialize = bh_raw, parent_serialize = (\<lambda>_. []),
      tx_from_bytes = (\<lambda>b. ok_or (find (\<lambda>t. tx_raw t = b) (demo_tx 1 [[5]] # demo_txs)) (Err ''unknown transaction'')),
      coinbase_from_bytes = (\<lambda>_. Inr ()),
      header_from_bytes = (\<lambda>b. Inr (blk_header (demo_block_at (unat (from_le_bytes b :: u32))))),
      u32_from_json = (\<lambda>b. Some (of_nat (demo_digits b))),
      view_block = (\<lambda>q. \<lparr>blk_header = qb_header q, blk_transactions = qb_transactions q\<rparr>), view_header = qh_header\<rparr>"

lemma demo_get_bytes: "get_bytes default_policy demo_server path = Some (Inr (demo_body path))"
proof -
  have "\<not> (20 :: u64) \<le> 1" by code_simp
  then show ?thesis by (simp add: get_bytes_def get_response_bytes_def retry_run_def retry_loop.simps electrs_attempt_def demo_server_def
      is_success_status_def is_retryable_http_status_def after_retry_def default_policy_def with_max_attempts_def
      with_overall_deadline_def policy_new_def from_secs_def Let_def)
qed

lemma demo_get_text:
  "list_all (\<lambda>c. of_char c < (128 :: nat)) s \<Longrightarrow> demo_body path = str_bytes s \<Longrightarrow> get_text default_policy demo_server path = Some (Inr s)"
  by (simp add: get_text_def demo_get_bytes from_utf8_ascii)

lemma ascii_digits: "list_all (\<lambda>c. of_char c < (128 :: nat)) (nat_str n)"
  using nat_str_digit[of _ n] by (fastforce simp: list_all_iff)

lemma ascii_hex: "is_lower_hex s \<Longrightarrow> list_all (\<lambda>c. of_char c < (128 :: nat)) s"
  unfolding is_lower_hex_def by (erule list.pred_mono_strong) auto

lemma demo_digits_str: "demo_digits (str_bytes (nat_str n)) = n"
  by (simp add: demo_digits_def str_bytes_def char_byte comp_def digits_value_nat_str)

lemma no_slash: "takeWhile (\<lambda>c. c \<noteq> CHR ''/'') (nat_str n @ CHR ''/'' # rest) = nat_str n"
proof -
  have "c \<noteq> CHR ''/''" if "c \<in> set (nat_str n)" for c using nat_str_digit[OF that] by auto
  then show ?thesis by (subst takeWhile_append2) auto
qed

lemma demo_bodies:
  "demo_body (''block-height/'' @ nat_str n) = str_bytes (nat_str n)"
  "demo_body (''block/'' @ nat_str n @ ''/raw'') = str_bytes (nat_str n)"
  "demo_body (''block/'' @ nat_str n @ ''/header'') = str_bytes (demo_encode (str_bytes (nat_str n)))"
  "demo_body (''blocks/tip/height?fresh='' @ s) = str_bytes ''9''"
  using no_slash[of n "''raw''"] no_slash[of n "''header''"] by (simp_all add: demo_body_def Let_def)

lemma demo_serves: "serves demo_crates demo_formats demo_server (\<lambda>_. demo_server) (Some 5) (\<lambda>h. demo_raw (unat h)) 9"
  unfolding serves_def
proof (intro conjI allI impI)
  have "demo_digits (str_bytes ''9'') = 9" by (simp add: demo_digits_def str_bytes_def char_byte digits_value_def)
  then show "get_block_height demo_formats default_policy demo_server (Some 5) = Some (Inr 9)"
    by (simp add: get_block_height_def ok_or_def get_json_def get_json_with_retry_def demo_get_bytes demo_bodies[simplified] demo_formats_def)
  fix h :: u32
  have hash: "get_text default_policy demo_server (''block-height/'' @ nat_str (unat h)) = Some (Inr (nat_str (unat h)))"
    by (rule demo_get_text[OF ascii_digits demo_bodies(1)])
  show "\<exists>hash raw. get_text default_policy demo_server (''block-height/'' @ nat_str (unat h)) = Some (Inr hash)
      \<and> get_bytes default_policy demo_server (''block/'' @ hash @ ''/raw'') = Some (Inr raw)
      \<and> block_deserialize demo_formats raw = Some (demo_raw (unat h))"
    using hash by (simp add: demo_get_bytes demo_bodies[simplified] demo_formats_def demo_digits_str)
  have "get_text default_policy demo_server (''block/'' @ nat_str (unat h) @ ''/header'')
      = Some (Inr (demo_encode (str_bytes (nat_str (unat h)))))"
    by (rule demo_get_text[OF ascii_hex[OF demo_encode_lower] demo_bodies(3)])
  moreover have "hex_decode demo_crates (demo_encode (str_bytes (nat_str (unat h)))) = Some (str_bytes (nat_str (unat h)))"
    using demo_hex_laws by (simp add: demo_hex)
  ultimately show "\<exists>hash header_hex data.
      get_text default_policy demo_server (''block-height/'' @ nat_str (unat h)) = Some (Inr hash)
      \<and> get_text default_policy demo_server (''block/'' @ hash @ ''/header'') = Some (Inr header_hex)
      \<and> hex_decode demo_crates header_hex = Some data \<and> header_deserialize demo_formats data = Some (bb_header (demo_raw (unat h)))"
    using hash by (intro exI[of _ "nat_str (unat h)"] exI conjI) (assumption | simp add: demo_formats_def demo_digits_str)+
qed

definition demo_qd :: "u32 \<Rightarrow> (block_header, unit) qd_block" where
  "demo_qd h =
     \<lparr>qb_header = blk_header (demo_block_at (unat h)), qb_transactions = blk_transactions (demo_block_at (unat h)),
      qb_aux_pow = None\<rparr>"

lemma demo_converts: "btc_block_to_qdoge demo_formats (demo_raw (unat h)) = Inr (demo_qd h)"
proof -
  have "from_le_bytes (to_le_bytes 4 (of_nat (unat h) :: u32)) = h" by (simp add: u32_le_roundtrip)
  then have "header_from_bytes demo_formats (bh_raw (blk_header (demo_block_at (unat h)))) = Inr (blk_header (demo_block_at (unat h)))"
    by (simp add: demo_formats_def demo_block_at_def)
  moreover have "try_map (\<lambda>tx. tx_from_bytes demo_formats (tx_raw tx)) (blk_transactions (demo_block_at (unat h)))
      = Inr (blk_transactions (demo_block_at (unat h)))"
    by (simp add: demo_formats_def demo_block_at_def demo_raw_block_def demo_block_def demo_tx_def ok_or_def)
  moreover have "tx_serialize demo_formats = tx_raw" "simple_serialize demo_formats = bh_raw" by (simp_all add: demo_formats_def)
  ultimately show ?thesis by (simp add: btc_block_to_qdoge_def aux_data_to_qdoge_def demo_raw_def demo_qd_def Let_def)
qed

theorem client_reads_the_chain_witness:
  "\<exists>N p cp. N = client_node demo_crates demo_formats demo_server (\<lambda>_. demo_server) (Some 5) demo_node
     \<and> prepare_height demo_D N (demo_config 1) demo_start 1 = Inr p
     \<and> initialize_checkpoint demo_D N (demo_config 1) = Inr cp \<and> cp_height cp = 8"
proof -
  let ?C = "client_node demo_crates demo_formats demo_server (\<lambda>_. demo_server) (Some 5) demo_node"
  let ?N = "chain_node demo_formats demo_qd 9 demo_node"
  have law: "view_law demo_formats" by (simp add: view_law_def demo_formats_def header_part_def)
  have "\<forall>h \<le> 9. btc_block_to_qdoge demo_formats (demo_raw (unat h)) = Inr (demo_qd h)" using demo_converts by blast
  note same = client_reads_the_chain[OF law demo_serves this, of 1 demo_D demo_node "demo_config 1" demo_start]
  have reads: "prepare_height demo_D ?C (demo_config 1) demo_start 1 = prepare_height demo_D ?N (demo_config 1) demo_start 1"
    "initialize_checkpoint demo_D ?C (demo_config 1) = initialize_checkpoint demo_D ?N (demo_config 1)"
    using same by simp_all
  obtain p where p: "prepare_height demo_D demo_node (demo_config 1) demo_start 1 = Inr p"
    using demo_first_block[of 1] by auto
  have "prepare_height demo_D ?N (demo_config 1) demo_start 1 = prepare_height demo_D demo_node (demo_config 1) demo_start 1"
    by (rule prepare_height_depends) (simp_all add: chain_node_def demo_node_def demo_formats_def demo_qd_def)
  moreover have "\<exists>cp. initialize_checkpoint demo_D ?N (demo_config 1) = Inr cp \<and> cp_height cp = 8"
    by (simp add: initialize_checkpoint_def Let_def saturating_sub_def demo_config_def chain_node_def heights_def demo_bridge_def)
  ultimately show ?thesis using p reads by auto
qed

end
