(* ===== verification/Job_Order.thy ===== *)
theory Job_Order
  imports Job_Id "HOL-Library.Product_Lexorder" "HOL-Library.List_Lexorder"
begin

text \<open>
  The order that \<open>job/id.rs\<close> derives (\<open>PartialOrd, Ord\<close>): an enum is ordered by its discriminants, a
  job id field by field in the order of declaration. It makes job ids keys of the library's ordered
  maps. The byte form does not have that order: its integers are little-endian.
\<close>

section \<open>Discriminants\<close>

lemma topic_u8_inj: "topic_u8 s = topic_u8 t \<longleftrightarrow> s = t"
  by (metis topic_roundtrip sum.inject(2))

lemma data_type_u8_inj: "data_type_u8 s = data_type_u8 t \<longleftrightarrow> s = t"
  by (metis data_type_roundtrip sum.inject(2))

lemma circuit_u8_inj: "circuit_u8 s = circuit_u8 t \<longleftrightarrow> s = t"
  by (metis circuit_roundtrip sum.inject(2))

instantiation job_topic :: linorder
begin

definition less_eq_job_topic :: "job_topic \<Rightarrow> job_topic \<Rightarrow> bool" where
  "s \<le> t \<longleftrightarrow> topic_u8 s \<le> topic_u8 t"

definition less_job_topic :: "job_topic \<Rightarrow> job_topic \<Rightarrow> bool" where
  "s < t \<longleftrightarrow> topic_u8 s < topic_u8 t"

instance
  by intro_classes (auto simp: less_eq_job_topic_def less_job_topic_def topic_u8_inj[symmetric])

end

instantiation job_data_type :: linorder
begin

definition less_eq_job_data_type :: "job_data_type \<Rightarrow> job_data_type \<Rightarrow> bool" where
  "s \<le> t \<longleftrightarrow> data_type_u8 s \<le> data_type_u8 t"

definition less_job_data_type :: "job_data_type \<Rightarrow> job_data_type \<Rightarrow> bool" where
  "s < t \<longleftrightarrow> data_type_u8 s < data_type_u8 t"

instance
  by intro_classes (auto simp: less_eq_job_data_type_def less_job_data_type_def data_type_u8_inj[symmetric])

end

instantiation circuit_type :: linorder
begin

definition less_eq_circuit_type :: "circuit_type \<Rightarrow> circuit_type \<Rightarrow> bool" where
  "s \<le> t \<longleftrightarrow> circuit_u8 s \<le> circuit_u8 t"

definition less_circuit_type :: "circuit_type \<Rightarrow> circuit_type \<Rightarrow> bool" where
  "s < t \<longleftrightarrow> circuit_u8 s < circuit_u8 t"

instance
  by intro_classes (auto simp: less_eq_circuit_type_def less_circuit_type_def circuit_u8_inj[symmetric])

end

section \<open>Job ids\<close>

definition id_fields ::
  "'a job_data_id_scheme \<Rightarrow> job_topic \<times> u64 \<times> circuit_type \<times> u32 \<times> u32 \<times> u32 \<times> job_data_type \<times> u8 \<times> 'a" where
  "id_fields v =
     (jd_topic v, jd_goal_id v, jd_circuit_type v, jd_group_id v, jd_sub_group_id v, jd_task_index v,
      jd_data_type v, jd_data_index v, job_data_id.more v)"

lemma id_fields_inj: "id_fields v = id_fields w \<longleftrightarrow> v = w"
  by (cases v; cases w) (simp add: id_fields_def)

instantiation job_data_id_ext :: (linorder) linorder
begin

definition less_eq_job_data_id_ext :: "'a job_data_id_scheme \<Rightarrow> 'a job_data_id_scheme \<Rightarrow> bool" where
  "v \<le> w \<longleftrightarrow> id_fields v \<le> id_fields w"

definition less_job_data_id_ext :: "'a job_data_id_scheme \<Rightarrow> 'a job_data_id_scheme \<Rightarrow> bool" where
  "v < w \<longleftrightarrow> id_fields v < id_fields w"

instance
  by intro_classes
    (auto simp: less_eq_job_data_id_ext_def less_job_data_id_ext_def id_fields_inj[symmetric] simp del: less_eq_prod_simp less_prod_simp)

end

text \<open>The jobs of one tree sort by level, position and part, and a job's witness before its output.\<close>

lemma sibling_order:
  "v\<lparr>jd_group_id := g, jd_sub_group_id := s, jd_task_index := t\<rparr> < v\<lparr>jd_group_id := g', jd_sub_group_id := s', jd_task_index := t'\<rparr>
   \<longleftrightarrow> (g, s, t) < (g', s', t')"
  by (auto simp: less_job_data_id_ext_def id_fields_def)

lemma witness_before_output: "v\<lparr>jd_data_type := InputWitness\<rparr> < v\<lparr>jd_data_type := OutputProof\<rparr>"
  by (simp add: less_job_data_id_ext_def id_fields_def less_job_data_type_def)

text \<open>A range of byte keys is not a range of ids.\<close>

lemma byte_order_differs:
  "\<exists>v w :: job_data_id. v < w \<and> to_fixed_bytes w < to_fixed_bytes v"
proof -
  let ?v = "\<lambda>n. \<lparr>jd_topic = AggregateJobs, jd_goal_id = n, jd_circuit_type = TypeA, jd_group_id = 0, jd_sub_group_id = 0,
     jd_task_index = 0, jd_data_type = InputWitness, jd_data_index = 0\<rparr> :: job_data_id"
  have "?v 1 < ?v 256" by (simp add: less_job_data_id_ext_def id_fields_def)
  moreover have "to_le_bytes 8 (256 :: u64) = [0, 1, 0, 0, 0, 0, 0, 0]" "to_le_bytes 8 (1 :: u64) = [1, 0, 0, 0, 0, 0, 0, 0]"
    by code_simp+
  then have "to_fixed_bytes (?v 256) < to_fixed_bytes (?v 1)" by (simp add: to_fixed_bytes_def)
  ultimately show ?thesis by blast
qed

end
