(* ===== verification/Async.thy ===== *)
theory Async
  imports Prelude
begin

text \<open>
  Asynchronous methods. An \<open>async fn\<close> runs to its next \<open>await\<close> and then lets other tasks run, so a
  task is a value that is done or waits for one step on the state that the tasks share. The executor
  takes the tasks in any order; an order is a list of task numbers.

  Two ways to reason about tasks that run side by side: a task that is \<open>confined\<close> to some entries of
  the state behaves among tasks confined to other entries as it does alone; and a task keeps its
  \<open>guarantee\<close> as long as the others keep to what it relies on.
\<close>

datatype ('s, 'a) task = Done 'a | Await "'s \<Rightarrow> 's \<times> ('s, 'a) task"

lemma task_induct [case_names Done Await]:
  assumes "\<And>r. P (Done r)" and "\<And>g. (\<And>s. P (snd (g s))) \<Longrightarrow> P (Await g)"
  shows "P t"
proof (induction t)
  case (Await g)
  have "P (snd (g s))" for s by (rule Await[of "g s"]) (simp_all add: snds.simps)
  then show ?case by (rule assms(2))
qed (rule assms(1))

section \<open>Composition\<close>

text \<open>\<open>t.await?\<close> followed by \<open>f\<close>: an error ends the method.\<close>

primrec task_then :: "('s, 'a res) task \<Rightarrow> ('a \<Rightarrow> ('s, 'b res) task) \<Rightarrow> ('s, 'b res) task" where
  "task_then (Done r) f = (case r of Inl e \<Rightarrow> Done (Inl e) | Inr x \<Rightarrow> f x)"
| "task_then (Await g) f = Await (map_prod id (\<lambda>t. task_then t f) \<circ> g)"

text \<open>A value computed without waiting, and a call that is one step on the state.\<close>

abbreviation now :: "'a res \<Rightarrow> ('s, 'a res) task" where
  "now r \<equiv> Done r"

definition call :: "('s \<Rightarrow> 's \<times> 'a) \<Rightarrow> ('s, 'a) task" where
  "call f = Await (map_prod id Done \<circ> f)"

text \<open>A loop that awaits \<open>f x?\<close> for each \<open>x\<close> and collects the results.\<close>

fun try_each :: "('x \<Rightarrow> ('s, 'b res) task) \<Rightarrow> 'x list \<Rightarrow> ('s, 'b list res) task" where
  "try_each f [] = now (Inr [])"
| "try_each f (x # xs) = task_then (f x) (\<lambda>r. task_then (try_each f xs) (\<lambda>rs. now (Inr (r # rs))))"

text \<open>The same for its effect only.\<close>

fun try_for :: "('x \<Rightarrow> ('s, unit res) task) \<Rightarrow> 'x list \<Rightarrow> ('s, unit res) task" where
  "try_for f [] = now (Inr ())"
| "try_for f (x # xs) = task_then (f x) (\<lambda>_. try_for f xs)"

section \<open>Running\<close>

text \<open>One task, with nothing else running.\<close>

primrec run_task :: "('s, 'a) task \<Rightarrow> 's \<Rightarrow> 's \<times> 'a" where
  "run_task (Done r) = (\<lambda>s. (s, r))"
| "run_task (Await g) = (\<lambda>s. case (map_prod id run_task \<circ> g) s of (s', h) \<Rightarrow> h s')"

lemma run_task_Await: "run_task (Await g) s = run_task (snd (g s)) (fst (g s))"
  by (simp add: split_beta)

lemmas run_task_simps [simp] = run_task.simps(1) run_task_Await
declare run_task.simps(2) [simp del]

lemma run_task_call [simp]: "run_task (call f) s = f s"
  by (simp add: call_def)

lemma run_task_then [simp]:
  "run_task (task_then t f) s =
     (case run_task t s of (s', Inl e) \<Rightarrow> (s', Inl e) | (s', Inr x) \<Rightarrow> run_task (f x) s')"
  by (induction t arbitrary: s rule: task_induct) (simp_all split: sum.splits)

text \<open>Many tasks: the executor runs task \<open>i\<close> to its next \<open>await\<close>.\<close>

definition task_step :: "nat \<Rightarrow> 's \<times> ('s, 'a) task list \<Rightarrow> 's \<times> ('s, 'a) task list" where
  "task_step i st =
     (case st of (s, ts) \<Rightarrow>
        if i < length ts
        then (case ts ! i of Done _ \<Rightarrow> st | Await g \<Rightarrow> (fst (g s), ts[i := snd (g s)]))
        else st)"

fun run_schedule :: "nat list \<Rightarrow> 's \<times> ('s, 'a) task list \<Rightarrow> 's \<times> ('s, 'a) task list" where
  "run_schedule [] st = st"
| "run_schedule (i # is) st = run_schedule is (task_step i st)"

lemma run_schedule_append: "run_schedule (is @ js) st = run_schedule js (run_schedule is st)"
  by (induction "is" arbitrary: st) simp_all

lemma run_schedule_invariant:
  assumes "P st" and "\<And>i st. P st \<Longrightarrow> P (task_step i st)"
  shows "P (run_schedule is st)"
  using assms(1) by (induction "is" arbitrary: st) (simp_all add: assms(2))

lemma task_step_cases:
  obtains (idle) "task_step i (s, ts) = (s, ts)"
  | (run) g where "i < length ts" "ts ! i = Await g" "task_step i (s, ts) = (fst (g s), ts[i := snd (g s)])"
proof (cases "i < length ts")
  case True
  then show thesis by (cases "ts ! i") (auto simp: task_step_def intro: idle run)
qed (auto simp: task_step_def intro: idle)

lemma task_step_length [simp]: "length (snd (task_step i st)) = length (snd st)"
  by (cases st; cases rule: task_step_cases[of i "fst st" "snd st"]) auto

lemma run_schedule_length [simp]: "length (snd (run_schedule is st)) = length (snd st)"
  by (induction "is" arbitrary: st) simp_all

lemma done_stays: "snd st ! i = Done r \<Longrightarrow> snd (task_step j st) ! i = Done r"
  by (cases st; cases rule: task_step_cases[of j "fst st" "snd st"]) (auto simp: nth_list_update)

text \<open>An executor that never forgets a task brings every task to its end.\<close>

definition fair :: "nat \<Rightarrow> (nat \<Rightarrow> nat) \<Rightarrow> bool" where
  "fair n f \<longleftrightarrow> (\<forall>i < n. \<forall>m. \<exists>m' \<ge> m. f m' = i)"

definition is_done :: "('s, 'a) task \<Rightarrow> bool" where
  "is_done t = (case t of Done _ \<Rightarrow> True | Await _ \<Rightarrow> False)"

lemma is_done_iff: "is_done t \<longleftrightarrow> (\<exists>r. t = Done r)"
  by (cases t) (simp_all add: is_done_def)

abbreviation run_upto :: "(nat \<Rightarrow> nat) \<Rightarrow> nat \<Rightarrow> 's \<times> ('s, 'a) task list \<Rightarrow> 's \<times> ('s, 'a) task list" where
  "run_upto f m st \<equiv> run_schedule (map f [0..<m]) st"

lemma run_upto_Suc: "run_upto f (Suc m) st = task_step (f m) (run_upto f m st)"
  by (simp add: run_schedule_append)

lemma task_step_other: "f \<noteq> i \<Longrightarrow> snd (task_step f st) ! i = snd st ! i"
  by (cases st; cases rule: task_step_cases[of f "fst st" "snd st"]) auto

lemma run_upto_until:
  assumes "m \<le> m'" and "\<And>k. m \<le> k \<Longrightarrow> k < m' \<Longrightarrow> f k \<noteq> i"
  shows "snd (run_upto f m' st) ! i = snd (run_upto f m st) ! i"
  using assms
proof (induction rule: dec_induct)
  case base
  then show ?case by simp
next
  case (step k)
  have "f k \<noteq> i" using step.prems step.hyps by simp
  then have "snd (run_upto f (Suc k) st) ! i = snd (run_upto f k st) ! i"
    unfolding run_upto_Suc by (rule task_step_other)
  then show ?case using step by simp
qed

lemma next_turn:
  assumes "fair n f" and "i < n"
  obtains k where "m \<le> k" "f k = i" "snd (run_upto f k st) ! i = snd (run_upto f m st) ! i"
proof -
  define k where "k = (LEAST k. m \<le> k \<and> f k = i)"
  have "\<exists>k. m \<le> k \<and> f k = i" using assms by (auto simp: fair_def)
  then have k: "m \<le> k" "f k = i" unfolding k_def by (metis (mono_tags, lifting) LeastI_ex)+
  have "f j \<noteq> i" if "m \<le> j" "j < k" for j using not_less_Least[of j "\<lambda>k. m \<le> k \<and> f k = i"] that k_def by blast
  from that[OF k run_upto_until[OF k(1) this]] show thesis by blast
qed

lemma task_finishes:
  assumes "fair n f" and "i < length (snd st)" and "n = length (snd st)"
  shows "\<exists>m' \<ge> m. is_done (snd (run_upto f m' st) ! i)"
proof -
  have "snd (run_upto f m st) ! i = t \<Longrightarrow> \<exists>m' \<ge> m. is_done (snd (run_upto f m' st) ! i)" for t
  proof (induction t arbitrary: m rule: task_induct)
    case (Done r)
    then show ?case by (auto simp: is_done_def)
  next
    case (Await g)
    have "i < n" using assms(2,3) by simp
    then obtain k where k: "m \<le> k" "f k = i" "snd (run_upto f k st) ! i = Await g"
      using next_turn[OF assms(1), of i m st] Await.prems by metis
    let ?s = "fst (run_upto f k st)"
    have i: "i < length (snd (run_upto f k st))" using assms(2) by simp
    then have "snd (run_upto f (Suc k) st) ! i = snd (g ?s)"
      using k by (simp add: run_schedule_append task_step_def split_beta)
    from Await.IH[OF this] obtain m' where "m' \<ge> Suc k" "is_done (snd (run_upto f m' st) ! i)"
      by blast
    then show ?case using k(1) by (intro exI[of _ m']) simp
  qed
  then show ?thesis by blast
qed

lemma done_upto:
  assumes "is_done (snd (run_upto f m st) ! i)" and "m \<le> m'"
  shows "is_done (snd (run_upto f m' st) ! i)"
  using assms(2)
proof (induction rule: dec_induct)
  case (step k)
  then show ?case unfolding run_upto_Suc is_done_iff by (blast intro: done_stays)
qed (rule assms(1))

lemma fair_schedule_finishes:
  assumes "fair (length ts) f"
  shows "\<exists>m. \<forall>t \<in> set (snd (run_upto f m (s, ts))). is_done t"
proof -
  have "\<exists>m. \<forall>i < n. is_done (snd (run_upto f m (s, ts)) ! i)" if "n \<le> length ts" for n
    using that
  proof (induction n)
    case (Suc n)
    then obtain m where m: "\<forall>i < n. is_done (snd (run_upto f m (s, ts)) ! i)" by auto
    obtain m' where m': "m' \<ge> m" "is_done (snd (run_upto f m' (s, ts)) ! n)"
      using task_finishes[of "length ts" f n "(s, ts)" m] assms Suc.prems
      by (metis Suc_le_lessD snd_conv)
    have "is_done (snd (run_upto f m' (s, ts)) ! i)" if "i < Suc n" for i
    proof (cases "i = n")
      case False
      with that have "i < n" by simp
      with m have "is_done (snd (run_upto f m (s, ts)) ! i)" by blast
      then show ?thesis using m'(1) by (rule done_upto)
    qed (simp only: m'(2))
    then show ?case by blast
  qed simp
  from this[of "length ts"] show ?thesis unfolding all_set_conv_all_nth by simp
qed

section \<open>Tasks on different entries\<close>

text \<open>
  A task is confined to the entries \<open>K\<close> of the state when every step leaves the other entries as they
  are, and what it does depends on the entries \<open>K\<close> alone.
\<close>

definition agree :: "('s \<Rightarrow> 'k \<Rightarrow> 'v) \<Rightarrow> 'k set \<Rightarrow> 's \<Rightarrow> 's \<Rightarrow> bool" where
  "agree V K s s' \<longleftrightarrow> (\<forall>k \<in> K. V s k = V s' k)"

lemma agree_refl [simp]: "agree V K s s"
  by (simp add: agree_def)

lemma agree_sym: "agree V K s s' \<Longrightarrow> agree V K s' s"
  by (simp add: agree_def)

lemma agree_trans: "agree V K s s' \<Longrightarrow> agree V K s' s'' \<Longrightarrow> agree V K s s''"
  by (simp add: agree_def)

lemma agree_mono: "agree V K' s s' \<Longrightarrow> K \<subseteq> K' \<Longrightarrow> agree V K s s'"
  by (auto simp: agree_def)

inductive confined :: "('s \<Rightarrow> bool) \<Rightarrow> ('s \<Rightarrow> 'k \<Rightarrow> 'v) \<Rightarrow> 'k set \<Rightarrow> ('s, 'a) task \<Rightarrow> bool"
  for I V K where
  confined_Done: "confined I V K (Done r)"
| confined_Await: "\<lbrakk>\<And>s. I s \<Longrightarrow> I (fst (g s)); \<And>s. I s \<Longrightarrow> agree V (- K) s (fst (g s));
     \<And>s. confined I V K (snd (g s));
     \<And>s s'. I s \<Longrightarrow> I s' \<Longrightarrow> agree V K s s' \<Longrightarrow> snd (g s) = snd (g s') \<and> agree V K (fst (g s)) (fst (g s'))\<rbrakk>
   \<Longrightarrow> confined I V K (Await g)"

inductive_cases confined_AwaitE: "confined I V K (Await g)"

declare confined_Done [intro!, simp]

lemma confined_call:
  assumes "\<And>s. I s \<Longrightarrow> I (fst (f s)) \<and> agree V (- K) s (fst (f s))"
    and "\<And>s s'. I s \<Longrightarrow> I s' \<Longrightarrow> agree V K s s' \<Longrightarrow> snd (f s) = snd (f s') \<and> agree V K (fst (f s)) (fst (f s'))"
  shows "confined I V K (call f)"
  unfolding call_def
proof (rule confined_Await)
  fix s s' assume "I s" "I s'" "agree V K s s'"
  from assms(2)[OF this] show "snd ((map_prod id Done \<circ> f) s) = snd ((map_prod id Done \<circ> f) s')
    \<and> agree V K (fst ((map_prod id Done \<circ> f) s)) (fst ((map_prod id Done \<circ> f) s'))" by simp
qed (simp_all add: assms(1))

lemma confined_mono:
  "confined I V K t \<Longrightarrow> K \<subseteq> K' \<Longrightarrow> confined I V K' t"
proof (induction rule: confined.induct)
  case (confined_Await g)
  have out: "agree V (- K') s (fst (g s))" if "I s" for s
    using confined_Await.hyps(2)[OF that] confined_Await.prems by (auto intro: agree_mono)
  show ?case
  proof (rule confined.confined_Await)
    fix s s' assume s: "I s" "I s'" "agree V K' s s'"
    from confined_Await.hyps(4)[OF s(1,2) agree_mono[OF s(3) confined_Await.prems]]
    have in_K: "snd (g s) = snd (g s')" "agree V K (fst (g s)) (fst (g s'))" by auto
    have "V (fst (g s)) k = V (fst (g s')) k" if "k \<in> K'" for k
    proof (cases "k \<in> K")
      case False
      then have "V s k = V (fst (g s)) k" "V s' k = V (fst (g s')) k"
        using confined_Await.hyps(2) s(1,2) by (auto simp: agree_def)
      then show ?thesis using s(3) that by (auto simp: agree_def)
    qed (use in_K in \<open>simp add: agree_def\<close>)
    with in_K(1) show "snd (g s) = snd (g s') \<and> agree V K' (fst (g s)) (fst (g s'))"
      by (simp add: agree_def)
  qed (use confined_Await out in simp_all)
qed simp

lemma confined_then:
  assumes "confined I V K t" and "\<And>x. confined I V K (f x)"
  shows "confined I V K (task_then t f)"
  using assms(1)
proof (induction rule: confined.induct)
  case (confined_Done r)
  then show ?case using assms(2) by (simp split: sum.splits)
next
  case (confined_Await g)
  show ?case unfolding task_then.simps
  proof (rule confined.confined_Await)
    fix s s' assume "I s" "I s'" "agree V K s s'"
    from confined_Await.hyps(4)[OF this]
    show "snd ((map_prod id (\<lambda>t. task_then t f) \<circ> g) s) = snd ((map_prod id (\<lambda>t. task_then t f) \<circ> g) s')
      \<and> agree V K (fst ((map_prod id (\<lambda>t. task_then t f) \<circ> g) s)) (fst ((map_prod id (\<lambda>t. task_then t f) \<circ> g) s'))"
      by simp
  qed (use confined_Await in simp_all)
qed

lemma confined_try_each: "(\<And>x. x \<in> set xs \<Longrightarrow> confined I V K (f x)) \<Longrightarrow> confined I V K (try_each f xs)"
  by (induction xs) (auto intro!: confined_then)

lemma confined_try_for: "(\<And>x. x \<in> set xs \<Longrightarrow> confined I V K (f x)) \<Longrightarrow> confined I V K (try_for f xs)"
  by (induction xs) (auto intro!: confined_then)

lemma confined_run:
  "confined I V K t \<Longrightarrow> I s \<Longrightarrow> I (fst (run_task t s)) \<and> agree V (- K) s (fst (run_task t s))"
proof (induction arbitrary: s rule: confined.induct)
  case (confined_Await g)
  note step = confined_Await.hyps(1,2)[OF confined_Await.prems]
  from confined_Await.IH[OF step(1), of s] have "I (fst (run_task (Await g) s))"
    "agree V (- K) (fst (g s)) (fst (run_task (Await g) s))" by simp_all
  then show ?case using step(2) by (blast intro: agree_trans)
qed simp

text \<open>From states that agree on its entries a task does the same.\<close>

definition same_outcome :: "('s \<Rightarrow> 'k \<Rightarrow> 'v) \<Rightarrow> 'k set \<Rightarrow> 's \<times> 'a \<Rightarrow> 's \<times> 'a \<Rightarrow> bool" where
  "same_outcome V K a b \<longleftrightarrow> snd a = snd b \<and> agree V K (fst a) (fst b)"

lemma same_outcome_trans: "same_outcome V K a b \<Longrightarrow> same_outcome V K b c \<Longrightarrow> same_outcome V K a c"
  by (auto simp: same_outcome_def intro: agree_trans)

lemma same_outcome_refl [simp]: "same_outcome V K a a"
  by (simp add: same_outcome_def)

lemma confined_same_outcome:
  "confined I V K t \<Longrightarrow> I s \<Longrightarrow> I s' \<Longrightarrow> agree V K s s' \<Longrightarrow> same_outcome V K (run_task t s) (run_task t s')"
proof (induction arbitrary: s s' rule: confined.induct)
  case (confined_Done r)
  then show ?case by (simp add: same_outcome_def)
next
  case (confined_Await g)
  have "snd (g s) = snd (g s')" "agree V K (fst (g s)) (fst (g s'))"
    using confined_Await.hyps(4)[OF confined_Await.prems] by auto
  moreover have "I (fst (g s))" "I (fst (g s'))" using confined_Await.hyps(1) confined_Await.prems by auto
  ultimately show ?case using confined_Await.IH[of "fst (g s)" "fst (g s')" s] by simp
qed

definition confined_tasks :: "('s \<Rightarrow> bool) \<Rightarrow> ('s \<Rightarrow> 'k \<Rightarrow> 'v) \<Rightarrow> 'k set list \<Rightarrow> ('s, 'a) task list \<Rightarrow> bool" where
  "confined_tasks I V Ks ts \<longleftrightarrow> list_all2 (confined I V) Ks ts
     \<and> (\<forall>i j. i < length Ks \<and> j < length Ks \<and> i \<noteq> j \<longrightarrow> Ks ! i \<inter> Ks ! j = {})"

text \<open>What task \<open>i\<close> still has to do, done alone, ends as the whole task does alone from the start.\<close>

definition on_course ::
  "('s \<Rightarrow> bool) \<Rightarrow> ('s \<Rightarrow> 'k \<Rightarrow> 'v) \<Rightarrow> 'k set list \<Rightarrow> 's \<times> ('s, 'a) task list \<Rightarrow> 's \<times> ('s, 'a) task list \<Rightarrow> bool" where
  "on_course I V Ks st st' \<longleftrightarrow> I (fst st') \<and> confined_tasks I V Ks (snd st')
     \<and> (\<forall>i < length Ks. same_outcome V (Ks ! i) (run_task (snd st' ! i) (fst st')) (run_task (snd st ! i) (fst st)))
     \<and> agree V (- \<Union>(set Ks)) (fst st) (fst st')"

lemma on_course_step:
  assumes "on_course I V Ks st st'"
  shows "on_course I V Ks st (task_step j st')"
proof -
  obtain s ts where st': "st' = (s, ts)" by (cases st')
  then have I: "I s" and conf: "confined_tasks I V Ks ts"
    and out: "\<And>i. i < length Ks \<Longrightarrow> same_outcome V (Ks ! i) (run_task (ts ! i) s) (run_task (snd st ! i) (fst st))"
    and rest: "agree V (- \<Union>(set Ks)) (fst st) s"
    using assms by (auto simp: on_course_def)
  have len: "length ts = length Ks" and each: "\<And>i. i < length Ks \<Longrightarrow> confined I V (Ks ! i) (ts ! i)"
    and disj: "\<And>i j. i < length Ks \<Longrightarrow> j < length Ks \<Longrightarrow> i \<noteq> j \<Longrightarrow> Ks ! i \<inter> Ks ! j = {}"
    using conf by (auto simp: confined_tasks_def list_all2_conv_all_nth)
  show ?thesis
  proof (cases rule: task_step_cases[of j s ts])
    case idle
    then show ?thesis using assms by (simp add: st')
  next
    case (run g)
    then have j: "j < length Ks" by (simp add: len)
    from each[OF j] run(2) have "confined I V (Ks ! j) (Await g)" by simp
    then have g: "I (fst (g s))" "agree V (- (Ks ! j)) s (fst (g s))" "confined I V (Ks ! j) (snd (g s))"
      by (auto elim!: confined_AwaitE simp: I)
    have "confined I V (Ks ! i) (ts[j := snd (g s)] ! i)" if "i < length Ks" for i
      using each[OF that] g(3) that by (cases "i = j") (simp_all add: len)
    then have "confined_tasks I V Ks (ts[j := snd (g s)])"
      using disj by (simp add: confined_tasks_def list_all2_conv_all_nth len)
    moreover have "same_outcome V (Ks ! i) (run_task (ts[j := snd (g s)] ! i) (fst (g s))) (run_task (snd st ! i) (fst st))"
      if i: "i < length Ks" for i
    proof (cases "i = j")
      case True
      then show ?thesis using out[OF j] run(2) j by (simp add: len)
    next
      case False
      then have "agree V (Ks ! i) (fst (g s)) s"
        using disj[OF i j] g(2) by (auto intro: agree_mono agree_sym)
      from confined_same_outcome[OF each[OF i] g(1) I this] show ?thesis
        using out[OF i] False by (auto intro: same_outcome_trans)
    qed
    moreover have "- \<Union>(set Ks) \<subseteq> - (Ks ! j)" using nth_mem[OF j] by blast
    with g(2) have "agree V (- \<Union>(set Ks)) s (fst (g s))" by (rule agree_mono)
    ultimately show ?thesis using g(1) rest by (simp add: on_course_def st' run(3) agree_trans[OF rest])
  qed
qed

lemma tasks_isolated:
  assumes "confined_tasks I V Ks ts" and "I s"
    and "run_schedule is (s, ts) = (s', ts')"
  shows "I s'" and "agree V (- \<Union>(set Ks)) s s'"
    and "i < length Ks \<Longrightarrow> ts' ! i = Done r \<Longrightarrow>
      snd (run_task (ts ! i) s) = r \<and> agree V (Ks ! i) s' (fst (run_task (ts ! i) s))"
proof -
  have "on_course I V Ks (s, ts) (run_schedule is (s, ts))"
  proof (rule run_schedule_invariant)
    show "on_course I V Ks (s, ts) (s, ts)" using assms(1,2) by (simp add: on_course_def)
  qed (rule on_course_step)
  then have c: "on_course I V Ks (s, ts) (s', ts')" by (simp add: assms(3))
  then show "I s'" "agree V (- \<Union>(set Ks)) s s'" by (simp_all add: on_course_def)
  show "snd (run_task (ts ! i) s) = r \<and> agree V (Ks ! i) s' (fst (run_task (ts ! i) s))"
    if "i < length Ks" "ts' ! i = Done r"
    using c that by (auto simp: on_course_def same_outcome_def)
qed

section \<open>Rely and guarantee\<close>

text \<open>
  From a state with \<open>P\<close>, each step of the task is one that \<open>G\<close> allows, whatever the others do between
  the steps within \<open>R\<close>; and when it ends with \<open>r\<close>, \<open>Q r\<close> holds.
\<close>

definition stable :: "('s \<Rightarrow> bool) \<Rightarrow> ('s \<Rightarrow> 's \<Rightarrow> bool) \<Rightarrow> bool" where
  "stable P R \<longleftrightarrow> (\<forall>s s'. P s \<longrightarrow> R s s' \<longrightarrow> P s')"

lemma stable_conj: "stable P R \<Longrightarrow> stable P' R \<Longrightarrow> stable (\<lambda>s. P s \<and> P' s) R"
  by (auto simp: stable_def)

lemma stable_True [simp]: "stable (\<lambda>_. True) R"
  by (simp add: stable_def)

inductive rely_guarantee ::
  "('s \<Rightarrow> 's \<Rightarrow> bool) \<Rightarrow> ('s \<Rightarrow> 's \<Rightarrow> bool) \<Rightarrow> ('a \<Rightarrow> 's \<Rightarrow> bool) \<Rightarrow> ('s \<Rightarrow> bool) \<Rightarrow> ('s, 'a) task \<Rightarrow> bool"
  for R G Q where
  rg_Done: "stable P R \<Longrightarrow> (\<And>s. P s \<Longrightarrow> Q r s) \<Longrightarrow> rely_guarantee R G Q P (Done r)"
| rg_Await: "stable P R \<Longrightarrow> (\<And>s. P s \<Longrightarrow> G s (fst (g s))) \<Longrightarrow>
    (\<And>s. P s \<Longrightarrow> P' s (fst (g s)) \<and> rely_guarantee R G Q (P' s) (snd (g s))) \<Longrightarrow>
    rely_guarantee R G Q P (Await g)"

inductive_cases rg_DoneE: "rely_guarantee R G Q P (Done r)"
inductive_cases rg_AwaitE: "rely_guarantee R G Q P (Await g)"

lemma rg_stable: "rely_guarantee R G Q P t \<Longrightarrow> stable P R"
  by (cases rule: rely_guarantee.cases)

lemma rg_pre: "rely_guarantee R G Q P t \<Longrightarrow> stable P0 R \<Longrightarrow> (\<And>s. P0 s \<Longrightarrow> P s) \<Longrightarrow> rely_guarantee R G Q P0 t"
  by (erule rely_guarantee.cases) (blast intro: rg_Done rg_Await)+

lemma rg_then:
  assumes "rely_guarantee R G (\<lambda>r s. case r of Inl e \<Rightarrow> Q (Inl e) s | Inr x \<Rightarrow> M x s) P t"
    and "\<And>x. rely_guarantee R G Q (M x) (f x)"
  shows "rely_guarantee R G Q P (task_then t f)"
  using assms(1)
proof (induction rule: rely_guarantee.induct)
  case (rg_Done P r)
  show ?case
  proof (cases r)
    case (Inl e)
    then show ?thesis using rg_Done by (auto intro: rely_guarantee.rg_Done)
  next
    case (Inr x)
    then show ?thesis using rg_pre[OF assms(2) rg_Done.hyps(1), of x] rg_Done.hyps(2) by simp
  qed
next
  case (rg_Await P g P')
  show ?case unfolding task_then.simps
    by (rule rely_guarantee.rg_Await[where P' = P'])
      (use rg_Await.hyps rg_Await.IH in simp_all)
qed

lemma rg_post: "rely_guarantee R G Q P t \<Longrightarrow> (\<And>r s. Q r s \<Longrightarrow> Q' r s) \<Longrightarrow> rely_guarantee R G Q' P t"
  by (induction rule: rely_guarantee.induct) (blast intro: rg_Done rg_Await)+

text \<open>Under a smaller rely, a condition \<open>F\<close> that the steps keep comes along.\<close>

lemma rg_frame:
  assumes "rely_guarantee R G Q P t" and F: "stable F R'" and R: "\<And>s s'. R' s s' \<Longrightarrow> R s s'"
    and G: "\<And>s s'. F s \<Longrightarrow> G s s' \<Longrightarrow> G' s s' \<and> F s'" and Q: "\<And>r s. Q r s \<Longrightarrow> F s \<Longrightarrow> Q' r s"
  shows "rely_guarantee R' G' Q' (\<lambda>s. P s \<and> F s) t"
  using assms(1)
proof (induction rule: rely_guarantee.induct)
  case (rg_Done P r)
  have "stable (\<lambda>s. P s \<and> F s) R'" using rg_Done(1) F R unfolding stable_def by blast
  then show ?case using rg_Done(2) Q by (auto intro: rely_guarantee.rg_Done)
next
  case (rg_Await P g P')
  have "stable (\<lambda>s. P s \<and> F s) R'" using rg_Await(1) F R unfolding stable_def by blast
  then show ?case
    by (rule rely_guarantee.rg_Await[where P' = "\<lambda>s s'. P' s s' \<and> F s'"]) (use rg_Await G in blast)+
qed

text \<open>A task among others whose steps it can rely on.\<close>

definition rg_tasks ::
  "(nat \<Rightarrow> 's \<Rightarrow> 's \<Rightarrow> bool) \<Rightarrow> (nat \<Rightarrow> 's \<Rightarrow> 's \<Rightarrow> bool) \<Rightarrow> (nat \<Rightarrow> 'a \<Rightarrow> 's \<Rightarrow> bool) \<Rightarrow> 's \<times> ('s, 'a) task list \<Rightarrow> bool" where
  "rg_tasks R G Q st \<longleftrightarrow> (\<forall>i < length (snd st). \<exists>P. P (fst st) \<and> rely_guarantee (R i) (G i) (Q i) P (snd st ! i))"

lemma rg_step:
  assumes "\<And>i j s s'. i \<noteq> j \<Longrightarrow> G i s s' \<Longrightarrow> R j s s'"
    and "\<And>i s s'. Inv s \<Longrightarrow> G i s s' \<Longrightarrow> Inv s'"
    and "rg_tasks R G Q st" and "Inv (fst st)"
  shows "rg_tasks R G Q (task_step j st) \<and> Inv (fst (task_step j st))"
proof -
  obtain s ts where st: "st = (s, ts)" by (cases st)
  show ?thesis
  proof (cases rule: task_step_cases[of j s ts])
    case idle
    then show ?thesis using assms(3,4) by (simp add: st)
  next
    case (run g)
    obtain P where "P s" "rely_guarantee (R j) (G j) (Q j) P (Await g)"
      using assms(3) run by (auto simp: rg_tasks_def st)
    then obtain P' where step: "G j s (fst (g s))" "P' (fst (g s))" "rely_guarantee (R j) (G j) (Q j) P' (snd (g s))"
      by (elim rg_AwaitE) blast
    have "\<exists>P. P (fst (g s)) \<and> rely_guarantee (R i) (G i) (Q i) P (ts[j := snd (g s)] ! i)" if i: "i < length ts" for i
    proof (cases "i = j")
      case True
      then show ?thesis using step(2,3) run(1) by auto
    next
      case False
      obtain P0 where P0: "P0 s" "rely_guarantee (R i) (G i) (Q i) P0 (ts ! i)"
        using assms(3) i by (auto simp: rg_tasks_def st)
      have "P0 (fst (g s))"
        using rg_stable[OF P0(2)] P0(1) assms(1)[of j i, OF _ step(1)] False unfolding stable_def by blast
      then show ?thesis using P0(2) False by auto
    qed
    then show ?thesis using assms(2,4) step(1) by (auto simp: rg_tasks_def st run(3))
  qed
qed

lemma rg_schedule:
  assumes "\<And>i j s s'. i \<noteq> j \<Longrightarrow> G i s s' \<Longrightarrow> R j s s'"
    and "\<And>i s s'. Inv s \<Longrightarrow> G i s s' \<Longrightarrow> Inv s'"
    and "\<And>i. i < length ts \<Longrightarrow> P i s \<and> rely_guarantee (R i) (G i) (Q i) (P i) (ts ! i)" and "Inv s"
    and "run_schedule is (s, ts) = (s', ts')"
  shows "Inv s'" and "i < length ts \<Longrightarrow> ts' ! i = Done r \<Longrightarrow> Q i r s'"
proof -
  have "rg_tasks R G Q (run_schedule is (s, ts)) \<and> Inv (fst (run_schedule is (s, ts)))"
  proof (rule run_schedule_invariant)
    show "rg_tasks R G Q (s, ts) \<and> Inv (fst (s, ts))"
      unfolding rg_tasks_def fst_conv snd_conv using assms(3,4) by blast
    fix j st
    assume "rg_tasks R G Q st \<and> Inv (fst st)"
    then have "rg_tasks R G Q st" "Inv (fst st)" by blast+
    from rg_step[where G = G and R = R and Inv = Inv, OF assms(1,2) this]
    show "rg_tasks R G Q (task_step j st) \<and> Inv (fst (task_step j st))" .
  qed
  then have f: "rg_tasks R G Q (s', ts')" "Inv s'" by (simp_all add: assms(5))
  then show "Inv s'" by simp
  assume i: "i < length ts" "ts' ! i = Done r"
  have "length ts' = length ts" using run_schedule_length[of "is" "(s, ts)"] assms(5) by simp
  with f(1) i obtain P where "P s'" "rely_guarantee (R i) (G i) (Q i) P (Done r)"
    unfolding rg_tasks_def by (metis fst_conv snd_conv)
  then show "Q i r s'" by (auto elim: rg_DoneE)
qed

end
