(* ===== verification/Kvq_Async.thy ===== *)
theory Kvq_Async
  imports Kvq_Shared Async
begin

text \<open>
  The asynchronous half of \<open>kvq\<close>: the traits \<open>KVQBinaryStoreReaderAsync\<close> and
  \<open>KVQBinaryStoreWriterImmutableAsync\<close> of \<open>traits.rs\<close> as a record of operations that are tasks, the
  default methods on them, and the asynchronous half of \<open>KVQStandardAdapter\<close> in
  \<open>adapters/standard.rs\<close>. The crate has no implementation of these traits, so a store is a parameter;
  \<open>atomic_store\<close> makes one of a synchronous store whose calls are one step each.

  The locale \<open>kvq_async\<close> is the contract of such a store: a call touches the entries it names and no
  others, and alone it does what it says. Under it typed tables that are used by many tasks at once
  behave as if each task were alone on its keys.
\<close>

section \<open>The traits\<close>

record 's async_reader =
  as_get_exact_if_exists :: "bytes \<Rightarrow> ('s, bytes option res) task"
  as_get_exact :: "bytes \<Rightarrow> ('s, bytes res) task"
  as_get_many_exact :: "bytes list \<Rightarrow> ('s, bytes list res) task"
  as_get_leq :: "bytes \<Rightarrow> nat \<Rightarrow> ('s, bytes option res) task"
  as_get_fuzzy_range_leq_kv :: "bytes \<Rightarrow> nat \<Rightarrow> ('s, kv list res) task"
  as_get_leq_kv :: "bytes \<Rightarrow> nat \<Rightarrow> ('s, kv option res) task"
  as_get_many_leq :: "bytes list \<Rightarrow> nat \<Rightarrow> ('s, bytes option list res) task"
  as_get_many_leq_kv :: "bytes list \<Rightarrow> nat \<Rightarrow> ('s, kv option list res) task"

record 's async_store = "'s async_reader" +
  as_imm_set :: "bytes \<Rightarrow> bytes \<Rightarrow> ('s, unit res) task"
  as_imm_set_ref :: "bytes \<Rightarrow> bytes \<Rightarrow> ('s, unit res) task"
  as_imm_set_many_ref :: "kv list \<Rightarrow> ('s, unit res) task"
  as_imm_set_many_vec :: "kv list \<Rightarrow> ('s, unit res) task"
  as_imm_set_many_split_ref :: "bytes list \<Rightarrow> bytes list \<Rightarrow> ('s, unit res) task"
  as_imm_delete :: "bytes \<Rightarrow> ('s, bool res) task"
  as_imm_delete_many :: "bytes list \<Rightarrow> ('s, bool list res) task"

text \<open>The default methods of the reader.\<close>

definition as_get_leq_u :: "'s async_store \<Rightarrow> bytes \<Rightarrow> nat \<Rightarrow> ('s, bytes res) task" where
  "as_get_leq_u A key fuzzy = task_then (as_get_leq A key fuzzy) (\<lambda>r. now (unwrap_kv_result r))"

definition as_get_leq_kv_u :: "'s async_store \<Rightarrow> bytes \<Rightarrow> nat \<Rightarrow> ('s, kv res) task" where
  "as_get_leq_kv_u A key fuzzy = task_then (as_get_leq_kv A key fuzzy) (\<lambda>r. now (unwrap_kv_result r))"

definition as_get_many_leq_u :: "'s async_store \<Rightarrow> bytes list \<Rightarrow> nat \<Rightarrow> ('s, bytes list res) task" where
  "as_get_many_leq_u A keys fuzzy = task_then (as_get_many_leq A keys fuzzy) (\<lambda>r. now (unwrap_kv_vec_result r))"

definition as_get_many_leq_kv_u :: "'s async_store \<Rightarrow> bytes list \<Rightarrow> nat \<Rightarrow> ('s, kv list res) task" where
  "as_get_many_leq_kv_u A keys fuzzy = task_then (as_get_many_leq_kv A keys fuzzy) (\<lambda>r. now (unwrap_kv_vec_result r))"

text \<open>
  \<open>KVQBinaryStoreWriterAutoImmutable\<close>: a type with the marker gets the mutable writer from its
  immutable one.
\<close>

definition auto_immutable :: "'w kvq_binary_store \<Rightarrow> 'w imm_writer \<Rightarrow> 'w kvq_binary_store" where
  "auto_immutable R M = R\<lparr>st_set := im_set M, st_set_ref := im_set_ref M, st_set_many_ref := im_set_many_ref M,
     st_set_many_vec := im_set_many_vec M, st_set_many_split_ref := im_set_many_split_ref M,
     st_delete := im_delete M, st_delete_many := im_delete_many M\<rparr>"

lemma shared_store_auto: "auto_immutable (shared_binary_store S) (shared_imm_writer S) = shared_binary_store S"
  by (simp add: auto_immutable_def shared_binary_store_def shared_imm_writer_def)

section \<open>The adapter\<close>

definition async_get_exact_if_exists ::
  "'s async_store \<Rightarrow> 'k codec \<Rightarrow> 'v codec \<Rightarrow> 'k \<Rightarrow> ('s, 'v option res) task" where
  "async_get_exact_if_exists A K V key =
     task_then (now (to_bytes K key)) (\<lambda>kb.
     task_then (as_get_exact_if_exists A kb) (\<lambda>r. now (decode_opt (from_bytes V) r)))"

definition async_get_exact :: "'s async_store \<Rightarrow> 'k codec \<Rightarrow> 'v codec \<Rightarrow> 'k \<Rightarrow> ('s, 'v res) task" where
  "async_get_exact A K V key =
     task_then (now (to_bytes K key)) (\<lambda>kb. task_then (as_get_exact A kb) (\<lambda>r. now (from_bytes V r)))"

definition async_get_leq_kv ::
  "'s async_store \<Rightarrow> 'k codec \<Rightarrow> 'v codec \<Rightarrow> 'k \<Rightarrow> nat \<Rightarrow> ('s, ('k, 'v) kvq_pair option res) task" where
  "async_get_leq_kv A K V key fuzzy =
     task_then (now (to_bytes K key)) (\<lambda>kb.
     task_then (as_get_leq_kv A kb fuzzy) (\<lambda>r. now (decode_opt (decode_pair K V) r)))"

definition async_get_many_exact :: "'s async_store \<Rightarrow> 'k codec \<Rightarrow> 'v codec \<Rightarrow> 'k list \<Rightarrow> ('s, 'v list res) task" where
  "async_get_many_exact A K V keys =
     task_then (now (try_map (to_bytes K) keys)) (\<lambda>kbs.
     task_then (as_get_many_exact A kbs) (\<lambda>r. now (try_map (from_bytes V) r)))"

definition async_get_leq :: "'s async_store \<Rightarrow> 'k codec \<Rightarrow> 'v codec \<Rightarrow> 'k \<Rightarrow> nat \<Rightarrow> ('s, 'v option res) task" where
  "async_get_leq A K V key fuzzy =
     task_then (now (to_bytes K key)) (\<lambda>kb.
     task_then (as_get_leq A kb fuzzy) (\<lambda>r. now (decode_opt (from_bytes V) r)))"

definition async_get_many_leq ::
  "'s async_store \<Rightarrow> 'k codec \<Rightarrow> 'v codec \<Rightarrow> 'k list \<Rightarrow> nat \<Rightarrow> ('s, 'v option list res) task" where
  "async_get_many_leq A K V keys fuzzy =
     task_then (now (try_map (to_bytes K) keys)) (\<lambda>kbs.
     task_then (as_get_many_leq A kbs fuzzy) (\<lambda>r. now (try_map (decode_opt (from_bytes V)) r)))"

definition async_get_many_leq_kv ::
  "'s async_store \<Rightarrow> 'k codec \<Rightarrow> 'v codec \<Rightarrow> 'k list \<Rightarrow> nat \<Rightarrow> ('s, ('k, 'v) kvq_pair option list res) task" where
  "async_get_many_leq_kv A K V keys fuzzy =
     task_then (now (try_map (to_bytes K) keys)) (\<lambda>kbs.
     task_then (as_get_many_leq_kv A kbs fuzzy) (\<lambda>r. now (try_map (decode_opt (decode_pair K V)) r)))"

definition async_get_fuzzy_range_leq_kv ::
  "'s async_store \<Rightarrow> 'k codec \<Rightarrow> 'v codec \<Rightarrow> 'k \<Rightarrow> nat \<Rightarrow> ('s, ('k, 'v) kvq_pair list res) task" where
  "async_get_fuzzy_range_leq_kv A K V key fuzzy =
     task_then (now (to_bytes K key)) (\<lambda>kb.
     task_then (as_get_fuzzy_range_leq_kv A kb fuzzy) (\<lambda>r. now (try_map (decode_pair K V) r)))"

definition async_get_many_leq_u ::
  "'s async_store \<Rightarrow> 'k codec \<Rightarrow> 'v codec \<Rightarrow> 'k list \<Rightarrow> nat \<Rightarrow> ('s, 'v list res) task" where
  "async_get_many_leq_u A K V keys fuzzy =
     task_then (async_get_many_leq A K V keys fuzzy) (\<lambda>r. now (unwrap_kv_vec_result r))"

definition async_get_many_leq_kv_u ::
  "'s async_store \<Rightarrow> 'k codec \<Rightarrow> 'v codec \<Rightarrow> 'k list \<Rightarrow> nat \<Rightarrow> ('s, ('k, 'v) kvq_pair list res) task" where
  "async_get_many_leq_kv_u A K V keys fuzzy =
     task_then (async_get_many_leq_kv A K V keys fuzzy) (\<lambda>r. now (unwrap_kv_vec_result r))"

definition async_imm_set_ref :: "'s async_store \<Rightarrow> 'k codec \<Rightarrow> 'v codec \<Rightarrow> 'k \<Rightarrow> 'v \<Rightarrow> ('s, unit res) task" where
  "async_imm_set_ref A K V key v =
     task_then (now (to_bytes K key)) (\<lambda>kb. task_then (now (to_bytes V v)) (\<lambda>vb. as_imm_set A kb vb))"

definition async_imm_set_many_ref ::
  "'s async_store \<Rightarrow> 'k codec \<Rightarrow> 'v codec \<Rightarrow> ('k, 'v) kvq_pair list \<Rightarrow> ('s, unit res) task" where
  "async_imm_set_many_ref A K V items =
     task_then (now (try_map (encode_pair K V) items)) (\<lambda>pairs. as_imm_set_many_vec A pairs)"

definition async_imm_set_many ::
  "'s async_store \<Rightarrow> 'k codec \<Rightarrow> 'v codec \<Rightarrow> ('k, 'v) kvq_pair list \<Rightarrow> ('s, unit res) task" where
  "async_imm_set_many A K V items =
     task_then (now (try_map (encode_pair K V) items)) (\<lambda>pairs. as_imm_set_many_vec A pairs)"

definition async_imm_delete :: "'s async_store \<Rightarrow> 'k codec \<Rightarrow> 'v codec \<Rightarrow> 'k \<Rightarrow> ('s, bool res) task" where
  "async_imm_delete A K V key = task_then (now (to_bytes K key)) (as_imm_delete A)"

text \<open>One \<open>await\<close> for each key; keys before one that fails are gone.\<close>

definition async_imm_delete_many ::
  "'s async_store \<Rightarrow> 'k codec \<Rightarrow> 'v codec \<Rightarrow> 'k list \<Rightarrow> ('s, bool list res) task" where
  "async_imm_delete_many A K V keys =
     try_each (\<lambda>k. task_then (now (to_bytes K k)) (as_imm_delete A)) keys"

definition async_imm_set_many_split_ref ::
  "'s async_store \<Rightarrow> 'k codec \<Rightarrow> 'v codec \<Rightarrow> 'k list \<Rightarrow> 'v list \<Rightarrow> ('s, unit res) task" where
  "async_imm_set_many_split_ref A K V keys values =
     (if length keys \<noteq> length values
      then now (Inl (Err ''Keys and values must have the same length''))
      else task_then (now
             (try_map (\<lambda>(k, v). and_then (to_bytes K k) (\<lambda>kb. and_then (to_bytes V v) (\<lambda>vb. Inr (kb, vb))))
                (zip keys values)))
             (\<lambda>kvs. as_imm_set_many_split_ref A (map fst kvs) (map snd kvs)))"

text \<open>\<open>KVQStoreAdapterWithHelpersImmutableAsync\<close>.\<close>

definition async_set_many_ref_clone_batch ::
  "'s async_store \<Rightarrow> 'k codec \<Rightarrow> 'v codec \<Rightarrow> ('k, 'v) kvq_pair list \<Rightarrow> ('s, unit res) task" where
  "async_set_many_ref_clone_batch A K V items =
     task_then (async_imm_set_many A K V
       (map (\<lambda>item. \<lparr>pair_key = pair_key item, pair_value = pair_value item\<rparr>) items)) (\<lambda>_. now (Inr ()))"

definition async_set_many_ref_serial ::
  "'s async_store \<Rightarrow> 'k codec \<Rightarrow> 'v codec \<Rightarrow> ('k, 'v) kvq_pair list \<Rightarrow> ('s, unit res) task" where
  "async_set_many_ref_serial A K V items =
     try_for (\<lambda>item. async_imm_set_ref A K V (pair_key item) (pair_value item)) items"

section \<open>A store whose calls are one step\<close>

definition atomic_store :: "'s kvq_binary_store \<Rightarrow> 's imm_writer \<Rightarrow> 's async_store" where
  "atomic_store S M =
     \<lparr>as_get_exact_if_exists = (\<lambda>key. call (\<lambda>s. (s, st_get_exact_if_exists S s key))),
      as_get_exact = (\<lambda>key. call (\<lambda>s. (s, st_get_exact S s key))),
      as_get_many_exact = (\<lambda>keys. call (\<lambda>s. (s, st_get_many_exact S s keys))),
      as_get_leq = (\<lambda>key fuzzy. call (\<lambda>s. (s, st_get_leq S s key fuzzy))),
      as_get_fuzzy_range_leq_kv = (\<lambda>key fuzzy. call (\<lambda>s. (s, st_get_fuzzy_range_leq_kv S s key fuzzy))),
      as_get_leq_kv = (\<lambda>key fuzzy. call (\<lambda>s. (s, st_get_leq_kv S s key fuzzy))),
      as_get_many_leq = (\<lambda>keys fuzzy. call (\<lambda>s. (s, st_get_many_leq S s keys fuzzy))),
      as_get_many_leq_kv = (\<lambda>keys fuzzy. call (\<lambda>s. (s, st_get_many_leq_kv S s keys fuzzy))),
      as_imm_set = (\<lambda>key v. call (\<lambda>s. im_set M s key v)),
      as_imm_set_ref = (\<lambda>key v. call (\<lambda>s. im_set_ref M s key v)),
      as_imm_set_many_ref = (\<lambda>items. call (\<lambda>s. im_set_many_ref M s items)),
      as_imm_set_many_vec = (\<lambda>items. call (\<lambda>s. im_set_many_vec M s items)),
      as_imm_set_many_split_ref = (\<lambda>keys vals. call (\<lambda>s. im_set_many_split_ref M s keys vals)),
      as_imm_delete = (\<lambda>key. call (\<lambda>s. im_delete M s key)),
      as_imm_delete_many = (\<lambda>keys. call (\<lambda>s. im_delete_many M s keys))\<rparr>"

lemma run_now_then [simp]:
  "run_task (task_then (now r) f) s = (case r of Inl e \<Rightarrow> (s, Inl e) | Inr x \<Rightarrow> run_task (f x) s)"
  by (simp split: sum.splits)

lemma and_then_pair: "(s, and_then r f) = (case r of Inl e \<Rightarrow> (s, Inl e) | Inr x \<Rightarrow> (s, f x))"
  by (cases r) simp_all

lemmas async_reader_defs = async_get_exact_if_exists_def async_get_exact_def async_get_leq_kv_def
  async_get_many_exact_def async_get_leq_def async_get_many_leq_def async_get_many_leq_kv_def
  async_get_fuzzy_range_leq_kv_def async_get_many_leq_u_def async_get_many_leq_kv_u_def

lemmas ad_reader_defs = ad_get_exact_if_exists_def ad_get_exact_def ad_get_leq_kv_def
  ad_get_many_exact_def ad_get_leq_def ad_get_many_leq_def ad_get_many_leq_kv_def
  ad_get_fuzzy_range_leq_kv_def ad_get_many_leq_u_def ad_get_many_leq_kv_u_def

lemma async_readers_alone:
  "run_task (async_get_exact_if_exists (atomic_store S M) K V k) s = (s, ad_get_exact_if_exists S K V s k)"
  "run_task (async_get_exact (atomic_store S M) K V k) s = (s, ad_get_exact S K V s k)"
  "run_task (async_get_leq_kv (atomic_store S M) K V k n) s = (s, ad_get_leq_kv S K V s k n)"
  "run_task (async_get_many_exact (atomic_store S M) K V ks) s = (s, ad_get_many_exact S K V s ks)"
  "run_task (async_get_leq (atomic_store S M) K V k n) s = (s, ad_get_leq S K V s k n)"
  "run_task (async_get_many_leq (atomic_store S M) K V ks n) s = (s, ad_get_many_leq S K V s ks n)"
  "run_task (async_get_many_leq_kv (atomic_store S M) K V ks n) s = (s, ad_get_many_leq_kv S K V s ks n)"
  "run_task (async_get_fuzzy_range_leq_kv (atomic_store S M) K V k n) s = (s, ad_get_fuzzy_range_leq_kv S K V s k n)"
  by (simp_all add: async_reader_defs ad_reader_defs atomic_store_def and_then_pair split: sum.splits)

lemma async_u_readers_alone:
  "run_task (async_get_many_leq_u (atomic_store S M) K V ks n) s = (s, ad_get_many_leq_u S K V s ks n)"
  "run_task (async_get_many_leq_kv_u (atomic_store S M) K V ks n) s = (s, ad_get_many_leq_kv_u S K V s ks n)"
  by (simp_all add: async_get_many_leq_u_def async_get_many_leq_kv_u_def async_readers_alone
      ad_get_many_leq_u_def ad_get_many_leq_kv_u_def and_then_pair split: sum.splits)

lemma async_writers_alone:
  "run_task (async_imm_set_ref (atomic_store S M) K V k v) s = ad_imm_set_ref M K V s k v"
  "run_task (async_imm_set_many_ref (atomic_store S M) K V items) s = ad_imm_set_many_ref M K V s items"
  "run_task (async_imm_set_many (atomic_store S M) K V items) s = ad_imm_set_many M K V s items"
  "run_task (async_imm_delete (atomic_store S M) K V k) s = ad_imm_delete M K V s k"
  "run_task (async_imm_set_many_split_ref (atomic_store S M) K V ks vs) s = ad_imm_set_many_split_ref M K V s ks vs"
  by (simp_all add: async_imm_set_ref_def ad_imm_set_ref_def async_imm_set_many_ref_def ad_imm_set_many_ref_def
      async_imm_set_many_def ad_imm_set_many_def async_imm_delete_def ad_imm_delete_def
      async_imm_set_many_split_ref_def ad_imm_set_many_split_ref_def with_encoded_def atomic_store_def split: sum.splits)

lemma async_delete_many_alone:
  "run_task (async_imm_delete_many (atomic_store S M) K V ks) s = ad_imm_delete_many M K V s ks"
  unfolding async_imm_delete_many_def ad_imm_delete_many_def
proof (induction ks arbitrary: s)
  case (Cons k ks)
  have "run_task (task_then (now (to_bytes K k)) (as_imm_delete (atomic_store S M))) s = ad_imm_delete M K V s k"
    using async_writers_alone(4)[of S M K V k s] by (simp only: async_imm_delete_def)
  then show ?case by (simp only: try_each.simps run_task_then delete_loop.simps Cons) (simp split: prod.splits sum.splits)
qed simp

lemma async_serial_alone:
  "run_task (async_set_many_ref_serial (atomic_store S M) K V items) s
   = ad_set_many_ref_serial (auto_immutable S M) K V s items"
  unfolding async_set_many_ref_serial_def
proof (induction items arbitrary: s)
  case (Cons p items)
  have "ad_imm_set_ref M K V s k v = ad_set (auto_immutable S M) K V s k v" for k v
    by (simp add: ad_imm_set_ref_def ad_set_def auto_immutable_def)
  then show ?case
    by (simp only: try_for.simps run_task_then async_writers_alone(1) ad_set_many_ref_serial.simps Cons)
qed simp

section \<open>The contract of an asynchronous store\<close>

locale kvq_async =
  fixes A :: "'s async_store" and inv :: "'s \<Rightarrow> bool" and view :: "'s \<Rightarrow> bytes \<Rightarrow> bytes option"
  assumes get_conf: "confined inv view {k} (as_get_exact_if_exists A k)"
    and get_alone: "inv s \<Longrightarrow> snd (run_task (as_get_exact_if_exists A k) s) = Inr (view s k)"
    and set_conf: "confined inv view {k} (as_imm_set A k v)"
    and set_alone: "inv s \<Longrightarrow> snd (run_task (as_imm_set A k v) s) = Inr ()
      \<and> view (fst (run_task (as_imm_set A k v) s)) k = Some v"
    and vec_conf: "confined inv view (pair_key ` set items) (as_imm_set_many_vec A items)"
    and vec_alone: "inv s \<Longrightarrow> snd (run_task (as_imm_set_many_vec A items) s) = Inr ()
      \<and> view (fst (run_task (as_imm_set_many_vec A items) s)) = view s ++ kv_map items"
    and del_conf: "confined inv view {k} (as_imm_delete A k)"
    and del_alone: "inv s \<Longrightarrow> is_ok (snd (run_task (as_imm_delete A k) s))
      \<and> view (fst (run_task (as_imm_delete A k) s)) k = None"
begin

lemma run_update:
  assumes "confined inv view {k} t" and "inv s"
  shows "inv (fst (run_task t s))"
    and "view (fst (run_task t s)) = (view s)(k := view (fst (run_task t s)) k)"
  using confined_run[OF assms] by (auto simp: agree_def fun_eq_iff)

lemma set_run: "inv s \<Longrightarrow> \<exists>s'. run_task (as_imm_set A k v) s = (s', Inr ()) \<and> inv s' \<and> view s' = (view s)(k \<mapsto> v)"
  using run_update[OF set_conf, of s k v] set_alone[of s k v] by (metis prod.collapse)

lemma del_run: "inv s \<Longrightarrow> \<exists>s' b. run_task (as_imm_delete A k) s = (s', Inr b) \<and> inv s' \<and> view s' = (view s)(k := None)"
  using run_update[OF del_conf, of s k] del_alone[of s k] by (metis is_ok_iff prod.collapse)

lemma vec_run: "inv s \<Longrightarrow> \<exists>s'. run_task (as_imm_set_many_vec A items) s = (s', Inr ()) \<and> inv s' \<and> view s' = view s ++ kv_map items"
  using confined_run[OF vec_conf, of s items] vec_alone[of s items] by (metis prod.collapse)

end

text \<open>
  Every lawful store whose deletions answer whether the key was there meets it, when its calls are one
  step each.
\<close>

locale answering_store = kvq_store S inv view
  for S :: "'s kvq_binary_store" and inv view +
  fixes M :: "'s imm_writer"
  assumes same_set: "im_set M = st_set S" and same_vec: "im_set_many_vec M = st_set_many_vec S"
    and same_delete: "im_delete M = st_delete S"
    and delete_answer: "inv s \<Longrightarrow> snd (st_delete S s k) = Inr (view s k \<noteq> None)"
begin

lemma kv_map_outside: "k \<notin> pair_key ` set items \<Longrightarrow> kv_map items k = None"
  by (force simp: kv_map_def map_of_eq_None_iff)

lemma atomic_contract: "kvq_async (atomic_store S M) inv view"
proof
  fix k v items
  show "confined inv view {k} (as_get_exact_if_exists (atomic_store S M) k)"
    unfolding atomic_store_def async_reader.simps async_store.simps by (rule confined_call) (simp_all add: get_if agree_def)
  show "confined inv view {k} (as_imm_set (atomic_store S M) k v)"
    unfolding atomic_store_def async_reader.simps async_store.simps same_set
    by (rule confined_call) (simp_all add: set_inv set_view set_result agree_def)
  show "confined inv view {k} (as_imm_delete (atomic_store S M) k)"
    unfolding atomic_store_def async_reader.simps async_store.simps same_delete
    by (rule confined_call) (simp_all add: del_inv del_view delete_answer agree_def)
  show "confined inv view (pair_key ` set items) (as_imm_set_many_vec (atomic_store S M) items)"
    unfolding atomic_store_def async_reader.simps async_store.simps same_vec
  proof (rule confined_call)
    fix s assume s: "inv s"
    show "inv (fst (st_set_many_vec S s items)) \<and> agree view (- pair_key ` set items) s (fst (st_set_many_vec S s items))"
      using kv_map_outside[of _ items]
      by (simp add: set_many_inv[OF s] set_many_view[OF s] agree_def map_add_def)
  next
    fix s s' assume s: "inv s" "inv s'" "agree view (pair_key ` set items) s s'"
    show "snd (st_set_many_vec S s items) = snd (st_set_many_vec S s' items)
      \<and> agree view (pair_key ` set items) (fst (st_set_many_vec S s items)) (fst (st_set_many_vec S s' items))"
      using s(3) by (simp add: set_many_result[OF s(1)] set_many_result[OF s(2)]
          set_many_view[OF s(1)] set_many_view[OF s(2)] agree_def map_add_def split: option.split)
  qed
next
  fix s k v items
  assume s: "inv s"
  show "snd (run_task (as_get_exact_if_exists (atomic_store S M) k) s) = Inr (view s k)"
    by (simp add: atomic_store_def get_if[OF s])
  show "snd (run_task (as_imm_set (atomic_store S M) k v) s) = Inr ()
    \<and> view (fst (run_task (as_imm_set (atomic_store S M) k v) s)) k = Some v"
    by (simp add: atomic_store_def same_set set_result[OF s] set_view[OF s])
  show "snd (run_task (as_imm_set_many_vec (atomic_store S M) items) s) = Inr ()
    \<and> view (fst (run_task (as_imm_set_many_vec (atomic_store S M) items) s)) = view s ++ kv_map items"
    by (simp add: atomic_store_def same_vec set_many_result[OF s] set_many_view[OF s])
  show "is_ok (snd (run_task (as_imm_delete (atomic_store S M) k) s))
    \<and> view (fst (run_task (as_imm_delete (atomic_store S M) k) s)) k = None"
    by (simp add: atomic_store_def same_delete del_result[OF s] del_view[OF s])
qed

end

sublocale answering_store \<subseteq> atomic: kvq_async "atomic_store S M" inv view
  by (rule atomic_contract)

lemma simple_delete_answer: "snd (simple_delete m k) = Inr (bt_get m k \<noteq> None)"
  by (simp add: simple_delete_def split: option.splits)

text \<open>The memory store behind its lock.\<close>

interpretation async_memory: answering_store "shared_binary_store simple_binary_store" "shared_inv bt_inv"
  "shared_view bt_get" "shared_imm_writer simple_binary_store"
proof
  fix w :: "simple_store rw_lock" and k
  assume "shared_inv bt_inv w"
  then have "unlocked w" by (simp add: shared_inv_def)
  then show "snd (st_delete (shared_binary_store simple_binary_store) w k) = Inr (shared_view bt_get w k \<noteq> None)"
    by (simp add: shared_binary_store_def simple_binary_store_def writing_unlocked simple_delete_answer shared_view_def)
qed (simp_all add: shared_binary_store_def shared_imm_writer_def)

section \<open>Tables used by many tasks\<close>

text \<open>The updates of a typed table that a task can ask for. A deletion answers a list, the others nothing.\<close>

datatype ('k, 'v) table_call =
    SetRef 'k 'v
  | SetMany "('k, 'v) kvq_pair list"
  | SetSerial "('k, 'v) kvq_pair list"
  | DeleteMany "'k list"

fun table_task ::
  "'s async_store \<Rightarrow> 'k codec \<Rightarrow> 'v codec \<Rightarrow> ('k, 'v) table_call \<Rightarrow> ('s, bool list res) task" where
  "table_task A K V (SetRef k v) = task_then (async_imm_set_ref A K V k v) (\<lambda>_. now (Inr []))"
| "table_task A K V (SetMany items) = task_then (async_imm_set_many A K V items) (\<lambda>_. now (Inr []))"
| "table_task A K V (SetSerial items) = task_then (async_set_many_ref_serial A K V items) (\<lambda>_. now (Inr []))"
| "table_task A K V (DeleteMany ks) = async_imm_delete_many A K V ks"

fun call_items :: "('k, 'v) table_call \<Rightarrow> ('k \<times> 'v option) list" where
  "call_items (SetRef k v) = [(k, Some v)]"
| "call_items (SetMany items) = map (\<lambda>p. (pair_key p, Some (pair_value p))) items"
| "call_items (SetSerial items) = map (\<lambda>p. (pair_key p, Some (pair_value p))) items"
| "call_items (DeleteMany ks) = map (\<lambda>k. (k, None)) ks"

definition call_keys :: "('k, 'v) table_call \<Rightarrow> 'k set" where
  "call_keys c = fst ` set (call_items c)"

text \<open>What the call leaves under a key it names: the last value it gives it.\<close>

definition call_leaves :: "('k, 'v) table_call \<Rightarrow> 'k \<Rightarrow> 'v option" where
  "call_leaves c k = (case map_of (rev (call_items c)) k of Some v \<Rightarrow> v | None \<Rightarrow> None)"

text \<open>The keys and values of the call are ones that the codecs write.\<close>

definition call_fits :: "('k \<Rightarrow> bool) \<Rightarrow> ('v \<Rightarrow> bool) \<Rightarrow> ('k, 'v) table_call \<Rightarrow> bool" where
  "call_fits kwf vwf c \<longleftrightarrow>
     (\<forall>e \<in> set (call_items c). kwf (fst e) \<and> (case snd e of Some v \<Rightarrow> vwf v | None \<Rightarrow> True))"

locale async_table = kvq_async A inv view + K: kvq_serializable KC kwf + V: kvq_serializable VC vwf
  for A :: "'s async_store" and inv view and KC :: "'k codec" and kwf and VC :: "'v codec" and vwf
begin

definition kb :: "'k \<Rightarrow> bytes" where
  "kb k = (case to_bytes KC k of Inr b \<Rightarrow> b | Inl _ \<Rightarrow> [])"

definition vb :: "'v \<Rightarrow> bytes" where
  "vb v = (case to_bytes VC v of Inr b \<Rightarrow> b | Inl _ \<Rightarrow> [])"

lemma kb: "kwf k \<Longrightarrow> to_bytes KC k = Inr (kb k)"
  using K.encoded[of k] by (auto simp: kb_def)

lemma vb: "vwf v \<Longrightarrow> to_bytes VC v = Inr (vb v)" "vwf v \<Longrightarrow> from_bytes VC (vb v) = Inr v"
  using V.encoded[of v] by (auto simp: vb_def)

lemma kb_inj: "kwf k \<Longrightarrow> kwf k' \<Longrightarrow> kb k = kb k' \<longleftrightarrow> k = k'"
  using K.to_bytes_inj[of k k'] by (auto simp: kb)

abbreviation call_wf :: "('k, 'v) table_call \<Rightarrow> bool" where
  "call_wf \<equiv> call_fits kwf vwf"

lemma try_map_pairs:
  "\<forall>p \<in> set items. kwf (pair_key p) \<and> vwf (pair_value p) \<Longrightarrow>
   try_map (encode_pair KC VC) items = Inr (map (\<lambda>p. \<lparr>pair_key = kb (pair_key p), pair_value = vb (pair_value p)\<rparr>) items)"
  by (induction items) (simp_all add: encode_pair_def kb vb)

text \<open>The bytes of a call, and its effect on the bytes.\<close>

definition raw_items :: "('k, 'v) table_call \<Rightarrow> (bytes \<times> bytes option) list" where
  "raw_items c = map (\<lambda>(k, v). (kb k, map_option vb v)) (call_items c)"

definition raw_apply :: "(bytes \<times> bytes option) list \<Rightarrow> (bytes \<Rightarrow> bytes option) \<Rightarrow> bytes \<Rightarrow> bytes option" where
  "raw_apply es m = fold (\<lambda>(k, v) m. m(k := v)) es m"

lemma raw_apply_simps [simp]: "raw_apply [] m = m" "raw_apply ((k, v) # es) m = raw_apply es (m(k := v))"
  by (simp_all add: raw_apply_def)

lemma raw_apply_eq: "raw_apply es m k = (case map_of (rev es) k of Some v \<Rightarrow> v | None \<Rightarrow> m k)"
  by (induction es arbitrary: m) (auto simp: map_add_def split: option.splits)

lemma raw_apply_writes:
  "raw_apply (map (\<lambda>p. (f p, Some (g p))) items) m = m ++ kv_map (map (\<lambda>p. \<lparr>pair_key = f p, pair_value = g p\<rparr>) items)"
proof (induction items arbitrary: m)
  case (Cons p items)
  then show ?case by (simp add: kv_map_Cons) (simp add: fun_eq_iff map_add_def split: option.splits)
qed (simp add: kv_map_def)

lemma table_task_confined:
  "call_wf c \<Longrightarrow> confined inv view (kb ` call_keys c) (table_task A KC VC c)"
proof (cases c)
  case (SetRef k v)
  then show "call_wf c \<Longrightarrow> ?thesis"
    by (auto simp: call_fits_def call_keys_def async_imm_set_ref_def kb vb intro!: confined_then set_conf)
next
  case (SetMany items)
  assume "call_wf c"
  then have "try_map (encode_pair KC VC) items = Inr (map (\<lambda>p. \<lparr>pair_key = kb (pair_key p), pair_value = vb (pair_value p)\<rparr>) items)"
    by (intro try_map_pairs) (auto simp: call_fits_def SetMany)
  moreover have "kb ` call_keys c = pair_key ` set (map (\<lambda>p. \<lparr>pair_key = kb (pair_key p), pair_value = vb (pair_value p)\<rparr>) items)"
    by (simp add: call_keys_def SetMany image_image)
  ultimately show ?thesis
    using vec_conf[of "map (\<lambda>p. \<lparr>pair_key = kb (pair_key p), pair_value = vb (pair_value p)\<rparr>) items"]
    by (auto simp: SetMany async_imm_set_many_def intro!: confined_then)
next
  case (SetSerial items)
  assume wf: "call_wf c"
  have "confined inv view (kb ` call_keys c) (async_imm_set_ref A KC VC (pair_key p) (pair_value p))" if "p \<in> set items" for p
  proof -
    have "kwf (pair_key p)" "vwf (pair_value p)" "pair_key p \<in> call_keys c"
      using wf that by (auto simp: call_fits_def call_keys_def SetSerial image_image)
    then show ?thesis
      by (auto simp: async_imm_set_ref_def kb vb intro: confined_mono[OF set_conf])
  qed
  then show ?thesis
    by (auto simp: SetSerial async_set_many_ref_serial_def intro!: confined_then confined_try_for)
next
  case (DeleteMany ks)
  assume wf: "call_wf c"
  have "confined inv view (kb ` call_keys c) (task_then (now (to_bytes KC k)) (as_imm_delete A))" if "k \<in> set ks" for k
  proof -
    have "kwf k" "k \<in> call_keys c" using wf that by (auto simp: call_fits_def call_keys_def DeleteMany image_image)
    then show ?thesis by (auto simp: kb intro: confined_mono[OF del_conf])
  qed
  then show ?thesis by (auto simp: DeleteMany async_imm_delete_many_def intro!: confined_try_each)
qed

lemma set_ref_run:
  assumes "kwf k" and "vwf v" and "inv s"
  shows "\<exists>s'. run_task (async_imm_set_ref A KC VC k v) s = (s', Inr ()) \<and> inv s' \<and> view s' = (view s)(kb k \<mapsto> vb v)"
  using set_run[OF assms(3), of "kb k" "vb v"] assms(1,2) by (simp add: async_imm_set_ref_def kb vb)

lemma serial_run:
  "\<forall>p \<in> set items. kwf (pair_key p) \<and> vwf (pair_value p) \<Longrightarrow> inv s \<Longrightarrow>
   \<exists>s'. run_task (async_set_many_ref_serial A KC VC items) s = (s', Inr ()) \<and> inv s'
     \<and> view s' = raw_apply (map (\<lambda>p. (kb (pair_key p), Some (vb (pair_value p)))) items) (view s)"
  unfolding async_set_many_ref_serial_def
proof (induction items arbitrary: s)
  case (Cons p items)
  obtain s1 where s1: "run_task (async_imm_set_ref A KC VC (pair_key p) (pair_value p)) s = (s1, Inr ())"
    "inv s1" "view s1 = (view s)(kb (pair_key p) \<mapsto> vb (pair_value p))"
    using set_ref_run[OF _ _ Cons.prems(2), of "pair_key p" "pair_value p"] Cons.prems(1) by auto
  from Cons.IH[OF _ s1(2)] Cons.prems(1) s1(1) show ?case by (simp add: s1(3)[symmetric] del: fun_upd_apply)
qed simp

lemma delete_many_run:
  "\<forall>k \<in> set ks. kwf k \<Longrightarrow> inv s \<Longrightarrow>
   \<exists>s' bs. run_task (async_imm_delete_many A KC VC ks) s = (s', Inr bs) \<and> inv s'
     \<and> view s' = raw_apply (map (\<lambda>k. (kb k, None)) ks) (view s)"
  unfolding async_imm_delete_many_def
proof (induction ks arbitrary: s)
  case (Cons k ks)
  obtain s1 b where s1: "run_task (as_imm_delete A (kb k)) s = (s1, Inr b)" "inv s1" "view s1 = (view s)(kb k := None)"
    using del_run[OF Cons.prems(2)] by blast
  have "run_task (task_then (now (to_bytes KC k)) (as_imm_delete A)) s = (s1, Inr b)"
    using Cons.prems(1) by (simp add: kb s1(1))
  moreover obtain s2 bs where "run_task (try_each (\<lambda>k. task_then (now (to_bytes KC k)) (as_imm_delete A)) ks) s1 = (s2, Inr bs)"
    "inv s2" "view s2 = raw_apply (map (\<lambda>k. (kb k, None)) ks) (view s1)"
    using Cons.IH[OF _ s1(2)] Cons.prems(1) by auto
  ultimately show ?case by (simp add: s1(3) del: run_now_then)
qed simp

lemma table_task_run:
  assumes "call_wf c" and "inv s"
  shows "\<exists>s' r. run_task (table_task A KC VC c) s = (s', Inr r) \<and> inv s' \<and> view s' = raw_apply (raw_items c) (view s)"
proof (cases c)
  case (SetRef k v)
  then show ?thesis using set_ref_run[of k v s] assms by (auto simp: raw_items_def call_fits_def)
next
  case (SetMany items)
  let ?raw = "map (\<lambda>p. \<lparr>pair_key = kb (pair_key p), pair_value = vb (pair_value p)\<rparr>) items"
  have "try_map (encode_pair KC VC) items = Inr ?raw"
    using assms(1) by (intro try_map_pairs) (auto simp: call_fits_def SetMany)
  moreover obtain s' where "run_task (as_imm_set_many_vec A ?raw) s = (s', Inr ())" "inv s'" "view s' = view s ++ kv_map ?raw"
    using vec_run[OF assms(2), of ?raw] by blast
  ultimately show ?thesis
    by (simp add: SetMany async_imm_set_many_def raw_items_def comp_def raw_apply_writes)
next
  case (SetSerial items)
  then show ?thesis using serial_run[of items s] assms by (auto simp: raw_items_def call_fits_def comp_def)
next
  case (DeleteMany ks)
  then show ?thesis using delete_many_run[of ks s] assms by (auto simp: raw_items_def call_fits_def comp_def)
qed

lemma map_of_raw:
  "\<forall>e \<in> set es. kwf (fst e) \<Longrightarrow> kwf k \<Longrightarrow>
   map_of (map (\<lambda>(k, v). (kb k, map_option vb v)) es) (kb k) = map_option (map_option vb) (map_of es k)"
  by (induction es) (auto simp: kb_inj)

lemma raw_leaves:
  assumes "call_wf c" and "k \<in> call_keys c"
  shows "raw_apply (raw_items c) m (kb k) = map_option vb (call_leaves c k)"
    and "case call_leaves c k of Some v \<Rightarrow> vwf v | None \<Rightarrow> True"
proof -
  have keys: "\<forall>e \<in> set (rev (call_items c)). kwf (fst e)" "kwf k"
    using assms by (auto simp: call_fits_def call_keys_def)
  obtain v where v: "map_of (rev (call_items c)) k = Some v"
    using assms(2) by (metis call_keys_def map_of_eq_None_iff not_Some_eq set_rev)
  then show "raw_apply (raw_items c) m (kb k) = map_option vb (call_leaves c k)"
    using map_of_raw[OF keys] by (simp add: raw_apply_eq raw_items_def rev_map call_leaves_def)
  have "(k, v) \<in> set (call_items c)" using map_of_SomeD[OF v] by simp
  then show "case call_leaves c k of Some v \<Rightarrow> vwf v | None \<Rightarrow> True"
    using assms(1) v by (force simp: call_fits_def call_leaves_def)
qed

lemma read_alone:
  assumes "inv s" and "kwf k"
  shows "snd (run_task (async_get_exact_if_exists A KC VC k) s)
    = (case view s (kb k) of Some b \<Rightarrow> and_then (from_bytes VC b) (\<lambda>v. Inr (Some v)) | None \<Rightarrow> Inr None)"
  using get_alone[OF assms(1), of "kb k"]
  by (cases "run_task (as_get_exact_if_exists A (kb k)) s")
    (simp add: async_get_exact_if_exists_def kb assms(2) decode_opt_def)

lemma tables_isolated:
  assumes "inv s" and wf: "\<forall>c \<in> set calls. call_wf c"
    and disj: "\<And>i j. i < length calls \<Longrightarrow> j < length calls \<Longrightarrow> i \<noteq> j \<Longrightarrow> call_keys (calls ! i) \<inter> call_keys (calls ! j) = {}"
    and run: "run_schedule is (s, map (table_task A KC VC) calls) = (s', ts')"
  shows "\<lbrakk>i < length calls; ts' ! i = Done r\<rbrakk> \<Longrightarrow> is_ok r"
    and "\<lbrakk>i < length calls; ts' ! i = Done r; k \<in> call_keys (calls ! i)\<rbrakk> \<Longrightarrow>
      snd (run_task (async_get_exact_if_exists A KC VC k) s') = Inr (call_leaves (calls ! i) k)"
    and "\<lbrakk>kwf k; \<forall>c \<in> set calls. k \<notin> call_keys c\<rbrakk> \<Longrightarrow>
      snd (run_task (async_get_exact_if_exists A KC VC k) s') = snd (run_task (async_get_exact_if_exists A KC VC k) s)"
proof -
  let ?Ks = "map (\<lambda>c. kb ` call_keys c) calls"
  have kwf: "kwf k" if "c \<in> set calls" "k \<in> call_keys c" for c k
    using wf that by (force simp: call_fits_def call_keys_def)
  have "kb ` call_keys (calls ! i) \<inter> kb ` call_keys (calls ! j) = {}"
    if "i < length calls" "j < length calls" "i \<noteq> j" for i j
    using disj[OF that] kwf nth_mem[OF that(1)] nth_mem[OF that(2)] kb_inj by blast
  then have conf: "confined_tasks inv view ?Ks (map (table_task A KC VC) calls)"
    using table_task_confined wf by (simp add: confined_tasks_def list_all2_conv_all_nth)
  note iso = tasks_isolated[OF conf assms(1) run]
  have fin: "is_ok r \<and> (\<forall>k \<in> call_keys (calls ! i). view s' (kb k) = map_option vb (call_leaves (calls ! i) k))"
    if i: "i < length calls" "ts' ! i = Done r" for i r
  proof -
    have c: "call_wf (calls ! i)" using wf i(1) by simp
    obtain s1 a where s1: "run_task (table_task A KC VC (calls ! i)) s = (s1, Inr a)"
      "view s1 = raw_apply (raw_items (calls ! i)) (view s)"
      using table_task_run[OF c assms(1)] by blast
    have "Inr a = r" "agree view (kb ` call_keys (calls ! i)) s' s1"
      using iso(3)[of i r] i s1(1) by auto
    then show ?thesis using raw_leaves(1)[OF c] by (auto simp: agree_def s1(2))
  qed
  show "\<lbrakk>i < length calls; ts' ! i = Done r\<rbrakk> \<Longrightarrow> is_ok r" using fin by blast
  show "snd (run_task (async_get_exact_if_exists A KC VC k) s') = Inr (call_leaves (calls ! i) k)"
    if "i < length calls" "ts' ! i = Done r" "k \<in> call_keys (calls ! i)"
  proof -
    have k: "kwf k" using kwf[OF nth_mem[OF that(1)] that(3)] .
    have c: "call_wf (calls ! i)" using wf that(1) by simp
    have "view s' (kb k) = map_option vb (call_leaves (calls ! i) k)" using fin[OF that(1,2)] that(3) by blast
    then show ?thesis
      using raw_leaves(2)[OF c that(3)] by (simp add: read_alone[OF iso(1) k] vb split: option.splits)
  qed
  show "snd (run_task (async_get_exact_if_exists A KC VC k) s') = snd (run_task (async_get_exact_if_exists A KC VC k) s)"
    if "kwf k" "\<forall>c \<in> set calls. k \<notin> call_keys c"
  proof -
    have "kb k \<notin> \<Union>(set ?Ks)" using that kwf kb_inj by (auto simp: image_iff)
    then have "view s' (kb k) = view s (kb k)" using iso(2) by (simp add: agree_def)
    then show ?thesis by (simp add: read_alone[OF iso(1) that(1)] read_alone[OF assms(1) that(1)])
  qed
qed

end

text \<open>A table with \<open>u64\<close> keys over the memory store behind its lock.\<close>

interpretation async_u64_table: async_table
  "atomic_store (shared_binary_store simple_binary_store) (shared_imm_writer simple_binary_store)"
  "shared_inv bt_inv" "shared_view bt_get" "int_codec 8 :: u64 codec" "\<lambda>_. True" byte_vec_codec "\<lambda>_. True"
  by unfold_locales

section \<open>Properties\<close>

text \<open>
  Claim C31. With nothing else running, each asynchronous method of the adapter over a
  store whose calls are one step returns what its synchronous counterpart returns and leaves the store as
  that does, encoding errors, decoding errors and failures in the middle of a loop included.
\<close>

theorem async_adapter_equals_sync:
  "run_task (async_get_exact_if_exists (atomic_store S M) K V k) s = (s, ad_get_exact_if_exists S K V s k)
   \<and> run_task (async_get_exact (atomic_store S M) K V k) s = (s, ad_get_exact S K V s k)
   \<and> run_task (async_get_leq_kv (atomic_store S M) K V k n) s = (s, ad_get_leq_kv S K V s k n)
   \<and> run_task (async_get_many_exact (atomic_store S M) K V ks) s = (s, ad_get_many_exact S K V s ks)
   \<and> run_task (async_get_leq (atomic_store S M) K V k n) s = (s, ad_get_leq S K V s k n)
   \<and> run_task (async_get_many_leq (atomic_store S M) K V ks n) s = (s, ad_get_many_leq S K V s ks n)
   \<and> run_task (async_get_many_leq_kv (atomic_store S M) K V ks n) s = (s, ad_get_many_leq_kv S K V s ks n)
   \<and> run_task (async_get_fuzzy_range_leq_kv (atomic_store S M) K V k n) s = (s, ad_get_fuzzy_range_leq_kv S K V s k n)
   \<and> run_task (async_get_many_leq_u (atomic_store S M) K V ks n) s = (s, ad_get_many_leq_u S K V s ks n)
   \<and> run_task (async_get_many_leq_kv_u (atomic_store S M) K V ks n) s = (s, ad_get_many_leq_kv_u S K V s ks n)
   \<and> run_task (async_imm_set_ref (atomic_store S M) K V k v) s = ad_imm_set_ref M K V s k v
   \<and> run_task (async_imm_set_many_ref (atomic_store S M) K V items) s = ad_imm_set_many_ref M K V s items
   \<and> run_task (async_imm_set_many (atomic_store S M) K V items) s = ad_imm_set_many M K V s items
   \<and> run_task (async_imm_set_many_split_ref (atomic_store S M) K V ks vs) s = ad_imm_set_many_split_ref M K V s ks vs
   \<and> run_task (async_imm_delete (atomic_store S M) K V k) s = ad_imm_delete M K V s k
   \<and> run_task (async_imm_delete_many (atomic_store S M) K V ks) s = ad_imm_delete_many M K V s ks
   \<and> run_task (async_set_many_ref_serial (atomic_store S M) K V items) s
       = ad_set_many_ref_serial (auto_immutable S M) K V s items"
  by (intro conjI async_readers_alone async_u_readers_alone async_writers_alone async_delete_many_alone
      async_serial_alone)

text \<open>
  Claim C30. Let any number of tasks update a typed table at once, each its own keys, over any
  asynchronous store and codecs that meet their contracts, and let the executor switch between them at
  any \<open>await\<close>. A task that is done has not failed, and from then on a reader finds under its keys what
  the task wrote last, or nothing where it deleted, however far the other tasks are. Keys of no task are
  as they were.
\<close>

theorem concurrent_table_updates_isolated:
  assumes "kvq_async A I V" and "kvq_serializable KC kwf" and "kvq_serializable VC vwf"
    and "I s" and "\<forall>c \<in> set calls. call_fits kwf vwf c"
    and "\<forall>i j. i < length calls \<and> j < length calls \<and> i \<noteq> j \<longrightarrow> call_keys (calls ! i) \<inter> call_keys (calls ! j) = {}"
    and "run_schedule is (s, map (table_task A KC VC) calls) = (s', ts')"
  shows "(\<forall>i r. i < length calls \<and> ts' ! i = Done r \<longrightarrow>
        is_ok r \<and> (\<forall>k \<in> call_keys (calls ! i).
          snd (run_task (async_get_exact_if_exists A KC VC k) s') = Inr (call_leaves (calls ! i) k)))
    \<and> (\<forall>k. kwf k \<and> (\<forall>c \<in> set calls. k \<notin> call_keys c) \<longrightarrow>
        snd (run_task (async_get_exact_if_exists A KC VC k) s')
          = snd (run_task (async_get_exact_if_exists A KC VC k) s))"
proof -
  have L: "async_table A I V KC kwf VC vwf" using assms(1-3) by (rule async_table.intro)
  have disj: "call_keys (calls ! i) \<inter> call_keys (calls ! j) = {}" if "i < length calls" "j < length calls" "i \<noteq> j" for i j
    using assms(6) that by blast
  note iso = async_table.tables_isolated[OF L assms(4,5) disj assms(7)]
  show ?thesis using iso(1,2,3) by blast
qed

abbreviation demo_async :: "simple_store rw_lock async_store" where
  "demo_async \<equiv> atomic_store (shared_binary_store simple_binary_store) (shared_imm_writer simple_binary_store)"

definition demo_calls :: "(u64, bytes) table_call list" where
  "demo_calls = [SetSerial [\<lparr>pair_key = 1, pair_value = [7]\<rparr>, \<lparr>pair_key = 2, pair_value = [8]\<rparr>], DeleteMany [3, 4]]"

lemma demo_calls_finish:
  "\<exists>s' r. run_schedule [0, 1, 0] (shared_new [], map (table_task demo_async (int_codec 8) byte_vec_codec) demo_calls)
    = (s', [Done (Inr []), r])"
  by (simp add: demo_calls_def async_set_many_ref_serial_def async_imm_set_ref_def async_imm_delete_many_def
      int_codec_def byte_vec_codec_def atomic_store_def shared_imm_writer_def call_def task_step_def
      simple_binary_store_def writing_def shared_write_def shared_new_def simple_set_def simple_delete_def
      is_panic_def split: option.split)

theorem concurrent_table_updates_isolated_witness:
  "\<exists>s' r. run_schedule [0, 1, 0] (shared_new [], map (table_task demo_async (int_codec 8) byte_vec_codec) demo_calls)
      = (s', [Done (Inr []), r])
    \<and> snd (run_task (async_get_exact_if_exists demo_async (int_codec 8) byte_vec_codec (2 :: u64)) s') = Inr (Some [8])
    \<and> snd (run_task (async_get_exact_if_exists demo_async (int_codec 8) byte_vec_codec (9 :: u64)) s') = Inr None"
proof -
  obtain s' r where run: "run_schedule [0, 1, 0]
      (shared_new [], map (table_task demo_async (int_codec 8) byte_vec_codec) demo_calls) = (s', [Done (Inr []), r])"
    using demo_calls_finish by blast
  have start: "shared_inv bt_inv (shared_new [] :: simple_store rw_lock)"
    by (simp add: shared_inv_def unlocked_def shared_new_def bt_inv_def)
  have fits: "\<forall>c \<in> set demo_calls. call_fits (\<lambda>_. True) (\<lambda>_. True) c"
    by (simp add: call_fits_def split: option.splits)
  have disj: "\<forall>i j. i < length demo_calls \<and> j < length demo_calls \<and> i \<noteq> j \<longrightarrow>
      call_keys (demo_calls ! i) \<inter> call_keys (demo_calls ! j) = {}"
    by (auto simp: demo_calls_def call_keys_def less_Suc_eq nth_Cons')
  note iso = concurrent_table_updates_isolated[OF async_memory.atomic.kvq_async_axioms
      u64_ser.kvq_serializable_axioms byte_vec_ser.kvq_serializable_axioms start fits disj run]
  have "2 \<in> call_keys (demo_calls ! 0)" "call_leaves (demo_calls ! 0) 2 = Some [8]"
    by (simp_all add: demo_calls_def call_keys_def call_leaves_def)
  then have two: "snd (run_task (async_get_exact_if_exists demo_async (int_codec 8) byte_vec_codec (2 :: u64)) s') = Inr (Some [8])"
    using iso[THEN conjunct1, rule_format, of 0 "Inr []"] by (simp add: demo_calls_def)
  have "\<forall>c \<in> set demo_calls. 9 \<notin> call_keys c" by (simp add: demo_calls_def call_keys_def)
  then have "snd (run_task (async_get_exact_if_exists demo_async (int_codec 8) byte_vec_codec (9 :: u64)) s')
      = snd (run_task (async_get_exact_if_exists demo_async (int_codec 8) byte_vec_codec (9 :: u64)) (shared_new []))"
    by (rule iso[THEN conjunct2, THEN spec, THEN mp, OF conjI[OF TrueI]])
  moreover have "snd (run_task (async_get_exact_if_exists demo_async (int_codec 8) byte_vec_codec (9 :: u64)) (shared_new []))
      = Inr None"
    using async_u64_table.read_alone[OF start, of 9]
    by (simp add: shared_view_def shared_new_def bt_get_def)
  ultimately show ?thesis using run two by auto
qed

end
