(* ===== verification/Proof_Store_Async.thy ===== *)
theory Proof_Store_Async
  imports Proof_Store Kvq_Store Async
begin

text \<open>
  The asynchronous and the immutable half of \<open>job/traits.rs\<close>: the default methods of
  \<open>QProofStoreReaderAsync\<close>, \<open>QProofStoreWriterAsyncImm\<close> and \<open>QProofStoreWriterSyncImm\<close>. They write
  the same entries as the synchronous half, but between two of them other tasks run. The crate has no
  implementation of these traits; the store is a parameter, whose contract says of each write that it
  changes its own entry only, from what it was to what is written.
\<close>

record 's async_proof_reader =
  ap_get_bytes_by_id :: "job_data_id \<Rightarrow> ('s, bytes res) task"
  ap_contains_id :: "job_data_id \<Rightarrow> ('s, bool res) task"

record 's async_proof_store = "'s async_proof_reader" +
  ap_set_bytes_by_id :: "job_data_id \<Rightarrow> bytes \<Rightarrow> ('s, unit res) task"

section \<open>Readers\<close>

definition async_get_obj_by_id ::
  "'s async_proof_store \<Rightarrow> (bytes \<Rightarrow> 't res) \<Rightarrow> job_data_id \<Rightarrow> ('s, 't res) task" where
  "async_get_obj_by_id A deserialize v =
     task_then (ap_get_bytes_by_id A v) (\<lambda>bs. now (deserialize bs))"

definition async_get_goal_by_job_id :: "'s async_proof_store \<Rightarrow> job_data_id \<Rightarrow> ('s, u32 res) task" where
  "async_get_goal_by_job_id A v =
     (let counter_id = get_sub_group_counter_id v;
          goal_id = get_sub_group_counter_goal_id counter_id
      in
      task_then (ap_get_bytes_by_id A goal_id) (\<lambda>goal.
      now (if length goal \<noteq> 4 then Inl (Panic ''called Result::unwrap() on an Err value'')
           else Inr (from_le_bytes goal))))"

definition async_get_next_jobs_by_job_id ::
  "'s async_proof_store \<Rightarrow> bincode \<Rightarrow> job_data_id \<Rightarrow> ('s, job_data_id list res) task" where
  "async_get_next_jobs_by_job_id A Z v =
     (let counter_id = get_sub_group_counter_id v;
          next_jobs_id = get_sub_group_counter_goal_next_jobs_id counter_id
      in
      task_then (ap_get_bytes_by_id A next_jobs_id) (\<lambda>next_jobs.
      now (ok_or (jobs_deserialize Z next_jobs) (Err ''malformed next jobs''))))"

section \<open>Writers\<close>

definition async_set_obj_by_id ::
  "'s async_proof_store \<Rightarrow> ('t \<Rightarrow> bytes res) \<Rightarrow> job_data_id \<Rightarrow> 't \<Rightarrow> ('s, unit res) task" where
  "async_set_obj_by_id A serialize v obj =
     task_then (now (serialize obj)) (\<lambda>bs. task_then (ap_set_bytes_by_id A v bs) (\<lambda>_. now (Inr ())))"

definition async_set_bytes_by_id_batch_core ::
  "'s async_proof_store \<Rightarrow> (job_data_id, bytes) kvq_pair list \<Rightarrow> ('s, unit res) task" where
  "async_set_bytes_by_id_batch_core A kv_pairs =
     try_for (\<lambda>p. ap_set_bytes_by_id A (pair_key p) (pair_value p)) kv_pairs"

definition async_write_next_jobs_core ::
  "'s async_proof_store \<Rightarrow> bincode \<Rightarrow> job_data_id list \<Rightarrow> job_data_id list \<Rightarrow> ('s, unit res) task" where
  "async_write_next_jobs_core A Z jobs next_jobs =
     task_then (now (index jobs 0)) (\<lambda>first.
     let counter_id = get_sub_group_counter_id first;
         goal_id = get_sub_group_counter_goal_id counter_id;
         next_jobs_id = get_sub_group_counter_goal_next_jobs_id counter_id
     in
     task_then (ap_set_bytes_by_id A counter_id (to_le_bytes 4 (0 :: u32))) (\<lambda>_.
     task_then (ap_set_bytes_by_id A goal_id (to_le_bytes 4 (word_of_nat (length jobs) :: u32))) (\<lambda>_.
     task_then (now (jobs_serialize Z next_jobs)) (\<lambda>next_bytes.
     ap_set_bytes_by_id A next_jobs_id next_bytes))))"

text \<open>The loop over the levels has the body of \<open>write_next_jobs_core\<close>.\<close>

fun async_write_multidimensional_jobs_core ::
  "'s async_proof_store \<Rightarrow> bincode \<Rightarrow> job_data_id list list \<Rightarrow> job_data_id list \<Rightarrow> ('s, unit res) task" where
  "async_write_multidimensional_jobs_core A Z [] next_jobs = now (Inr ())"
| "async_write_multidimensional_jobs_core A Z (level # levels) next_jobs =
     task_then (async_write_next_jobs_core A Z level (case levels of [] \<Rightarrow> next_jobs | l # _ \<Rightarrow> l)) (\<lambda>_.
     async_write_multidimensional_jobs_core A Z levels next_jobs)"

section \<open>The immutable writer\<close>

text \<open>Through a shared reference the entries written before a failure stay.\<close>

type_synonym 's imm_set_bytes = "'s \<Rightarrow> job_data_id \<Rightarrow> bytes \<Rightarrow> 's \<times> unit res"

definition imm_then :: "'s \<times> 'a res \<Rightarrow> ('s \<Rightarrow> 'a \<Rightarrow> 's \<times> 'b res) \<Rightarrow> 's \<times> 'b res" where
  "imm_then r f = (case r of (s, Inl e) \<Rightarrow> (s, Inl e) | (s, Inr x) \<Rightarrow> f s x)"

definition write_next_jobs_core_imm ::
  "'s imm_set_bytes \<Rightarrow> bincode \<Rightarrow> 's \<Rightarrow> job_data_id list \<Rightarrow> job_data_id list \<Rightarrow> 's \<times> unit res" where
  "write_next_jobs_core_imm P Z s jobs next_jobs =
     imm_then (s, index jobs 0) (\<lambda>s first.
     let counter_id = get_sub_group_counter_id first;
         goal_id = get_sub_group_counter_goal_id counter_id;
         next_jobs_id = get_sub_group_counter_goal_next_jobs_id counter_id
     in
     imm_then (P s counter_id (to_le_bytes 4 (0 :: u32))) (\<lambda>s _.
     imm_then (P s goal_id (to_le_bytes 4 (word_of_nat (length jobs) :: u32))) (\<lambda>s _.
     imm_then (s, jobs_serialize Z next_jobs) (\<lambda>s next_bytes.
     P s next_jobs_id next_bytes))))"

fun write_multidimensional_jobs_core_imm ::
  "'s imm_set_bytes \<Rightarrow> bincode \<Rightarrow> 's \<Rightarrow> job_data_id list list \<Rightarrow> job_data_id list \<Rightarrow> 's \<times> unit res" where
  "write_multidimensional_jobs_core_imm P Z s [] next_jobs = (s, Inr ())"
| "write_multidimensional_jobs_core_imm P Z s (level # levels) next_jobs =
     imm_then (write_next_jobs_core_imm P Z s level (case levels of [] \<Rightarrow> next_jobs | l # _ \<Rightarrow> l)) (\<lambda>s _.
     write_multidimensional_jobs_core_imm P Z s levels next_jobs)"

text \<open>A store whose calls are one step: alone, the asynchronous writer is the immutable one.\<close>

definition atomic_proof_store ::
  "('s \<Rightarrow> job_data_id \<Rightarrow> bytes res) \<Rightarrow> 's imm_set_bytes \<Rightarrow> 's async_proof_store" where
  "atomic_proof_store get P =
     \<lparr>ap_get_bytes_by_id = (\<lambda>v. call (\<lambda>s. (s, get s v))),
      ap_contains_id = (\<lambda>v. call (\<lambda>s. (s, Inr (is_ok (get s v))))),
      ap_set_bytes_by_id = (\<lambda>v bs. call (\<lambda>s. P s v bs))\<rparr>"

lemma run_then_imm: "run_task (task_then t f) s = imm_then (run_task t s) (\<lambda>s x. run_task (f x) s)"
  by (simp add: imm_then_def split: prod.splits sum.splits)

lemma async_next_jobs_alone:
  "run_task (async_write_next_jobs_core (atomic_proof_store get P) Z jobs next_jobs) s
   = write_next_jobs_core_imm P Z s jobs next_jobs"
  by (simp add: async_write_next_jobs_core_def write_next_jobs_core_imm_def Let_def run_then_imm
      atomic_proof_store_def del: run_task_then task_then.simps)

lemma async_levels_alone:
  "run_task (async_write_multidimensional_jobs_core (atomic_proof_store get P) Z levels next_jobs) s
   = write_multidimensional_jobs_core_imm P Z s levels next_jobs"
  by (induction levels arbitrary: s) (simp_all add: run_then_imm async_next_jobs_alone del: run_task_then)

text \<open>And over a store whose writes do not fail it is the synchronous one.\<close>

lemma imm_next_jobs_eq:
  assumes "\<And>s v bs. \<exists>s'. P s v bs = (s', Inr ()) \<and> set_bytes_by_id S s v bs = Inr s'"
  shows "write_group S Z s jobs next_jobs
     = (case write_next_jobs_core_imm P Z s jobs next_jobs of (s', Inl e) \<Rightarrow> Inl e | (s', Inr _) \<Rightarrow> Inr s')"
proof (cases "index jobs 0")
  case (Inl e)
  then show ?thesis by (simp add: write_group_def write_next_jobs_core_imm_def imm_then_def)
next
  case (Inr first)
  let ?c = "get_sub_group_counter_id first"
  obtain s1 where s1: "P s ?c (to_le_bytes 4 (0 :: u32)) = (s1, Inr ())"
    "set_bytes_by_id S s ?c (to_le_bytes 4 (0 :: u32)) = Inr s1" using assms by blast
  obtain s2 where s2: "P s1 (goal_of ?c) (to_le_bytes 4 (word_of_nat (length jobs) :: u32)) = (s2, Inr ())"
    "set_bytes_by_id S s1 (goal_of ?c) (to_le_bytes 4 (word_of_nat (length jobs) :: u32)) = Inr s2" using assms by blast
  show ?thesis
  proof (cases "jobs_serialize Z next_jobs")
    case ser: (Inr bs)
    obtain s3 where "P s2 (next_of ?c) bs = (s3, Inr ())" "set_bytes_by_id S s2 (next_of ?c) bs = Inr s3"
      using assms by blast
    then show ?thesis
      by (simp add: write_group_def write_next_jobs_core_imm_def imm_then_def Inr s1 s2 ser Let_def)
  qed (simp add: write_group_def write_next_jobs_core_imm_def imm_then_def Inr s1 s2 Let_def)
qed

section \<open>What writing guarantees\<close>

text \<open>
  The contract. A write changes its entry only, to what is written; it relies on no one else writing
  this entry. A read answers the entry.
\<close>

definition async_store_laws :: "'s async_proof_store \<Rightarrow> ('s \<Rightarrow> job_data_id \<Rightarrow> bytes option) \<Rightarrow> bool" where
  "async_store_laws A V \<longleftrightarrow>
     (\<forall>v bs. rely_guarantee (\<lambda>s s'. V s' v = V s v)
        (\<lambda>s s'. (\<forall>u. u \<noteq> v \<longrightarrow> V s' u = V s u) \<and> V s' v \<in> {V s v, Some bs})
        (\<lambda>r s. r = Inr () \<and> V s v = Some bs) (\<lambda>_. True) (ap_set_bytes_by_id A v bs))
     \<and> (\<forall>s v. \<exists>e. snd (run_task (ap_get_bytes_by_id A v) s) = ok_or (V s v) e)"

text \<open>A group of jobs with the jobs that follow it, and its three entries.\<close>

type_synonym job_group = "job_data_id list \<times> job_data_id list"

definition entries_of :: "job_group \<Rightarrow> job_data_id set" where
  "entries_of g = (let c = group_of (fst g) in {c, goal_of c, next_of c})"

definition goal_written :: "('s \<Rightarrow> job_data_id \<Rightarrow> bytes option) \<Rightarrow> 's \<Rightarrow> job_group \<Rightarrow> bool" where
  "goal_written V s g \<longleftrightarrow> V s (group_of (fst g)) = Some (to_le_bytes 4 (0 :: u32))
     \<and> V s (goal_of (group_of (fst g))) = Some (to_le_bytes 4 (word_of_nat (length (fst g)) :: u32))"

definition group_ready :: "('s \<Rightarrow> job_data_id \<Rightarrow> bytes option) \<Rightarrow> bincode \<Rightarrow> 's \<Rightarrow> job_group \<Rightarrow> bool" where
  "group_ready V Z s g \<longleftrightarrow> goal_written V s g
     \<and> (\<exists>bs. V s (next_of (group_of (fst g))) = Some bs \<and> jobs_deserialize Z bs = Some (snd g))"

text \<open>The next jobs are not there before the goal and the counter are.\<close>

definition published :: "('s \<Rightarrow> job_data_id \<Rightarrow> bytes option) \<Rightarrow> bincode \<Rightarrow> 's \<Rightarrow> job_group \<Rightarrow> bool" where
  "published V Z s g \<longleftrightarrow> V s (next_of (group_of (fst g))) \<noteq> None \<longrightarrow> group_ready V Z s g"

definition keeps_to :: "('s \<Rightarrow> job_data_id \<Rightarrow> bytes option) \<Rightarrow> job_data_id set \<Rightarrow> 's \<Rightarrow> 's \<Rightarrow> bool" where
  "keeps_to V E s s' \<longleftrightarrow> agree V (- E) s s'"

lemma group_ready_agree: "agree V (entries_of g) s s' \<Longrightarrow> group_ready V Z s g = group_ready V Z s' g"
  by (simp add: agree_def entries_of_def Let_def group_ready_def goal_written_def)

lemma published_agree: "agree V (entries_of g) s s' \<Longrightarrow> published V Z s g = published V Z s' g"
  using group_ready_agree[of V g s s' Z] by (simp add: agree_def entries_of_def Let_def published_def)

lemma entries_disjoint:
  "group_of (fst g) \<noteq> group_of (fst h) \<Longrightarrow> entries_of g \<inter> entries_of h = {}"
  by (auto simp: entries_of_def Let_def group_of_def)

lemma write_next_jobs_rg:
  assumes laws: "async_store_laws A V" "bincode_laws Z" and "fst g \<noteq> []"
    and D: "stable D R" "\<And>s s'. D s \<Longrightarrow> agree V (- entries_of g) s s' \<Longrightarrow> D s'"
    and R: "\<And>s s'. R s s' \<Longrightarrow> agree V (entries_of g) s s'"
    and G: "\<And>s s'. agree V (- entries_of g) s s' \<Longrightarrow> (published V Z s g \<Longrightarrow> published V Z s' g) \<Longrightarrow> G s s'"
  shows "rely_guarantee R G (\<lambda>r s. r = Inr () \<and> group_ready V Z s g \<and> D s) D
    (async_write_next_jobs_core A Z (fst g) (snd g))"
proof -
  let ?c = "group_of (fst g)"
  let ?zero = "to_le_bytes 4 (0 :: u32)" and ?goal = "to_le_bytes 4 (word_of_nat (length (fst g)) :: u32)"
  obtain bs where bs: "jobs_serialize Z (snd g) = Inr bs" "jobs_deserialize Z bs = Some (snd g)"
    using laws(2) unfolding bincode_laws_def by blast
  have set: "rely_guarantee (\<lambda>s s'. V s' v = V s v)
      (\<lambda>s s'. (\<forall>u. u \<noteq> v \<longrightarrow> V s' u = V s u) \<and> V s' v \<in> {V s v, Some b})
      (\<lambda>r s. r = Inr () \<and> V s v = Some b) (\<lambda>_. True) (ap_set_bytes_by_id A v b)" for v b
    using laws(1) unfolding async_store_laws_def by blast
  have own: "V s' v = V s v" if "R s s'" "v \<in> {?c, goal_of ?c, next_of ?c}" for s s' v
    using R[OF that(1)] that(2) by (auto simp: agree_def entries_of_def Let_def)
  have c: "get_sub_group_counter_id (fst g ! 0) = ?c" "index (fst g) 0 = Inr (fst g ! 0)"
    using assms(3) by (simp_all add: group_of_def hd_conv_nth index_def)
  have put: "rely_guarantee R G (\<lambda>r s. r = Inr () \<and> V s v = Some b \<and> F s) F (ap_set_bytes_by_id A v b)"
    if F: "stable F R" "\<And>s s'. F s \<Longrightarrow> agree V (- {v}) s s' \<Longrightarrow> F s'" and v: "v \<in> {?c, goal_of ?c, next_of ?c}"
      and pub: "\<And>s s'. F s \<Longrightarrow> published V Z s g \<Longrightarrow> agree V (- {v}) s s' \<Longrightarrow> V s' v \<in> {V s v, Some b} \<Longrightarrow> published V Z s' g"
    for F v b
  proof -
    have "rely_guarantee R G (\<lambda>r s. r = Inr () \<and> V s v = Some b \<and> F s) (\<lambda>s. True \<and> F s) (ap_set_bytes_by_id A v b)"
    proof (rule rg_frame[OF set F(1)])
      fix s s' assume s: "F s" "(\<forall>u. u \<noteq> v \<longrightarrow> V s' u = V s u) \<and> V s' v \<in> {V s v, Some b}"
      then have a: "agree V (- {v}) s s'" by (simp add: agree_def)
      have "agree V (- entries_of g) s s'" using a v by (auto simp: entries_of_def Let_def intro: agree_mono)
      then show "G s s' \<and> F s'" using G pub[OF s(1) _ a] s F(2)[OF s(1) a] by blast
    qed (use own[OF _ v] in auto)
    then show ?thesis by simp
  qed
  have keep: "D s'" if "D s" "agree V (- {v}) s s'" "v \<in> {?c, goal_of ?c, next_of ?c}" for s s' v
    using D(2)[OF that(1)] that(2,3) by (auto simp: entries_of_def Let_def intro: agree_mono)
  let ?D1 = "\<lambda>s. V s ?c = Some ?zero \<and> D s"
  let ?D2 = "\<lambda>s. V s (goal_of ?c) = Some ?goal \<and> ?D1 s"
  have st: "stable (\<lambda>s. V s v = Some b) R" if "v \<in> {?c, goal_of ?c, next_of ?c}" for v b
    using own[OF _ that] by (simp add: stable_def)
  have st1: "stable ?D1 R" by (intro stable_conj st D(1)) simp
  have st2: "stable ?D2 R" by (intro stable_conj st st1) simp
  have 1: "rely_guarantee R G (\<lambda>r s. r = Inr () \<and> V s ?c = Some ?zero \<and> D s) D (ap_set_bytes_by_id A ?c ?zero)"
    by (rule put[OF D(1) keep]) (auto simp: published_def group_ready_def goal_written_def agree_def group_of_def)
  have 2: "rely_guarantee R G (\<lambda>r s. r = Inr () \<and> V s (goal_of ?c) = Some ?goal \<and> ?D1 s) ?D1 (ap_set_bytes_by_id A (goal_of ?c) ?goal)"
    by (rule put[OF st1]) (auto simp: published_def group_ready_def goal_written_def agree_def group_of_def intro: keep)
  have 3: "rely_guarantee R G (\<lambda>r s. r = Inr () \<and> V s (next_of ?c) = Some bs \<and> ?D2 s) ?D2 (ap_set_bytes_by_id A (next_of ?c) bs)"
    by (rule put[OF st2]) (auto simp: published_def group_ready_def goal_written_def agree_def group_of_def bs(2) intro: keep)
  let ?Q = "\<lambda>r s. r = Inr () \<and> group_ready V Z s g \<and> D s"
  have 4: "rely_guarantee R G ?Q ?D2 (ap_set_bytes_by_id A (next_of ?c) bs)"
    by (rule rg_post[OF 3]) (simp add: group_ready_def goal_written_def bs(2))
  show ?thesis
    unfolding async_write_next_jobs_core_def c Let_def task_then.simps sum.case bs(1)
    by (rule rg_then[where M = "\<lambda>_. ?D1"], rule rg_post[OF 1], simp, rule rg_then[where M = "\<lambda>_. ?D2"],
        rule rg_post[OF 2], simp, rule 4)
qed

section \<open>Writing all levels\<close>

fun groups_of :: "job_data_id list list \<Rightarrow> job_data_id list \<Rightarrow> job_group list" where
  "groups_of [] next_jobs = []"
| "groups_of (level # levels) next_jobs =
     (level, case levels of [] \<Rightarrow> next_jobs | l # _ \<Rightarrow> l) # groups_of levels next_jobs"

lemma map_fst_groups_of [simp]: "map fst (groups_of levels next_jobs) = levels"
  by (induction levels) simp_all

lemma length_groups_of [simp]: "length (groups_of levels next_jobs) = length levels"
  by (metis length_map map_fst_groups_of)

lemma nth_groups_of: "i < length levels \<Longrightarrow> groups_of levels next_jobs ! i = (levels ! i, (levels @ [next_jobs]) ! Suc i)"
proof (induction levels arbitrary: i)
  case (Cons level levels)
  then show ?case by (cases i; cases levels) simp_all
qed simp

lemma levels_rg:
  assumes laws: "async_store_laws A V" "bincode_laws Z"
  shows "\<lbrakk>\<forall>level \<in> set levels. level \<noteq> []; distinct (map group_of levels); stable D R;
     \<And>g s s'. g \<in> set (groups_of levels next_jobs) \<Longrightarrow> D s \<Longrightarrow> agree V (- entries_of g) s s' \<Longrightarrow> D s';
     \<And>g s s'. g \<in> set (groups_of levels next_jobs) \<Longrightarrow> R s s' \<Longrightarrow> agree V (entries_of g) s s';
     \<And>g s s'. g \<in> set (groups_of levels next_jobs) \<Longrightarrow> agree V (- entries_of g) s s' \<Longrightarrow>
        (published V Z s g \<Longrightarrow> published V Z s' g) \<Longrightarrow> G s s'\<rbrakk> \<Longrightarrow>
     rely_guarantee R G (\<lambda>r s. r = Inr () \<and> (\<forall>g \<in> set (groups_of levels next_jobs). group_ready V Z s g) \<and> D s) D
       (async_write_multidimensional_jobs_core A Z levels next_jobs)"
proof (induction levels arbitrary: D)
  case Nil
  then show ?case by (auto intro: rg_Done)
next
  case (Cons level levels)
  let ?next = "case levels of [] \<Rightarrow> next_jobs | l # _ \<Rightarrow> l"
  let ?g = "(level, ?next)"
  let ?D = "\<lambda>s. group_ready V Z s ?g \<and> D s"
  have g: "?g \<in> set (groups_of (level # levels) next_jobs)" by simp
  have first: "rely_guarantee R G (\<lambda>r s. r = Inr () \<and> ?D s) D (async_write_next_jobs_core A Z level ?next)"
    using write_next_jobs_rg[OF laws, of ?g D R G] Cons.prems(1,3) Cons.prems(4-6)[OF g] by simp
  have other: "entries_of h \<inter> entries_of ?g = {}" if "h \<in> set (groups_of levels next_jobs)" for h
  proof (rule entries_disjoint)
    have "fst h \<in> set levels" using that by (metis image_eqI map_fst_groups_of list.set_map)
    from imageI[OF this, of group_of] show "group_of (fst h) \<noteq> group_of (fst ?g)" using Cons.prems(2) by auto
  qed
  have st: "stable ?D R"
    using Cons.prems(3) group_ready_agree[OF Cons.prems(5)[OF g]] unfolding stable_def by blast
  have keep: "?D s'" if h: "h \<in> set (groups_of levels next_jobs)" and D: "?D s" and a: "agree V (- entries_of h) s s'" for h s s'
  proof -
    have "agree V (entries_of ?g) s s'" using a other[OF h] by (auto intro: agree_mono)
    then show ?thesis using D group_ready_agree[of V ?g s s' Z] Cons.prems(4)[OF _ _ a] h by auto
  qed
  have tail: "g \<in> set (groups_of (level # levels) next_jobs)" if "g \<in> set (groups_of levels next_jobs)" for g
    using that by simp
  have levels: "\<forall>level \<in> set levels. level \<noteq> []" "distinct (map group_of levels)" using Cons.prems(1,2) by simp_all
  have "rely_guarantee R G
      (\<lambda>r s. r = Inr () \<and> (\<forall>g \<in> set (groups_of levels next_jobs). group_ready V Z s g) \<and> ?D s) ?D
      (async_write_multidimensional_jobs_core A Z levels next_jobs)"
    by (rule Cons.IH[OF levels st keep Cons.prems(5)[OF tail] Cons.prems(6)[OF tail]])
  then have rest: "rely_guarantee R G (\<lambda>r s. r = Inr () \<and> (\<forall>g \<in> set (groups_of (level # levels) next_jobs). group_ready V Z s g) \<and> D s) ?D
      (async_write_multidimensional_jobs_core A Z levels next_jobs)"
    by (rule rg_post) auto
  show ?case
    unfolding async_write_multidimensional_jobs_core.simps
    by (rule rg_then[where M = "\<lambda>_. ?D"], rule rg_post[OF first], simp, rule rest)
qed

section \<open>Reading while others write\<close>

lemma read_entry:
  assumes "async_store_laws A V"
  obtains e where "snd (run_task (ap_get_bytes_by_id A v) s) = ok_or (V s v) e"
  using assms unfolding async_store_laws_def by blast

lemma group_ready_reads:
  assumes "async_store_laws A V" and "group_ready V Z s g" and "is_group (fst g)" and "v \<in> set (fst g)"
  shows "snd (run_task (async_get_next_jobs_by_job_id A Z v) s) = Inr (snd g)"
    and "snd (run_task (async_get_goal_by_job_id A v) s) = Inr (word_of_nat (length (fst g)))"
    and "snd (run_task (ap_get_bytes_by_id A (get_sub_group_counter_id v)) s) = Inr (to_le_bytes 4 (0 :: u32))"
proof -
  have c: "get_sub_group_counter_id v = group_of (fst g)" using assms(3,4) by (simp add: is_group_def)
  obtain bs where bs: "V s (next_of (group_of (fst g))) = Some bs" "jobs_deserialize Z bs = Some (snd g)"
    using assms(2) unfolding group_ready_def by blast
  have goal: "goal_written V s g" using assms(2) by (simp add: group_ready_def)
  obtain e where "snd (run_task (ap_get_bytes_by_id A (next_of (group_of (fst g)))) s) = Inr bs"
    using read_entry[OF assms(1)] bs(1) by (metis ok_or_def option.simps(5))
  then show "snd (run_task (async_get_next_jobs_by_job_id A Z v) s) = Inr (snd g)"
    by (cases "run_task (ap_get_bytes_by_id A (next_of (group_of (fst g)))) s")
      (simp add: async_get_next_jobs_by_job_id_def Let_def c bs(2) ok_or_def)
  have "snd (run_task (ap_get_bytes_by_id A (goal_of (group_of (fst g)))) s) = Inr (to_le_bytes 4 (word_of_nat (length (fst g)) :: u32))"
    using read_entry[OF assms(1)] goal by (metis goal_written_def ok_or_def option.simps(5))
  then show "snd (run_task (async_get_goal_by_job_id A v) s) = Inr (word_of_nat (length (fst g)))"
    by (cases "run_task (ap_get_bytes_by_id A (goal_of (group_of (fst g)))) s")
      (simp add: async_get_goal_by_job_id_def Let_def c u32_le_roundtrip)
  show "snd (run_task (ap_get_bytes_by_id A (get_sub_group_counter_id v)) s) = Inr (to_le_bytes 4 (0 :: u32))"
    unfolding c using read_entry[OF assms(1)] goal by (metis goal_written_def ok_or_def option.simps(5))
qed

lemma next_jobs_read_present:
  assumes "async_store_laws A V" and "is_group (fst g)" and "v \<in> set (fst g)"
    and "snd (run_task (async_get_next_jobs_by_job_id A Z v) s) = Inr ns"
  shows "V s (next_of (group_of (fst g))) \<noteq> None"
proof
  assume none: "V s (next_of (group_of (fst g))) = None"
  have c: "get_sub_group_counter_id v = group_of (fst g)" using assms(2,3) by (simp add: is_group_def)
  obtain e where "snd (run_task (ap_get_bytes_by_id A (next_of (group_of (fst g)))) s) = Inl e"
    using read_entry[OF assms(1)] none by (metis ok_or_def option.simps(4))
  then show False using assms(4)
    by (cases "run_task (ap_get_bytes_by_id A (next_of (group_of (fst g)))) s")
      (simp add: async_get_next_jobs_by_job_id_def Let_def c)
qed

text \<open>A job graph to write: its levels and the jobs after the last.\<close>

type_synonym job_graph = "job_data_id list list \<times> job_data_id list"

abbreviation graph_task :: "'s async_proof_store \<Rightarrow> bincode \<Rightarrow> job_graph \<Rightarrow> ('s, unit res) task" where
  "graph_task A Z w \<equiv> async_write_multidimensional_jobs_core A Z (fst w) (snd w)"

definition graphs_separate :: "job_graph list \<Rightarrow> bool" where
  "graphs_separate ws \<longleftrightarrow>
     (\<forall>w \<in> set ws. (\<forall>level \<in> set (fst w). is_group level) \<and> distinct (map group_of (fst w)))
     \<and> (\<forall>i < length ws. \<forall>j < length ws. i \<noteq> j \<longrightarrow> group_of ` set (fst (ws ! i)) \<inter> group_of ` set (fst (ws ! j)) = {})"

definition graph_groups :: "job_graph list \<Rightarrow> nat \<Rightarrow> job_group list" where
  "graph_groups ws i = (if i < length ws then groups_of (fst (ws ! i)) (snd (ws ! i)) else [])"

definition graph_entries :: "job_graph list \<Rightarrow> nat \<Rightarrow> job_data_id set" where
  "graph_entries ws i = \<Union>(entries_of ` set (graph_groups ws i))"

lemma graph_group_level: "g \<in> set (graph_groups ws i) \<Longrightarrow> i < length ws \<and> fst g \<in> set (fst (ws ! i))"
  by (auto simp: graph_groups_def split: if_splits) (metis image_eqI fst_conv map_fst_groups_of list.set_map)

lemma graph_entries_disjoint:
  assumes "graphs_separate ws" and "i \<noteq> j"
  shows "graph_entries ws i \<inter> graph_entries ws j = {}"
proof -
  have "entries_of g \<inter> entries_of h = {}" if "g \<in> set (graph_groups ws i)" "h \<in> set (graph_groups ws j)" for g h
  proof (rule entries_disjoint)
    have "group_of ` set (fst (ws ! i)) \<inter> group_of ` set (fst (ws ! j)) = {}"
      using graph_group_level[OF that(1)] graph_group_level[OF that(2)] assms unfolding graphs_separate_def by blast
    then show "group_of (fst g) \<noteq> group_of (fst h)"
      using graph_group_level[OF that(1)] graph_group_level[OF that(2)] by (auto simp: disjoint_iff)
  qed
  then show ?thesis unfolding graph_entries_def by blast
qed

lemma graph_group_other:
  assumes "graphs_separate ws" and "g \<in> set (graph_groups ws i)" and "h \<in> set (graph_groups ws i)" and "g \<noteq> h"
  shows "entries_of g \<inter> entries_of h = {}"
proof (rule entries_disjoint)
  have i: "i < length ws" using graph_group_level[OF assms(2)] by simp
  let ?gs = "graph_groups ws i"
  have "map (group_of \<circ> fst) ?gs = map group_of (fst (ws ! i))"
    using i by (simp add: graph_groups_def map_map[symmetric] del: map_map)
  moreover have "distinct (map group_of (fst (ws ! i)))" using assms(1) i by (simp add: graphs_separate_def)
  ultimately have "inj_on (group_of \<circ> fst) (set ?gs)" by (metis distinct_map)
  then show "group_of (fst g) \<noteq> group_of (fst h)" using assms(2-4) by (auto simp: inj_on_def)
qed

definition graph_step :: "('s \<Rightarrow> job_data_id \<Rightarrow> bytes option) \<Rightarrow> bincode \<Rightarrow> job_graph list \<Rightarrow> nat \<Rightarrow> 's \<Rightarrow> 's \<Rightarrow> bool" where
  "graph_step V Z ws i s s' \<longleftrightarrow> agree V (- graph_entries ws i) s s'
     \<and> (\<forall>g \<in> set (graph_groups ws i). published V Z s g \<longrightarrow> published V Z s' g)"

lemma graph_rg:
  assumes laws: "async_store_laws A V" "bincode_laws Z" and ws: "graphs_separate ws" and i: "i < length ws"
  shows "rely_guarantee (agree V (graph_entries ws i)) (graph_step V Z ws i)
    (\<lambda>r s. r = Inr () \<and> (\<forall>g \<in> set (graph_groups ws i). group_ready V Z s g)) (\<lambda>_. True) (graph_task A Z (ws ! i))"
proof -
  have gs: "groups_of (fst (ws ! i)) (snd (ws ! i)) = graph_groups ws i" using i by (simp add: graph_groups_def)
  have w: "\<forall>level \<in> set (fst (ws ! i)). level \<noteq> []" "distinct (map group_of (fst (ws ! i)))"
    using ws i by (auto simp: graphs_separate_def is_group_def)
  have step: "graph_step V Z ws i s s'"
    if g: "g \<in> set (graph_groups ws i)" and a: "agree V (- entries_of g) s s'"
      and p: "published V Z s g \<Longrightarrow> published V Z s' g" for g s s'
  proof -
    have "- graph_entries ws i \<subseteq> - entries_of g" using g by (auto simp: graph_entries_def)
    moreover have "published V Z s' h" if h: "h \<in> set (graph_groups ws i)" "published V Z s h" for h
    proof (cases "h = g")
      case False
      then have "entries_of h \<inter> entries_of g = {}" using graph_group_other[OF ws h(1) g] by blast
      then have "agree V (entries_of h) s s'" by (intro agree_mono[OF a]) blast
      from published_agree[OF this, of Z] show ?thesis using h(2) by blast
    qed (use p h(2) in blast)
    ultimately show ?thesis using a by (auto simp: graph_step_def intro: agree_mono)
  qed
  have own: "agree V (entries_of g) s s'" if "g \<in> set (graph_groups ws i)" "agree V (graph_entries ws i) s s'" for g s s'
    using that by (auto simp: graph_entries_def intro: agree_mono)
  have "rely_guarantee (agree V (graph_entries ws i)) (graph_step V Z ws i)
    (\<lambda>r s. r = Inr () \<and> (\<forall>g \<in> set (graph_groups ws i). group_ready V Z s g) \<and> True) (\<lambda>_. True) (graph_task A Z (ws ! i))"
    by (rule levels_rg[OF laws w, where D = "\<lambda>_. True" and R = "agree V (graph_entries ws i)" and G = "graph_step V Z ws i"
        and next_jobs = "snd (ws ! i)", unfolded gs]) (rule stable_True TrueI | fact own step)+
  then show ?thesis by simp
qed

lemma graphs_published:
  assumes laws: "async_store_laws A V" "bincode_laws Z" and ws: "graphs_separate ws"
    and fresh: "\<forall>w \<in> set ws. \<forall>level \<in> set (fst w). V s (next_of (group_of level)) = None"
    and run: "run_schedule is (s, map (graph_task A Z) ws) = (s', ts')"
  shows "g \<in> set (graph_groups ws i) \<Longrightarrow> published V Z s' g"
    and "i < length ws \<Longrightarrow> ts' ! i = Done r \<Longrightarrow> r = Inr () \<and> (\<forall>g \<in> set (graph_groups ws i). group_ready V Z s' g)"
proof -
  let ?Inv = "\<lambda>s. \<forall>i. \<forall>g \<in> set (graph_groups ws i). published V Z s g"
  let ?Q = "\<lambda>i r s. r = Inr () \<and> (\<forall>g \<in> set (graph_groups ws i). group_ready V Z s g)"
  have rely: "agree V (graph_entries ws j) s s'" if "i \<noteq> j" "graph_step V Z ws i s s'" for i j s s'
    using that graph_entries_disjoint[OF ws that(1)] by (auto simp: graph_step_def intro: agree_mono)
  have inv: "?Inv s'" if I: "?Inv s" and st: "graph_step V Z ws i s s'" for i s s'
  proof (intro allI ballI)
    fix j g assume g: "g \<in> set (graph_groups ws j)"
    show "published V Z s' g"
    proof (cases "i = j")
      case False
      have "agree V (entries_of g) s s'" using rely[OF False st] g by (auto simp: graph_entries_def intro: agree_mono)
      from published_agree[OF this, of Z] show ?thesis using I g by blast
    qed (use I st g in \<open>auto simp: graph_step_def\<close>)
  qed
  have start: "?Inv s"
  proof (intro allI ballI)
    fix i g assume "g \<in> set (graph_groups ws i)"
    from graph_group_level[OF this] have "V s (next_of (group_of (fst g))) = None" using fresh by auto
    then show "published V Z s g" by (simp add: published_def)
  qed
  have each: "True \<and> rely_guarantee (agree V (graph_entries ws i)) (graph_step V Z ws i) (?Q i) (\<lambda>_. True) (map (graph_task A Z) ws ! i)"
    if "i < length (map (graph_task A Z) ws)" for i
    using graph_rg[OF laws ws, of i] that by simp
  note sched = rg_schedule[where R = "\<lambda>i. agree V (graph_entries ws i)" and G = "graph_step V Z ws" and Inv = ?Inv
      and Q = ?Q and P = "\<lambda>_ _. True" and ts = "map (graph_task A Z) ws", OF _ _ _ start run]
  have "?Inv s'" by (rule sched(1)) (fact rely inv each)+
  then show "g \<in> set (graph_groups ws i) \<Longrightarrow> published V Z s' g" by blast
  show "?Q i r s'" if i: "i < length ws" "ts' ! i = Done r"
  proof -
    have i': "i < length (map (graph_task A Z) ws)" using i(1) by simp
    show ?thesis by (rule sched(2)) (fact rely inv each i' i(2))+
  qed
qed

lemma graphs_read:
  assumes "async_store_laws A V" and "bincode_laws Z" and "graphs_separate ws"
    and "\<forall>w \<in> set ws. \<forall>level \<in> set (fst w). V s (get_sub_group_counter_goal_next_jobs_id (group_of level)) = None"
    and "run_schedule is (s, map (\<lambda>w. async_write_multidimensional_jobs_core A Z (fst w) (snd w)) ws) = (s', ts')"
  shows "(\<forall>k < length ws. \<forall>i < length (fst (ws ! k)). \<forall>v \<in> set (fst (ws ! k) ! i). \<forall>ns.
        snd (run_task (async_get_next_jobs_by_job_id A Z v) s') = Inr ns \<longrightarrow>
          ns = (fst (ws ! k) @ [snd (ws ! k)]) ! Suc i
          \<and> snd (run_task (async_get_goal_by_job_id A v) s') = Inr (word_of_nat (length (fst (ws ! k) ! i)))
          \<and> snd (run_task (ap_get_bytes_by_id A (get_sub_group_counter_id v)) s') = Inr (to_le_bytes 4 (0 :: u32)))
    \<and> (\<forall>k < length ws. \<forall>r. ts' ! k = Done r \<longrightarrow>
        r = Inr () \<and> (\<forall>i < length (fst (ws ! k)). \<forall>v \<in> set (fst (ws ! k) ! i).
          snd (run_task (async_get_next_jobs_by_job_id A Z v) s') = Inr ((fst (ws ! k) @ [snd (ws ! k)]) ! Suc i)))"
proof -
  note pub = graphs_published[OF assms]
  have group: "\<exists>g \<in> set (graph_groups ws k). fst g = fst (ws ! k) ! i \<and> snd g = (fst (ws ! k) @ [snd (ws ! k)]) ! Suc i
      \<and> is_group (fst g)" if "k < length ws" "i < length (fst (ws ! k))" for k i
  proof (rule bexI)
    show "groups_of (fst (ws ! k)) (snd (ws ! k)) ! i \<in> set (graph_groups ws k)" using that by (simp add: graph_groups_def)
    have "is_group (fst (ws ! k) ! i)" 
      using assms(3) nth_mem[OF that(1)] nth_mem[OF that(2)] unfolding graphs_separate_def by blast
    then show "fst (groups_of (fst (ws ! k)) (snd (ws ! k)) ! i) = fst (ws ! k) ! i
        \<and> snd (groups_of (fst (ws ! k)) (snd (ws ! k)) ! i) = (fst (ws ! k) @ [snd (ws ! k)]) ! Suc i
        \<and> is_group (fst (groups_of (fst (ws ! k)) (snd (ws ! k)) ! i))"
      using nth_groups_of[OF that(2), of "snd (ws ! k)"] by simp
  qed
  have moment: "ns = (fst (ws ! k) @ [snd (ws ! k)]) ! Suc i
      \<and> snd (run_task (async_get_goal_by_job_id A v) s') = Inr (word_of_nat (length (fst (ws ! k) ! i)))
      \<and> snd (run_task (ap_get_bytes_by_id A (get_sub_group_counter_id v)) s') = Inr (to_le_bytes 4 (0 :: u32))"
    if in_graph: "k < length ws" "i < length (fst (ws ! k))" "v \<in> set (fst (ws ! k) ! i)"
      and read: "snd (run_task (async_get_next_jobs_by_job_id A Z v) s') = Inr ns" for k i v ns
  proof -
    obtain g where g: "g \<in> set (graph_groups ws k)" "fst g = fst (ws ! k) ! i"
      "snd g = (fst (ws ! k) @ [snd (ws ! k)]) ! Suc i" "is_group (fst g)" using group[OF in_graph(1,2)] by blast
    have v: "v \<in> set (fst g)" using in_graph(3) g(2) by simp
    have "group_ready V Z s' g"
      using pub(1)[OF g(1)] next_jobs_read_present[OF assms(1) g(4) v read] by (simp add: published_def)
    from group_ready_reads[OF assms(1) this g(4) v] show ?thesis using read g(2,3) by simp
  qed
  have final: "r = Inr () \<and> (\<forall>i < length (fst (ws ! k)). \<forall>v \<in> set (fst (ws ! k) ! i).
      snd (run_task (async_get_next_jobs_by_job_id A Z v) s') = Inr ((fst (ws ! k) @ [snd (ws ! k)]) ! Suc i))"
    if k: "k < length ws" "ts' ! k = Done r" for k r
  proof (intro conjI allI impI ballI)
    from pub(2)[OF k] show "r = Inr ()" by blast
    fix i v assume i: "i < length (fst (ws ! k))" "v \<in> set (fst (ws ! k) ! i)"
    obtain g where g: "g \<in> set (graph_groups ws k)" "fst g = fst (ws ! k) ! i"
      "snd g = (fst (ws ! k) @ [snd (ws ! k)]) ! Suc i" "is_group (fst g)" using group[OF k(1) i(1)] by blast
    have "group_ready V Z s' g" using pub(2)[OF k] g(1) by blast
    moreover have "v \<in> set (fst g)" using i(2) g(2) by simp
    ultimately show "snd (run_task (async_get_next_jobs_by_job_id A Z v) s') = Inr ((fst (ws ! k) @ [snd (ws ! k)]) ! Suc i)"
      using group_ready_reads(1)[OF assms(1) _ g(4)] g(3) by metis
  qed
  show ?thesis using moment final by blast
qed

section \<open>A concrete store\<close>

definition demo_set :: "(job_data_id \<Rightarrow> bytes option) imm_set_bytes" where
  "demo_set s v bs = (s(v \<mapsto> bs), Inr ())"

definition demo_async_store :: "(job_data_id \<Rightarrow> bytes option) async_proof_store" where
  "demo_async_store = atomic_proof_store (get_bytes_by_id map_store) demo_set"

lemma demo_async_laws: "async_store_laws demo_async_store (\<lambda>s. s)"
proof -
  have "rely_guarantee (\<lambda>s s'. s' v = s v) (\<lambda>s s'. (\<forall>u. u \<noteq> v \<longrightarrow> s' u = s u) \<and> s' v \<in> {s v, Some bs})
      (\<lambda>r s. r = Inr () \<and> s v = Some bs) (\<lambda>_. True) (call (\<lambda>s. demo_set s v bs))" for v bs
    unfolding call_def
    by (rule rg_Await[where P' = "\<lambda>_ s. s v = Some bs"]) (auto simp: demo_set_def stable_def intro: rg_Done)
  then show ?thesis by (auto simp: async_store_laws_def demo_async_store_def atomic_proof_store_def map_store_def)
qed

definition demo_graphs :: "job_graph list" where
  "demo_graphs = [([[core_op_witness AddL1Deposit 7 0, core_op_witness AddL1Deposit 7 1]], [notify_block_complete 7]),
     ([[core_op_witness AddL1Deposit 8 0]], [notify_block_complete 8])]"

lemma demo_graphs_separate: "graphs_separate demo_graphs"
  by (simp add: graphs_separate_def demo_graphs_def is_group_def group_of_def core_op_witness_def job_id_new_def
      get_sub_group_counter_id_def All_less_Suc)

lemma demo_graphs_fresh: "\<forall>w \<in> set demo_graphs. \<forall>level \<in> set (fst w).
    (\<lambda>_. None :: bytes option) (get_sub_group_counter_goal_next_jobs_id (group_of level)) = None"
  by simp

section \<open>Properties\<close>

text \<open>
  Claim C28. Let any number of tasks write job graphs at once, no two with a group in
  common, to a lawful asynchronous store that has none of them yet, and let the executor switch at any
  \<open>await\<close>. At every moment a worker that can read the next jobs of a job gets those its graph gives it,
  and the goal and the zero counter of its group are there too. When a writer is done it has
  succeeded, and every job of its graph reads its next jobs.
\<close>

theorem concurrent_graphs_published:
  assumes "async_store_laws A V" and "bincode_laws Z" and "graphs_separate ws"
    and "\<forall>w \<in> set ws. \<forall>level \<in> set (fst w). V s (get_sub_group_counter_goal_next_jobs_id (group_of level)) = None"
    and "run_schedule is (s, map (\<lambda>w. async_write_multidimensional_jobs_core A Z (fst w) (snd w)) ws) = (s', ts')"
  shows "(\<forall>k < length ws. \<forall>i < length (fst (ws ! k)). \<forall>v \<in> set (fst (ws ! k) ! i). \<forall>ns.
        snd (run_task (async_get_next_jobs_by_job_id A Z v) s') = Inr ns \<longrightarrow>
          ns = (fst (ws ! k) @ [snd (ws ! k)]) ! Suc i
          \<and> snd (run_task (async_get_goal_by_job_id A v) s') = Inr (word_of_nat (length (fst (ws ! k) ! i)))
          \<and> snd (run_task (ap_get_bytes_by_id A (get_sub_group_counter_id v)) s') = Inr (to_le_bytes 4 (0 :: u32)))
    \<and> (\<forall>k < length ws. \<forall>r. ts' ! k = Done r \<longrightarrow>
        r = Inr () \<and> (\<forall>i < length (fst (ws ! k)). \<forall>v \<in> set (fst (ws ! k) ! i).
          snd (run_task (async_get_next_jobs_by_job_id A Z v) s') = Inr ((fst (ws ! k) @ [snd (ws ! k)]) ! Suc i)))"
  by (rule graphs_read[OF assms])

lemma demo_graphs_run:
  "\<exists>s' t. run_schedule [0, 1, 0, 0] (\<lambda>_. None,
      map (\<lambda>w. async_write_multidimensional_jobs_core demo_async_store demo_bincode (fst w) (snd w)) demo_graphs)
    = (s', [Done (Inr ()), t])"
  by (simp add: demo_graphs_def async_write_next_jobs_core_def Let_def demo_async_store_def atomic_proof_store_def
      call_def task_step_def demo_set_def demo_bincode_def index_def)

theorem concurrent_graphs_published_witness:
  "\<exists>s' t. run_schedule [0, 1, 0, 0] (\<lambda>_. None,
      map (\<lambda>w. async_write_multidimensional_jobs_core demo_async_store demo_bincode (fst w) (snd w)) demo_graphs)
      = (s', [Done (Inr ()), t])
    \<and> snd (run_task (async_get_next_jobs_by_job_id demo_async_store demo_bincode (core_op_witness AddL1Deposit 7 1)) s')
      = Inr [notify_block_complete 7]
    \<and> snd (run_task (async_get_goal_by_job_id demo_async_store (core_op_witness AddL1Deposit 7 1)) s') = Inr 2"
proof -
  obtain s' t where run: "run_schedule [0, 1, 0, 0] (\<lambda>_. None,
      map (\<lambda>w. async_write_multidimensional_jobs_core demo_async_store demo_bincode (fst w) (snd w)) demo_graphs)
      = (s', [Done (Inr ()), t])" using demo_graphs_run by blast
  note pub = concurrent_graphs_published[where V = "\<lambda>s. s" and s = "\<lambda>_. None", OF demo_async_laws demo_bincode_laws demo_graphs_separate demo_graphs_fresh run]
  have next_: "snd (run_task (async_get_next_jobs_by_job_id demo_async_store demo_bincode (core_op_witness AddL1Deposit 7 1)) s')
      = Inr [notify_block_complete 7]"
    using pub[THEN conjunct2, rule_format, of 0 "Inr ()"] by (simp add: demo_graphs_def)
  moreover have "snd (run_task (async_get_goal_by_job_id demo_async_store (core_op_witness AddL1Deposit 7 1)) s') = Inr 2"
    using pub[THEN conjunct1, rule_format, of 0 0 "core_op_witness AddL1Deposit 7 1", OF _ _ _ next_] by (simp add: demo_graphs_def)
  ultimately show ?thesis using run by blast
qed

text \<open>
  Claim C29. If moreover the executor is fair, there is a moment from which every writer is
  done without error and every job of every graph reads its next jobs, its goal and a zero counter.
\<close>

theorem fair_executor_publishes_all_graphs:
  assumes "async_store_laws A V" and "bincode_laws Z" and "graphs_separate ws"
    and "\<forall>w \<in> set ws. \<forall>level \<in> set (fst w). V s (get_sub_group_counter_goal_next_jobs_id (group_of level)) = None"
    and "fair (length ws) f"
  shows "\<exists>m. \<forall>m' \<ge> m. \<exists>s' ts'.
      run_schedule (map f [0..<m']) (s, map (\<lambda>w. async_write_multidimensional_jobs_core A Z (fst w) (snd w)) ws) = (s', ts')
      \<and> ts' = map (\<lambda>_. Done (Inr ())) ws
      \<and> (\<forall>k < length ws. \<forall>i < length (fst (ws ! k)). \<forall>v \<in> set (fst (ws ! k) ! i).
          snd (run_task (async_get_next_jobs_by_job_id A Z v) s') = Inr ((fst (ws ! k) @ [snd (ws ! k)]) ! Suc i)
          \<and> snd (run_task (async_get_goal_by_job_id A v) s') = Inr (word_of_nat (length (fst (ws ! k) ! i)))
          \<and> snd (run_task (ap_get_bytes_by_id A (get_sub_group_counter_id v)) s') = Inr (to_le_bytes 4 (0 :: u32)))"
proof -
  let ?st = "(s, map (\<lambda>w. async_write_multidimensional_jobs_core A Z (fst w) (snd w)) ws)"
  obtain m where m: "\<forall>t \<in> set (snd (run_upto f m ?st)). is_done t"
    using fair_schedule_finishes[of "snd ?st" f s] assms(5) by auto
  show ?thesis
  proof (intro exI[of _ m] allI impI)
    fix m' assume le: "m \<le> m'"
    obtain s' ts' where run: "run_upto f m' ?st = (s', ts')" by fastforce
    have len: "length ts' = length ws" using run_schedule_length[of "map f [0..<m']" ?st] run by simp
    have fin: "ts' ! k = Done (Inr ())" if k: "k < length ws" for k
    proof -
      have "is_done (snd (run_upto f m ?st) ! k)" using m k by simp
      from done_upto[OF this le] obtain r where r: "ts' ! k = Done r" unfolding run is_done_iff by auto
      then show ?thesis using graphs_read[OF assms(1-4) run] k by blast
    qed
    have "ts' = map (\<lambda>_. Done (Inr ())) ws" by (rule nth_equalityI) (simp_all add: len fin)
    moreover have "snd (run_task (async_get_next_jobs_by_job_id A Z v) s') = Inr ((fst (ws ! k) @ [snd (ws ! k)]) ! Suc i)
        \<and> snd (run_task (async_get_goal_by_job_id A v) s') = Inr (word_of_nat (length (fst (ws ! k) ! i)))
        \<and> snd (run_task (ap_get_bytes_by_id A (get_sub_group_counter_id v)) s') = Inr (to_le_bytes 4 (0 :: u32))"
      if "k < length ws" "i < length (fst (ws ! k))" "v \<in> set (fst (ws ! k) ! i)" for k i v
      using graphs_read[OF assms(1-4) run] that fin[OF that(1)] by blast
    ultimately show "\<exists>s' ts'. run_upto f m' ?st = (s', ts') \<and> ts' = map (\<lambda>_. Done (Inr ())) ws
      \<and> (\<forall>k < length ws. \<forall>i < length (fst (ws ! k)). \<forall>v \<in> set (fst (ws ! k) ! i).
          snd (run_task (async_get_next_jobs_by_job_id A Z v) s') = Inr ((fst (ws ! k) @ [snd (ws ! k)]) ! Suc i)
          \<and> snd (run_task (async_get_goal_by_job_id A v) s') = Inr (word_of_nat (length (fst (ws ! k) ! i)))
          \<and> snd (run_task (ap_get_bytes_by_id A (get_sub_group_counter_id v)) s') = Inr (to_le_bytes 4 (0 :: u32)))"
      using run by blast
  qed
qed

lemma round_robin_fair: "0 < n \<Longrightarrow> fair n (\<lambda>m. m mod n)"
proof (unfold fair_def, intro allI impI)
  fix i m assume "i < n" "0 < n"
  then show "\<exists>m' \<ge> m. m' mod n = i" by (intro exI[of _ "m * n + i"]) (simp add: trans_le_add1)
qed

theorem fair_executor_publishes_all_graphs_witness:
  "\<exists>m s'. run_schedule (map (\<lambda>m. m mod 2) [0..<m]) (\<lambda>_. None,
      map (\<lambda>w. async_write_multidimensional_jobs_core demo_async_store demo_bincode (fst w) (snd w)) demo_graphs)
      = (s', [Done (Inr ()), Done (Inr ())])
    \<and> snd (run_task (async_get_next_jobs_by_job_id demo_async_store demo_bincode (core_op_witness AddL1Deposit 8 0)) s')
      = Inr [notify_block_complete 8]"
proof -
  have "length demo_graphs = 2" by (simp add: demo_graphs_def)
  then have fair: "fair (length demo_graphs) (\<lambda>m. m mod 2)" by (simp only: round_robin_fair)
  from fair_executor_publishes_all_graphs[where V = "\<lambda>s. s" and s = "\<lambda>_. None",
      OF demo_async_laws demo_bincode_laws demo_graphs_separate demo_graphs_fresh fair]
  obtain m s' ts' where run: "run_schedule (map (\<lambda>m. m mod 2) [0..<m]) (\<lambda>_. None,
      map (\<lambda>w. async_write_multidimensional_jobs_core demo_async_store demo_bincode (fst w) (snd w)) demo_graphs) = (s', ts')"
    and "ts' = map (\<lambda>_. Done (Inr ())) demo_graphs"
    and read: "\<forall>k < length demo_graphs. \<forall>i < length (fst (demo_graphs ! k)). \<forall>v \<in> set (fst (demo_graphs ! k) ! i).
      snd (run_task (async_get_next_jobs_by_job_id demo_async_store demo_bincode v) s')
        = Inr ((fst (demo_graphs ! k) @ [snd (demo_graphs ! k)]) ! Suc i)"
    by blast
  then have "ts' = [Done (Inr ()), Done (Inr ())]" by (simp add: demo_graphs_def)
  moreover have "snd (run_task (async_get_next_jobs_by_job_id demo_async_store demo_bincode (core_op_witness AddL1Deposit 8 0)) s')
      = Inr [notify_block_complete 8]"
    using read[rule_format, of 1 0 "core_op_witness AddL1Deposit 8 0"] by (simp add: demo_graphs_def)
  ultimately show ?thesis using run by blast
qed

end
