(* ===== verification/Bridge_Types.thy ===== *)
theory Bridge_Types
  imports Crates Kvq_Codec Tree_Planner
begin

text \<open>
  The small data types of \<open>qed_dsol_bridge_core/src/data\<close>: byte vectors and arrays written in
  hexadecimal (\<open>u8bytes.rs\<close>, \<open>hex_helpers.rs\<close>), compressed public keys (\<open>secp256k1.rs\<close>) and the stored
  block state (\<open>state.rs\<close>); and the dot file of a tree plan (\<open>utils/tree_planner.rs\<close>). A deserializer is
  what it hands over; \<open>borsh\<close> is a pair of functions.
\<close>

section \<open>Hexadecimal\<close>

definition u8bytes_from_hex_string :: "crates \<Rightarrow> string \<Rightarrow> bytes res" where
  "u8bytes_from_hex_string X s = ok_or (hex_decode X s) (Err ''malformed hexadecimal'')"

definition u8bytes_to_str :: "crates \<Rightarrow> bytes \<Rightarrow> string" where
  "u8bytes_to_str X bs = hex_encode X bs"

definition hex_array_serialize :: "crates \<Rightarrow> bytes \<Rightarrow> string" where
  "hex_array_serialize X bs = hex_encode X bs"

definition hex_array_deserialize :: "crates \<Rightarrow> nat \<Rightarrow> string \<Rightarrow> bytes res" where
  "hex_array_deserialize X n s =
     and_then (ok_or (hex_decode X s) (Err ''malformed hexadecimal'')) (\<lambda>bs.
     if length bs \<noteq> n then Inl (Err ''unexpected number of bytes'') else Inr bs)"

definition hex_array_32_deserialize :: "crates \<Rightarrow> string \<Rightarrow> bytes res" where
  "hex_array_32_deserialize X s = hex_array_deserialize X 32 s"

definition hex_array_80_deserialize :: "crates \<Rightarrow> string \<Rightarrow> bytes res" where
  "hex_array_80_deserialize X s = hex_array_deserialize X 80 s"

lemma u8bytes_roundtrip: "hex_laws X \<Longrightarrow> u8bytes_from_hex_string X (u8bytes_to_str X bs) = Inr bs"
  by (simp add: u8bytes_from_hex_string_def u8bytes_to_str_def hex_decode_encode ok_or_def)

lemma hex_array_roundtrip:
  "hex_laws X \<Longrightarrow> hex_array_deserialize X n (hex_array_serialize X bs)
     = (if length bs = n then Inr bs else Inl (Err ''unexpected number of bytes''))"
  by (simp add: hex_array_deserialize_def hex_array_serialize_def hex_decode_encode ok_or_def)

text \<open>Lower-case text has one reading: what decodes is what was written.\<close>

lemma hex_array_canonical:
  assumes "hex_laws X" and "is_lower_hex s" and "hex_array_deserialize X n s = Inr bs"
  shows "s = hex_array_serialize X bs \<and> length bs = n"
  using assms(3) hex_decode_lower_inj[OF assms(1,2) lower_hex_encode[OF assms(1)], of bs bs] hex_decode_encode[OF assms(1)]
  by (auto simp: hex_array_deserialize_def hex_array_serialize_def ok_or_def split: option.splits if_splits)

section \<open>Compressed public keys\<close>

text \<open>
  What a deserializer gives the visitor: a byte string, or a sequence whose elements may fail to
  parse. The sequence is read up to the 33rd element.
\<close>

datatype visited = VisitBytes bytes | VisitSeq "u8 res list"

fun visit_seq_loop :: "nat \<Rightarrow> u8 res list \<Rightarrow> bytes res" where
  "visit_seq_loop 0 seq = Inr []"
| "visit_seq_loop (Suc n) [] = Inl (Err ''invalid length, expected an array of 33 bytes'')"
| "visit_seq_loop (Suc n) (e # seq) = and_then e (\<lambda>b. and_then (visit_seq_loop n seq) (\<lambda>bs. Inr (b # bs)))"

definition public_key_visit_seq :: "u8 res list \<Rightarrow> bytes res" where
  "public_key_visit_seq seq = visit_seq_loop 33 seq"

definition public_key_visit_bytes :: "bytes \<Rightarrow> bytes res" where
  "public_key_visit_bytes v =
     (if length v = 33 then Inr v else Inl (Err ''invalid length, expected an array of 33 bytes''))"

definition public_key_deserialize :: "visited \<Rightarrow> bytes res" where
  "public_key_deserialize d =
     (case d of VisitBytes v \<Rightarrow> public_key_visit_bytes v | VisitSeq seq \<Rightarrow> public_key_visit_seq seq)"

definition public_key_serialize :: "bytes \<Rightarrow> visited" where
  "public_key_serialize k = VisitBytes k"

definition public_key_new_from_slice :: "bytes \<Rightarrow> bytes res" where
  "public_key_new_from_slice bs =
     (if length bs = 33 then Inr bs else Inl (Panic ''copy_from_slice: source slice length does not match''))"

lemma visit_seq_loop_ok:
  "visit_seq_loop n seq = Inr bs \<longleftrightarrow> length bs = n \<and> n \<le> length seq \<and> take n seq = map Inr bs"
proof (induction n seq arbitrary: bs rule: visit_seq_loop.induct)
  case (3 n e seq)
  then show ?case by (cases e; cases bs; cases "visit_seq_loop n seq") auto
qed auto

lemma public_key_serde:
  "length k = 33 \<Longrightarrow> public_key_deserialize (public_key_serialize k) = Inr k"
  "public_key_deserialize d = Inr k \<Longrightarrow> length k = 33"
  by (auto simp: public_key_deserialize_def public_key_serialize_def public_key_visit_bytes_def
      public_key_visit_seq_def visit_seq_loop_ok split: visited.splits if_splits)

text \<open>A byte string and the sequence of its bytes are read alike; a longer sequence loses its rest.\<close>

lemma public_key_seq: "length k = 33 \<Longrightarrow> public_key_deserialize (VisitSeq (map Inr k @ rest)) = Inr k"
  by (simp add: public_key_deserialize_def public_key_visit_seq_def visit_seq_loop_ok)

section \<open>The stored block state\<close>

record 'c borsh =
  borsh_to_vec :: "'c \<Rightarrow> bytes res"
  borsh_try_from_slice :: "bytes \<Rightarrow> 'c res"

record 'c ibc_block_state =
  ibc_chain_state :: 'c

definition ibc_block_state_codec :: "'c borsh \<Rightarrow> 'c ibc_block_state codec" where
  "ibc_block_state_codec B =
     \<lparr>to_bytes = (\<lambda>st. borsh_to_vec B (ibc_chain_state st)),
      from_bytes = (\<lambda>bs. case borsh_try_from_slice B bs of
         Inr x \<Rightarrow> Inr \<lparr>ibc_chain_state = x\<rparr>
       | Inl e \<Rightarrow> Inl e)\<rparr>"

text \<open>It meets the contract of a stored type whenever \<open>borsh\<close> reads back what it writes.\<close>

locale borsh_type =
  fixes B :: "'c borsh"
  assumes writes: "is_ok (borsh_to_vec B x)"
    and reads_back: "borsh_to_vec B x = Inr bs \<Longrightarrow> borsh_try_from_slice B bs = Inr x"

sublocale borsh_type \<subseteq> block_state: kvq_serializable "ibc_block_state_codec B" "\<lambda>_. True"
  by unfold_locales (simp_all add: ibc_block_state_codec_def writes reads_back)

text \<open>For instance with a chain state of one number.\<close>

interpretation height_only: borsh_type "\<lparr>borsh_to_vec = to_bytes (int_codec 4 :: u32 codec), borsh_try_from_slice = from_bytes (int_codec 4)\<rparr>"
  by unfold_locales (simp_all add: int_codec_def codec_simps)

section \<open>The dot file of a plan\<close>

abbreviation quote :: string where
  "quote \<equiv> [CHR 0x22]"

abbreviation newline :: string where
  "newline \<equiv> [CHR 0x0A]"

definition graphviz_node :: "tree_position \<Rightarrow> string" where
  "graphviz_node p = quote @ nat_str (unat (tp_level p)) @ '':'' @ nat_str (unat (tp_index p)) @ quote"

definition graphviz_edge :: "tree_position \<Rightarrow> tree_position \<Rightarrow> string" where
  "graphviz_edge p q = graphviz_node p @ '' -> '' @ graphviz_node q @ '';'' @ newline"

definition get_graphviz :: "tree_job list list \<Rightarrow> string" where
  "get_graphviz levels =
     ''digraph G {'' @ newline
     @ concat (map (\<lambda>level. concat (map (\<lambda>job.
         graphviz_edge (tj_position job) (tj_left job) @ graphviz_edge (tj_position job) (tj_right job)) level)) levels)
     @ ''}'' @ newline"

text \<open>One line for each child of a job, between the two lines of the frame.\<close>

lemma nat_str_no_newline: "CHR 0x0A \<notin> set (nat_str n)"
  using nat_str_digit[of "CHR 0x0A" n] by auto

lemma graphviz_lines: "length (filter ((=) (CHR 0x0A)) (get_graphviz levels)) = 2 + 2 * length (concat levels)"
proof -
  have n: "filter ((=) (CHR 0x0A)) (nat_str n) = []" for n
    using nat_str_no_newline by (auto simp: filter_empty_conv)
  have edge: "filter ((=) (CHR 0x0A)) (graphviz_edge p q) = newline" for p q
    by (simp add: graphviz_edge_def graphviz_node_def n)
  have level: "length (filter ((=) (CHR 0x0A)) (concat (map (\<lambda>job.
      graphviz_edge (tj_position job) (tj_left job) @ graphviz_edge (tj_position job) (tj_right job)) level))) = 2 * length level" for level
    by (induction level) (simp_all add: edge)
  have "length (filter ((=) (CHR 0x0A)) (concat (map (\<lambda>level. concat (map (\<lambda>job.
      graphviz_edge (tj_position job) (tj_left job) @ graphviz_edge (tj_position job) (tj_right job)) level)) levels)))
      = 2 * length (concat levels)"
    by (induction levels) (simp_all add: level)
  then show ?thesis by (simp add: get_graphviz_def)
qed

end
