(* ===== verification/Spec2Isabelle.thy ===== *)
theory Spec2Isabelle
  imports Prelude BTreeMap Bytes Crates Kvq_Codec Kvq_Store Kvq_Cache Kvq_Adapter Retry Proof_Queue
    Merkle Checkpoint Config Deposits Prepare Effects Recovery Crash_Safety Pipeline
    Prover_Daemon Job_Id Proof_Store Tree_Planner Binary_Formats Kvq_Shared Evidence
    Proof_Backend Startup Electrs Job_Order Async Kvq_Async Proof_Store_Async
    Bridge_Types
begin

text \<open>
  The Solana/Dogecoin bridge node, verified.

  \<^bold>\<open>The program.\<close> The node follows the Dogecoin chain and proves each block to a bridge program on
  Solana. For every height it fetches the block, scans it for deposits to the custody scripts of the
  configured recipients, computes the next state and header, has a zero-knowledge proof made, and
  submits the proof together with the mints of the block that this one finalizes. Its state is a
  checkpoint in Redis, with a journal next to it while a commit is under way.

  \<^bold>\<open>Theories and code.\<close>

  \<^item> \<open>Prelude\<close>: results (\<open>'a res\<close>), \<open>?\<close> as \<open>and_then\<close>, loops with \<open>?\<close> as \<open>try_map\<close> and
    \<open>try_fold\<close>, strings and byte lists. \<open>BTreeMap\<close>: the standard ordered map, and the contract
    \<open>finite_map\<close>. \<open>Bytes\<close>: integer/byte conversions. \<open>Crates\<close>: the hash functions and the
    \<open>hex\<close> crate as parameters, with the laws the code relies on.
  \<^item> \<open>Kvq_Codec\<close> (\<open>kvq/src/base_types.rs\<close>, \<open>lib.rs\<close>, the hash types of
    \<open>qed_dsol_bridge_core/src/data\<close>): byte codecs and their round trips. \<open>Kvq_Store\<close>
    (\<open>kvq/src/traits.rs\<close>, \<open>memory/simple.rs\<close>): the store traits as a record of operations, the
    contracts \<open>kvq_store\<close> and \<open>kvq_range_store\<close>, and the in-memory store that meets them.
    \<open>Kvq_Cache\<close> (\<open>cache/mod.rs\<close>): the write-back cache refines the overlay of its entries on any
    lawful store. \<open>Kvq_Adapter\<close> (\<open>adapters/standard.rs\<close>): typed tables over a lawful store.
    \<open>Kvq_Shared\<close> (\<open>memory/immutable.rs\<close>, \<open>arc_imm.rs\<close>): the lock wrappers, as a store and as a
    step relation of the guards that callers take and release.
  \<^item> \<open>Retry\<close> (\<open>network_retry.rs\<close>, \<open>sol_submitter.rs\<close>, \<open>doge_link_rpc_async.rs\<close>): the retry loop,
    the classification of errors, the sender and the Electrs client's requests. \<open>Electrs\<close>
    (\<open>doge_link_rpc_async.rs\<close>): blocks and headers by height over these requests, and their conversion;
    it fills the \<open>node\<close> that the preparation reads.
  \<^item> \<open>Proof_Queue\<close> (\<open>proof_queue.rs\<close>, the prover's response in \<open>block_pipeline.rs\<close>): job identity,
    the lease state machine of workers, the submit script, the wait loop, prover outputs.
  \<^item> \<open>Merkle\<close>, \<open>Checkpoint\<close>, \<open>Config\<close>, \<open>Deposits\<close>, \<open>Prepare\<close>, \<open>Recovery\<close>
    (\<open>block_pipeline.rs\<close>): trees and frontiers; checkpoints, headers and buffers; the validation of
    the configuration; the deposit scan and the evaluation of a witness; the preparation of a block,
    the first checkpoint and the recovery from a proof archive; the commit and the recovery of an
    interrupted commit.
  \<^item> \<open>Effects\<close>: programs over a world and a list of fates, a Hoare logic for what holds however they
    are interrupted, and one for runs in which nothing fails. \<open>Crash_Safety\<close>: lives of the process
    that recover and commit one block. \<open>Pipeline\<close> (\<open>poll_once\<close>, \<open>run\<close>): planning ahead, the ordered
    commit of a poll, and whole lives of the node.
  \<^item> \<open>Prover_Daemon\<close> (\<open>ProverDaemon\<close> in \<open>block_pipeline.rs\<close>, the worker of \<open>proof_queue.rs\<close>): the
    child process as a list of events, its identity check, requests, stray output and restarts.
    \<open>Evidence\<close> (\<open>persist_evidence\<close> and what it calls): the audit files of a block on a file system
    whose writes can be cut short, and the archive they make for recovery.
  \<^item> \<open>Proof_Backend\<close> (\<open>ProofBackend\<close> in \<open>proof_queue.rs\<close>): the worker task and the queue behind one
    interface of tickets, joined to the driver. \<open>Startup\<close> (\<open>bin/doge_block_pipeline.rs\<close>,
    \<open>BlockPipeline::initialize\<close>): the configuration from the command line, the start of a process, the
    names of its data in Redis.
  \<^item> \<open>Async\<close>: asynchronous methods as tasks that wait at each \<open>await\<close>, an executor that takes many
    tasks in any order, and two ways to reason about them: tasks confined to different entries of
    the state they share behave as if alone, and a rely-guarantee logic. \<open>Kvq_Async\<close>
    (\<open>kvq/src/traits.rs\<close>, \<open>adapters/standard.rs\<close>): the asynchronous typed tables, with the contract
    \<open>kvq_async\<close> of an asynchronous store. \<open>Proof_Store_Async\<close> (\<open>job/traits.rs\<close>): the asynchronous and
    the immutable writers of job graphs.
  \<^item> \<open>Job_Id\<close> and \<open>Job_Order\<close> (\<open>job/id.rs\<close>, \<open>job/mode.rs\<close>), \<open>Proof_Store\<close> (\<open>job/traits.rs\<close>), \<open>Tree_Planner\<close>
    (\<open>utils/tree_planner.rs\<close>), \<open>Binary_Formats\<close> (\<open>utils/binary_helpers.rs\<close>, \<open>data/varuint.rs\<close>), \<open>Bridge_Types\<close> (\<open>data/secp256k1.rs\<close>, \<open>u8bytes.rs\<close>, \<open>hex_helpers.rs\<close>,
    \<open>state.rs\<close>) of \<open>qed_dsol_bridge_core\<close>: job ids with their bytes and their derived order, the goals and next jobs of a job graph, the plan
    of an aggregation tree, variable-length integers and binary readers, keys and hexadecimal. The crate's \<open>mod.rs\<close>
    files leave \<open>job/traits.rs\<close>, its older copy \<open>job/proof_store.rs\<close> and \<open>utils/tree_planner.rs\<close> out of the
    build; they are modelled as they stand.

  \<^bold>\<open>State and errors.\<close> A struct is a record, an enum a datatype, \<open>u8\<close>, \<open>u32\<close> and \<open>u64\<close> words
  of their width, \<open>usize\<close> a natural number. Code runs as in a release build, so unchecked additions
  wrap; \<open>validate_config\<close> rejects a debug build. An \<open>Err\<close> is a returned error, a \<open>Panic\<close> a panic.
  Mutable stores and Redis are passed explicitly; effects of the commit are functions on a world and
  a list of fates, one per effect.

  \<^bold>\<open>Third-party code\<close> is a record of functions that the definitions take as argument: \<open>crates\<close>
  (hashes, hex), \<open>serde\<close> (JSON of jobs and results), \<open>bridge\<close> (the chain state type and its
  constants), \<open>helpers\<close> (scripts, fees, the transition builder), \<open>chain\<close> (append a block, the guest
  program), \<open>host\<close> (files, keys), \<open>node\<close> (Electrs, artefact files). Theorems that need more than
  their types name laws (\<open>hex_laws\<close>, \<open>hash_laws\<close>, \<open>bridge_laws\<close>, \<open>zero_law\<close>, \<open>serde_laws\<close>), and the
  witnesses instantiate them with the concrete \<open>demo\<close> records.

  \<^bold>\<open>What the lemmas show.\<close> Stores: the cache and the table adapter keep the contract of the store
  below them. Retry: the loop stops, respects its deadline, and resends an accepted
  submission only when its reply cannot be read; over a server that serves a chain the client is the chain. Jobs: ids are content-addressed, leases exclude each other, submission is idempotent,
  results cannot be mixed up. Merkle: proofs verify and the incremental computation equals the
  full one. Deposits: the scan and the evaluation find exactly the payments of the block. Planning:
  along any run each block's deposits are settled once, after the required confirmations. Commit:
  whatever is interrupted, and however often, the mints paid are those of the confirmed deposits in
  order and once, and an undisturbed poll commits the next block. Prover: a worker answers every
  request once and in order, and never with the proof of another. Evidence: \<open>latest.json\<close> is always
  a complete manifest, and the archive it names restores the prepared checkpoint. Backend: a ticket is
  redeemed for its own job, and every update on the chain carries a proof validated for its own
  transition. Start: a process is a node life with a valid configuration that fits the chain, so what
  holds of all lives holds of the program, which the theorem at the end of this file puts together; nodes that share a Redis do not share keys. Job graphs: ids
  round trip, the plan uses each leaf and job once, every job reads its goal and next jobs, also
  while other graphs are being written: next jobs are never visible before the goal and the counter,
  and a fair executor brings every writer to its end. Tables: alone the asynchronous methods are
  the synchronous ones, and tasks that use a table at once with different keys do not notice each
  other. Where the
  code falls short of that, a theorem exhibits it: the cache's ordered lookup, the race of the wait
  loop, a second submission after an unreadable 202, zero confirmations, the history limit, a late update after the journal is gone, a payment
  reported incomplete, evidence rewritten in place.

  \<^bold>\<open>Loops and fuel.\<close> The retry and wait loops may run for ever; they are partial functions whose
  value is \<open>None\<close> then, and termination is proved where the policy is bounded. All other
  loops are structural.

  \<^bold>\<open>Not modelled.\<close> The argument parser, the constructors of the clients and log output; the random generators and \<open>serde\<close>
  implementations of the hash types; declarations of traits without a body in the repository
  (workers, drain and history queues, scrypt proof and block state stores); \<open>job/proof_store.rs\<close>, whose
  bodies are those of \<open>job/traits.rs\<close>; the timers, which only write to the log. The asynchronous traits
  have no implementation in the repository: their stores are parameters with a contract, met by a
  memory store whose calls are single steps.
\<close>

section \<open>The whole program\<close>

text \<open>
  Claim C1. Processes are started from the command line any number of times with the same
  configuration, each fails to start, ends or is killed anywhere, and their polls are answered by proof
  backends in any state. Starting from a checkpoint that matches the chain, with nothing pending and at
  least one required confirmation, the mints paid are at every moment those of the deposits of the
  confirmed blocks, in block order and each once, up to a first part of the block under way; and
  every block update the chain has accepted since carries a proof validated for the proof job of its
  own prepared transition.
\<close>

theorem program_pays_proven_deposits_once:
  assumes "bridge_program P" and "third_party_laws D" and "names_height (d_crates D) cp0"
    and "assert_checkpoint_matches_chain (d_crates D) cp0 (on_chain_header P (fst (w_chain w))) = Inr ()"
    and "w_checkpoint w = Some cp0" and "cp_pending cp0 = []" and "0 < cfg_required_confirmations config"
    and "conf = unat (cfg_required_confirmations config)" and "w' = processes D E (logged P) JP runs w"
    and "\<forall>p \<in> set runs. \<forall>c. build_config (d_crates D) (pr_files p) (pr_args p) = Inr c \<longrightarrow> c = config"
    and "\<forall>p \<in> set runs. \<forall>(N, B) \<in> set (pr_polls p). answers_from_backend (d_crates D) (d_serde D) JP config B"
  shows "(\<exists>ps cp. planned D config cp0 ps cp \<and> w_checkpoint w' = Some cp
      \<and> (assert_checkpoint_matches_chain (d_crates D) cp (on_chain_header P (fst (w_chain w'))) = Inr ()
           \<and> paid_mints P (fst (w_chain w')) = paid_mints P (fst (w_chain w)) @ deposits conf ps
        \<or> (\<exists>p k. planned D config cp0 (ps @ [p]) (pt_next_checkpoint p) \<and> w_journal w' \<noteq> None
           \<and> on_chain_header P (fst (w_chain w')) = pt_new_header p
           \<and> deposits conf (ps @ [p]) = deposits conf ps @ mints_of p
           \<and> paid_mints P (fst (w_chain w')) = paid_mints P (fst (w_chain w)) @ deposits conf ps @ take k (mints_of p))))
    \<and> (\<forall>s \<in> set (snd (w_chain w')). s \<in> set (snd (w_chain w)) \<or> proven D config s)"
proof -
  obtain lives where w': "w' = node_lives D (logged P) config lives w"
    and lives: "\<forall>(N, polls, fates) \<in> set lives. \<exists>p \<in> set runs. N = pr_node p \<and> (polls = pr_polls p \<or> polls = [])"
    using processes_are_node_lives[OF assms(10), of E "logged P" JP w] assms(9) by blast
  have X: "hex_laws (d_crates D)" using assms(2) by (simp add: third_party_laws_def)
  have start: "node_safe D (logged P) config cp0 (paid_mints P (fst (w_chain w))) w"
    using node_safe_start[OF assms(3,5), of "logged P" config] assms(4) by (simp add: logged_simps)
  have "node_safe D (logged P) config cp0 (paid_mints P (fst (w_chain w))) w'"
    unfolding w' by (rule bridge_program.node_lives_safe[OF logged_program[OF assms(1)] assms(2) start])
  note paid = node_safe_pays[OF X assms(6-8) this]
  have "\<forall>(N, polls, fates) \<in> set lives. \<forall>(N, B) \<in> set polls. answers_from_backend (d_crates D) (d_serde D) JP config B"
    using lives assms(11) by fastforce
  from lives_log[OF this, of "set (snd (w_chain w))" w P]
  have "\<forall>s \<in> set (snd (w_chain w')). s \<in> set (snd (w_chain w)) \<or> proven D config s"
    unfolding w' log_ok_def by blast
  with paid show ?thesis by (simp add: logged_simps)
qed

theorem program_pays_proven_deposits_once_witness:
  "\<exists>config process w' ps cp. build_config demo_crates no_files demo_args = Inr config
     \<and> process = \<lparr>pr_accounts = start_accounts, pr_node = demo_node, pr_env = start_env, pr_files = no_files, pr_args = demo_args,
          pr_polls = [(demo_node, poll_backend demo_crates demo_serde demo_identity_json config
            (proof_backend_redis ''q'', redis_empty) [] (\<lambda>_. Inr redis_empty))], pr_fates = replicate 40 Applied\<rparr>
     \<and> w' = processes demo_D start_host (logged ledger_program) demo_identity_json
          [process, process\<lparr>pr_fates := replicate 4 Applied @ [Late]\<rparr>] logged_world
     \<and> planned demo_D config demo_start ps cp \<and> w_checkpoint w' = Some cp
     \<and> (lg_paid (fst (w_chain w')) = deposits 1 ps \<or> (\<exists>q k. deposits 1 (ps @ [q]) = deposits 1 ps @ mints_of q
          \<and> lg_paid (fst (w_chain w')) = deposits 1 ps @ take k (mints_of q)))
     \<and> list_all (proven demo_D config) (snd (w_chain w'))"
proof -
  obtain config where c: "build_config demo_crates no_files demo_args = Inr config" "cfg_required_confirmations config = 1"
    by (rule demo_args_config)
  let ?p = "\<lparr>pr_accounts = start_accounts :: (ledger \<times> submission list) accounts, pr_node = demo_node, pr_env = start_env,
      pr_files = no_files, pr_args = demo_args, pr_polls = [(demo_node, poll_backend demo_crates demo_serde demo_identity_json config
        (proof_backend_redis ''q'', redis_empty) [] (\<lambda>_. Inr redis_empty))], pr_fates = replicate 40 Applied\<rparr>"
  let ?runs = "[?p, ?p\<lparr>pr_fates := replicate 4 Applied @ [Late]\<rparr>]"
  define w' where "w' = processes demo_D start_host (logged ledger_program) demo_identity_json ?runs logged_world"
  have start: "cp_pending demo_start = []" "0 < cfg_required_confirmations config" "1 = unat (cfg_required_confirmations config)"
    "w_checkpoint logged_world = Some demo_start"
    "assert_checkpoint_matches_chain (d_crates demo_D) demo_start (on_chain_header ledger_program (fst (w_chain logged_world))) = Inr ()"
    using demo_start_matches by (simp_all add: demo_checkpoint_at_def c logged_world_def)
  have same: "\<forall>p \<in> set ?runs. \<forall>c. build_config (d_crates demo_D) (pr_files p) (pr_args p) = Inr c \<longrightarrow> c = config"
    by (simp add: c)
  have answers: "\<forall>p \<in> set ?runs. \<forall>(N, B) \<in> set (pr_polls p).
      answers_from_backend (d_crates demo_D) (d_serde demo_D) demo_identity_json config B"
    by (simp add: poll_backend_answers)
  have paid: "lg_paid (fst (w_chain logged_world)) = []" "snd (w_chain logged_world) = []"
    "paid_mints ledger_program = lg_paid" by (simp_all add: logged_world_def ledger_world_def ledger_program_def)
  note result = program_pays_proven_deposits_once[OF ledger.bridge_program_axioms demo_third_party demo_start_names
      start(5,4,1,2,3) w'_def same answers, unfolded paid append_Nil]
  then have "\<exists>ps cp. planned demo_D config demo_start ps cp \<and> w_checkpoint w' = Some cp
    \<and> (lg_paid (fst (w_chain w')) = deposits 1 ps \<or> (\<exists>q k. deposits 1 (ps @ [q]) = deposits 1 ps @ mints_of q
          \<and> lg_paid (fst (w_chain w')) = deposits 1 ps @ take k (mints_of q)))" by blast
  moreover have "list_all (proven demo_D config) (snd (w_chain w'))" using result by (simp add: list_all_iff)
  ultimately show ?thesis using c(1) w'_def by blast
qed

end
